(* ===== verification/Prelude.thy ===== *)
theory Prelude
  imports Main "HOL-Library.Word"
begin

text \<open>
  Shared vocabulary of the development: the C integer types as words, the byte order
  conversions of uIP, little-endian access to byte buffers (the AVR is little-endian, and the
  firmware overlays packed structs on raw buffers), and the generic list and word lemmas that
  the component theories use.
\<close>

unbundle bit_operations_syntax

type_synonym u8 = "8 word"
type_synonym u16 = "16 word"
type_synonym u32 = "32 word"
type_synonym i16 = "16 word"
type_synonym buf = "8 word list"

named_theorems buf_simps \<open>reading back what was written into a byte buffer\<close>
named_theorems frame_simps \<open>fields of the state that an operation leaves alone\<close>
named_theorems offset_simps \<open>layout constants: sizes and offsets of packed structs\<close>

section \<open>Byte order\<close>

definition uip_htons :: "u16 \<Rightarrow> u16" where
  "uip_htons n = push_bit 8 n OR drop_bit 8 n"

definition uip_htonl :: "u32 \<Rightarrow> u32" where
  "uip_htonl n = push_bit 16 (ucast (uip_htons (ucast n))) OR ucast (uip_htons (ucast (drop_bit 16 n)))"

abbreviation (input) uip_ntohs :: "u16 \<Rightarrow> u16" where "uip_ntohs \<equiv> uip_htons"
abbreviation (input) uip_ntohl :: "u32 \<Rightarrow> u32" where "uip_ntohl \<equiv> uip_htonl"

lemma bit_uip_htons:
  "bit (uip_htons n) i = (if i < 8 then bit n (i + 8) else i < 16 \<and> bit n (i - 8))"
  by (auto simp: uip_htons_def bit_simps ac_simps dest: bit_imp_le_length)

lemma uip_htons_involution [simp]: "uip_htons (uip_htons n) = n"
  by (rule bit_word_eqI) (auto simp: bit_uip_htons)

lemma bit_uip_htonl:
  "bit (uip_htonl n) i =
     (if i < 8 then bit n (i + 24) else if i < 16 then bit n (i + 8)
      else if i < 24 then bit n (i - 8) else i < 32 \<and> bit n (i - 24))"
  by (auto simp: uip_htonl_def bit_simps bit_uip_htons algebra_simps dest: bit_imp_le_length)

lemma uip_htonl_involution [simp]: "uip_htonl (uip_htonl n) = n"
  by (rule bit_word_eqI) (auto simp: bit_uip_htonl)

section \<open>Little-endian fields of byte buffers\<close>

definition byte_of :: "nat \<Rightarrow> 'a::len word \<Rightarrow> u8" where
  "byte_of k w = ucast (drop_bit (8 * k) w)"

definition le16 :: "u8 \<Rightarrow> u8 \<Rightarrow> u16" where
  "le16 b0 b1 = ucast b0 OR push_bit 8 (ucast b1)"

definition le32 :: "u8 \<Rightarrow> u8 \<Rightarrow> u8 \<Rightarrow> u8 \<Rightarrow> u32" where
  "le32 b0 b1 b2 b3 =
     ucast b0 OR push_bit 8 (ucast b1) OR push_bit 16 (ucast b2) OR push_bit 24 (ucast b3)"

lemma le16_byte_of [simp]: "le16 (byte_of 0 w) (byte_of 1 w) = w"
  by (rule bit_word_eqI) (auto simp: le16_def byte_of_def bit_simps)

lemma le16_byte_of_Suc [simp]: "le16 (byte_of 0 w) (byte_of (Suc 0) w) = w"
  using le16_byte_of [of w] by simp

lemma byte_of_le16 [simp]: "byte_of 0 (le16 a b) = a" "byte_of (Suc 0) (le16 a b) = b"
  by (rule bit_word_eqI, auto simp: le16_def byte_of_def bit_simps dest: bit_imp_le_length)+

lemma le32_byte_of [simp]: "le32 (byte_of 0 w) (byte_of (Suc 0) w) (byte_of 2 w) (byte_of 3 w) = w"
proof (rule bit_word_eqI)
  fix n assume "n < LENGTH(32)"
  then have "n < 32" by simp
  then show "bit (le32 (byte_of 0 w) (byte_of (Suc 0) w) (byte_of 2 w) (byte_of 3 w)) n = bit w n"
    by (cases "n < 8"; cases "n < 16"; cases "n < 24") (auto simp: le32_def byte_of_def bit_simps)
qed

lemma le32_byte_of_Suc [simp]:
  "le32 (byte_of 0 w) (byte_of (Suc 0) w) (byte_of (Suc (Suc 0)) w) (byte_of (Suc (Suc (Suc 0))) w) = w"
  using le32_byte_of [of w] by (simp add: eval_nat_numeral)

lemma byte_of_le32 [simp]:
  "byte_of 0 (le32 a b c d) = a" "byte_of (Suc 0) (le32 a b c d) = b"
  "byte_of 2 (le32 a b c d) = c" "byte_of 3 (le32 a b c d) = d"
  by (rule bit_word_eqI, auto simp: le32_def byte_of_def bit_simps dest: bit_imp_le_length)+

definition get8 :: "nat \<Rightarrow> buf \<Rightarrow> u8" where
  "get8 p b = b ! p"

definition get16 :: "nat \<Rightarrow> buf \<Rightarrow> u16" where
  "get16 p b = le16 (b ! p) (b ! (p + 1))"

definition get32 :: "nat \<Rightarrow> buf \<Rightarrow> u32" where
  "get32 p b = le32 (b ! p) (b ! (p + 1)) (b ! (p + 2)) (b ! (p + 3))"

definition get_bytes :: "nat \<Rightarrow> nat \<Rightarrow> buf \<Rightarrow> buf" where
  "get_bytes p n b = take n (drop p b)"

definition put8 :: "nat \<Rightarrow> u8 \<Rightarrow> buf \<Rightarrow> buf" where
  "put8 p v b = b[p := v]"

definition put16 :: "nat \<Rightarrow> u16 \<Rightarrow> buf \<Rightarrow> buf" where
  "put16 p v b = b[p := byte_of 0 v, p + 1 := byte_of 1 v]"

definition put32 :: "nat \<Rightarrow> u32 \<Rightarrow> buf \<Rightarrow> buf" where
  "put32 p v b = b[p := byte_of 0 v, p + 1 := byte_of 1 v, p + 2 := byte_of 2 v, p + 3 := byte_of 3 v]"

text \<open>\<open>memcpy\<close> into a buffer: the bytes of \<open>bs\<close> replace those from offset \<open>p\<close> on.\<close>

definition put_bytes :: "nat \<Rightarrow> buf \<Rightarrow> buf \<Rightarrow> buf" where
  "put_bytes p bs b = take p b @ bs @ drop (p + length bs) b"

lemma length_put [simp]:
  "length (put8 p v b) = length b" "length (put16 p w b) = length b" "length (put32 p x b) = length b"
  by (simp_all add: put8_def put16_def put32_def)

lemma length_put_bytes [simp]: "p + length bs \<le> length b \<Longrightarrow> length (put_bytes p bs b) = length b"
  by (simp add: put_bytes_def)

lemma length_get_bytes [simp]: "p + n \<le> length b \<Longrightarrow> length (get_bytes p n b) = n"
  by (simp add: get_bytes_def)

lemma get_put_same [buf_simps]:
  "p < length b \<Longrightarrow> get8 p (put8 p v b) = v"
  "p + 1 < length b \<Longrightarrow> get16 p (put16 p w b) = w"
  "p + 3 < length b \<Longrightarrow> get32 p (put32 p x b) = x"
  by (simp_all add: get8_def put8_def get16_def put16_def get32_def put32_def nth_list_update)

text \<open>One rule per side, so that linear arithmetic decides each side condition.\<close>

lemma get8_put_other [buf_simps]:
  "q < p \<Longrightarrow> get8 q (put8 p v b) = get8 q b" "p < q \<Longrightarrow> get8 q (put8 p v b) = get8 q b"
  "q < p \<Longrightarrow> get8 q (put16 p w b) = get8 q b" "p + 1 < q \<Longrightarrow> get8 q (put16 p w b) = get8 q b"
  "q < p \<Longrightarrow> get8 q (put32 p x b) = get8 q b" "p + 3 < q \<Longrightarrow> get8 q (put32 p x b) = get8 q b"
  by (auto simp: get8_def put8_def put16_def put32_def nth_list_update)

lemma get16_put_other [buf_simps]:
  "q + 1 < p \<Longrightarrow> get16 q (put8 p v b) = get16 q b" "p < q \<Longrightarrow> get16 q (put8 p v b) = get16 q b"
  "q + 1 < p \<Longrightarrow> get16 q (put16 p w b) = get16 q b" "p + 1 < q \<Longrightarrow> get16 q (put16 p w b) = get16 q b"
  "q + 1 < p \<Longrightarrow> get16 q (put32 p x b) = get16 q b" "p + 3 < q \<Longrightarrow> get16 q (put32 p x b) = get16 q b"
  by (auto simp: get16_def put8_def put16_def put32_def nth_list_update)

lemma get32_put_other [buf_simps]:
  "q + 3 < p \<Longrightarrow> get32 q (put8 p v b) = get32 q b" "p < q \<Longrightarrow> get32 q (put8 p v b) = get32 q b"
  "q + 3 < p \<Longrightarrow> get32 q (put16 p w b) = get32 q b" "p + 1 < q \<Longrightarrow> get32 q (put16 p w b) = get32 q b"
  "q + 3 < p \<Longrightarrow> get32 q (put32 p x b) = get32 q b" "p + 3 < q \<Longrightarrow> get32 q (put32 p x b) = get32 q b"
  by (auto simp: get32_def put8_def put16_def put32_def nth_list_update)

lemma get_bytes_put_other [buf_simps]:
  "q + n \<le> p \<Longrightarrow> get_bytes q n (put8 p v b) = get_bytes q n b" "p < q \<Longrightarrow> get_bytes q n (put8 p v b) = get_bytes q n b"
  "q + n \<le> p \<Longrightarrow> get_bytes q n (put16 p w b) = get_bytes q n b" "p + 1 < q \<Longrightarrow> get_bytes q n (put16 p w b) = get_bytes q n b"
  "q + n \<le> p \<Longrightarrow> get_bytes q n (put32 p x b) = get_bytes q n b" "p + 3 < q \<Longrightarrow> get_bytes q n (put32 p x b) = get_bytes q n b"
  by (auto simp: get_bytes_def put8_def put16_def put32_def drop_update_swap intro!: take_update_cancel)

lemma take_put_above [buf_simps]:
  "n \<le> p \<Longrightarrow> take n (put8 p v b) = take n b"
  "n \<le> p \<Longrightarrow> take n (put16 p w b) = take n b"
  "n \<le> p \<Longrightarrow> take n (put32 p x b) = take n b"
  by (simp_all add: put8_def put16_def put32_def)

lemma get_bytes_put_bytes_same [buf_simps]:
  "p + length bs \<le> length b \<Longrightarrow> n = length bs \<Longrightarrow> get_bytes p n (put_bytes p bs b) = bs"
  by (simp add: get_bytes_def put_bytes_def)

lemma nth_put_bytes:
  "p + length bs \<le> length b \<Longrightarrow> i < length b \<Longrightarrow>
     put_bytes p bs b ! i = (if p \<le> i \<and> i < p + length bs then bs ! (i - p) else b ! i)"
  by (auto simp: put_bytes_def nth_append min_def)

section \<open>Generic lemmas\<close>

lemma less_16_cases:
  fixes n :: nat
  assumes "n < 16"
  shows "n \<in> {0, 1, 2, 3, 4, 5, 6, 7, 8, 9, 10, 11, 12, 13, 14, 15}"
  using assms by (simp only: insert_iff empty_iff simp_thms) arith

text \<open>Bits beyond the width of a C integer are not there.\<close>

lemma no_bit_beyond:
  "16 \<le> n \<Longrightarrow> \<not> bit (x :: u16) n" "8 \<le> n \<Longrightarrow> \<not> bit (b :: u8) n" "32 \<le> n \<Longrightarrow> \<not> bit (y :: u32) n"
  using bit_imp_le_length [of x n] bit_imp_le_length [of b n] bit_imp_le_length [of y n] by auto

lemma less_8_cases:
  fixes n :: nat
  assumes "n < 8"
  shows "n \<in> {0, 1, 2, 3, 4, 5, 6, 7}"
  using assms by (simp only: insert_iff empty_iff simp_thms) arith

text \<open>The bits of the small masks the drivers use.\<close>

lemma bit_small_masks_all:
  "bit (1 :: u8) n = (n = 0) \<and> bit (2 :: u8) n = (n = 1) \<and> bit (3 :: u8) n = (n = 0 \<or> n = 1) \<and>
   bit (4 :: u8) n = (n = 2) \<and> bit (5 :: u8) n = (n = 0 \<or> n = 2) \<and> bit (8 :: u8) n = (n = 3) \<and>
   bit (12 :: u8) n = (n = 2 \<or> n = 3)"
proof (cases "n < 8")
  case True
  from less_8_cases [OF this] show ?thesis by (elim insertE emptyE) (simp_all add: bit_numeral_rec bit_1_iff)
next
  case False
  then have "n \<ge> 8" by simp
  then show ?thesis
    using no_bit_beyond(2) [of n 1] no_bit_beyond(2) [of n 2] no_bit_beyond(2) [of n 3] no_bit_beyond(2) [of n 4]
      no_bit_beyond(2) [of n 5] no_bit_beyond(2) [of n 8] no_bit_beyond(2) [of n 12] by simp
qed

lemma bit_small_masks:
  "bit (1 :: u8) n = (n = 0)" "bit (2 :: u8) n = (n = 1)" "bit (3 :: u8) n = (n = 0 \<or> n = 1)"
  "bit (4 :: u8) n = (n = 2)" "bit (5 :: u8) n = (n = 0 \<or> n = 2)" "bit (8 :: u8) n = (n = 3)"
  "bit (12 :: u8) n = (n = 2 \<or> n = 3)"
  using bit_small_masks_all [of n] by (iprover+)

lemma and_small_masks:
  "(x :: u8) AND 1 = (if bit x 0 then 1 else 0)" "x AND 2 = (if bit x 1 then 2 else 0)"
  "x AND 4 = (if bit x 2 then 4 else 0)" "x AND 8 = (if bit x 3 then 8 else 0)"
  by (rule bit_word_eqI, auto simp: bit_and_iff bit_small_masks simp del: bit_numeral_word_iff intro: gr0I)+

lemma all_eq_replicate_iff: "(\<forall>b \<in> set xs. b = z) \<longleftrightarrow> xs = replicate (length xs) z"
  by (induction xs) auto

lemma word_le_not_less_iff: "(a \<le> b) = (\<not> b < (a::'a::linorder))"
  by auto

lemma take_drop_self: "p + n \<le> length b \<Longrightarrow> take p b @ take n (drop p b) @ drop (p + n) b = b"
  by (metis add.commute append_take_drop_id drop_drop)

end
