(* ===== verification/Eeprom.thy ===== *)
theory Eeprom
  imports Prelude
begin

text \<open>
  The EEPROM: the layout of \<^verbatim>\<open>eeprom_variables.h\<close>, the block and byte accesses of avr-libc that
  the firmware uses, and the interface \<open>block_store\<close> that the state machine tables and the
  chunk-wise upload are verified against.
\<close>

section \<open>Layout\<close>

definition EESIZE :: nat where "EESIZE = 4096"
definition EE_MAC_ADDR :: nat where [offset_simps]: "EE_MAC_ADDR = 0x001"
definition EE_MAC_ADDR_SIZE :: nat where [offset_simps]: "EE_MAC_ADDR_SIZE = 8"
definition EE_PAN_ADDR :: nat where [offset_simps]: "EE_PAN_ADDR = EE_MAC_ADDR + EE_MAC_ADDR_SIZE"
definition EE_PAN_ADDR_SIZE :: nat where [offset_simps]: "EE_PAN_ADDR_SIZE = 2"
definition EE_PAN_ID :: nat where [offset_simps]: "EE_PAN_ID = EE_PAN_ADDR + EE_PAN_ADDR_SIZE"
definition EE_PAN_ID_SIZE :: nat where [offset_simps]: "EE_PAN_ID_SIZE = 2"
definition EE_BOOTLOADER_FLAG :: nat where [offset_simps]: "EE_BOOTLOADER_FLAG = EE_PAN_ID + EE_PAN_ID_SIZE"
definition EE_BOOTLOADER_FLAG_SIZE :: nat where [offset_simps]: "EE_BOOTLOADER_FLAG_SIZE = 1"
definition EE_BOOTLOADER_CRC :: nat where [offset_simps]: "EE_BOOTLOADER_CRC = EE_BOOTLOADER_FLAG + EE_BOOTLOADER_FLAG_SIZE"
definition EE_BOOTLOADER_CRC_SIZE :: nat where [offset_simps]: "EE_BOOTLOADER_CRC_SIZE = 2"
definition EE_FIRST_RUN_FLAG :: nat where [offset_simps]: "EE_FIRST_RUN_FLAG = EE_BOOTLOADER_CRC + EE_BOOTLOADER_CRC_SIZE"
definition EE_FIRST_RUN_FLAG_SIZE :: nat where [offset_simps]: "EE_FIRST_RUN_FLAG_SIZE = 1"
definition EE_ENCRYPTION_KEY :: nat where [offset_simps]: "EE_ENCRYPTION_KEY = EE_FIRST_RUN_FLAG + EE_FIRST_RUN_FLAG_SIZE"
definition EE_ENCRYPTION_KEY_SIZE :: nat where [offset_simps]: "EE_ENCRYPTION_KEY_SIZE = 16"
definition EE_DOMAIN_NAME :: nat where [offset_simps]: "EE_DOMAIN_NAME = EE_ENCRYPTION_KEY + EE_ENCRYPTION_KEY_SIZE"
definition EE_DOMAIN_NAME_SIZE :: nat where [offset_simps]: "EE_DOMAIN_NAME_SIZE = 30"
definition EE_METERING_REF :: nat where [offset_simps]: "EE_METERING_REF = EE_DOMAIN_NAME + EE_DOMAIN_NAME_SIZE"
definition EE_METERING_REF_SIZE :: nat where [offset_simps]: "EE_METERING_REF_SIZE = 2"
definition EE_METERING_CAL_LOAD :: nat where [offset_simps]: "EE_METERING_CAL_LOAD = EE_METERING_REF + EE_METERING_REF_SIZE"
definition EE_METERING_CAL_LOAD_SIZE :: nat where [offset_simps]: "EE_METERING_CAL_LOAD_SIZE = 2"
definition EE_METERING_CAL_FLAG :: nat where [offset_simps]: "EE_METERING_CAL_FLAG = EE_METERING_CAL_LOAD + EE_METERING_CAL_LOAD_SIZE"
definition EE_METERING_CAL_FLAG_SIZE :: nat where [offset_simps]: "EE_METERING_CAL_FLAG_SIZE = 1"
definition EE_RELAY_DEFAULT :: nat where [offset_simps]: "EE_RELAY_DEFAULT = EE_METERING_CAL_FLAG + EE_METERING_CAL_FLAG_SIZE"
definition EE_RELAY_DEFAULT_SIZE :: nat where [offset_simps]: "EE_RELAY_DEFAULT_SIZE = 1"
definition EE_FORWARDING :: nat where [offset_simps]: "EE_FORWARDING = EE_RELAY_DEFAULT + EE_RELAY_DEFAULT_SIZE"
definition EE_FORWARDING_SIZE :: nat where [offset_simps]: "EE_FORWARDING_SIZE = 1"
definition EE_STATEMACHINE_ID :: nat where [offset_simps]: "EE_STATEMACHINE_ID = EE_FORWARDING + EE_FORWARDING_SIZE"
definition EE_STATEMACHINE_ID_SIZE :: nat where [offset_simps]: "EE_STATEMACHINE_ID_SIZE = 16"
definition EE_STATEMACHINE_N_CONDITIONS :: nat where [offset_simps]:
  "EE_STATEMACHINE_N_CONDITIONS = EE_STATEMACHINE_ID + EE_STATEMACHINE_ID_SIZE"
definition EE_STATEMACHINE_N_CONDITIONS_SIZE :: nat where [offset_simps]: "EE_STATEMACHINE_N_CONDITIONS_SIZE = 1"
definition EE_STATEMACHINE_CONDITIONS :: nat where [offset_simps]:
  "EE_STATEMACHINE_CONDITIONS = EE_STATEMACHINE_N_CONDITIONS + EE_STATEMACHINE_N_CONDITIONS_SIZE"
definition EE_STATEMACHINE_CONDITIONS_SIZE :: nat where [offset_simps]: "EE_STATEMACHINE_CONDITIONS_SIZE = 511"
definition EE_STATEMACHINE_N_DT_TRANSITIONS :: nat where [offset_simps]:
  "EE_STATEMACHINE_N_DT_TRANSITIONS = EE_STATEMACHINE_CONDITIONS + EE_STATEMACHINE_CONDITIONS_SIZE"
definition EE_STATEMACHINE_N_DT_TRANSITIONS_SIZE :: nat where [offset_simps]: "EE_STATEMACHINE_N_DT_TRANSITIONS_SIZE = 1"
definition EE_STATEMACHINE_DATETIME_TRANSITIONS :: nat where [offset_simps]:
  "EE_STATEMACHINE_DATETIME_TRANSITIONS = EE_STATEMACHINE_N_DT_TRANSITIONS + EE_STATEMACHINE_N_DT_TRANSITIONS_SIZE"
definition EE_STATEMACHINE_DATETIME_TRANSITIONS_SIZE :: nat where [offset_simps]: "EE_STATEMACHINE_DATETIME_TRANSITIONS_SIZE = 511"
definition EE_STATEMACHINE_N_TRANSITIONS :: nat where [offset_simps]:
  "EE_STATEMACHINE_N_TRANSITIONS = EE_STATEMACHINE_DATETIME_TRANSITIONS + EE_STATEMACHINE_DATETIME_TRANSITIONS_SIZE"
definition EE_STATEMACHINE_N_TRANSITIONS_SIZE :: nat where [offset_simps]: "EE_STATEMACHINE_N_TRANSITIONS_SIZE = 1"
definition EE_STATEMACHINE_TRANSITIONS :: nat where [offset_simps]:
  "EE_STATEMACHINE_TRANSITIONS = EE_STATEMACHINE_N_TRANSITIONS + EE_STATEMACHINE_N_TRANSITIONS_SIZE"
definition EE_STATEMACHINE_TRANSITIONS_SIZE :: nat where [offset_simps]: "EE_STATEMACHINE_TRANSITIONS_SIZE = 495"
definition EE_ENERGY_METERING_PULSES :: nat where [offset_simps]:
  "EE_ENERGY_METERING_PULSES = EE_STATEMACHINE_TRANSITIONS + EE_STATEMACHINE_TRANSITIONS_SIZE"
definition EE_ENERGY_METERING_PULSES_SIZE :: nat where [offset_simps]: "EE_ENERGY_METERING_PULSES_SIZE = 4"
definition EE_ENERGY_METERING_PULSES_TOTAL :: nat where [offset_simps]:
  "EE_ENERGY_METERING_PULSES_TOTAL = EE_ENERGY_METERING_PULSES + EE_ENERGY_METERING_PULSES_SIZE"
definition EE_ENERGY_METERING_PULSES_TOTAL_SIZE :: nat where [offset_simps]: "EE_ENERGY_METERING_PULSES_TOTAL_SIZE = 4"

section \<open>Access\<close>

type_synonym eeprom = "nat \<Rightarrow> u8"

definition eeprom_read_block :: "eeprom \<Rightarrow> nat \<Rightarrow> nat \<Rightarrow> buf" where
  "eeprom_read_block ee a n = map (\<lambda>i. ee (a + i)) [0..<n]"

definition eeprom_update_block :: "nat \<Rightarrow> buf \<Rightarrow> eeprom \<Rightarrow> eeprom" where
  "eeprom_update_block a bs ee = (\<lambda>i. if a \<le> i \<and> i < a + length bs then bs ! (i - a) else ee i)"

definition eeprom_read_byte :: "eeprom \<Rightarrow> nat \<Rightarrow> u8" where
  "eeprom_read_byte ee a = ee a"

definition eeprom_write_byte :: "nat \<Rightarrow> u8 \<Rightarrow> eeprom \<Rightarrow> eeprom" where
  "eeprom_write_byte a v ee = ee(a := v)"

definition eeprom_read_word :: "eeprom \<Rightarrow> nat \<Rightarrow> u16" where
  "eeprom_read_word ee a = le16 (ee a) (ee (a + 1))"

definition eeprom_write_word :: "nat \<Rightarrow> u16 \<Rightarrow> eeprom \<Rightarrow> eeprom" where
  "eeprom_write_word a v ee = ee(a := byte_of 0 v, a + 1 := byte_of 1 v)"

lemma eeprom_byte_same [simp]: "eeprom_read_byte (eeprom_write_byte a v ee) a = v"
  by (simp add: eeprom_read_byte_def eeprom_write_byte_def)

lemma eeprom_write_byte_other [simp]: "b \<noteq> a \<Longrightarrow> eeprom_write_byte a v ee b = ee b"
  by (simp add: eeprom_write_byte_def)

lemma eeprom_word_same [simp]: "eeprom_read_word (eeprom_write_word a v ee) a = v"
  by (simp add: eeprom_read_word_def eeprom_write_word_def)

lemma eeprom_write_word_other [simp]: "b \<noteq> a \<Longrightarrow> b \<noteq> a + 1 \<Longrightarrow> eeprom_write_word a v ee b = ee b"
  by (simp add: eeprom_write_word_def)

section \<open>The interface\<close>

text \<open>
  What the clients of a byte-addressed persistent store rely on: a block reads back as written,
  blocks that do not overlap are independent, and a block is the concatenation of its parts.
\<close>

locale block_store =
  fixes rd :: "'s \<Rightarrow> nat \<Rightarrow> nat \<Rightarrow> buf"
    and wr :: "nat \<Rightarrow> buf \<Rightarrow> 's \<Rightarrow> 's"
  assumes rd_length: "length (rd s a n) = n"
    and rd_wr_same: "rd (wr a bs s) a (length bs) = bs"
    and rd_wr_disjoint: "a + length bs \<le> b \<or> b + n \<le> a \<Longrightarrow> rd (wr a bs s) b n = rd s b n"
    and rd_append: "rd s a (m + n) = rd s a m @ rd s (a + m) n"
begin

text \<open>A table of entries of equal size: entries do not disturb each other.\<close>

lemma table_same: "length bs = sz \<Longrightarrow> rd (wr (base + sz * i) bs s) (base + sz * i) sz = bs"
  using rd_wr_same by auto

lemma table_other:
  assumes "i \<noteq> j" "length bs = sz"
  shows "rd (wr (base + sz * i) bs s) (base + sz * j) sz = rd s (base + sz * j) sz"
proof (rule rd_wr_disjoint)
  have "sz * i + sz \<le> sz * j \<or> sz * j + sz \<le> sz * i"
    using assms(1) mult_le_mono2 [of "Suc i" j sz] mult_le_mono2 [of "Suc j" i sz] by (cases "i < j") auto
  then show "base + sz * i + length bs \<le> base + sz * j \<or> base + sz * j + sz \<le> base + sz * i"
    using assms(2) by auto
qed

text \<open>An entry of a table leaves whatever lies outside the table alone.\<close>

lemma table_outside:
  assumes "length bs = sz" "i < k" "b + n \<le> base \<or> base + sz * k \<le> b"
  shows "rd (wr (base + sz * i) bs s) b n = rd s b n"
proof (rule rd_wr_disjoint)
  have "sz * i + sz \<le> sz * k" using assms(2) mult_le_mono2 [of "Suc i" k sz] by simp
  then show "base + sz * i + length bs \<le> b \<or> b + n \<le> base + sz * i" using assms by auto
qed

text \<open>Writing consecutive chunks of a region one after the other stores their concatenation.\<close>

lemma chunks_written:
  assumes "\<forall>c \<in> set cs. length c = sz"
  shows "rd (fold (\<lambda>(i, c). wr (base + sz * i) c) (zip [k..<k + length cs] cs) s)
           (base + sz * k) (sz * length cs) = concat cs"
  using assms
proof (induction cs arbitrary: s k)
  case Nil
  have "rd s' a 0 = []" for s' a using rd_length [of s' a 0] by simp
  then show ?case by simp
next
  case (Cons c cs)
  have keep: "rd (fold (\<lambda>(i, c). wr (base + sz * i) c) (zip [m..<m + length ds] ds) t) (base + sz * k) sz
       = rd t (base + sz * k) sz" if "k < m" "\<forall>d \<in> set ds. length d = sz" for m ds t
    using that
  proof (induction ds arbitrary: t m)
    case (Cons d ds)
    have "rd (wr (base + sz * m) d t) (base + sz * k) sz = rd t (base + sz * k) sz"
      using Cons.prems by (intro table_other) auto
    with Cons.IH [of "Suc m" "wr (base + sz * m) d t"] Cons.prems show ?case
      by (simp add: upt_conv_Cons del: upt_Suc)
  qed simp
  let ?t = "fold (\<lambda>(i, c). wr (base + sz * i) c) (zip [Suc k..<Suc k + length cs] cs) (wr (base + sz * k) c s)"
  have hd: "rd ?t (base + sz * k) sz = c"
    using keep [of "Suc k" cs "wr (base + sz * k) c s"] Cons.prems table_same [of c sz base k s]
    by (simp del: upt_Suc)
  have tl: "rd ?t (base + sz * Suc k) (sz * length cs) = concat cs"
    using Cons.IH [of "Suc k" "wr (base + sz * k) c s"] Cons.prems by (simp del: upt_Suc)
  have "rd ?t (base + sz * k) (sz + sz * length cs) = c @ concat cs"
    using hd tl rd_append [of ?t "base + sz * k" sz "sz * length cs"] by (simp add: ac_simps)
  then show ?case by (simp add: upt_conv_Cons del: upt_Suc)
qed

end

lemma eeprom_read_append:
  "eeprom_read_block ee a (m + n) = eeprom_read_block ee a m @ eeprom_read_block ee (a + m) n"
  by (rule nth_equalityI) (auto simp: eeprom_read_block_def nth_append)

interpretation ee: block_store eeprom_read_block eeprom_update_block
proof (unfold_locales, goal_cases)
  case (2 a bs s) show ?case by (rule nth_equalityI) (simp_all add: eeprom_read_block_def eeprom_update_block_def)
next
  case (3 a bs b n s) then show ?case
    by (intro nth_equalityI) (auto simp: eeprom_read_block_def eeprom_update_block_def)
qed (simp add: eeprom_read_block_def, rule eeprom_read_append)

lemma eeprom_update_outside: "i < a \<or> a + length bs \<le> i \<Longrightarrow> eeprom_update_block a bs ee i = ee i"
  by (auto simp: eeprom_update_block_def)

text \<open>\<open>eeprom_update_block\<close> skips bytes that already hold the value; the contents are the same.\<close>

lemma eeprom_update_idem: "eeprom_update_block a (eeprom_read_block ee a n) ee = ee"
  by (rule ext) (auto simp: eeprom_update_block_def eeprom_read_block_def)

end
