(* ===== verification/Float32.thy ===== *)
theory Float32
  imports Prelude
begin

text \<open>
  The C type \<open>float\<close> of the AVR tool chain: IEEE 754 single precision, kept as its 32-bit
  pattern because the firmware moves floats through packed structs and swaps their bytes.
  Comparisons are those of C (every comparison with a NaN but \<open>!=\<close> is false, the two zeros are
  equal); results of arithmetic are rounded to nearest, ties to even.
\<close>

type_synonym f32 = "32 word"

definition f32_mag :: "f32 \<Rightarrow> nat" where
  "f32_mag x = unat (x AND 0x7fffffff)"

definition f32_neg :: "f32 \<Rightarrow> bool" where
  "f32_neg x = bit x 31"

definition f32_nan :: "f32 \<Rightarrow> bool" where
  "f32_nan x = (f32_mag x > 0x7f800000)"

text \<open>The order of the non-NaN patterns: sign and magnitude read as an integer.\<close>

definition f32_key :: "f32 \<Rightarrow> int" where
  "f32_key x = (if f32_neg x then - int (f32_mag x) else int (f32_mag x))"

definition f32_eq :: "f32 \<Rightarrow> f32 \<Rightarrow> bool" where
  "f32_eq a b = (\<not> f32_nan a \<and> \<not> f32_nan b \<and> f32_key a = f32_key b)"

definition f32_lt :: "f32 \<Rightarrow> f32 \<Rightarrow> bool" where
  "f32_lt a b = (\<not> f32_nan a \<and> \<not> f32_nan b \<and> f32_key a < f32_key b)"

definition f32_le :: "f32 \<Rightarrow> f32 \<Rightarrow> bool" where
  "f32_le a b = (\<not> f32_nan a \<and> \<not> f32_nan b \<and> f32_key a \<le> f32_key b)"

section \<open>Rounding\<close>

fun bitlen :: "nat \<Rightarrow> nat" where
  "bitlen n = (if n = 0 then 0 else Suc (bitlen (n div 2)))"

declare bitlen.simps [simp del]

lemma bitlen_eval:
  "bitlen 0 = 0" "bitlen 1 = 1" "bitlen (Suc 0) = 1"
  "bitlen (numeral (Num.Bit0 w)) = Suc (bitlen (numeral w))"
  "bitlen (numeral (Num.Bit1 w)) = Suc (bitlen (numeral w))"
  by (simp_all add: bitlen.simps [of "numeral (Num.Bit0 w)"] bitlen.simps [of "numeral (Num.Bit1 w)"]
      bitlen.simps [of 0] bitlen.simps [of 1] bitlen.simps [of "Suc 0"])

text \<open>On a literal, the length is computed as a literal.\<close>

fun num_bits :: "num \<Rightarrow> num" where
  "num_bits num.One = num.One"
| "num_bits (num.Bit0 w) = Num.inc (num_bits w)"
| "num_bits (num.Bit1 w) = Num.inc (num_bits w)"

lemma bitlen_numeral: "bitlen (numeral w) = numeral (num_bits w)"
  by (induction w) (simp_all add: numeral_inc bitlen_eval)

lemmas bitlen_literal [simp] = bitlen_eval(1-3) bitlen_numeral

text \<open>
  Magnitude bits of the float nearest to \<open>n / d\<close>. With \<open>2 ^ e\<close> the weight of the last place,
  the pattern of a significand \<open>q\<close> is \<open>q + (e + 149) * 2 ^ 23\<close>, for subnormal results and for a
  significand that rounds up to the next power of two alike.
\<close>

definition f32_round :: "nat \<Rightarrow> nat \<Rightarrow> u32" where
  "f32_round n d =
     (if n = 0 then 0 else
      let e0 = int (bitlen n) - int (bitlen d) - 24;
          e1 = (if n * 2 ^ nat (- e0) \<ge> 2 ^ 24 * (d * 2 ^ nat e0) then e0 + 1 else e0);
          e = max (- 149) e1;
          num = n * 2 ^ nat (- e);
          den = d * 2 ^ nat e;
          q = num div den;
          r = num mod den;
          q' = (if 2 * r > den \<or> (2 * r = den \<and> odd q) then q + 1 else q);
          b = q' + nat (e + 149) * 2 ^ 23
      in if b \<ge> 0x7f800000 then 0x7f800000 else of_nat b)"

text \<open>Evaluation by certificate: each intermediate value is computed once.\<close>

lemma f32_roundI:
  assumes "n \<noteq> 0" "int (bitlen n) - int (bitlen d) - 24 = e0"
    "(if n * 2 ^ nat (- e0) \<ge> 2 ^ 24 * (d * 2 ^ nat e0) then e0 + 1 else e0) = e1" "max (- 149) e1 = e"
    "n * 2 ^ nat (- e) = num" "d * 2 ^ nat e = den" "num div den = q" "num mod den = r"
    "(if 2 * r > den \<or> (2 * r = den \<and> odd q) then q + 1 else q) = q'"
    "q' + nat (e + 149) * 2 ^ 23 = b" "b < 0x7f800000" "of_nat b = w"
  shows "f32_round n d = w"
proof -
  have "f32_round n d = (if b \<ge> 0x7f800000 then 0x7f800000 else of_nat b)"
    unfolding f32_round_def Let_def assms(2-10) if_not_P [OF assms(1)] ..
  with assms(11,12) show ?thesis by (simp add: not_le [symmetric])
qed

definition f32_of_nat :: "nat \<Rightarrow> f32" where
  "f32_of_nat n = f32_round n 1"

definition f32_of_u32 :: "u32 \<Rightarrow> f32" where
  "f32_of_u32 w = f32_of_nat (unat w)"

text \<open>Numerator and denominator of the magnitude of a finite pattern.\<close>

definition f32_frac :: "f32 \<Rightarrow> nat \<times> nat" where
  "f32_frac x =
     (let m = f32_mag x; ex = m div 2 ^ 23; fr = m mod 2 ^ 23
      in if ex = 0 then (fr, 2 ^ 149)
         else if ex < 150 then (fr + 2 ^ 23, 2 ^ (150 - ex))
         else ((fr + 2 ^ 23) * 2 ^ (ex - 150), 1))"

definition f32_finite :: "f32 \<Rightarrow> bool" where
  "f32_finite x = (f32_mag x < 0x7f800000)"

definition f32_signed :: "bool \<Rightarrow> u32 \<Rightarrow> f32" where
  "f32_signed s m = (if s then m OR 0x80000000 else m)"

abbreviation f32_qnan :: f32 where "f32_qnan \<equiv> 0x7fc00000"
abbreviation f32_inf :: f32 where "f32_inf \<equiv> 0x7f800000"

definition f32_div :: "f32 \<Rightarrow> f32 \<Rightarrow> f32" where
  "f32_div a b =
     (let s = (f32_neg a \<noteq> f32_neg b) in
      if f32_nan a \<or> f32_nan b then f32_qnan
      else if \<not> f32_finite a then (if f32_finite b then f32_signed s f32_inf else f32_qnan)
      else if \<not> f32_finite b then f32_signed s 0
      else if f32_mag b = 0 then (if f32_mag a = 0 then f32_qnan else f32_signed s f32_inf)
      else (case (f32_frac a, f32_frac b) of
              ((na, da), (nb, db)) \<Rightarrow> f32_signed s (f32_round (na * db) (da * nb))))"

definition f32_mul :: "f32 \<Rightarrow> f32 \<Rightarrow> f32" where
  "f32_mul a b =
     (let s = (f32_neg a \<noteq> f32_neg b) in
      if f32_nan a \<or> f32_nan b then f32_qnan
      else if \<not> f32_finite a \<or> \<not> f32_finite b
      then (if f32_mag a = 0 \<or> f32_mag b = 0 then f32_qnan else f32_signed s f32_inf)
      else (case (f32_frac a, f32_frac b) of
              ((na, da), (nb, db)) \<Rightarrow> f32_signed s (f32_round (na * nb) (da * db))))"

definition f32_add :: "f32 \<Rightarrow> f32 \<Rightarrow> f32" where
  "f32_add a b =
     (if f32_nan a \<or> f32_nan b then f32_qnan
      else if \<not> f32_finite a then (if f32_finite b \<or> f32_neg a = f32_neg b then a else f32_qnan)
      else if \<not> f32_finite b then b
      else if f32_mag a = 0 \<and> f32_mag b = 0 then (if f32_neg a \<and> f32_neg b then a else 0)
      else (case (f32_frac a, f32_frac b) of
              ((na, da), (nb, db)) \<Rightarrow>
                (let x = (if f32_neg a then - int (na * db) else int (na * db));
                     y = (if f32_neg b then - int (nb * da) else int (nb * da))
                 in f32_signed (x + y < 0) (f32_round (nat \<bar>x + y\<bar>) (da * db)))))"

text \<open>Conversion to an integer type truncates towards zero; out of range it is undefined in C.\<close>

definition f32_trunc :: "f32 \<Rightarrow> int" where
  "f32_trunc x =
     (case f32_frac x of (n, d) \<Rightarrow> (if f32_neg x then - int (n div d) else int (n div d)))"

lemmas f32_eval = f32_div_def f32_mul_def f32_add_def f32_of_u32_def f32_of_nat_def f32_round_def f32_frac_def
  f32_mag_def f32_neg_def f32_nan_def f32_finite_def f32_signed_def f32_trunc_def

section \<open>Facts\<close>

lemma f32_div_finite:
  assumes "f32_finite a" "f32_finite b" "\<not> f32_nan a" "\<not> f32_nan b" "f32_mag b \<noteq> 0"
    "f32_frac a = (na, da)" "f32_frac b = (nb, db)"
  shows "f32_div a b = f32_signed (f32_neg a \<noteq> f32_neg b) (f32_round (na * db) (da * nb))"
  using assms by (simp add: f32_div_def)

lemma f32_mul_finite:
  assumes "f32_finite a" "f32_finite b" "\<not> f32_nan a" "\<not> f32_nan b"
    "f32_frac a = (na, da)" "f32_frac b = (nb, db)"
  shows "f32_mul a b = f32_signed (f32_neg a \<noteq> f32_neg b) (f32_round (na * nb) (da * db))"
  using assms by (simp add: f32_mul_def)

lemmas f32_bits = f32_mag_def f32_neg_def f32_nan_def f32_finite_def f32_signed_def f32_frac_def

lemma f32_neq_iff: "\<not> f32_nan a \<Longrightarrow> \<not> f32_nan b \<Longrightarrow> f32_eq a b \<longleftrightarrow> \<not> f32_lt a b \<and> \<not> f32_lt b a"
  by (auto simp: f32_eq_def f32_lt_def)

lemma f32_le_iff: "f32_le a b \<longleftrightarrow> f32_lt a b \<or> f32_eq a b"
  by (auto simp: f32_le_def f32_lt_def f32_eq_def)

lemma f32_nan_incomparable: "f32_nan a \<Longrightarrow> \<not> f32_eq a b \<and> \<not> f32_lt a b \<and> \<not> f32_lt b a \<and> \<not> f32_le a b \<and> \<not> f32_le b a"
  by (simp add: f32_eq_def f32_lt_def f32_le_def)

end
