(* ===== verification/Hexabus_Types.thy ===== *)
theory Hexabus_Types
  imports Prelude Float32
begin

text \<open>
  The vocabulary of the protocol: packet types, data types, error codes and comparison operators
  of \<^verbatim>\<open>shared/hexabus_types.h\<close>, the tagged value \<open>hxb_value\<close> with its overlaid union, the envelope
  that carries a value between components, the endpoint identifiers of \<^verbatim>\<open>shared/endpoints.h\<close>
  and the compile-time configuration of \<^verbatim>\<open>hexabus_config.h\<close>.
\<close>

section \<open>Enumerations\<close>

datatype hxb_packet_type =
  HXB_PTYPE_ERROR | HXB_PTYPE_INFO | HXB_PTYPE_QUERY | HXB_PTYPE_WRITE | HXB_PTYPE_EPINFO | HXB_PTYPE_EPQUERY

fun ptype_code :: "hxb_packet_type \<Rightarrow> u8" where
  "ptype_code HXB_PTYPE_ERROR = 0x00"
| "ptype_code HXB_PTYPE_INFO = 0x01"
| "ptype_code HXB_PTYPE_QUERY = 0x02"
| "ptype_code HXB_PTYPE_WRITE = 0x04"
| "ptype_code HXB_PTYPE_EPINFO = 0x09"
| "ptype_code HXB_PTYPE_EPQUERY = 0x0A"

text \<open>A \<open>switch\<close> on a type byte: \<open>None\<close> is the \<open>default\<close> branch.\<close>

definition ptype_of :: "u8 \<Rightarrow> hxb_packet_type option" where
  "ptype_of b = (if b = 0x00 then Some HXB_PTYPE_ERROR else if b = 0x01 then Some HXB_PTYPE_INFO
     else if b = 0x02 then Some HXB_PTYPE_QUERY else if b = 0x04 then Some HXB_PTYPE_WRITE
     else if b = 0x09 then Some HXB_PTYPE_EPINFO else if b = 0x0A then Some HXB_PTYPE_EPQUERY else None)"

datatype hxb_datatype =
  HXB_DTYPE_UNDEFINED | HXB_DTYPE_BOOL | HXB_DTYPE_UINT8 | HXB_DTYPE_UINT32 | HXB_DTYPE_DATETIME
| HXB_DTYPE_FLOAT | HXB_DTYPE_128STRING | HXB_DTYPE_TIMESTAMP | HXB_DTYPE_65BYTES | HXB_DTYPE_16BYTES

fun dtype_code :: "hxb_datatype \<Rightarrow> u8" where
  "dtype_code HXB_DTYPE_UNDEFINED = 0x00"
| "dtype_code HXB_DTYPE_BOOL = 0x01"
| "dtype_code HXB_DTYPE_UINT8 = 0x02"
| "dtype_code HXB_DTYPE_UINT32 = 0x03"
| "dtype_code HXB_DTYPE_DATETIME = 0x04"
| "dtype_code HXB_DTYPE_FLOAT = 0x05"
| "dtype_code HXB_DTYPE_128STRING = 0x06"
| "dtype_code HXB_DTYPE_TIMESTAMP = 0x07"
| "dtype_code HXB_DTYPE_65BYTES = 0x08"
| "dtype_code HXB_DTYPE_16BYTES = 0x09"

definition dtype_of :: "u8 \<Rightarrow> hxb_datatype option" where
  "dtype_of b = (if b = 0 then Some HXB_DTYPE_UNDEFINED else if b = 1 then Some HXB_DTYPE_BOOL
     else if b = 2 then Some HXB_DTYPE_UINT8 else if b = 3 then Some HXB_DTYPE_UINT32
     else if b = 4 then Some HXB_DTYPE_DATETIME else if b = 5 then Some HXB_DTYPE_FLOAT
     else if b = 6 then Some HXB_DTYPE_128STRING else if b = 7 then Some HXB_DTYPE_TIMESTAMP
     else if b = 8 then Some HXB_DTYPE_65BYTES else if b = 9 then Some HXB_DTYPE_16BYTES else None)"

lemma ptype_of_code [simp]: "ptype_of (ptype_code t) = Some t"
  by (cases t) (simp_all add: ptype_of_def)

lemma ptype_of_Some: "ptype_of b = Some t \<Longrightarrow> b = ptype_code t"
  by (auto simp: ptype_of_def split: if_splits)

lemma dtype_of_code [simp]: "dtype_of (dtype_code t) = Some t"
  by (cases t) (simp_all add: dtype_of_def)

lemma dtype_of_Some: "dtype_of b = Some t \<Longrightarrow> b = dtype_code t"
  by (auto simp: dtype_of_def split: if_splits)

lemma ptype_of_eval [simp]:
  "ptype_of 0 = Some HXB_PTYPE_ERROR" "ptype_of 1 = Some HXB_PTYPE_INFO" "ptype_of 2 = Some HXB_PTYPE_QUERY"
  "ptype_of 4 = Some HXB_PTYPE_WRITE" "ptype_of 9 = Some HXB_PTYPE_EPINFO" "ptype_of 10 = Some HXB_PTYPE_EPQUERY"
  by (simp_all add: ptype_of_def)

lemma dtype_of_eval [simp]:
  "dtype_of 0 = Some HXB_DTYPE_UNDEFINED" "dtype_of 1 = Some HXB_DTYPE_BOOL" "dtype_of 2 = Some HXB_DTYPE_UINT8"
  "dtype_of 3 = Some HXB_DTYPE_UINT32" "dtype_of 4 = Some HXB_DTYPE_DATETIME" "dtype_of 5 = Some HXB_DTYPE_FLOAT"
  "dtype_of 6 = Some HXB_DTYPE_128STRING" "dtype_of 7 = Some HXB_DTYPE_TIMESTAMP"
  "dtype_of 8 = Some HXB_DTYPE_65BYTES" "dtype_of 9 = Some HXB_DTYPE_16BYTES"
  by (simp_all add: dtype_of_def)

datatype hxb_error_code =
  HXB_ERR_SUCCESS | HXB_ERR_UNKNOWNEID | HXB_ERR_WRITEREADONLY | HXB_ERR_CRCFAILED | HXB_ERR_DATATYPE
| HXB_ERR_INVALID_VALUE | HXB_ERR_MALFORMED_PACKET | HXB_ERR_UNEXPECTED_PACKET | HXB_ERR_NO_VALUE

definition HXB_ERR_INTERNAL :: u8 where "HXB_ERR_INTERNAL = 0x80"

fun err_code :: "hxb_error_code \<Rightarrow> u8" where
  "err_code HXB_ERR_SUCCESS = 0x00"
| "err_code HXB_ERR_UNKNOWNEID = 0x01"
| "err_code HXB_ERR_WRITEREADONLY = 0x02"
| "err_code HXB_ERR_CRCFAILED = 0x03"
| "err_code HXB_ERR_DATATYPE = 0x04"
| "err_code HXB_ERR_INVALID_VALUE = 0x05"
| "err_code HXB_ERR_MALFORMED_PACKET = 0x80"
| "err_code HXB_ERR_UNEXPECTED_PACKET = 0x81"
| "err_code HXB_ERR_NO_VALUE = 0x82"

text \<open>The test \<open>err & HXB_ERR_INTERNAL\<close>.\<close>

definition err_internal :: "hxb_error_code \<Rightarrow> bool" where
  "err_internal e = (err_code e AND HXB_ERR_INTERNAL \<noteq> 0)"

lemma err_internal_iff [simp]:
  "err_internal e \<longleftrightarrow> e \<in> {HXB_ERR_MALFORMED_PACKET, HXB_ERR_UNEXPECTED_PACKET, HXB_ERR_NO_VALUE}"
  by (cases e) (simp_all add: err_internal_def HXB_ERR_INTERNAL_def)

datatype hxb_stm_op = STM_EQ | STM_LEQ | STM_GEQ | STM_LT | STM_GT | STM_NEQ

definition stm_op_of :: "u8 \<Rightarrow> hxb_stm_op option" where
  "stm_op_of b = (if b = 0 then Some STM_EQ else if b = 1 then Some STM_LEQ else if b = 2 then Some STM_GEQ
     else if b = 3 then Some STM_LT else if b = 4 then Some STM_GT else if b = 5 then Some STM_NEQ else None)"

definition HXB_FALSE :: u8 where "HXB_FALSE = 0"
definition HXB_TRUE :: u8 where "HXB_TRUE = 1"
definition STM_STATE_STOPPED :: u8 where "STM_STATE_STOPPED = 0"
definition STM_STATE_RUNNING :: u8 where "STM_STATE_RUNNING = 1"

section \<open>Values\<close>

record hxb_datetime =
  hour :: u8
  minute :: u8
  second :: u8
  day :: u8
  month :: u8
  year :: u16
  weekday :: u8

text \<open>
  \<open>struct hxb_value\<close> is a type tag and a packed union of eight bytes. All members share those
  bytes; \<open>v_string\<close> and \<open>v_binary\<close> are pointers, and the bytes they point at are kept in
  \<open>vblob\<close>.
\<close>

record hxb_value =
  vdatatype :: u8
  vraw :: buf
  vblob :: buf

definition v_u8 :: "hxb_value \<Rightarrow> u8" where "v_u8 v = get8 0 (vraw v)"
definition v_bool :: "hxb_value \<Rightarrow> u8" where "v_bool v = get8 0 (vraw v)"
definition v_u32 :: "hxb_value \<Rightarrow> u32" where "v_u32 v = get32 0 (vraw v)"
definition v_float :: "hxb_value \<Rightarrow> f32" where "v_float v = get32 0 (vraw v)"

definition set_u8 :: "u8 \<Rightarrow> hxb_value \<Rightarrow> hxb_value" where
  "set_u8 x v = v\<lparr>vraw := put8 0 x (vraw v)\<rparr>"
definition set_u32 :: "u32 \<Rightarrow> hxb_value \<Rightarrow> hxb_value" where
  "set_u32 x v = v\<lparr>vraw := put32 0 x (vraw v)\<rparr>"
definition set_float :: "f32 \<Rightarrow> hxb_value \<Rightarrow> hxb_value" where
  "set_float x v = v\<lparr>vraw := put32 0 x (vraw v)\<rparr>"

text \<open>The layout of \<open>struct hxb_datetime\<close> at an offset of a buffer.\<close>

definition get_datetime :: "nat \<Rightarrow> buf \<Rightarrow> hxb_datetime" where
  "get_datetime p b = \<lparr>hour = get8 p b, minute = get8 (p + 1) b, second = get8 (p + 2) b,
     day = get8 (p + 3) b, month = get8 (p + 4) b, year = get16 (p + 5) b, weekday = get8 (p + 7) b\<rparr>"

definition put_datetime :: "nat \<Rightarrow> hxb_datetime \<Rightarrow> buf \<Rightarrow> buf" where
  "put_datetime p t b = put8 (p + 7) (weekday t) (put16 (p + 5) (year t) (put8 (p + 4) (month t)
     (put8 (p + 3) (day t) (put8 (p + 2) (second t) (put8 (p + 1) (minute t) (put8 p (hour t) b))))))"

definition v_datetime :: "hxb_value \<Rightarrow> hxb_datetime" where
  "v_datetime v = get_datetime 0 (vraw v)"
definition set_datetime :: "hxb_datetime \<Rightarrow> hxb_value \<Rightarrow> hxb_value" where
  "set_datetime t v = v\<lparr>vraw := put_datetime 0 t (vraw v)\<rparr>"

lemma length_put_datetime [simp]: "length (put_datetime p t b) = length b"
  by (simp add: put_datetime_def)

lemma get_put_datetime [buf_simps]: "p + 7 < length b \<Longrightarrow> get_datetime p (put_datetime p t b) = t"
  by (simp add: get_datetime_def put_datetime_def buf_simps)

lemma take_put_datetime [buf_simps]: "n \<le> p \<Longrightarrow> take n (put_datetime p t b) = take n b"
  by (simp add: put_datetime_def buf_simps)

lemma get_put_datetime_other [buf_simps]:
  "q < p \<Longrightarrow> get8 q (put_datetime p t b) = get8 q b" "p + 7 < q \<Longrightarrow> get8 q (put_datetime p t b) = get8 q b"
  "q + 1 < p \<Longrightarrow> get16 q (put_datetime p t b) = get16 q b" "p + 7 < q \<Longrightarrow> get16 q (put_datetime p t b) = get16 q b"
  "q + 3 < p \<Longrightarrow> get32 q (put_datetime p t b) = get32 q b" "p + 7 < q \<Longrightarrow> get32 q (put_datetime p t b) = get32 q b"
  by (auto simp: put_datetime_def buf_simps)

text \<open>An uninitialised local \<open>struct hxb_value\<close>; no operation reads it before it is written.\<close>

definition fresh_value :: hxb_value where
  "fresh_value = \<lparr>vdatatype = 0, vraw = replicate 8 0, vblob = []\<rparr>"

definition wf_value :: "hxb_value \<Rightarrow> bool" where
  "wf_value v = (length (vraw v) = 8)"

lemma wf_fresh [simp]: "wf_value fresh_value"
  by (simp add: wf_value_def fresh_value_def)

lemma value_set_get [simp]:
  "wf_value v \<Longrightarrow> v_u8 (set_u8 x v) = x" "wf_value v \<Longrightarrow> v_bool (set_u8 x v) = x"
  "wf_value v \<Longrightarrow> v_u32 (set_u32 y v) = y" "wf_value v \<Longrightarrow> v_float (set_float y v) = y"
  "wf_value v \<Longrightarrow> v_datetime (set_datetime t v) = t"
  by (simp_all add: wf_value_def v_u8_def v_bool_def v_u32_def v_float_def v_datetime_def set_u8_def
      set_u32_def set_float_def set_datetime_def buf_simps)

lemma value_set_frame [simp]:
  "vdatatype (set_u8 x v) = vdatatype v" "vdatatype (set_u32 y v) = vdatatype v"
  "vdatatype (set_float y v) = vdatatype v" "vdatatype (set_datetime t v) = vdatatype v"
  "vblob (set_u8 x v) = vblob v" "vblob (set_u32 y v) = vblob v"
  "vblob (set_float y v) = vblob v" "vblob (set_datetime t v) = vblob v"
  by (simp_all add: set_u8_def set_u32_def set_float_def set_datetime_def)

lemma wf_value_set [simp]:
  "wf_value v \<Longrightarrow> wf_value (set_u8 x v)" "wf_value v \<Longrightarrow> wf_value (set_u32 y v)"
  "wf_value v \<Longrightarrow> wf_value (set_float y v)" "wf_value v \<Longrightarrow> wf_value (set_datetime t v)"
  "wf_value (v\<lparr>vdatatype := d\<rparr>) = wf_value v" "wf_value (v\<lparr>vblob := bs\<rparr>) = wf_value v"
  by (simp_all add: wf_value_def set_u8_def set_u32_def set_float_def set_datetime_def)

type_synonym ip6 = buf   \<comment> \<open>sixteen bytes, network order\<close>

record hxb_envelope =
  env_src_ip :: ip6
  env_src_port :: u16
  env_eid :: u32
  env_value :: hxb_value

definition ip6_localhost :: ip6 where
  "ip6_localhost = replicate 15 0 @ [1]"

text \<open>\<open>HXB_GROUP\<close>, ff05::205, and \<open>HXB_PORT\<close>.\<close>

definition HXB_GROUP :: ip6 where
  "HXB_GROUP = [0xff, 0x05, 0, 0, 0, 0, 0, 0, 0, 0, 0, 0, 0, 0, 0x02, 0x05]"

definition HXB_PORT :: u16 where "HXB_PORT = 61616"

end
