(* ===== verification/Endpoint_Registry.thy ===== *)
theory Endpoint_Registry
  imports Eeprom Hexabus_Types
begin

text \<open>
  \<^verbatim>\<open>endpoint_registry.c\<close>. Two levels. The first keeps the chain of static link structs with its
  pointers, as the code builds and walks it: a walk need not end, so the lookup is a partial
  function. The second is the list of descriptors the chain stands for; the operations that
  dispatch to an endpoint are written over it. A lemma relates the two levels, and the interface
  \<open>endpoint_store\<close> states what the users of the registry rely on.

  Function pointers of descriptors are values of the type parameters \<open>'r\<close> and \<open>'w\<close>; calling one
  is an argument of the operations.
\<close>

record ('r, 'w) endpoint_descriptor =
  ep_datatype :: u8
  ep_eid :: u32
  ep_name :: "buf option"
  ep_read :: "'r option"
  ep_write :: "'w option"

section \<open>The chain of links\<close>

record ('r, 'w) chain_link =
  link_desc :: "('r, 'w) endpoint_descriptor"
  link_next :: "nat option"

record ('r, 'w) registry =
  endpoint_chain :: "nat option"
  links :: "nat \<Rightarrow> ('r, 'w) chain_link option"

definition empty_registry :: "('r, 'w) registry" where
  "empty_registry = \<lparr>endpoint_chain = None, links = Map.empty\<rparr>"

text \<open>The assignments at the end of \<open>_endpoint_register\<close>, for the static link number \<open>l\<close>.\<close>

definition link_endpoint :: "('r, 'w) endpoint_descriptor \<Rightarrow> nat \<Rightarrow> ('r, 'w) registry \<Rightarrow> ('r, 'w) registry" where
  "link_endpoint ep l r =
     \<lparr>endpoint_chain = Some l, links = (links r)(l \<mapsto> \<lparr>link_desc = ep, link_next = endpoint_chain r\<rparr>)\<rparr>"

text \<open>The loop of \<open>find_descriptor\<close>; \<open>None\<close> is a walk that does not end.\<close>

partial_function (option) find_from ::
    "(nat \<Rightarrow> ('r, 'w) chain_link option) \<Rightarrow> nat option \<Rightarrow> u32 \<Rightarrow> ('r, 'w) endpoint_descriptor option option" where
  "find_from hp p eid =
     (case p of
        None \<Rightarrow> Some None
      | Some l \<Rightarrow>
          (case hp l of
             None \<Rightarrow> None
           | Some k \<Rightarrow>
               (if ep_eid (link_desc k) = eid then Some (Some (link_desc k))
                else find_from hp (link_next k) eid)))"

definition find_descriptor_chain :: "('r, 'w) registry \<Rightarrow> u32 \<Rightarrow> ('r, 'w) endpoint_descriptor option option" where
  "find_descriptor_chain r eid = find_from (links r) (endpoint_chain r) eid"

text \<open>The chain from \<open>p\<close> visits exactly the links \<open>ls\<close> and ends.\<close>

fun is_chain :: "(nat \<Rightarrow> ('r, 'w) chain_link option) \<Rightarrow> nat option \<Rightarrow> nat list \<Rightarrow> bool" where
  "is_chain hp p [] = (p = None)"
| "is_chain hp p (l # ls) = (p = Some l \<and> (\<exists>k. hp l = Some k \<and> is_chain hp (link_next k) ls))"

definition descs :: "(nat \<Rightarrow> ('r, 'w) chain_link option) \<Rightarrow> nat list \<Rightarrow> ('r, 'w) endpoint_descriptor list" where
  "descs hp ls = map (\<lambda>l. link_desc (the (hp l))) ls"

section \<open>The list of descriptors\<close>

type_synonym ('r, 'w) chain = "('r, 'w) endpoint_descriptor list"

definition find_descriptor :: "('r, 'w) chain \<Rightarrow> u32 \<Rightarrow> ('r, 'w) endpoint_descriptor option" where
  "find_descriptor ch eid = find (\<lambda>ep. ep_eid ep = eid) ch"

text \<open>The checks that \<open>ENDPOINT_REGISTRY_DEBUG\<close> adds.\<close>

definition registrable :: "('r, 'w) chain \<Rightarrow> ('r, 'w) endpoint_descriptor \<Rightarrow> bool" where
  "registrable ch ep =
     (\<not> ep_eid ep mod 32 = 0
      \<and> \<not> (\<exists>e \<in> set ch. ep_eid e = ep_eid ep)
      \<and> ep_name ep \<noteq> None \<and> ep_read ep \<noteq> None
      \<and> ep_datatype ep \<in> {1, 2, 3, 4, 5, 6, 7, 8, 9})"

definition endpoint_register :: "bool \<Rightarrow> ('r, 'w) endpoint_descriptor \<Rightarrow> ('r, 'w) chain \<Rightarrow> ('r, 'w) chain" where
  "endpoint_register debug ep ch = (if debug \<and> \<not> registrable ch ep then ch else ep # ch)"

fun synthesize_bits :: "('r, 'w) chain \<Rightarrow> u32 \<Rightarrow> u32 \<Rightarrow> u32" where
  "synthesize_bits [] eid v = v"
| "synthesize_bits (ep # eps) eid v = synthesize_bits eps eid
     (if ep_eid ep \<ge> eid \<and> ep_eid ep < eid + 32 then v OR push_bit (unat (ep_eid ep - eid)) 1 else v)"

definition synthesize_read_m32 :: "('r, 'w) chain \<Rightarrow> u32 \<Rightarrow> hxb_value \<Rightarrow> hxb_value" where
  "synthesize_read_m32 ch eid v =
     set_u32 (synthesize_bits ch eid 1) (v\<lparr>vdatatype := dtype_code HXB_DTYPE_UINT32\<rparr>)"

definition endpoint_get_datatype :: "('r, 'w) chain \<Rightarrow> u32 \<Rightarrow> u8" where
  "endpoint_get_datatype ch eid =
     (if eid mod 32 = 0 then dtype_code HXB_DTYPE_UINT32
      else case find_descriptor ch eid of
             Some ep \<Rightarrow> ep_datatype ep
           | None \<Rightarrow> dtype_code HXB_DTYPE_UNDEFINED)"

text \<open>\<open>call\<close> runs the write handler a function pointer stands for.\<close>

definition endpoint_write ::
    "('w \<Rightarrow> hxb_envelope \<Rightarrow> 's \<Rightarrow> hxb_error_code \<times> 's) \<Rightarrow> ('r, 'w) chain \<Rightarrow>
     u32 \<Rightarrow> hxb_envelope \<Rightarrow> 's \<Rightarrow> hxb_error_code \<times> 's" where
  "endpoint_write call ch eid env s =
     (if eid mod 32 = 0 then (HXB_ERR_WRITEREADONLY, s)
      else case find_descriptor ch eid of
             Some ep \<Rightarrow>
               (case ep_write ep of
                  None \<Rightarrow> (HXB_ERR_WRITEREADONLY, s)
                | Some w \<Rightarrow>
                    (if ep_datatype ep \<noteq> vdatatype (env_value env) then (HXB_ERR_DATATYPE, s)
                     else call w env s))
           | None \<Rightarrow> (HXB_ERR_UNKNOWNEID, s))"

text \<open>
  A descriptor without a read function is not readable by its documentation, but the code calls
  the pointer unchecked; the result of that call is the argument \<open>null_read\<close>.
\<close>

definition endpoint_read ::
    "('r \<Rightarrow> hxb_value \<Rightarrow> 's \<Rightarrow> hxb_error_code \<times> hxb_value \<times> 's) \<Rightarrow>
     (hxb_value \<Rightarrow> 's \<Rightarrow> hxb_error_code \<times> hxb_value \<times> 's) \<Rightarrow> ('r, 'w) chain \<Rightarrow>
     u32 \<Rightarrow> hxb_value \<Rightarrow> 's \<Rightarrow> hxb_error_code \<times> hxb_value \<times> 's" where
  "endpoint_read call null_read ch eid v s =
     (if eid mod 32 = 0 then (HXB_ERR_SUCCESS, synthesize_read_m32 ch eid v, s)
      else case find_descriptor ch eid of
             Some ep \<Rightarrow>
               (case ep_read ep of
                  Some r \<Rightarrow> call r (v\<lparr>vdatatype := ep_datatype ep\<rparr>) s
                | None \<Rightarrow> null_read (v\<lparr>vdatatype := ep_datatype ep\<rparr>) s)
           | None \<Rightarrow> (HXB_ERR_UNKNOWNEID, v, s))"

text \<open>\<open>strncpy\<close>: at most \<open>n\<close> bytes up to the terminator, the rest of the \<open>n\<close> bytes zeroed.\<close>

definition strncpy :: "nat \<Rightarrow> buf \<Rightarrow> buf" where
  "strncpy n s = (let t = take n (takeWhile (\<lambda>c. c \<noteq> 0) s) in t @ replicate (n - length t) 0)"

definition endpoint_get_name ::
    "eeprom \<Rightarrow> ('r, 'w) chain \<Rightarrow> u32 \<Rightarrow> buf \<Rightarrow> nat \<Rightarrow> hxb_error_code \<times> buf" where
  "endpoint_get_name ee ch eid buffer len =
     (if eid mod 32 = 0 then
        (let len = (if len \<ge> EE_DOMAIN_NAME_SIZE then EE_DOMAIN_NAME_SIZE - 1 else len);
             buffer = put_bytes 0 (eeprom_read_block ee EE_DOMAIN_NAME len) buffer
         in (HXB_ERR_SUCCESS, put8 EE_DOMAIN_NAME_SIZE 0 buffer))
      else case find_descriptor ch eid of
             Some ep \<Rightarrow>
               (case ep_name ep of
                  Some nm \<Rightarrow> (HXB_ERR_SUCCESS, put_bytes 0 (strncpy len nm) buffer)
                | None \<Rightarrow> (HXB_ERR_SUCCESS, buffer))
           | None \<Rightarrow> (HXB_ERR_UNKNOWNEID, buffer))"

section \<open>The chain stands for its list of descriptors\<close>

lemma find_from_chain:
  "is_chain hp p ls \<Longrightarrow> find_from hp p eid = Some (find_descriptor (descs hp ls) eid)"
proof (induction ls arbitrary: p)
  case Nil
  then show ?case by (simp add: find_from.simps find_descriptor_def descs_def)
next
  case (Cons l ls)
  then obtain k where k: "p = Some l" "hp l = Some k" "is_chain hp (link_next k) ls" by auto
  have "find_from hp p eid = (if ep_eid (link_desc k) = eid then Some (Some (link_desc k))
      else find_from hp (link_next k) eid)"
    by (subst find_from.simps) (simp add: k)
  then show ?case using Cons.IH [OF k(3)] k by (simp add: find_descriptor_def descs_def)
qed

lemma is_chain_update: "l \<notin> set ls \<Longrightarrow> is_chain (hp(l \<mapsto> k)) p ls = is_chain hp p ls"
  by (induction ls arbitrary: p) auto

lemma descs_update: "l \<notin> set ls \<Longrightarrow> descs (hp(l \<mapsto> k)) ls = descs hp ls"
  by (auto simp: descs_def)

text \<open>Linking an endpoint whose link is not in the chain yet puts its descriptor in front.\<close>

lemma link_fresh:
  assumes "is_chain (links r) (endpoint_chain r) ls" "l \<notin> set ls"
  shows "is_chain (links (link_endpoint ep l r)) (endpoint_chain (link_endpoint ep l r)) (l # ls)"
    and "descs (links (link_endpoint ep l r)) (l # ls) = ep # descs (links r) ls"
  using assms by (simp_all add: link_endpoint_def is_chain_update descs_update) (simp add: descs_def)

text \<open>
  Linking a link that is in the chain closes the chain to a cycle: every link reached from the
  head has a successor again.
\<close>

definition closed_links :: "(nat \<Rightarrow> ('r, 'w) chain_link option) \<Rightarrow> nat set \<Rightarrow> u32 \<Rightarrow> bool" where
  "closed_links hp S eid = (\<forall>l \<in> S. \<exists>k l'. hp l = Some k \<and> ep_eid (link_desc k) \<noteq> eid \<and>
     link_next k = Some l' \<and> l' \<in> S)"

lemma closed_links_diverge:
  assumes "closed_links hp S eid" "l \<in> S"
  shows "find_from hp (Some l) eid = None"
proof (rule ccontr)
  assume "find_from hp (Some l) eid \<noteq> None"
  then obtain r where r: "find_from hp (Some l) eid = Some r" by auto
  have "hp' = hp \<longrightarrow> eid' = eid \<longrightarrow> p \<in> Some ` S \<longrightarrow> False"
    if "find_from hp' p eid' = Some r'" for hp' p eid' and r' :: "('a, 'b) endpoint_descriptor option"
  proof (rule find_from.raw_induct
      [where P = "\<lambda>hp' p eid' r. hp' = hp \<longrightarrow> eid' = eid \<longrightarrow> p \<in> Some ` S \<longrightarrow> False", OF _ that])
    fix f :: "(nat \<Rightarrow> ('a, 'b) chain_link option) \<Rightarrow> nat option \<Rightarrow> u32 \<Rightarrow> ('a, 'b) endpoint_descriptor option option"
      and hp' p eid' y
    assume IH: "\<And>hp' p eid' y. f hp' p eid' = Some y \<Longrightarrow> hp' = hp \<longrightarrow> eid' = eid \<longrightarrow> p \<in> Some ` S \<longrightarrow> False"
      and eq: "(case p of None \<Rightarrow> Some None
        | Some l \<Rightarrow> (case hp' l of None \<Rightarrow> None
           | Some k \<Rightarrow> if ep_eid (link_desc k) = eid' then Some (Some (link_desc k))
                else f hp' (link_next k) eid')) = Some y"
    show "hp' = hp \<longrightarrow> eid' = eid \<longrightarrow> p \<in> Some ` S \<longrightarrow> False"
    proof (intro impI)
      assume a: "hp' = hp" "eid' = eid" "p \<in> Some ` S"
      then obtain l k l' where "p = Some l" "hp l = Some k" "ep_eid (link_desc k) \<noteq> eid"
        "link_next k = Some l'" "l' \<in> S"
        using assms(1) by (fastforce simp: closed_links_def)
      with a eq IH [of hp "Some l'" eid y] show False by simp
    qed
  qed
  with r assms(2) show False by blast
qed

lemma is_chain_next:
  "is_chain hp p ls \<Longrightarrow> x \<in> set ls \<Longrightarrow>
     \<exists>k. hp x = Some k \<and> (link_next k = None \<or> (\<exists>l'. link_next k = Some l' \<and> l' \<in> set ls))"
proof (induction ls arbitrary: p)
  case (Cons l ls)
  then obtain k where k: "hp l = Some k" "is_chain hp (link_next k) ls" by auto
  have "link_next k = None \<or> (\<exists>l'. link_next k = Some l' \<and> l' \<in> set ls)"
    using k(2) by (cases ls) auto
  with k Cons show ?case by (cases "x = l") auto
qed simp

text \<open>The links in front of \<open>l\<close> lead to \<open>l\<close>.\<close>

lemma is_chain_before:
  "is_chain hp p (xs @ l # ys) \<Longrightarrow> x \<in> set xs \<Longrightarrow> distinct (xs @ l # ys) \<Longrightarrow>
     \<exists>k l'. hp x = Some k \<and> link_next k = Some l' \<and> l' \<in> insert l (set xs)"
proof (induction xs arbitrary: p)
  case (Cons a xs)
  then obtain k where k: "hp a = Some k" "is_chain hp (link_next k) (xs @ l # ys)" by auto
  show ?case
  proof (cases "x = a")
    case True
    have "\<exists>l'. link_next k = Some l' \<and> l' \<in> insert l (set xs)" using k(2) by (cases xs) auto
    with True k(1) show ?thesis by auto
  next
    case False
    with Cons.IH [OF k(2)] Cons.prems show ?thesis by auto
  qed
qed simp

lemma is_chain_unique: "is_chain hp p xs \<Longrightarrow> is_chain hp p ys \<Longrightarrow> xs = ys"
proof (induction xs arbitrary: p ys)
  case Nil then show ?case by (cases ys) auto
next
  case (Cons x xs)
  then show ?case by (cases ys) auto
qed

lemma is_chain_distinct: "is_chain hp p ls \<Longrightarrow> distinct ls"
proof (induction ls arbitrary: p)
  case (Cons l ls)
  then obtain k where k: "hp l = Some k" "is_chain hp (link_next k) ls" by auto
  have "l \<notin> set ls"
  proof
    assume "l \<in> set ls"
    then obtain xs ys where ls: "ls = xs @ l # ys" by (auto simp: in_set_conv_decomp)
    have "is_chain hp q (as @ l # ys) \<Longrightarrow> is_chain hp (Some l) (l # ys)" for q as
      by (induction as arbitrary: q) auto
    with k(2) ls have "is_chain hp (Some l) (l # ys)" by blast
    moreover have "is_chain hp (Some l) (l # ls)" using k by simp
    ultimately have "l # ys = l # ls" by (rule is_chain_unique)
    with ls show False by (auto dest: arg_cong [where f = length])
  qed
  with Cons.IH [OF k(2)] show ?case by simp
qed simp

lemma relink_diverges:
  assumes ch: "is_chain (links r) (endpoint_chain r) ls" "l \<in> set ls"
    and absent: "ep_eid ep \<noteq> eid" "\<forall>e \<in> set (descs (links r) ls). ep_eid e \<noteq> eid"
  shows "find_descriptor_chain (link_endpoint ep l r) eid = None"
proof -
  have dist: "distinct ls" using ch(1) by (rule is_chain_distinct)
  from ch(2) obtain xs ys where ls: "ls = xs @ l # ys" by (auto simp: in_set_conv_decomp)
  let ?r = "link_endpoint ep l r" and ?S = "insert l (set xs)"
  have other: "ep_eid (link_desc k) \<noteq> eid" if "x \<in> set ls" "links r x = Some k" for x k
    using absent(2) that by (force simp: descs_def)
  have l: "\<exists>l'. endpoint_chain r = Some l' \<and> l' \<in> ?S" using ch(1) ls by (cases xs) auto
  have "closed_links (links ?r) ?S eid"
    unfolding closed_links_def
  proof (rule ballI)
    fix x assume x: "x \<in> ?S"
    show "\<exists>k l'. links ?r x = Some k \<and> ep_eid (link_desc k) \<noteq> eid \<and> link_next k = Some l' \<and> l' \<in> ?S"
    proof (cases "x = l")
      case True
      with l absent(1) show ?thesis by (auto simp: link_endpoint_def)
    next
      case False
      with x have "x \<in> set xs" by simp
      then have "\<exists>k l'. links r x = Some k \<and> link_next k = Some l' \<and> l' \<in> ?S"
        using ch(1) dist ls by (intro is_chain_before [of "links r" "endpoint_chain r" xs l ys]) auto
      then obtain k l' where
        "links r x = Some k" "link_next k = Some l'" "l' \<in> ?S" by blast
      moreover have "ep_eid (link_desc k) \<noteq> eid" using other [of x k] calculation x ls by auto
      ultimately show ?thesis using False by (auto simp: link_endpoint_def)
    qed
  qed
  from closed_links_diverge [OF this, of l] show ?thesis
    by (simp add: find_descriptor_chain_def link_endpoint_def)
qed

section \<open>The interface of the registry\<close>

locale endpoint_store =
  fixes lookup :: "'c \<Rightarrow> u32 \<Rightarrow> ('r, 'w) endpoint_descriptor option"
    and add :: "('r, 'w) endpoint_descriptor \<Rightarrow> 'c \<Rightarrow> 'c"
  assumes lookup_add: "lookup (add ep c) eid = (if ep_eid ep = eid then Some ep else lookup c eid)"
begin

lemma lookup_other: "\<forall>e \<in> set eps. ep_eid e \<noteq> eid \<Longrightarrow> lookup (fold add eps c) eid = lookup c eid"
  by (induction eps arbitrary: c) (auto simp: lookup_add)

text \<open>Of several registrations of one endpoint id the last one counts.\<close>

lemma lookup_last:
  "\<forall>e \<in> set ys. ep_eid e \<noteq> ep_eid ep \<Longrightarrow> lookup (fold add (xs @ ep # ys) c) (ep_eid ep) = Some ep"
  unfolding fold_append fold_Cons comp_apply by (subst lookup_other) (simp_all add: lookup_add)

text \<open>Descriptors with distinct ids are all found.\<close>

lemma lookup_all:
  assumes "distinct (map ep_eid eps)" "ep \<in> set eps"
  shows "lookup (fold add eps c) (ep_eid ep) = Some ep"
proof -
  from assms(2) obtain xs ys where eps: "eps = xs @ ep # ys" by (auto simp: in_set_conv_decomp)
  from assms(1) have "ep_eid ep \<notin> ep_eid ` set ys" unfolding eps by simp
  then have "\<forall>e \<in> set ys. ep_eid e \<noteq> ep_eid ep" by (metis image_eqI)
  from lookup_last [OF this] show ?thesis unfolding eps .
qed

end

interpretation list_store: endpoint_store find_descriptor "endpoint_register False"
  by unfold_locales (simp add: find_descriptor_def endpoint_register_def)

section \<open>Reading the synthetic endpoints\<close>

lemma bit_push_one: "bit (v OR push_bit n 1 :: u32) k = (bit v k \<or> k = n \<and> n < 32)"
  by (auto simp: bit_simps)

lemma block_member:
  fixes e eid :: u32
  assumes "unat eid + 32 < 2 ^ 32" "k < 32"
  shows "(e \<ge> eid \<and> e < eid + 32 \<and> unat (e - eid) = k) = (e = eid + of_nat k)"
proof -
  have k: "unat (of_nat k :: u32) = k" using assms(2) by (simp add: unat_of_nat)
  have sum: "unat (eid + of_nat k) = unat eid + k"
    using assms k by (subst unat_add_lem [THEN iffD1]) auto
  have top: "unat (eid + 32) = unat eid + 32"
    using assms by (subst unat_add_lem [THEN iffD1]) auto
  show ?thesis
  proof
    assume a: "e \<ge> eid \<and> e < eid + 32 \<and> unat (e - eid) = k"
    have "of_nat (unat (e - eid)) = e - eid" by simp
    with a have "e - eid = of_nat k" by simp
    then show "e = eid + of_nat k" by (simp add: algebra_simps)
  next
    assume "e = eid + of_nat k"
    then show "e \<ge> eid \<and> e < eid + 32 \<and> unat (e - eid) = k"
      using sum top k assms(2) by (auto simp: word_le_nat_alt word_less_nat_alt)
  qed
qed

lemma bit_synthesize:
  assumes "unat eid + 32 < 2 ^ 32" "k < 32"
  shows "bit (synthesize_bits ch eid v) k = (bit v k \<or> (\<exists>ep \<in> set ch. ep_eid ep = eid + of_nat k))"
proof (induction ch arbitrary: v)
  case (Cons ep ch)
  have eq: "(ep_eid ep \<ge> eid \<and> ep_eid ep < eid + 32 \<and> unat (ep_eid ep - eid) = k) = (ep_eid ep = eid + of_nat k)"
    using assms by (rule block_member)
  have "bit (if ep_eid ep \<ge> eid \<and> ep_eid ep < eid + 32 then v OR push_bit (unat (ep_eid ep - eid)) 1 else v) k
      = (bit v k \<or> ep_eid ep = eid + of_nat k)"
    unfolding eq [symmetric] using assms(2)
    by (simp only: bit_push_one if_distrib [where f = "\<lambda>x. bit x k"]) auto
  then show ?case by (simp only: synthesize_bits.simps Cons.IH) auto
qed simp

section \<open>Properties\<close>

text \<open>On an acyclic chain the search through the links ends and finds what the list of registered descriptors
  holds; linking a descriptor with a link of its own keeps the chain acyclic and puts the descriptor in
  front.\<close>

theorem chain_search_refines_list:
  assumes "is_chain (links r) (endpoint_chain r) ls" "l \<notin> set ls"
  shows "find_descriptor_chain r eid = Some (find_descriptor (descs (links r) ls) eid) \<and>
    is_chain (links (link_endpoint ep l r)) (endpoint_chain (link_endpoint ep l r)) (l # ls) \<and>
    find_descriptor_chain (link_endpoint ep l r) eid =
      Some (find_descriptor (endpoint_register False ep (descs (links r) ls)) eid)"
  using find_from_chain [OF assms(1)] find_from_chain [OF link_fresh(1) [OF assms, of ep]] link_fresh [OF assms, of ep]
  by (simp add: find_descriptor_chain_def endpoint_register_def)

text \<open>A descriptor, a handler and a registry for examples.\<close>

definition example_endpoint :: "(unit, unit) endpoint_descriptor" where
  "example_endpoint = \<lparr>ep_datatype = 3, ep_eid = 2, ep_name = None, ep_read = None, ep_write = None\<rparr>"

definition example_registry :: "(unit, unit) registry" where
  "example_registry = link_endpoint example_endpoint 0 empty_registry"

definition no_read :: "unit \<Rightarrow> hxb_value \<Rightarrow> unit \<Rightarrow> hxb_error_code \<times> hxb_value \<times> unit" where
  "no_read r v s = (HXB_ERR_NO_VALUE, v, s)"

lemma example_chain: "is_chain (links example_registry) (endpoint_chain example_registry) [0]"
  by (simp add: example_registry_def link_endpoint_def empty_registry_def)

theorem chain_search_refines_list_witness:
  "find_descriptor_chain (link_endpoint example_endpoint 1 example_registry) 2
     = Some (find_descriptor (endpoint_register False example_endpoint (descs (links example_registry) [0])) 2)"
  using chain_search_refines_list [OF example_chain, of 1 2 example_endpoint] by simp

text \<open>Registering with a link that is already in the chain (as \<open>ENDPOINT_REGISTER\<close> does when it is executed a
  second time, which \<open>metering_set_s0_calibration\<close> makes happen) closes the chain to a cycle: the search for
  an endpoint that is not registered does not end.\<close>

theorem registering_twice_diverges:
  assumes "is_chain (links r) (endpoint_chain r) ls" "l \<in> set ls"
    and "ep_eid ep \<noteq> eid" "\<forall>e \<in> set (descs (links r) ls). ep_eid e \<noteq> eid"
  shows "find_descriptor_chain (link_endpoint ep l r) eid = None"
  using assms by (rule relink_diverges)

theorem registering_twice_diverges_witness:
  "find_descriptor_chain (link_endpoint example_endpoint 0 example_registry) 5 = None"
  using registering_twice_diverges [OF example_chain, of 0 example_endpoint 5]
  by (simp add: descs_def example_registry_def link_endpoint_def example_endpoint_def)

text \<open>The value read from endpoint 32 k is the bit map of the registered endpoints 32 k to 32 k + 31, with bit 0
  always set (for every block but the last one, where the upper bound wraps around).\<close>

theorem device_descriptor_bitmap:
  assumes "unat eid + 32 < 2 ^ 32" "eid mod 32 = 0" "k < 32" "wf_value v"
  shows "fst (endpoint_read call null_read ch eid v s) = HXB_ERR_SUCCESS \<and>
    bit (v_u32 (fst (snd (endpoint_read call null_read ch eid v s)))) k
      = (k = 0 \<or> (\<exists>ep \<in> set ch. ep_eid ep = eid + of_nat k))"
  using bit_synthesize [OF assms(1,3), of ch 1] assms(2,4)
  by (simp add: endpoint_read_def synthesize_read_m32_def bit_1_iff)

theorem device_descriptor_bitmap_witness:
  "bit (v_u32 (fst (snd (endpoint_read no_read (no_read ()) [example_endpoint] 0 fresh_value ())))) 2"
  using device_descriptor_bitmap [of 0 2 fresh_value no_read "no_read ()" "[example_endpoint]" "()"]
  by (simp add: example_endpoint_def)

text \<open>A write reaches a handler exactly when the endpoint is not synthetic, is registered and writable, and has
  the data type of the value; every other write changes nothing and answers with the error of the first
  test that fails.\<close>

theorem endpoint_write_outcome:
  "endpoint_write call ch eid env s =
     (if eid mod 32 = 0 then (HXB_ERR_WRITEREADONLY, s)
      else if eid \<notin> ep_eid ` set ch then (HXB_ERR_UNKNOWNEID, s)
      else (let ep = hd (filter (\<lambda>ep. ep_eid ep = eid) ch) in
        if ep_write ep = None then (HXB_ERR_WRITEREADONLY, s)
        else if ep_datatype ep \<noteq> vdatatype (env_value env) then (HXB_ERR_DATATYPE, s)
        else call (the (ep_write ep)) env s))"
proof -
  have "find_descriptor ch eid = (if eid \<notin> ep_eid ` set ch then None
      else Some (hd (filter (\<lambda>ep. ep_eid ep = eid) ch)))"
    by (induction ch) (auto simp: find_descriptor_def)
  then show ?thesis by (auto simp: endpoint_write_def Let_def split: option.splits)
qed

text \<open>The name of the device is read without its thirtieth byte, while the terminator is written one byte
  later: the byte at index 29 of the answer is whatever the buffer held before.\<close>

theorem device_name_leaks_a_byte:
  assumes "eid mod 32 = 0" "EE_DOMAIN_NAME_SIZE < len" "length buffer = 128"
  shows "snd (endpoint_get_name ee ch eid buffer len) ! 29 = buffer ! 29 \<and>
    snd (endpoint_get_name ee ch eid buffer len) ! 30 = 0 \<and>
    (\<forall>i < 29. snd (endpoint_get_name ee ch eid buffer len) ! i = ee (EE_DOMAIN_NAME + i))"
proof -
  have "length (eeprom_read_block ee EE_DOMAIN_NAME 29) = 29" by (simp add: ee.rd_length)
  moreover have "\<forall>i < 29. eeprom_read_block ee EE_DOMAIN_NAME 29 ! i = ee (EE_DOMAIN_NAME + i)"
    by (simp add: eeprom_read_block_def)
  ultimately show ?thesis using assms
    by (auto simp: endpoint_get_name_def Let_def put8_def nth_put_bytes EE_DOMAIN_NAME_SIZE_def nth_list_update)
qed

theorem device_name_leaks_a_byte_witness:
  "snd (endpoint_get_name (\<lambda>_. 65) [example_endpoint] 0 (replicate 128 0xaa) 127) ! 29 = 0xaa"
  using device_name_leaks_a_byte [of 0 127 "replicate 128 0xaa" "\<lambda>_. 65" "[example_endpoint]"]
  by (simp add: EE_DOMAIN_NAME_SIZE_def)

end
