(* ===== verification/Crc16.thy ===== *)
theory Crc16
  imports Prelude
begin

text \<open>
  The packet checksum of \<^verbatim>\<open>core/lib/crc16.c\<close>: the table-free byte step \<open>crc16_add\<close>, the loop
  \<open>crc16_data\<close>, a bit-serial reference definition of the same CRC (polynomial x^16 + x^12 +
  x^5 + 1, least significant bit first), their equivalence, and the error detection that the
  packet format relies on.
\<close>

section \<open>The code\<close>

definition crc16_add :: "u8 \<Rightarrow> u16 \<Rightarrow> u16" where
  "crc16_add b acc =
     (let acc = acc XOR ucast b;
          acc = drop_bit 8 acc OR push_bit 8 acc;
          acc = acc XOR push_bit 4 (acc AND 0xff00);
          acc = acc XOR drop_bit 4 (drop_bit 8 acc);
          acc = acc XOR drop_bit 5 (acc AND 0xff00)
      in acc)"

fun crc16_data :: "u8 list \<Rightarrow> u16 \<Rightarrow> u16" where
  "crc16_data [] acc = acc"
| "crc16_data (b # data) acc = crc16_data data (crc16_add b acc)"

section \<open>Bit-serial reference\<close>

definition crc_bit :: "u16 \<Rightarrow> u16" where
  "crc_bit x = (if bit x 0 then drop_bit 1 x XOR 0x8408 else drop_bit 1 x)"

definition crc_ref :: "u8 \<Rightarrow> u16 \<Rightarrow> u16" where
  "crc_ref b acc = (crc_bit ^^ 8) (acc XOR ucast b)"

definition crc_ref_data :: "u8 list \<Rightarrow> u16 \<Rightarrow> u16" where
  "crc_ref_data data acc = fold crc_ref data acc"

lemma bit_poly: "bit (0x8408 :: u16) n = (n = 3 \<or> n = 10 \<or> n = 15)"
proof (cases "n < 16")
  case True
  from less_16_cases [OF True] show ?thesis
    by (elim insertE emptyE) (simp_all add: bit_numeral_rec)
qed (auto dest: bit_imp_le_length)

lemma bit_mask_hi: "bit (0xff00 :: u16) n = (8 \<le> n \<and> n < 16)"
proof (cases "n < 16")
  case True
  from less_16_cases [OF True] show ?thesis
    by (elim insertE emptyE) (simp_all add: bit_numeral_rec)
qed (auto dest: bit_imp_le_length)

lemma mask_hi_shift: "(x :: u16) AND 0xff00 = push_bit 8 (drop_bit 8 x)"
proof (rule bit_word_eqI)
  fix n assume "n < LENGTH(16)"
  then show "bit (x AND 0xff00) n = bit (push_bit 8 (drop_bit 8 x)) n"
    using bit_mask_hi [of n] by (auto simp: bit_simps)
qed

lemma bit_crc_bit:
  "bit (crc_bit x) n = (bit x (n + 1) \<noteq> (bit x 0 \<and> (n = 3 \<or> n = 10 \<or> n = 15)))"
  using bit_poly [of n] by (auto simp: crc_bit_def bit_simps)


lemma funpow_8: "(f ^^ 8) x = f (f (f (f (f (f (f (f x)))))))"
  by (simp add: eval_nat_numeral)

lemma crc16_add_eq_crc_ref: "crc16_add b acc = crc_ref b acc"
proof (rule bit_word_eqI)
  fix n assume "n < LENGTH(16)"
  then have "n < 16" by simp
  from less_16_cases [OF this] show "bit (crc16_add b acc) n = bit (crc_ref b acc) n"
    apply (elim insertE emptyE)
    apply (simp_all add: crc16_add_def crc_ref_def Let_def bit_simps mask_hi_shift funpow_8
        bit_crc_bit no_bit_beyond One_nat_def [symmetric] del: One_nat_def)
    by argo+
qed

lemma crc16_data_eq_ref: "crc16_data data acc = crc_ref_data data acc"
  by (induction data acc rule: crc16_data.induct)
     (simp_all add: crc_ref_data_def crc16_add_eq_crc_ref)

lemma crc16_data_append: "crc16_data (xs @ ys) acc = crc16_data ys (crc16_data xs acc)"
  by (induction xs acc rule: crc16_data.induct) simp_all

section \<open>Error detection\<close>

text \<open>A step of the serial register loses no information: the polynomial has its top bit set.\<close>

lemma crc_bit_inj: "crc_bit x = crc_bit y \<Longrightarrow> x = y"
proof (rule bit_word_eqI)
  fix n assume eq: "crc_bit x = crc_bit y" and n: "n < LENGTH(16)"
  have b: "bit (crc_bit x) i = bit (crc_bit y) i" for i by (simp add: eq)
  have b0: "bit x 0 = bit y 0" using b [of 15] by (simp add: bit_crc_bit no_bit_beyond)
  show "bit x n = bit y n"
    using b [of "n - 1"] b0 by (cases n) (auto simp: bit_crc_bit)
qed

lemma funpow_inj:
  fixes f :: "'a \<Rightarrow> 'a"
  shows "(\<And>x y. f x = f y \<Longrightarrow> x = y) \<Longrightarrow> (f ^^ k) x = (f ^^ k) y \<Longrightarrow> x = y"
  by (induction k) auto

lemma crc_bits_inj: "(crc_bit ^^ k) x = (crc_bit ^^ k) y \<Longrightarrow> x = y"
  by (rule funpow_inj [where f = crc_bit and k = k]) (auto dest: crc_bit_inj)

lemma xor_left_inj: "(a :: u16) XOR c = b XOR c \<Longrightarrow> a = b"
  by (metis xor.assoc xor_self_eq xor.right_neutral)

lemma crc16_add_inj_acc: "crc16_add b x = crc16_add b y \<Longrightarrow> x = y"
  unfolding crc16_add_eq_crc_ref crc_ref_def
  by (drule crc_bits_inj) (erule xor_left_inj)

lemma crc16_add_inj_byte: "crc16_add b x = crc16_add c x \<Longrightarrow> b = c"
proof -
  assume "crc16_add b x = crc16_add c x"
  then have "x XOR ucast b = x XOR ucast c"
    unfolding crc16_add_eq_crc_ref crc_ref_def by (rule crc_bits_inj)
  then have "ucast b XOR x = ucast c XOR x" by (simp only: xor.commute)
  then have eq: "(ucast b :: u16) = ucast c" by (rule xor_left_inj)
  show ?thesis
  proof (rule bit_word_eqI)
    fix n assume n: "n < LENGTH(8)"
    have "bit (ucast b :: u16) n = bit (ucast c :: u16) n" by (simp only: eq)
    with n show "bit b n = bit c n" by (simp add: bit_simps)
  qed
qed

lemma crc16_data_inj_acc: "crc16_data data x = crc16_data data y \<Longrightarrow> x = y"
  by (induction data arbitrary: x y) (auto dest: crc16_add_inj_acc)

lemma crc16_data_byte_changed:
  assumes "b \<noteq> c"
  shows "crc16_data (xs @ b # ys) acc \<noteq> crc16_data (xs @ c # ys) acc"
  using assms by (auto simp: crc16_data_append dest!: crc16_data_inj_acc crc16_add_inj_byte)

section \<open>Properties\<close>

text \<open>The optimised checksum (shifts of whole bytes) is the bit-serial CRC with the reflected polynomial
  0x8408, for every message and every start value.\<close>

theorem crc16_is_bitwise_crc: "crc16_data data acc = crc_ref_data data acc"
  by (rule crc16_data_eq_ref)

end
