(* ===== verification/Packet.thy ===== *)
theory Packet
  imports Crc16 Hexabus_Types
begin

text \<open>
  Packets on the wire: \<open>union hxb_packet_any\<close> of \<^verbatim>\<open>hexabus_packet.h\<close> as a byte buffer with the
  offsets of its packed structs, and the three functions of \<^verbatim>\<open>udp_handler.c\<close> that work on it
  alone: \<open>prepare_for_send\<close> (byte order and checksum), \<open>check_crc\<close> and \<open>extract_value\<close>, with the
  packet filling \<open>switch\<close> of the response generators. Proved: every prepared packet passes the
  check, its value survives the way through the network byte order, and a corrupted byte is seen.
\<close>

section \<open>Layout of the packed structs\<close>

definition off_magic :: nat where [offset_simps]: "off_magic = 0"
definition off_type :: nat where [offset_simps]: "off_type = 4"
definition off_flags :: nat where [offset_simps]: "off_flags = 5"
definition off_error_code :: nat where [offset_simps]: "off_error_code = 6"
definition off_eid :: nat where [offset_simps]: "off_eid = 6"
definition off_datatype :: nat where [offset_simps]: "off_datatype = 10"
definition off_value :: nat where [offset_simps]: "off_value = 11"

definition HXB_STRING_PACKET_BUFFER_LENGTH :: nat where [offset_simps]: "HXB_STRING_PACKET_BUFFER_LENGTH = 127"
definition HXB_65BYTES_PACKET_BUFFER_LENGTH :: nat where [offset_simps]: "HXB_65BYTES_PACKET_BUFFER_LENGTH = 65"
definition HXB_16BYTES_PACKET_BUFFER_LENGTH :: nat where [offset_simps]: "HXB_16BYTES_PACKET_BUFFER_LENGTH = 16"

definition sizeof_p_error :: nat where [offset_simps]: "sizeof_p_error = 9"
definition sizeof_p_query :: nat where [offset_simps]: "sizeof_p_query = 12"
definition sizeof_p_u8 :: nat where [offset_simps]: "sizeof_p_u8 = 14"
definition sizeof_p_u32 :: nat where [offset_simps]: "sizeof_p_u32 = 17"
definition sizeof_p_datetime :: nat where [offset_simps]: "sizeof_p_datetime = 21"
definition sizeof_p_float :: nat where [offset_simps]: "sizeof_p_float = 17"
definition sizeof_p_128string :: nat where [offset_simps]: "sizeof_p_128string = 141"
definition sizeof_p_65bytes :: nat where [offset_simps]: "sizeof_p_65bytes = 78"
definition sizeof_p_16bytes :: nat where [offset_simps]: "sizeof_p_16bytes = 29"
definition sizeof_packet_any :: nat where [offset_simps]: "sizeof_packet_any = 141"

definition HXB_HEADER :: buf where "HXB_HEADER = [0x48, 0x58, 0x30, 0x43]"

definition wf_packet :: "buf \<Rightarrow> bool" where
  "wf_packet b = (length b = sizeof_packet_any)"

section \<open>Sending\<close>

text \<open>Store the checksum of everything before it in the last two bytes of a struct of size \<open>len\<close>.\<close>

definition put_crc :: "nat \<Rightarrow> buf \<Rightarrow> buf" where
  "put_crc len b = put16 (len - 2) (uip_htons (crc16_data (take (len - 2) b) 0)) b"

definition htonf_at :: "nat \<Rightarrow> buf \<Rightarrow> buf" where
  "htonf_at p b = put32 p (uip_htonl (get32 p b)) b"

definition prepare_for_send :: "buf \<Rightarrow> nat \<times> buf" where
  "prepare_for_send packet =
     (let packet = put8 off_flags 0 (put_bytes off_magic HXB_HEADER packet) in
      case ptype_of (get8 off_type packet) of
        Some t \<Rightarrow>
          (if t = HXB_PTYPE_INFO \<or> t = HXB_PTYPE_WRITE then
             (let packet = put32 off_eid (uip_htonl (get32 off_eid packet)) packet in
              case dtype_of (get8 off_datatype packet) of
                Some d \<Rightarrow>
                  (if d = HXB_DTYPE_TIMESTAMP \<or> d = HXB_DTYPE_UINT32 then
                     (sizeof_p_u32, put_crc sizeof_p_u32
                        (put32 off_value (uip_htonl (get32 off_value packet)) packet))
                   else if d = HXB_DTYPE_DATETIME then
                     (sizeof_p_datetime, put_crc sizeof_p_datetime
                        (put16 (off_value + 5) (uip_htons (get16 (off_value + 5) packet)) packet))
                   else if d = HXB_DTYPE_FLOAT then
                     (sizeof_p_float, put_crc sizeof_p_float (htonf_at off_value packet))
                   else if d = HXB_DTYPE_BOOL \<or> d = HXB_DTYPE_UINT8 then
                     (sizeof_p_u8, put_crc sizeof_p_u8 packet)
                   else if d = HXB_DTYPE_128STRING then
                     (sizeof_p_128string, put_crc sizeof_p_128string packet)
                   else if d = HXB_DTYPE_65BYTES then
                     (sizeof_p_65bytes, put_crc sizeof_p_65bytes packet)
                   else if d = HXB_DTYPE_16BYTES then
                     (sizeof_p_16bytes, put_crc sizeof_p_16bytes packet)
                   else (0, packet))
              | None \<Rightarrow> (0, packet))
           else if t = HXB_PTYPE_EPQUERY \<or> t = HXB_PTYPE_QUERY then
             (sizeof_p_query, put_crc sizeof_p_query (put32 off_eid (uip_htonl (get32 off_eid packet)) packet))
           else if t = HXB_PTYPE_EPINFO then
             (sizeof_p_128string, put_crc sizeof_p_128string (put32 off_eid (uip_htonl (get32 off_eid packet)) packet))
           else (sizeof_p_error, put_crc sizeof_p_error packet))
      | None \<Rightarrow> (0, packet))"

section \<open>Receiving\<close>

text \<open>
  The struct size that the type bytes of a received packet select (\<open>data_len\<close>); \<open>None\<close> is the
  \<open>default\<close> branch of either \<open>switch\<close>.
\<close>

definition crc_data_len :: "buf \<Rightarrow> nat option" where
  "crc_data_len packet =
     (case ptype_of (get8 off_type packet) of
        Some t \<Rightarrow>
          (if t = HXB_PTYPE_ERROR then Some sizeof_p_error
           else if t = HXB_PTYPE_INFO \<or> t = HXB_PTYPE_WRITE then
             (case dtype_of (get8 off_datatype packet) of
                Some d \<Rightarrow>
                  (if d = HXB_DTYPE_BOOL \<or> d = HXB_DTYPE_UINT8 then Some sizeof_p_u8
                   else if d = HXB_DTYPE_UINT32 \<or> d = HXB_DTYPE_TIMESTAMP then Some sizeof_p_u32
                   else if d = HXB_DTYPE_FLOAT then Some sizeof_p_float
                   else if d = HXB_DTYPE_128STRING then Some sizeof_p_128string
                   else if d = HXB_DTYPE_DATETIME then Some sizeof_p_datetime
                   else if d = HXB_DTYPE_65BYTES then Some sizeof_p_65bytes
                   else if d = HXB_DTYPE_16BYTES then Some sizeof_p_16bytes
                   else None)
              | None \<Rightarrow> None)
           else if t = HXB_PTYPE_EPINFO then Some sizeof_p_128string
           else Some sizeof_p_query)
      | None \<Rightarrow> None)"

definition check_crc :: "buf \<Rightarrow> hxb_error_code" where
  "check_crc packet =
     (case crc_data_len packet of
        None \<Rightarrow> HXB_ERR_MALFORMED_PACKET
      | Some data_len \<Rightarrow>
          (if uip_ntohs (get16 (data_len - 2) packet) \<noteq> crc16_data (take (data_len - 2) packet) 0
           then HXB_ERR_CRCFAILED else HXB_ERR_SUCCESS))"

definition extract_value :: "buf \<Rightarrow> hxb_value \<Rightarrow> hxb_error_code \<times> hxb_value" where
  "extract_value packet v =
     (let v = v\<lparr>vdatatype := get8 off_datatype packet\<rparr> in
      case dtype_of (vdatatype v) of
        Some d \<Rightarrow>
          (if d = HXB_DTYPE_BOOL \<or> d = HXB_DTYPE_UINT8 then
             (HXB_ERR_SUCCESS, set_u8 (get8 off_value packet) v)
           else if d = HXB_DTYPE_UINT32 \<or> d = HXB_DTYPE_TIMESTAMP then
             (HXB_ERR_SUCCESS, set_u32 (uip_ntohl (get32 off_value packet)) v)
           else if d = HXB_DTYPE_DATETIME then
             (HXB_ERR_SUCCESS, set_datetime ((get_datetime off_value packet)
                \<lparr>year := uip_ntohs (year (get_datetime off_value packet))\<rparr>) v)
           else if d = HXB_DTYPE_FLOAT then
             (HXB_ERR_SUCCESS, set_float (uip_ntohl (get32 off_value packet)) v)
           else if d = HXB_DTYPE_128STRING then
             (HXB_ERR_SUCCESS, v\<lparr>vblob := get_bytes off_value (HXB_STRING_PACKET_BUFFER_LENGTH + 1) packet\<rparr>)
           else if d = HXB_DTYPE_65BYTES then
             (HXB_ERR_SUCCESS, v\<lparr>vblob := get_bytes off_value HXB_65BYTES_PACKET_BUFFER_LENGTH packet\<rparr>)
           else if d = HXB_DTYPE_16BYTES then
             (HXB_ERR_SUCCESS, v\<lparr>vblob := get_bytes off_value HXB_16BYTES_PACKET_BUFFER_LENGTH packet\<rparr>)
           else (HXB_ERR_DATATYPE, v))
      | None \<Rightarrow> (HXB_ERR_DATATYPE, v))"

text \<open>
  The \<open>switch\<close> of \<open>generate_query_response\<close> that moves a value into the packet. The string
  and binary members of the value point into the packet already: their bytes are written here.
\<close>

definition blob_size :: "hxb_datatype \<Rightarrow> nat" where
  "blob_size d = (if d = HXB_DTYPE_128STRING then HXB_STRING_PACKET_BUFFER_LENGTH + 1
     else if d = HXB_DTYPE_65BYTES then HXB_65BYTES_PACKET_BUFFER_LENGTH
     else if d = HXB_DTYPE_16BYTES then HXB_16BYTES_PACKET_BUFFER_LENGTH else 0)"

definition pack_value :: "hxb_value \<Rightarrow> buf \<Rightarrow> hxb_error_code \<times> buf" where
  "pack_value v buffer =
     (let buffer = put8 off_datatype (vdatatype v) buffer in
      case dtype_of (vdatatype v) of
        Some d \<Rightarrow>
          (if d = HXB_DTYPE_BOOL \<or> d = HXB_DTYPE_UINT8 then
             (HXB_ERR_SUCCESS, put8 off_value (v_u8 v) buffer)
           else if d = HXB_DTYPE_UINT32 \<or> d = HXB_DTYPE_TIMESTAMP then
             (HXB_ERR_SUCCESS, put32 off_value (v_u32 v) buffer)
           else if d = HXB_DTYPE_DATETIME then
             (HXB_ERR_SUCCESS, put_datetime off_value (v_datetime v) buffer)
           else if d = HXB_DTYPE_FLOAT then
             (HXB_ERR_SUCCESS, put32 off_value (v_float v) buffer)
           else if d = HXB_DTYPE_128STRING then
             (HXB_ERR_SUCCESS, put8 (off_value + HXB_STRING_PACKET_BUFFER_LENGTH) 0
                (put_bytes off_value (vblob v) buffer))
           else if d = HXB_DTYPE_65BYTES \<or> d = HXB_DTYPE_16BYTES then
             (HXB_ERR_SUCCESS, put_bytes off_value (vblob v) buffer)
           else (HXB_ERR_DATATYPE, buffer))
      | None \<Rightarrow> (HXB_ERR_DATATYPE, buffer))"

section \<open>A prepared packet passes the check\<close>

lemma HXB_HEADER_length [simp]: "length HXB_HEADER = 4"
  by (simp add: HXB_HEADER_def)

text \<open>The header bytes written first do not reach the type byte or anything behind the flags.\<close>

lemma nth_header:
  "wf_packet b \<Longrightarrow> 5 < i \<or> i = 4 \<Longrightarrow> i < 141 \<Longrightarrow> put8 off_flags 0 (put_bytes off_magic HXB_HEADER b) ! i = b ! i"
  by (auto simp: put8_def nth_put_bytes offset_simps wf_packet_def nth_list_update)

lemma wf_packet_put [simp]:
  "wf_packet (put8 p v b) = wf_packet b" "wf_packet (put16 p w b) = wf_packet b"
  "wf_packet (put32 p x b) = wf_packet b" "wf_packet (put_datetime p t b) = wf_packet b"
  "wf_packet (put_crc len b) = wf_packet b" "wf_packet (htonf_at p b) = wf_packet b"
  by (simp_all add: wf_packet_def put_crc_def htonf_at_def)

lemma wf_packet_put_bytes [simp]:
  "wf_packet b \<Longrightarrow> p + length bs \<le> sizeof_packet_any \<Longrightarrow> wf_packet (put_bytes p bs b)"
  by (simp add: wf_packet_def)

lemma wf_packet_header [simp]:
  "wf_packet b \<Longrightarrow> wf_packet (put_bytes off_magic HXB_HEADER b)"
  by (simp add: wf_packet_put_bytes offset_simps)

lemma check_crc_put_crc:
  assumes "wf_packet b" "crc_data_len (put_crc len b) = Some len" "2 \<le> len" "len \<le> sizeof_packet_any"
  shows "check_crc (put_crc len b) = HXB_ERR_SUCCESS"
proof -
  have "len - 2 + 1 < length b" using assms by (simp add: wf_packet_def)
  then show ?thesis using assms(2)
    by (simp add: check_crc_def) (simp add: put_crc_def buf_simps)
qed

lemma get8_put_crc [buf_simps]: "p + 2 < len \<Longrightarrow> get8 p (put_crc len b) = get8 p b"
  by (simp add: put_crc_def buf_simps)

lemma get32_put_crc [buf_simps]: "p + 5 < len \<Longrightarrow> get32 p (put_crc len b) = get32 p b"
  by (simp add: put_crc_def buf_simps)

lemma get16_put_crc [buf_simps]: "p + 3 < len \<Longrightarrow> get16 p (put_crc len b) = get16 p b"
  by (simp add: put_crc_def buf_simps)

lemma get_bytes_put_crc [buf_simps]: "p + n + 2 \<le> len \<Longrightarrow> get_bytes p n (put_crc len b) = get_bytes p n b"
  by (simp add: put_crc_def buf_simps)

lemma crc_data_len_put_crc:
  assumes "12 < len"
  shows "crc_data_len (put_crc len b) = crc_data_len b"
proof -
  have "get8 off_type (put_crc len b) = get8 off_type b" "get8 off_datatype (put_crc len b) = get8 off_datatype b"
    using assms by (simp_all add: buf_simps offset_simps)
  then show ?thesis by (simp only: crc_data_len_def)
qed

text \<open>Only the type byte and the data type byte select the struct.\<close>

lemma crc_data_len_value:
  "get8 off_type b = ptype_code t \<Longrightarrow> t = HXB_PTYPE_INFO \<or> t = HXB_PTYPE_WRITE \<Longrightarrow>
   get8 off_datatype b = dtype_code d \<Longrightarrow>
   crc_data_len b = (if d = HXB_DTYPE_BOOL \<or> d = HXB_DTYPE_UINT8 then Some sizeof_p_u8
                  else if d = HXB_DTYPE_UINT32 \<or> d = HXB_DTYPE_TIMESTAMP then Some sizeof_p_u32
                  else if d = HXB_DTYPE_FLOAT then Some sizeof_p_float
                  else if d = HXB_DTYPE_128STRING then Some sizeof_p_128string
                  else if d = HXB_DTYPE_DATETIME then Some sizeof_p_datetime
                  else if d = HXB_DTYPE_65BYTES then Some sizeof_p_65bytes
                  else if d = HXB_DTYPE_16BYTES then Some sizeof_p_16bytes
                  else None)"
  by (auto simp: crc_data_len_def)

lemma crc_data_len_other:
  "get8 off_type b = ptype_code t \<Longrightarrow> t \<noteq> HXB_PTYPE_INFO \<Longrightarrow> t \<noteq> HXB_PTYPE_WRITE \<Longrightarrow>
   crc_data_len b = Some (if t = HXB_PTYPE_ERROR then sizeof_p_error
     else if t = HXB_PTYPE_EPINFO then sizeof_p_128string else sizeof_p_query)"
  by (auto simp: crc_data_len_def)

text \<open>
  The packet as \<open>prepare_for_send\<close> leaves it before the checksum: header, network byte order of
  the endpoint id and of the value.
\<close>

definition with_header :: "buf \<Rightarrow> buf" where
  "with_header b = put8 off_flags 0 (put_bytes off_magic HXB_HEADER b)"

definition net_eid :: "buf \<Rightarrow> buf" where
  "net_eid b = put32 off_eid (uip_htonl (get32 off_eid b)) b"

definition net_value :: "hxb_datatype \<Rightarrow> buf \<Rightarrow> buf" where
  "net_value d b =
     (if d = HXB_DTYPE_TIMESTAMP \<or> d = HXB_DTYPE_UINT32 then put32 off_value (uip_htonl (get32 off_value b)) b
      else if d = HXB_DTYPE_DATETIME then put16 (off_value + 5) (uip_htons (get16 (off_value + 5) b)) b
      else if d = HXB_DTYPE_FLOAT then htonf_at off_value b else b)"

definition value_size :: "hxb_datatype \<Rightarrow> nat" where
  "value_size d = (if d = HXB_DTYPE_BOOL \<or> d = HXB_DTYPE_UINT8 then sizeof_p_u8
     else if d = HXB_DTYPE_UINT32 \<or> d = HXB_DTYPE_TIMESTAMP then sizeof_p_u32
     else if d = HXB_DTYPE_FLOAT then sizeof_p_float
     else if d = HXB_DTYPE_128STRING then sizeof_p_128string
     else if d = HXB_DTYPE_DATETIME then sizeof_p_datetime
     else if d = HXB_DTYPE_65BYTES then sizeof_p_65bytes
     else if d = HXB_DTYPE_16BYTES then sizeof_p_16bytes else 0)"

lemma wf_with_header [simp]: "wf_packet b \<Longrightarrow> wf_packet (with_header b)"
  by (simp add: with_header_def)

lemma wf_net [simp]: "wf_packet (net_eid b) = wf_packet b" "wf_packet (net_value d b) = wf_packet b"
  by (simp_all add: net_eid_def net_value_def)

lemma get8_with_header [buf_simps]:
  "wf_packet b \<Longrightarrow> get8 off_type (with_header b) = get8 off_type b"
  "wf_packet b \<Longrightarrow> get8 off_datatype (with_header b) = get8 off_datatype b"
  using nth_header [of b 4] nth_header [of b 10] by (auto simp: with_header_def get8_def offset_simps)

lemma get8_net [buf_simps]:
  "get8 off_type (net_eid b) = get8 off_type b" "get8 off_datatype (net_eid b) = get8 off_datatype b"
  "get8 off_type (net_value d b) = get8 off_type b" "get8 off_datatype (net_value d b) = get8 off_datatype b"
  by (simp_all add: net_eid_def net_value_def htonf_at_def buf_simps offset_simps)

lemma prepare_value:
  assumes "wf_packet b" "get8 off_type b = ptype_code t" "t = HXB_PTYPE_INFO \<or> t = HXB_PTYPE_WRITE"
    and "get8 off_datatype b = dtype_code d" "d \<noteq> HXB_DTYPE_UNDEFINED"
  shows "prepare_for_send b = (value_size d, put_crc (value_size d) (net_value d (net_eid (with_header b))))"
proof -
  have "get8 off_type (with_header b) = ptype_code t"
    "get8 off_datatype (net_eid (with_header b)) = dtype_code d"
    using assms(1,2,4) by (simp_all add: buf_simps)
  then show ?thesis
    using assms(3,5) unfolding prepare_for_send_def with_header_def [symmetric] net_eid_def [symmetric] Let_def
    by simp (cases d; simp add: value_size_def net_value_def)
qed

lemma prepare_other:
  assumes "wf_packet b" "get8 off_type b = ptype_code t" "t \<noteq> HXB_PTYPE_INFO" "t \<noteq> HXB_PTYPE_WRITE"
  shows "prepare_for_send b =
    (if t = HXB_PTYPE_ERROR then (sizeof_p_error, put_crc sizeof_p_error (with_header b))
     else if t = HXB_PTYPE_EPINFO then (sizeof_p_128string, put_crc sizeof_p_128string (net_eid (with_header b)))
     else (sizeof_p_query, put_crc sizeof_p_query (net_eid (with_header b))))"
proof -
  have "get8 off_type (with_header b) = ptype_code t"
    using assms(1,2) by (simp add: buf_simps)
  then show ?thesis
    using assms(3,4) unfolding prepare_for_send_def with_header_def [symmetric] net_eid_def [symmetric] Let_def
    by simp (cases t; simp)
qed

lemma prepare_invalid:
  assumes "wf_packet b" "prepare_for_send b = (len, b')" "len \<noteq> 0"
  obtains (valued) t d where "get8 off_type b = ptype_code t" "t = HXB_PTYPE_INFO \<or> t = HXB_PTYPE_WRITE"
      "get8 off_datatype b = dtype_code d" "d \<noteq> HXB_DTYPE_UNDEFINED"
    | (other) t where "get8 off_type b = ptype_code t" "t \<noteq> HXB_PTYPE_INFO" "t \<noteq> HXB_PTYPE_WRITE"
proof (cases "ptype_of (get8 off_type b)")
  case None
  have "get8 off_type (with_header b) = get8 off_type b" using assms(1) by (rule get8_with_header)
  with None assms(2,3) show ?thesis
    unfolding prepare_for_send_def with_header_def [symmetric] Let_def by simp
next
  case (Some t)
  then have t: "get8 off_type b = ptype_code t" by (rule ptype_of_Some)
  show ?thesis
  proof (cases "t = HXB_PTYPE_INFO \<or> t = HXB_PTYPE_WRITE")
    case True
    have ty: "get8 off_type (with_header b) = ptype_code t"
      "get8 off_datatype (net_eid (with_header b)) = get8 off_datatype b"
      using assms(1) t by (simp_all add: buf_simps)
    have "\<exists>d. dtype_of (get8 off_datatype b) = Some d \<and> d \<noteq> HXB_DTYPE_UNDEFINED"
      using assms(2,3) ty True
      unfolding prepare_for_send_def with_header_def [symmetric] net_eid_def [symmetric] Let_def
      by (cases "dtype_of (get8 off_datatype b)") auto
    then show ?thesis using valued [OF t True] dtype_of_Some by blast
  next
    case False then show ?thesis using other [OF t] by blast
  qed
qed

lemma prepared_passes_check:
  assumes "wf_packet b" "prepare_for_send b = (len, b')" "len \<noteq> 0"
  shows "check_crc b' = HXB_ERR_SUCCESS"
  using assms
proof (cases rule: prepare_invalid)
  case (valued t d)
  let ?b0 = "net_value d (net_eid (with_header b))"
  have eq: "len = value_size d" "b' = put_crc len ?b0"
    using prepare_value [OF assms(1) valued] assms(2) by simp_all
  have len: "12 < len" "len \<le> sizeof_packet_any"
    using eq(1) valued(4) by (cases d; simp add: value_size_def offset_simps)+
  have "get8 off_type ?b0 = ptype_code t" "get8 off_datatype ?b0 = dtype_code d"
    using valued assms(1) by (simp_all add: buf_simps)
  from crc_data_len_value [OF this(1) valued(2) this(2)] have "crc_data_len ?b0 = Some len"
    using valued(4) by (cases d) (simp_all add: eq(1) value_size_def)
  then show ?thesis unfolding eq(2)
    by (intro check_crc_put_crc) (use assms(1) len in \<open>simp_all add: crc_data_len_put_crc\<close>)
next
  case (other t)
  obtain b0 where b0: "b' = put_crc len b0" "wf_packet b0" "get8 off_type b0 = ptype_code t"
    and len: "len = (if t = HXB_PTYPE_ERROR then sizeof_p_error
       else if t = HXB_PTYPE_EPINFO then sizeof_p_128string else sizeof_p_query)"
    using prepare_other [OF assms(1) other] assms(1,2) other(1) by (auto simp: buf_simps split: if_splits)
  have "get8 off_type b' = ptype_code t" unfolding b0(1) b0(3) [symmetric]
    using len by (simp add: buf_simps offset_simps)
  from crc_data_len_other [OF this other(2,3)] have "crc_data_len b' = Some len" by (simp add: len)
  then show ?thesis unfolding b0(1)
    by (intro check_crc_put_crc) (use b0 len in \<open>simp_all add: offset_simps\<close>)
qed

section \<open>The value survives the wire\<close>

lemma get_with_header [buf_simps]:
  assumes "wf_packet b" "6 \<le> p"
  shows "p < 141 \<Longrightarrow> get8 p (with_header b) = get8 p b"
    and "p + 1 < 141 \<Longrightarrow> get16 p (with_header b) = get16 p b"
    and "p + 3 < 141 \<Longrightarrow> get32 p (with_header b) = get32 p b"
    and "get_bytes p n (with_header b) = get_bytes p n b"
proof -
  have nth: "with_header b ! i = b ! i" if "6 \<le> i" "i < 141" for i
    using nth_header [OF assms(1), of i] that by (simp add: with_header_def)
  show "p < 141 \<Longrightarrow> get8 p (with_header b) = get8 p b"
    "p + 1 < 141 \<Longrightarrow> get16 p (with_header b) = get16 p b"
    "p + 3 < 141 \<Longrightarrow> get32 p (with_header b) = get32 p b"
    using assms(2) by (simp_all add: get8_def get16_def get32_def nth)
  have "drop p (with_header b) = drop p b"
    using assms nth by (intro nth_equalityI) (auto simp: with_header_def wf_packet_def put8_def offset_simps)
  then show "get_bytes p n (with_header b) = get_bytes p n b" by (simp add: get_bytes_def)
qed

lemma get_net_eid [buf_simps]:
  "10 \<le> p \<Longrightarrow> get8 p (net_eid b) = get8 p b" "10 \<le> p \<Longrightarrow> get16 p (net_eid b) = get16 p b"
  "10 \<le> p \<Longrightarrow> get32 p (net_eid b) = get32 p b" "10 \<le> p \<Longrightarrow> get_bytes p n (net_eid b) = get_bytes p n b"
  by (simp_all add: net_eid_def buf_simps offset_simps)

text \<open>Two values agree: the same type tag and the same member for that type.\<close>

definition same_value :: "hxb_datatype \<Rightarrow> hxb_value \<Rightarrow> hxb_value \<Rightarrow> bool" where
  "same_value d v w =
     (vdatatype v = vdatatype w \<and>
      (if d = HXB_DTYPE_BOOL \<or> d = HXB_DTYPE_UINT8 then v_u8 v = v_u8 w
       else if d = HXB_DTYPE_UINT32 \<or> d = HXB_DTYPE_TIMESTAMP then v_u32 v = v_u32 w
       else if d = HXB_DTYPE_FLOAT then v_float v = v_float w
       else if d = HXB_DTYPE_DATETIME then v_datetime v = v_datetime w
       else vblob v = vblob w))"

text \<open>What the sender's value must satisfy: a blob of the type's size, strings terminated.\<close>

definition sendable :: "hxb_datatype \<Rightarrow> hxb_value \<Rightarrow> bool" where
  "sendable d v = (wf_value v \<and> vdatatype v = dtype_code d \<and> d \<noteq> HXB_DTYPE_UNDEFINED \<and>
     (blob_size d \<noteq> 0 \<longrightarrow> length (vblob v) = blob_size d) \<and>
     (d = HXB_DTYPE_128STRING \<longrightarrow> vblob v ! 127 = 0))"

lemma wf_pack_value:
  "wf_packet b \<Longrightarrow> sendable d v \<Longrightarrow> wf_packet (snd (pack_value v b))"
  by (cases d) (auto simp: pack_value_def Let_def sendable_def blob_size_def offset_simps
      intro!: wf_packet_put_bytes)

lemma get8_put_bytes_other [buf_simps]:
  "p + length bs \<le> length b \<Longrightarrow> q < p \<Longrightarrow> get8 q (put_bytes p bs b) = get8 q b"
  by (simp add: get8_def nth_put_bytes)

lemma pack_value_type:
  assumes "wf_packet b" "sendable d v"
  shows "get8 off_type (snd (pack_value v b)) = get8 off_type b"
    and "get8 off_datatype (snd (pack_value v b)) = dtype_code d"
    and "fst (pack_value v b) = HXB_ERR_SUCCESS"
  using assms
  by (cases d; simp add: pack_value_def Let_def sendable_def blob_size_def wf_packet_def buf_simps offset_simps)+

lemma put8_put_bytes_last:
  "p + length bs \<le> length b \<Longrightarrow> bs \<noteq> [] \<Longrightarrow> q = p + length bs - 1 \<Longrightarrow> last bs = z \<Longrightarrow>
     put8 q z (put_bytes p bs b) = put_bytes p bs b"
  by (rule nth_equalityI)
     (auto simp: put8_def nth_list_update nth_put_bytes last_conv_nth simp flip: length_greater_0_conv)

lemma pack_value_content:
  assumes "wf_packet b" "sendable d v"
  shows "d = HXB_DTYPE_BOOL \<or> d = HXB_DTYPE_UINT8 \<Longrightarrow> get8 off_value (snd (pack_value v b)) = v_u8 v"
    and "d = HXB_DTYPE_UINT32 \<or> d = HXB_DTYPE_TIMESTAMP \<Longrightarrow> get32 off_value (snd (pack_value v b)) = v_u32 v"
    and "d = HXB_DTYPE_FLOAT \<Longrightarrow> get32 off_value (snd (pack_value v b)) = v_float v"
    and "d = HXB_DTYPE_DATETIME \<Longrightarrow> get_datetime off_value (snd (pack_value v b)) = v_datetime v"
    and "blob_size d \<noteq> 0 \<Longrightarrow> get_bytes off_value (blob_size d) (snd (pack_value v b)) = vblob v"
proof -
  have len: "length b = 141" using assms(1) by (simp add: wf_packet_def offset_simps)
  show "d = HXB_DTYPE_BOOL \<or> d = HXB_DTYPE_UINT8 \<Longrightarrow> get8 off_value (snd (pack_value v b)) = v_u8 v"
    "d = HXB_DTYPE_UINT32 \<or> d = HXB_DTYPE_TIMESTAMP \<Longrightarrow> get32 off_value (snd (pack_value v b)) = v_u32 v"
    "d = HXB_DTYPE_FLOAT \<Longrightarrow> get32 off_value (snd (pack_value v b)) = v_float v"
    "d = HXB_DTYPE_DATETIME \<Longrightarrow> get_datetime off_value (snd (pack_value v b)) = v_datetime v"
    using assms(2) len by (auto simp: pack_value_def Let_def sendable_def buf_simps offset_simps)
  assume bs: "blob_size d \<noteq> 0"
  then have lb: "length (vblob v) = blob_size d" using assms(2) by (simp add: sendable_def)
  have "d = HXB_DTYPE_128STRING \<Longrightarrow> last (vblob v) = 0"
    using assms(2) lb by (subst last_conv_nth) (auto simp: sendable_def blob_size_def offset_simps)
  then have "snd (pack_value v b) = put_bytes off_value (vblob v) (put8 off_datatype (vdatatype v) b)"
    using assms(2) bs lb len
    by (auto simp: pack_value_def Let_def sendable_def blob_size_def offset_simps
        intro!: put8_put_bytes_last split: if_splits)
  moreover have "off_value + length (vblob v) \<le> length (put8 off_datatype (vdatatype v) b)"
    using lb len by (simp add: blob_size_def offset_simps)
  ultimately show "get_bytes off_value (blob_size d) (snd (pack_value v b)) = vblob v"
    using lb by (simp add: get_bytes_put_bytes_same)
qed

text \<open>The fields of the finished packet in terms of the packet before \<open>prepare_for_send\<close>.\<close>

lemma finished_fields:
  fixes p :: buf and d :: hxb_datatype
  defines "q \<equiv> put_crc (value_size d) (net_value d (net_eid (with_header p)))"
  assumes wf: "wf_packet p" and u: "d \<noteq> HXB_DTYPE_UNDEFINED"
  shows "get8 off_datatype q = get8 off_datatype p"
    and "d = HXB_DTYPE_BOOL \<or> d = HXB_DTYPE_UINT8 \<Longrightarrow> get8 off_value q = get8 off_value p"
    and "d = HXB_DTYPE_UINT32 \<or> d = HXB_DTYPE_TIMESTAMP \<or> d = HXB_DTYPE_FLOAT \<Longrightarrow>
          uip_ntohl (get32 off_value q) = get32 off_value p"
    and "d = HXB_DTYPE_DATETIME \<Longrightarrow> (get_datetime off_value q)
          \<lparr>year := uip_ntohs (year (get_datetime off_value q))\<rparr> = get_datetime off_value p"
    and "blob_size d \<noteq> 0 \<Longrightarrow> get_bytes off_value (blob_size d) q = get_bytes off_value (blob_size d) p"
proof -
  let ?x = "net_eid (with_header p)"
  have len: "length ?x = 141" using wf wf_with_header [OF wf] by (simp add: net_eid_def wf_packet_def offset_simps)
  have x: "get8 10 ?x = get8 10 p" "get8 11 ?x = get8 11 p" "get32 11 ?x = get32 11 p"
    "get_datetime 11 ?x = get_datetime 11 p" "get_bytes 11 n ?x = get_bytes 11 n p" for n
    using wf by (simp_all add: buf_simps get_datetime_def)
  have size: "17 \<le> value_size d \<or> d = HXB_DTYPE_BOOL \<or> d = HXB_DTYPE_UINT8" "14 \<le> value_size d"
    using u by (cases d; simp add: value_size_def offset_simps)+
  have "get8 10 q = get8 10 (net_value d ?x)" unfolding q_def using size by (simp add: buf_simps)
  also have "\<dots> = get8 10 p" using get8_net(4) [of d ?x] by (simp add: x offset_simps)
  finally show "get8 off_datatype q = get8 off_datatype p" by (simp add: offset_simps)
  show "d = HXB_DTYPE_BOOL \<or> d = HXB_DTYPE_UINT8 \<Longrightarrow> get8 off_value q = get8 off_value p"
    unfolding q_def using x by (auto simp: value_size_def net_value_def buf_simps offset_simps)
  show "d = HXB_DTYPE_UINT32 \<or> d = HXB_DTYPE_TIMESTAMP \<or> d = HXB_DTYPE_FLOAT \<Longrightarrow>
      uip_ntohl (get32 off_value q) = get32 off_value p"
    unfolding q_def using x len by (auto simp: value_size_def net_value_def htonf_at_def buf_simps offset_simps)
  show "d = HXB_DTYPE_DATETIME \<Longrightarrow> (get_datetime off_value q)
      \<lparr>year := uip_ntohs (year (get_datetime off_value q))\<rparr> = get_datetime off_value p"
    unfolding q_def using x(4) len
    by (simp add: value_size_def net_value_def get_datetime_def buf_simps offset_simps)
  show "blob_size d \<noteq> 0 \<Longrightarrow> get_bytes off_value (blob_size d) q = get_bytes off_value (blob_size d) p"
    unfolding q_def using x(5)
    by (auto simp: value_size_def net_value_def blob_size_def buf_simps offset_simps split: if_splits)
qed

lemma extract_prepared:
  assumes "wf_packet b" "get8 off_type b = ptype_code t" "t = HXB_PTYPE_INFO \<or> t = HXB_PTYPE_WRITE"
    and "sendable d v" "wf_value w"
  shows "\<exists>b' w'. prepare_for_send (snd (pack_value v b)) = (value_size d, b') \<and>
     extract_value b' w = (HXB_ERR_SUCCESS, w') \<and> same_value d w' v"
proof -
  let ?p = "snd (pack_value v b)"
  let ?q = "put_crc (value_size d) (net_value d (net_eid (with_header ?p)))"
  note pt = pack_value_type [OF assms(1,4)] and pc = pack_value_content [OF assms(1,4)]
  have wf: "wf_packet ?p" using assms(1,4) by (rule wf_pack_value)
  have u: "d \<noteq> HXB_DTYPE_UNDEFINED" and vd: "vdatatype v = dtype_code d"
    using assms(4) by (simp_all add: sendable_def)
  have prep: "prepare_for_send ?p = (value_size d, ?q)"
    by (rule prepare_value [OF wf _ assms(3) pt(2) u]) (simp add: pt assms(2))
  note ff = finished_fields [OF wf u]
  have "\<exists>w'. extract_value ?q w = (HXB_ERR_SUCCESS, w') \<and> same_value d w' v"
    using ff pc u assms(5) unfolding extract_value_def Let_def ff(1) pt(2)
    by (cases d) (simp_all add: same_value_def vd blob_size_def offset_simps)
  then show ?thesis using prep by blast
qed

section \<open>Corruption is detected\<close>

text \<open>
  One changed byte of a packet that passed the check, the type bytes apart (they select how much
  is checked): the check fails.
\<close>

lemma take_update_split:
  "i < n \<Longrightarrow> i < length b \<Longrightarrow> take n (b[i := c]) = take i b @ c # drop (Suc i) (take n b)"
  by (auto simp: upd_conv_take_nth_drop take_Cons' drop_take)

lemma check_crc_byte_changed:
  assumes ok: "check_crc b = HXB_ERR_SUCCESS" and len: "crc_data_len b = Some len" "len \<le> length b"
    and i: "i + 2 < len" "i \<noteq> off_type" "i \<noteq> off_datatype" and c: "c \<noteq> b ! i"
  shows "check_crc (b[i := c]) = HXB_ERR_CRCFAILED"
proof -
  let ?b = "b[i := c]"
  have "get8 off_type ?b = get8 off_type b" "get8 off_datatype ?b = get8 off_datatype b"
    using i by (simp_all add: get8_def)
  then have len': "crc_data_len ?b = Some len" using len(1) by (simp only: crc_data_len_def)
  have crc: "get16 (len - 2) ?b = get16 (len - 2) b" using i by (simp add: get16_def)
  have il: "i < len - 2" "i < length b" using i len by auto
  have "take (len - 2) b = take i b @ b ! i # drop (Suc i) (take (len - 2) b)"
    using take_update_split [OF il, of "b ! i"] by simp
  moreover have "take (len - 2) ?b = take i b @ c # drop (Suc i) (take (len - 2) b)"
    by (rule take_update_split [OF il])
  ultimately have "crc16_data (take (len - 2) ?b) 0 \<noteq> crc16_data (take (len - 2) b) 0"
    using crc16_data_byte_changed [OF c] by metis
  then show ?thesis using ok len len' crc by (simp add: check_crc_def split: if_splits)
qed

text \<open>What is sent has the length that its type bytes select.\<close>

lemma prepare_len:
  assumes "wf_packet b" "prepare_for_send b = (len, b')" "len \<noteq> 0"
  shows "wf_packet b' \<and> crc_data_len b' = Some len \<and> len \<le> sizeof_packet_any"
  using assms
proof (cases rule: prepare_invalid)
  case (valued t d)
  let ?b0 = "net_value d (net_eid (with_header b))"
  have eq: "len = value_size d" "b' = put_crc len ?b0"
    using prepare_value [OF assms(1) valued] assms(2) by simp_all
  have len: "12 < len" "len \<le> sizeof_packet_any"
    using eq(1) valued(4) by (cases d; simp add: value_size_def offset_simps)+
  have "get8 off_type ?b0 = ptype_code t" "get8 off_datatype ?b0 = dtype_code d"
    using valued assms(1) by (simp_all add: buf_simps)
  from crc_data_len_value [OF this(1) valued(2) this(2)] have "crc_data_len ?b0 = Some len"
    using valued(4) by (cases d) (simp_all add: eq(1) value_size_def)
  with len assms(1) show ?thesis unfolding eq(2) by (simp add: crc_data_len_put_crc)
next
  case (other t)
  obtain b0 where b0: "b' = put_crc len b0" "wf_packet b0" "get8 off_type b0 = ptype_code t"
    and len: "len = (if t = HXB_PTYPE_ERROR then sizeof_p_error
       else if t = HXB_PTYPE_EPINFO then sizeof_p_128string else sizeof_p_query)"
    using prepare_other [OF assms(1) other] assms(1,2) other(1) by (auto simp: buf_simps split: if_splits)
  have "get8 off_type b' = ptype_code t" unfolding b0(1) b0(3) [symmetric]
    using len by (simp add: buf_simps offset_simps)
  from crc_data_len_other [OF this other(2,3)] have "crc_data_len b' = Some len" by (simp add: len)
  then show ?thesis using b0 len by (simp add: offset_simps)
qed

text \<open>And it starts with the magic bytes, its type, and no flags.\<close>

lemma take_6_header: "wf_packet b \<Longrightarrow> take 6 (with_header b) = HXB_HEADER @ [get8 off_type b, 0]"
proof -
  assume "wf_packet b"
  then have "length b = 141" by (simp add: wf_packet_def offset_simps)
  then have "drop 4 b = b ! 4 # b ! 5 # drop 6 b"
    using Cons_nth_drop_Suc [of 4 b] Cons_nth_drop_Suc [of 5 b] by simp
  then have "with_header b = HXB_HEADER @ b ! 4 # 0 # drop 6 b"
    by (simp add: with_header_def put8_def put_bytes_def offset_simps HXB_HEADER_length list_update_append)
  then show ?thesis by (simp add: get8_def offset_simps)
qed

lemma prepare_header:
  assumes "wf_packet b" "prepare_for_send b = (len, b')" "len \<noteq> 0"
  shows "take 6 b' = HXB_HEADER @ [get8 off_type b, 0]"
  using assms
proof (cases rule: prepare_invalid)
  case (valued t d)
  have "b' = put_crc (value_size d) (net_value d (net_eid (with_header b)))" "8 \<le> value_size d"
    using prepare_value [OF assms(1) valued] assms(2) valued(4) by (cases d; simp add: value_size_def offset_simps)+
  then show ?thesis using take_6_header [OF assms(1)]
    by (simp add: put_crc_def net_value_def net_eid_def htonf_at_def buf_simps offset_simps)
next
  case (other t)
  then show ?thesis using prepare_other [OF assms(1) other] assms(2) take_6_header [OF assms(1)]
    by (auto simp: put_crc_def net_eid_def buf_simps offset_simps split: if_splits)
qed

lemma header_fields: "take 6 b = HXB_HEADER @ [x, 0] \<Longrightarrow> get_bytes off_magic 4 b = HXB_HEADER \<and> get8 off_flags b = 0"
proof -
  assume t: "take 6 b = HXB_HEADER @ [x, 0]"
  have "get_bytes off_magic 4 b = take 4 (take 6 b)" by (simp add: get_bytes_def offset_simps)
  moreover have "get8 off_flags b = take 6 b ! 5" by (simp add: get8_def offset_simps)
  ultimately show ?thesis by (simp add: t HXB_HEADER_def)
qed

section \<open>Properties\<close>

text \<open>C40: A value of any data type that is packed into an INFO or WRITE packet and prepared for sending (byte
  order, checksum) is accepted by the checksum test of the receiver, which extracts the same value.\<close>

theorem value_packet_round_trip:
  assumes "wf_packet b" "get8 off_type b = ptype_code t" "t = HXB_PTYPE_INFO \<or> t = HXB_PTYPE_WRITE"
    and "sendable d v" "wf_value w"
  shows "\<exists>b' w'. prepare_for_send (snd (pack_value v b)) = (value_size d, b') \<and>
     check_crc b' = HXB_ERR_SUCCESS \<and> extract_value b' w = (HXB_ERR_SUCCESS, w') \<and> same_value d w' v"
proof -
  obtain b' w' where p: "prepare_for_send (snd (pack_value v b)) = (value_size d, b')"
    and e: "extract_value b' w = (HXB_ERR_SUCCESS, w')" "same_value d w' v"
    using extract_prepared [OF assms] by blast
  have "wf_packet (snd (pack_value v b))" by (rule wf_pack_value [OF assms(1,4)])
  moreover have "value_size d \<noteq> 0" using assms(4) by (cases d) (simp_all add: sendable_def value_size_def offset_simps)
  ultimately have "check_crc b' = HXB_ERR_SUCCESS" using prepared_passes_check p by blast
  with p e show ?thesis by blast
qed

theorem value_packet_round_trip_witness:
  "\<exists>b' w'. prepare_for_send (snd (pack_value (set_u32 42 (fresh_value\<lparr>vdatatype := 3\<rparr>)) (put8 4 1 (replicate 141 0)))) = (17, b') \<and>
     check_crc b' = HXB_ERR_SUCCESS \<and> extract_value b' fresh_value = (HXB_ERR_SUCCESS, w') \<and>
     same_value HXB_DTYPE_UINT32 w' (set_u32 42 (fresh_value\<lparr>vdatatype := 3\<rparr>))"
proof -
  have "sendable HXB_DTYPE_UINT32 (set_u32 42 (fresh_value\<lparr>vdatatype := 3\<rparr>))"
    by (simp add: sendable_def blob_size_def)
  moreover have "get8 off_type (put8 4 1 (replicate 141 0)) = ptype_code HXB_PTYPE_INFO"
    by (simp add: buf_simps offset_simps)
  ultimately show ?thesis
    using value_packet_round_trip [of "put8 4 1 (replicate 141 0)" HXB_PTYPE_INFO HXB_DTYPE_UINT32
        "set_u32 42 (fresh_value\<lparr>vdatatype := 3\<rparr>)" fresh_value]
    by (simp add: wf_packet_def offset_simps value_size_def)
qed

text \<open>A packet that passes the checksum test fails it after any one byte covered by the checksum has been
  changed (the two bytes that select the length apart).\<close>

theorem corrupted_byte_rejected:
  assumes "check_crc b = HXB_ERR_SUCCESS" "crc_data_len b = Some len" "len \<le> length b"
    and "i + 2 < len" "i \<noteq> off_type" "i \<noteq> off_datatype" "c \<noteq> b ! i"
  shows "check_crc (b[i := c]) = HXB_ERR_CRCFAILED"
  using assms by (rule check_crc_byte_changed)

theorem corrupted_byte_rejected_witness:
  "check_crc ((snd (prepare_for_send (put8 4 2 (replicate 141 0))))[7 := snd (prepare_for_send (put8 4 2 (replicate 141 0))) ! 7 + 1])
     = HXB_ERR_CRCFAILED"
proof -
  let ?q = "put8 4 2 (replicate 141 0)"
  let ?b = "snd (prepare_for_send ?q)"
  have wf: "wf_packet ?q" by (simp add: wf_packet_def offset_simps)
  have t: "get8 off_type ?q = ptype_code HXB_PTYPE_QUERY" by (simp add: buf_simps offset_simps)
  from prepare_other [OF wf t] obtain b where p: "prepare_for_send ?q = (sizeof_p_query, b)" by auto
  have "sizeof_p_query \<noteq> 0" by (simp add: offset_simps)
  then have "check_crc b = HXB_ERR_SUCCESS" "crc_data_len b = Some sizeof_p_query" "length b = 141"
    using prepared_passes_check [OF wf p] prepare_len [OF wf p] by (simp_all add: wf_packet_def offset_simps)
  then show ?thesis
    using corrupted_byte_rejected [of b sizeof_p_query 7 "b ! 7 + 1"] p by (simp add: offset_simps)
qed

end
