(* ===== verification/Timer.thy ===== *)
theory Timer
  imports Prelude
begin

text \<open>
  The two passive timers of the operating system, \<^verbatim>\<open>core/sys/timer.c\<close> (clock ticks, sixteen bit)
  and \<^verbatim>\<open>core/sys/stimer.c\<close> (seconds, 32 bit). Both compute with the wrapping clock, so their
  answers are only right within a window; the lemmas say which one. The value of the clock is an
  argument of every operation that reads it.
\<close>

type_synonym clock_time = u16

definition CLOCK_SECOND :: clock_time where "CLOCK_SECOND = 125"

section \<open>Tick timers\<close>

record timer =
  tm_start :: clock_time
  tm_interval :: clock_time

definition timer_set :: "clock_time \<Rightarrow> clock_time \<Rightarrow> timer \<Rightarrow> timer" where
  "timer_set now interval t = t\<lparr>tm_interval := interval, tm_start := now\<rparr>"

definition timer_reset :: "timer \<Rightarrow> timer" where
  "timer_reset t = t\<lparr>tm_start := tm_start t + tm_interval t\<rparr>"

definition timer_restart :: "clock_time \<Rightarrow> timer \<Rightarrow> timer" where
  "timer_restart now t = t\<lparr>tm_start := now\<rparr>"

definition timer_expired :: "clock_time \<Rightarrow> timer \<Rightarrow> bool" where
  "timer_expired now t = (let diff = (now - tm_start t) + 1 in tm_interval t < diff)"

definition timer_remaining :: "clock_time \<Rightarrow> timer \<Rightarrow> clock_time" where
  "timer_remaining now t = tm_start t + tm_interval t - now"

section \<open>Second timers\<close>

record stimer =
  st_start :: u32
  st_interval :: u32

text \<open>The macro \<open>SCLOCK_GEQ\<close>.\<close>

definition SCLOCK_GEQ :: "u32 \<Rightarrow> u32 \<Rightarrow> bool" where
  "SCLOCK_GEQ a b = (a - b < drop_bit 1 (NOT 0))"

definition stimer_set :: "u32 \<Rightarrow> u32 \<Rightarrow> stimer \<Rightarrow> stimer" where
  "stimer_set now interval t = t\<lparr>st_interval := interval, st_start := now\<rparr>"

definition stimer_reset :: "stimer \<Rightarrow> stimer" where
  "stimer_reset t = t\<lparr>st_start := st_start t + st_interval t\<rparr>"

definition stimer_restart :: "u32 \<Rightarrow> stimer \<Rightarrow> stimer" where
  "stimer_restart now t = t\<lparr>st_start := now\<rparr>"

definition stimer_expired :: "u32 \<Rightarrow> stimer \<Rightarrow> bool" where
  "stimer_expired now t = SCLOCK_GEQ now (st_start t + st_interval t)"

definition stimer_remaining :: "u32 \<Rightarrow> stimer \<Rightarrow> u32" where
  "stimer_remaining now t = st_start t + st_interval t - now"

definition stimer_elapsed :: "u32 \<Rightarrow> stimer \<Rightarrow> u32" where
  "stimer_elapsed now t = now - st_start t"

section \<open>The window in which a timer tells the truth\<close>

text \<open>\<open>n\<close> ticks after the start, the timer is expired exactly when \<open>n\<close> reaches the interval --
  unless the difference, to which one is added, has wrapped to zero.\<close>

lemma unat_small: "n < 2 ^ LENGTH('a::len) \<Longrightarrow> unat (of_nat n :: 'a word) = n"
  by (simp add: unat_of_nat)

lemma timer_expired_iff:
  assumes "n < 2 ^ 16"
  shows "timer_expired (now + of_nat n) (timer_set now iv t) \<longleftrightarrow> unat iv \<le> n \<and> n < 2 ^ 16 - 1"
proof -
  have d: "now + of_nat n - now + 1 = of_nat (n + 1)" by (simp add: algebra_simps)
  have "unat (of_nat (n + 1) :: u16) = (if n + 1 = 2 ^ 16 then 0 else n + 1)"
    using assms unat_small [of "n + 1", where 'a = 16] by (cases "n + 1 = 2 ^ 16") (simp_all del: of_nat_add of_nat_Suc)
  moreover have "timer_expired (now + of_nat n) (timer_set now iv t) \<longleftrightarrow> unat iv < unat (of_nat (n + 1) :: u16)"
    unfolding timer_expired_def timer_set_def Let_def
    by (simp add: d word_less_nat_alt add.commute)
  ultimately show ?thesis using assms by auto
qed

lemma timer_remaining_eq:
  assumes "n \<le> unat iv"
  shows "unat (timer_remaining (now + of_nat n) (timer_set now iv t)) = unat iv - n"
proof -
  have "now + iv - (now + of_nat n) = of_nat (unat iv - n)" using assms by (simp add: of_nat_diff)
  moreover have "unat iv < 2 ^ LENGTH(16)" by (rule unsigned_less)
  then have "unat iv - n < 2 ^ 16" by simp
  then have "unat (of_nat (unat iv - n) :: u16) = unat iv - n" by (intro unat_small) simp
  ultimately show ?thesis
    by (simp add: timer_remaining_def timer_set_def)
qed

text \<open>A timer that is reset when it expired keeps the grid of its first start.\<close>

lemma timer_reset_grid: "tm_start ((timer_reset ^^ k) t) = tm_start t + of_nat k * tm_interval t"
  "tm_interval ((timer_reset ^^ k) t) = tm_interval t"
  by (induction k) (simp_all add: timer_reset_def algebra_simps)

lemma SCLOCK_GEQ_iff: "SCLOCK_GEQ a b \<longleftrightarrow> unat (a - b) < 2 ^ 31 - 1"
proof -
  have "drop_bit 1 (NOT 0) = (0x7fffffff :: u32)" by (simp add: mask_eq_exp_minus_1)
  then show ?thesis by (simp only: SCLOCK_GEQ_def word_less_nat_alt) simp
qed

lemma stimer_expired_iff:
  assumes "n < 2 ^ 32" "unat iv \<le> 2 ^ 31"
  shows "stimer_expired (now + of_nat n) (stimer_set now iv t) \<longleftrightarrow> unat iv \<le> n \<and> n < unat iv + (2 ^ 31 - 1)"
proof (cases "unat iv \<le> n")
  case True
  then have d: "now + of_nat n - (now + iv) = of_nat (n - unat iv)" by (simp add: of_nat_diff)
  have "unat (of_nat (n - unat iv) :: u32) = n - unat iv" using assms(1) by (intro unat_small) simp
  then show ?thesis using True
    unfolding stimer_expired_def stimer_set_def SCLOCK_GEQ_iff by (simp only: stimer.simps d) auto
next
  case False
  then have d: "now + of_nat n - (now + iv) = - of_nat (unat iv - n)" by (simp add: of_nat_diff)
  have pos: "0 < unat iv - n" "unat iv - n \<le> 2 ^ 31" using False assms(2) by auto
  have "unat (- of_nat (unat iv - n) :: u32) = 2 ^ 32 - (unat iv - n)"
  proof -
    have "(- of_nat (unat iv - n) :: u32) = of_nat (2 ^ 32 - (unat iv - n))"
      using pos by (subst of_nat_diff) simp_all
    moreover have "unat (of_nat (2 ^ 32 - (unat iv - n)) :: u32) = 2 ^ 32 - (unat iv - n)"
      using pos by (intro unat_small) simp
    ultimately show ?thesis by (simp only:)
  qed
  then show ?thesis using False pos
    unfolding stimer_expired_def stimer_set_def SCLOCK_GEQ_iff by (simp only: stimer.simps d) auto
qed

section \<open>Properties\<close>

text \<open>A tick timer started at any point of the wrapping clock is expired after \<open>n\<close> ticks exactly when \<open>n\<close> has
  reached the interval, for every \<open>n\<close> but the last tick before the clock comes round; until then the remaining
  time counts down to zero, and resets keep the timer on the grid of its first start.\<close>

theorem tick_timer_expires_on_time:
  assumes "n < 2 ^ 16 - 1"
  shows "(timer_expired (now + of_nat n) (timer_set now iv t) \<longleftrightarrow> unat iv \<le> n) \<and>
    (n \<le> unat iv \<longrightarrow> unat (timer_remaining (now + of_nat n) (timer_set now iv t)) = unat iv - n) \<and>
    tm_start ((timer_reset ^^ k) (timer_set now iv t)) = now + of_nat k * iv"
  using assms timer_expired_iff [of n now iv t] timer_remaining_eq [of n iv now t] timer_reset_grid [of k "timer_set now iv t"]
  by (simp add: timer_set_def)

theorem tick_timer_expires_on_time_witness:
  "timer_expired (0xfff0 + of_nat 40) (timer_set 0xfff0 40 \<lparr>tm_start = 0, tm_interval = 0\<rparr>)"
  using tick_timer_expires_on_time [of 40 "0xfff0" 40 "\<lparr>tm_start = 0, tm_interval = 0\<rparr>" 0] by simp

text \<open>A second timer of at most 2^31 seconds is expired after \<open>n\<close> seconds from its interval on, and reads as
  unexpired again once 2^31 - 1 seconds have passed since it expired.\<close>

theorem second_timer_window:
  assumes "n < 2 ^ 32" "unat iv \<le> 2 ^ 31"
  shows "stimer_expired (now + of_nat n) (stimer_set now iv t) \<longleftrightarrow> unat iv \<le> n \<and> n < unat iv + (2 ^ 31 - 1)"
  using assms by (rule stimer_expired_iff)

theorem second_timer_window_witness:
  "stimer_expired (0xfffffff0 + of_nat 40) (stimer_set 0xfffffff0 40 \<lparr>st_start = 0, st_interval = 0\<rparr>)"
  using second_timer_window [of 40 40 "0xfffffff0" "\<lparr>st_start = 0, st_interval = 0\<rparr>"] by simp

end
