(* ===== verification/SM_Eeprom.thy ===== *)
theory SM_Eeprom
  imports Eeprom Hexabus_Types
begin

text \<open>
  The rule tables of the state machine in EEPROM (\<^verbatim>\<open>state_machine_eeprom.c\<close> and the structs of
  \<^verbatim>\<open>shared/hexabus_statemachine_structs.h\<close>): the packed layouts of conditions and transitions, the
  accessors, and the chunk-wise upload. The value inside a table entry is stored with its union
  bytes; a pointer member read back from there does not point at anything, so its blob is empty.
\<close>

section \<open>Table entries\<close>

record sm_condition =
  sourceIP :: ip6
  sourceEID :: u32
  cond_op :: u8
  cond_value :: hxb_value

record sm_transition =
  fromState :: u8
  trans_cond :: u8
  trans_eid :: u32
  goodState :: u8
  badState :: u8
  trans_value :: hxb_value

definition sizeof_condition :: nat where [offset_simps]: "sizeof_condition = 30"
definition sizeof_transition :: nat where [offset_simps]: "sizeof_transition = 17"

definition bytes32 :: "u32 \<Rightarrow> buf" where
  "bytes32 w = [byte_of 0 w, byte_of 1 w, byte_of 2 w, byte_of 3 w]"

definition condition_bytes :: "sm_condition \<Rightarrow> buf" where
  "condition_bytes c = sourceIP c @ bytes32 (sourceEID c) @ [cond_op c] @
     [vdatatype (cond_value c)] @ vraw (cond_value c)"

definition condition_of :: "buf \<Rightarrow> sm_condition" where
  "condition_of b = \<lparr>sourceIP = get_bytes 0 16 b, sourceEID = get32 16 b, cond_op = get8 20 b,
     cond_value = \<lparr>vdatatype = get8 21 b, vraw = get_bytes 22 8 b, vblob = []\<rparr>\<rparr>"

definition transition_bytes :: "sm_transition \<Rightarrow> buf" where
  "transition_bytes t = [fromState t, trans_cond t] @ bytes32 (trans_eid t) @ [goodState t, badState t] @
     [vdatatype (trans_value t)] @ vraw (trans_value t)"

definition transition_of :: "buf \<Rightarrow> sm_transition" where
  "transition_of b = \<lparr>fromState = get8 0 b, trans_cond = get8 1 b, trans_eid = get32 2 b,
     goodState = get8 6 b, badState = get8 7 b,
     trans_value = \<lparr>vdatatype = get8 8 b, vraw = get_bytes 9 8 b, vblob = []\<rparr>\<rparr>"

definition wf_condition :: "sm_condition \<Rightarrow> bool" where
  "wf_condition c = (length (sourceIP c) = 16 \<and> wf_value (cond_value c) \<and> vblob (cond_value c) = [])"

definition wf_transition :: "sm_transition \<Rightarrow> bool" where
  "wf_transition t = (wf_value (trans_value t) \<and> vblob (trans_value t) = [])"

lemma length_bytes32 [simp]: "length (bytes32 w) = 4"
  by (simp add: bytes32_def)

lemma length_condition_bytes: "wf_condition c \<Longrightarrow> length (condition_bytes c) = sizeof_condition"
  by (simp add: condition_bytes_def wf_condition_def wf_value_def sizeof_condition_def)

lemma length_transition_bytes: "wf_transition t \<Longrightarrow> length (transition_bytes t) = sizeof_transition"
  by (simp add: transition_bytes_def wf_transition_def wf_value_def sizeof_transition_def)

lemma condition_round_trip: "wf_condition c \<Longrightarrow> condition_of (condition_bytes c) = c"
  by (cases c) (auto simp: condition_of_def condition_bytes_def wf_condition_def wf_value_def bytes32_def
      get8_def get32_def get_bytes_def nth_append intro!: hxb_value.equality)

lemma transition_round_trip: "wf_transition t \<Longrightarrow> transition_of (transition_bytes t) = t"
  by (cases t) (auto simp: transition_of_def transition_bytes_def wf_transition_def wf_value_def bytes32_def
      get8_def get32_def get_bytes_def nth_append eval_nat_numeral intro!: hxb_value.equality)

section \<open>Accessors\<close>

definition sm_get_id :: "eeprom \<Rightarrow> buf" where
  "sm_get_id ee = eeprom_read_block ee EE_STATEMACHINE_ID EE_STATEMACHINE_ID_SIZE"

definition sm_set_id :: "buf \<Rightarrow> eeprom \<Rightarrow> eeprom" where
  "sm_set_id b ee = eeprom_update_block EE_STATEMACHINE_ID (take EE_STATEMACHINE_ID_SIZE b) ee"

definition sm_id_is_zero :: "eeprom \<Rightarrow> bool" where
  "sm_id_is_zero ee = (fold (\<lambda>b sum. sum OR b) (sm_get_id ee) 0 = 0)"

definition sm_get_number_of_conditions :: "eeprom \<Rightarrow> u8" where
  "sm_get_number_of_conditions ee = eeprom_read_byte ee EE_STATEMACHINE_N_CONDITIONS"

definition sm_set_number_of_conditions :: "u8 \<Rightarrow> eeprom \<Rightarrow> eeprom" where
  "sm_set_number_of_conditions n ee = eeprom_write_byte EE_STATEMACHINE_N_CONDITIONS n ee"

definition sm_get_number_of_transitions :: "bool \<Rightarrow> eeprom \<Rightarrow> u8" where
  "sm_get_number_of_transitions datetime ee =
     (if datetime then eeprom_read_byte ee EE_STATEMACHINE_N_DT_TRANSITIONS
      else eeprom_read_byte ee EE_STATEMACHINE_N_TRANSITIONS)"

definition sm_set_number_of_transitions :: "bool \<Rightarrow> u8 \<Rightarrow> eeprom \<Rightarrow> eeprom" where
  "sm_set_number_of_transitions datetime n ee =
     (if datetime then eeprom_write_byte EE_STATEMACHINE_N_DT_TRANSITIONS n ee
      else eeprom_write_byte EE_STATEMACHINE_N_TRANSITIONS n ee)"

definition sm_write_condition :: "u8 \<Rightarrow> sm_condition \<Rightarrow> eeprom \<Rightarrow> eeprom" where
  "sm_write_condition index cond ee =
     eeprom_update_block (EE_STATEMACHINE_CONDITIONS + sizeof_condition * unat index) (condition_bytes cond) ee"

definition sm_get_condition :: "u8 \<Rightarrow> eeprom \<Rightarrow> sm_condition" where
  "sm_get_condition index ee = condition_of
     (eeprom_read_block ee (EE_STATEMACHINE_CONDITIONS + sizeof_condition * unat index) sizeof_condition)"

definition sm_transition_base :: "bool \<Rightarrow> nat" where
  "sm_transition_base datetime =
     (if datetime then EE_STATEMACHINE_DATETIME_TRANSITIONS else EE_STATEMACHINE_TRANSITIONS)"

definition sm_write_transition :: "bool \<Rightarrow> u8 \<Rightarrow> sm_transition \<Rightarrow> eeprom \<Rightarrow> eeprom" where
  "sm_write_transition datetime index t ee =
     eeprom_update_block (sm_transition_base datetime + sizeof_transition * unat index) (transition_bytes t) ee"

definition sm_get_transition :: "bool \<Rightarrow> u8 \<Rightarrow> eeprom \<Rightarrow> sm_transition" where
  "sm_get_transition datetime index ee = transition_of
     (eeprom_read_block ee (sm_transition_base datetime + sizeof_transition * unat index) sizeof_transition)"

definition EE_STATEMACHINE_CHUNK_SIZE :: nat where [offset_simps]: "EE_STATEMACHINE_CHUNK_SIZE = 64"

text \<open>All the EEPROM that a state machine image occupies.\<close>

definition sm_area_size :: nat where [offset_simps]:
  "sm_area_size = EE_STATEMACHINE_ID_SIZE +
     EE_STATEMACHINE_N_CONDITIONS_SIZE + EE_STATEMACHINE_CONDITIONS_SIZE
     + EE_STATEMACHINE_N_DT_TRANSITIONS_SIZE + EE_STATEMACHINE_DATETIME_TRANSITIONS_SIZE
     + EE_STATEMACHINE_N_TRANSITIONS_SIZE + EE_STATEMACHINE_TRANSITIONS_SIZE"

definition sm_write_chunk :: "u8 \<Rightarrow> buf \<Rightarrow> eeprom \<Rightarrow> bool \<times> eeprom" where
  "sm_write_chunk chunk_id data ee =
     (if chunk_id = 0 then
        (if data ! 0 = 0 then (True, ee)
         else (True, eeprom_update_block EE_DOMAIN_NAME (take EE_DOMAIN_NAME_SIZE data) ee))
      else
        (let chunk_id = chunk_id - 1 in
         if (unat chunk_id + 1) * EE_STATEMACHINE_CHUNK_SIZE > sm_area_size then (False, ee)
         else (True, eeprom_update_block (EE_STATEMACHINE_ID + unat chunk_id * EE_STATEMACHINE_CHUNK_SIZE)
                       (take EE_STATEMACHINE_CHUNK_SIZE data) ee)))"

section \<open>Correctness\<close>

lemma fold_or_zero: "(fold (\<lambda>b sum. sum OR b) bs (a :: u8) = 0) = (a = 0 \<and> (\<forall>b \<in> set bs. b = 0))"
  by (induction bs arbitrary: a) (auto simp: or_eq_0_iff)

lemma sm_id_is_zero_iff: "sm_id_is_zero ee \<longleftrightarrow> sm_get_id ee = replicate 16 0"
proof -
  have len: "length (sm_get_id ee) = 16" by (simp add: sm_get_id_def ee.rd_length offset_simps)
  show ?thesis
    unfolding sm_id_is_zero_def fold_or_zero all_eq_replicate_iff len by blast
qed

lemma condition_same:
  "wf_condition c \<Longrightarrow> sm_get_condition i (sm_write_condition i c ee) = c"
  by (simp add: sm_get_condition_def sm_write_condition_def ee.table_same length_condition_bytes condition_round_trip)

lemma condition_other:
  "wf_condition c \<Longrightarrow> i \<noteq> j \<Longrightarrow> sm_get_condition j (sm_write_condition i c ee) = sm_get_condition j ee"
  by (simp add: sm_get_condition_def sm_write_condition_def ee.table_other length_condition_bytes word_unat_eq_iff)

lemma transition_same:
  "wf_transition t \<Longrightarrow> sm_get_transition d i (sm_write_transition d i t ee) = t"
  by (simp add: sm_get_transition_def sm_write_transition_def ee.table_same length_transition_bytes transition_round_trip)

lemma transition_other:
  "wf_transition t \<Longrightarrow> i \<noteq> j \<Longrightarrow> sm_get_transition d j (sm_write_transition d i t ee) = sm_get_transition d j ee"
  by (simp add: sm_get_transition_def sm_write_transition_def ee.table_other length_transition_bytes word_unat_eq_iff)

text \<open>The tables hold 17 conditions, 30 date/time transitions and 29 value transitions.\<close>

lemma block_byte: "eeprom_read_block ee a 1 = [ee a]"
  by (simp add: eeprom_read_block_def)

lemma condition_frame:
  assumes "wf_condition c" "unat i < 17"
    and "b + n \<le> EE_STATEMACHINE_CONDITIONS \<or> EE_STATEMACHINE_CONDITIONS + 510 \<le> b"
  shows "eeprom_read_block (sm_write_condition i c ee) b n = eeprom_read_block ee b n"
  unfolding sm_write_condition_def
  by (rule ee.table_outside [where k = 17 and sz = sizeof_condition])
     (use assms in \<open>auto simp: length_condition_bytes sizeof_condition_def\<close>)

lemma transition_frame:
  assumes "wf_transition t" "unat i < (if d then 30 else 29)"
    and "b + n \<le> sm_transition_base d \<or> sm_transition_base d + 17 * (if d then 30 else 29) \<le> b"
  shows "eeprom_read_block (sm_write_transition d i t ee) b n = eeprom_read_block ee b n"
  unfolding sm_write_transition_def
  by (rule ee.table_outside [where k = "if d then 30 else 29" and sz = sizeof_transition])
     (use assms in \<open>auto simp: length_transition_bytes sizeof_transition_def split: if_splits\<close>)

lemma transition_keeps_conditions:
  assumes "wf_transition t" "unat i < (if d then 30 else 29)" "unat j < 17"
  shows "sm_get_condition j (sm_write_transition d i t ee) = sm_get_condition j ee"
proof -
  have "sizeof_condition * unat j \<le> 480" using assms(3) by (simp add: sizeof_condition_def)
  then show ?thesis using assms(1,2)
    by (simp add: sm_get_condition_def transition_frame sm_transition_base_def offset_simps)
qed

lemma condition_keeps_transitions:
  assumes "wf_condition c" "unat i < 17"
  shows "sm_get_transition d j (sm_write_condition i c ee) = sm_get_transition d j ee"
  using assms by (simp add: sm_get_transition_def condition_frame sm_transition_base_def offset_simps)

lemma transition_keeps_other_table:
  assumes "wf_transition t" "unat i < (if d then 30 else 29)" "unat j < (if d then 29 else 30)"
  shows "sm_get_transition (\<not> d) j (sm_write_transition d i t ee) = sm_get_transition (\<not> d) j ee"
proof -
  have "sizeof_transition * unat j \<le> (if d then 476 else 493)"
    using assms(3) by (simp add: sizeof_transition_def split: if_splits)
  then show ?thesis using assms(1,2)
    by (simp add: sm_get_transition_def transition_frame sm_transition_base_def offset_simps split: if_splits)
qed

section \<open>Upload\<close>

lemma sm_area_size_eq: "sm_area_size = 1536"
  by (simp add: offset_simps)

lemma chunk_ok_iff:
  "c \<noteq> 0 \<Longrightarrow> fst (sm_write_chunk c data ee) \<longleftrightarrow> c \<le> 24"
proof -
  assume c: "c \<noteq> 0"
  then have "unat (c - 1) = unat c - 1" by (metis unat_minus_one)
  moreover have "unat c > 0" using c by (simp add: unat_gt_0)
  moreover have "c \<le> 24 \<longleftrightarrow> unat c \<le> 24" by (simp add: word_le_nat_alt)
  ultimately show ?thesis using c
    by (auto simp: sm_write_chunk_def Let_def sm_area_size_eq EE_STATEMACHINE_CHUNK_SIZE_def)
qed

lemma chunk_rejected: "c \<noteq> 0 \<Longrightarrow> \<not> c \<le> 24 \<Longrightarrow> sm_write_chunk c data ee = (False, ee)"
  using chunk_ok_iff [of c data ee] by (auto simp: sm_write_chunk_def Let_def split: if_splits)

text \<open>An upload touches the name (chunk 0) or the state machine area, nothing else.\<close>

lemma chunk_frame:
  assumes "length data \<le> 64"
    and "p < EE_DOMAIN_NAME \<or> EE_DOMAIN_NAME + EE_DOMAIN_NAME_SIZE \<le> p"
    and "p < EE_STATEMACHINE_ID \<or> EE_STATEMACHINE_ID + sm_area_size \<le> p"
  shows "snd (sm_write_chunk c data ee) p = ee p"
proof (cases "c = 0")
  case True
  with assms show ?thesis
    by (auto simp: sm_write_chunk_def eeprom_update_block_def)
next
  case False
  with assms show ?thesis
    by (auto simp: sm_write_chunk_def eeprom_update_block_def Let_def offset_simps)
qed

text \<open>Uploading chunks 1, 2, ... in order, as the upload tool does.\<close>

definition sm_upload :: "buf list \<Rightarrow> eeprom \<Rightarrow> eeprom" where
  "sm_upload cs ee = fold (\<lambda>(i, c) ee. snd (sm_write_chunk (of_nat i + 1) c ee)) (zip [0..<length cs] cs) ee"

lemma chunk_step:
  assumes "i < 24" "length c = 64"
  shows "sm_write_chunk (of_nat i + 1) c ee = (True, eeprom_update_block (EE_STATEMACHINE_ID + 64 * i) c ee)"
proof -
  have u: "unat (of_nat i :: u8) = i" using assms(1) by (simp add: unat_of_nat)
  have e: "(of_nat i :: u8) + 1 = of_nat (Suc i)" by simp
  have "unat (of_nat (Suc i) :: u8) = Suc i" using assms(1) by (simp only: unat_of_nat) simp
  with e have nz: "(of_nat i :: u8) + 1 \<noteq> 0" by (metis nat.distinct(1) unat_0)
  show ?thesis using assms nz
    by (simp add: sm_write_chunk_def Let_def sm_area_size_eq EE_STATEMACHINE_CHUNK_SIZE_def u mult.commute)
qed

lemma sm_upload_stores:
  assumes "length cs = 24" "\<forall>c \<in> set cs. length c = 64"
  shows "eeprom_read_block (sm_upload cs ee) EE_STATEMACHINE_ID sm_area_size = concat cs"
proof -
  have "fold (\<lambda>(i, c) ee. snd (sm_write_chunk (of_nat i + 1) c ee)) ps ee
      = fold (\<lambda>(i, c). eeprom_update_block (EE_STATEMACHINE_ID + 64 * i) c) ps ee"
    if "\<forall>(i, c) \<in> set ps. i < 24 \<and> length c = 64" for ps ee
    using that by (induction ps arbitrary: ee) (auto simp: chunk_step)
  moreover have "\<forall>(i, c) \<in> set (zip [0..<length cs] cs). i < 24 \<and> length c = 64"
    using assms by (auto dest: set_zip_leftD set_zip_rightD)
  ultimately have "sm_upload cs ee =
      fold (\<lambda>(i, c). eeprom_update_block (EE_STATEMACHINE_ID + 64 * i) c) (zip [0..<0 + length cs] cs) ee"
    by (simp add: sm_upload_def)
  then show ?thesis
    using ee.chunks_written [OF assms(2), of EE_STATEMACHINE_ID 0 ee] assms(1)
    by (simp add: sm_area_size_eq del: upt_Suc)
qed

section \<open>Properties\<close>

text \<open>The condition and transition tables are independent stores: a record written at an index of a table is
  read back from that index, and every other index of that table, and every valid index of the other tables,
  keeps its record.\<close>

theorem tables_are_independent:
  assumes "wf_transition t" "unat i < (if d then 30 else 29)"
  shows "sm_get_transition d i (sm_write_transition d i t ee) = t \<and>
    (\<forall>j. j \<noteq> i \<longrightarrow> sm_get_transition d j (sm_write_transition d i t ee) = sm_get_transition d j ee) \<and>
    (\<forall>j. unat j < (if d then 29 else 30) \<longrightarrow>
       sm_get_transition (\<not> d) j (sm_write_transition d i t ee) = sm_get_transition (\<not> d) j ee) \<and>
    (\<forall>j. unat j < 17 \<longrightarrow> sm_get_condition j (sm_write_transition d i t ee) = sm_get_condition j ee)"
proof (intro conjI allI impI)
  show "sm_get_transition d i (sm_write_transition d i t ee) = t" by (rule transition_same [OF assms(1)])
  show "sm_get_transition d j (sm_write_transition d i t ee) = sm_get_transition d j ee" if "j \<noteq> i" for j
    by (rule transition_other [OF assms(1) that [symmetric]])
qed (rule transition_keeps_other_table [OF assms] transition_keeps_conditions [OF assms], assumption)+

theorem tables_are_independent_witness:
  "sm_get_transition True 3 (sm_write_transition True 3
     (transition_of (replicate sizeof_transition 0)) (\<lambda>_. 0)) = transition_of (replicate sizeof_transition 0)"
  using tables_are_independent [of "transition_of (replicate sizeof_transition 0)" 3 True "\<lambda>_. 0"]
  by (simp add: wf_transition_def wf_value_def transition_of_def sizeof_transition_def get_bytes_def)

text \<open>The 24 chunks of a state machine image, uploaded in order, leave exactly the image in the state machine
  area of the EEPROM.\<close>

theorem upload_stores_image:
  assumes "length cs = 24" "\<forall>c \<in> set cs. length c = 64"
  shows "eeprom_read_block (sm_upload cs ee) EE_STATEMACHINE_ID sm_area_size = concat cs"
  using assms by (rule sm_upload_stores)

theorem upload_stores_image_witness:
  "eeprom_read_block (sm_upload (replicate 24 (replicate 64 7)) (\<lambda>_. 0)) EE_STATEMACHINE_ID sm_area_size
     = concat (replicate 24 (replicate 64 7))"
  by (rule upload_stores_image) simp_all

text \<open>No chunk, whatever its number and contents, changes a byte of the EEPROM outside the device name and the
  state machine area (keys, addresses and calibration are safe), and a chunk beyond the area is refused
  without any change.\<close>

theorem upload_confined:
  assumes "length data \<le> 64"
    and "p < EE_DOMAIN_NAME \<or> EE_DOMAIN_NAME + EE_DOMAIN_NAME_SIZE \<le> p"
    and "p < EE_STATEMACHINE_ID \<or> EE_STATEMACHINE_ID + sm_area_size \<le> p"
  shows "snd (sm_write_chunk c data ee) p = ee p \<and> (24 < c \<longrightarrow> sm_write_chunk c data ee = (False, ee))"
proof (intro conjI impI)
  show "snd (sm_write_chunk c data ee) p = ee p" by (rule chunk_frame [OF assms])
  assume "24 < c"
  then have "c \<noteq> 0" "\<not> c \<le> 24" by auto
  then show "sm_write_chunk c data ee = (False, ee)" by (rule chunk_rejected)
qed

theorem upload_confined_witness:
  "snd (sm_write_chunk 24 (replicate 64 1) (\<lambda>_. 0)) EE_ENCRYPTION_KEY = 0"
  using upload_confined [of "replicate 64 1" EE_ENCRYPTION_KEY 24 "\<lambda>_. 0"] by (simp add: offset_simps)

end
