(* ===== verification/Platform.thy ===== *)
theory Platform
  imports Endpoint_Registry Packet Timer SM_Eeprom
begin

text \<open>
  What every application sees of the device: the build configuration of \<^verbatim>\<open>hexabus_config.h\<close> as a
  record (a \<open>#if\<close> of the code is a test of one of its fields), the functions that endpoint
  descriptors point at, the endpoint identifiers of \<^verbatim>\<open>shared/endpoints.h\<close>, and the state of the
  platform: EEPROM, clock, LEDs, ports, the endpoint chain, and logs of what leaves the device.
  Health bits are those of \<^verbatim>\<open>health.c\<close>, LEDs those of \<^verbatim>\<open>core/dev/leds.c\<close> and \<^verbatim>\<open>leds-arch.c\<close>.

  The applications extend the record \<open>plat\<close>, one theory after the other; an operation works on any
  extension of the state of its own theory. A call to a function of a theory further up
  (\<open>broadcast_value\<close> above all) is an argument of the operation.
\<close>

section \<open>Configuration\<close>

record config =
  RELAY_ENABLE :: bool
  METERING_POWER :: bool
  METERING_ENERGY :: bool
  METERING_ENERGY_PERSISTENT :: bool
  METERING_IMMEDIATE_BROADCAST :: bool
  METERING_IMMEDIATE_BROADCAST_NUMBER_OF_TICKS :: u8
  METERING_IMMEDIATE_BROADCAST_MINIMUM_TIMEOUT :: u16
  S0_ENABLE :: bool
  STATE_MACHINE_ENABLE :: bool
  DATETIME_SERVICE_ENABLE :: bool
  PRESENCE_DETECTOR_SERVER :: bool
  PRESENCE_DETECTOR_CLIENT :: bool
  PRESENCE_DETECTOR_CLIENT_GROUP :: u8
  PRESENCE_DETECTOR_CLIENT_KEEP_ALIVE :: u16
  PRESENCE_DETECTOR_SERVER_TIMEOUT :: u16
  BUTTON_HAS_EID :: bool
  BUTTON_TOGGLES_RELAY :: bool
  SHUTTER_CALIBRATE_ON_BOOT :: bool
  SHUTTER_INITIAL_POSITION :: u8
  HEXONOFF_INITIAL_VALUE :: u8
  ENDPOINT_REGISTRY_DEBUG :: bool
  div_by_zero :: u16   \<comment> \<open>what the hardware's 16 bit division by zero yields (undefined in C)\<close>

text \<open>The configuration of the repository, for the profile \<open>HXB_PROFILE_PLUGPLUS\<close>.\<close>

definition hexabus_config :: config where
  "hexabus_config = \<lparr>RELAY_ENABLE = True, METERING_POWER = True, METERING_ENERGY = True,
     METERING_ENERGY_PERSISTENT = False, METERING_IMMEDIATE_BROADCAST = True,
     METERING_IMMEDIATE_BROADCAST_NUMBER_OF_TICKS = 1, METERING_IMMEDIATE_BROADCAST_MINIMUM_TIMEOUT = 1,
     S0_ENABLE = False, STATE_MACHINE_ENABLE = True, DATETIME_SERVICE_ENABLE = True,
     PRESENCE_DETECTOR_SERVER = False, PRESENCE_DETECTOR_CLIENT = True,
     PRESENCE_DETECTOR_CLIENT_GROUP = 2, PRESENCE_DETECTOR_CLIENT_KEEP_ALIVE = 60,
     PRESENCE_DETECTOR_SERVER_TIMEOUT = 3, BUTTON_HAS_EID = True, BUTTON_TOGGLES_RELAY = False,
     SHUTTER_CALIBRATE_ON_BOOT = True, SHUTTER_INITIAL_POSITION = 1, HEXONOFF_INITIAL_VALUE = 0,
     ENDPOINT_REGISTRY_DEBUG = False, div_by_zero = 0xffff\<rparr>"

section \<open>Endpoint functions and identifiers\<close>

datatype read_fn =
  Rd_power | Rd_energy_total | Rd_energy | Rd_relay
| Rd_sm_control | Rd_sm_receiver | Rd_sm_acknack | Rd_sm_reset
| Rd_hexonoff | Rd_presence | Rd_sysbutton | Rd_hexapush_pressed | Rd_hexapush_clicked
| Rd_hexasense | Rd_shutter | Rd_ir | Rd_heater_hot | Rd_heater_cold | Rd_humidity

datatype write_fn =
  Wr_energy | Wr_relay | Wr_sm_control | Wr_sm_receiver
| Wr_hexonoff_set | Wr_hexonoff_toggle | Wr_presence | Wr_shutter

type_synonym descriptor = "(read_fn, write_fn) endpoint_descriptor"

definition ascii :: "string \<Rightarrow> buf" where
  "ascii s = map of_char s"

definition EP_POWER_SWITCH :: u32 where "EP_POWER_SWITCH = 1"
definition EP_POWER_METER :: u32 where "EP_POWER_METER = 2"
definition EP_BUTTON :: u32 where "EP_BUTTON = 4"
definition EP_HUMIDITY :: u32 where "EP_HUMIDITY = 5"
definition EP_ENERGY_METER_TOTAL :: u32 where "EP_ENERGY_METER_TOTAL = 7"
definition EP_ENERGY_METER :: u32 where "EP_ENERGY_METER = 8"
definition EP_SM_CONTROL :: u32 where "EP_SM_CONTROL = 9"
definition EP_SM_UP_RECEIVER :: u32 where "EP_SM_UP_RECEIVER = 10"
definition EP_SM_UP_ACKNAK :: u32 where "EP_SM_UP_ACKNAK = 11"
definition EP_SM_RESET_ID :: u32 where "EP_SM_RESET_ID = 12"
definition EP_SHUTTER :: u32 where "EP_SHUTTER = 23"
definition EP_HEXAPUSH_PRESSED :: u32 where "EP_HEXAPUSH_PRESSED = 24"
definition EP_HEXAPUSH_CLICKED :: u32 where "EP_HEXAPUSH_CLICKED = 25"
definition EP_PRESENCE_DETECTOR :: u32 where "EP_PRESENCE_DETECTOR = 26"
definition EP_HEXONOFF_SET :: u32 where "EP_HEXONOFF_SET = 27"
definition EP_HEXONOFF_TOGGLE :: u32 where "EP_HEXONOFF_TOGGLE = 28"
definition EP_IR_RECEIVER :: u32 where "EP_IR_RECEIVER = 30"
definition EP_HEATER_HOT :: u32 where "EP_HEATER_HOT = 44"
definition EP_HEATER_COLD :: u32 where "EP_HEATER_COLD = 45"
definition EP_HEXASENSE_BUTTON_STATE :: u32 where "EP_HEXASENSE_BUTTON_STATE = 46"

section \<open>Platform state\<close>

record udp_datagram =
  dg_to :: ip6
  dg_port :: u16
  dg_data :: buf

datatype udp_handler_event = UDP_HANDLER_UP | UDP_HANDLER_DOWN

text \<open>Broadcast events the applications post to the event queue.\<close>

datatype app_event = Udp_Event udp_handler_event | Health_Event u8

text \<open>
  Outside the list of the event timer process, an event timer is its tick timer and whether it
  still belongs to a process (\<open>p \<noteq> PROCESS_NONE\<close>); the list is modelled in theory \<open>Etimer\<close>.
\<close>

record app_timer =
  at_timer :: timer
  at_armed :: bool

definition app_timer_set :: "clock_time \<Rightarrow> clock_time \<Rightarrow> app_timer \<Rightarrow> app_timer" where
  "app_timer_set now interval t = \<lparr>at_timer = timer_set now interval (at_timer t), at_armed = True\<rparr>"
definition app_timer_reset :: "app_timer \<Rightarrow> app_timer" where
  "app_timer_reset t = \<lparr>at_timer = timer_reset (at_timer t), at_armed = True\<rparr>"
definition app_timer_restart :: "clock_time \<Rightarrow> app_timer \<Rightarrow> app_timer" where
  "app_timer_restart now t = \<lparr>at_timer = timer_restart now (at_timer t), at_armed = True\<rparr>"
definition app_timer_stop :: "app_timer \<Rightarrow> app_timer" where
  "app_timer_stop t = t\<lparr>at_armed := False\<rparr>"

definition no_timer :: app_timer where
  "no_timer = \<lparr>at_timer = \<lparr>tm_start = 0, tm_interval = 0\<rparr>, at_armed = False\<rparr>"

record plat =
  conf :: config
  ee :: eeprom
  clock :: clock_time
  leds :: u8
  leds_inverted :: u8
  led_port :: u8        \<comment> \<open>\<open>PORTC\<close>\<close>
  relay_port :: u8      \<comment> \<open>\<open>PORTB\<close>\<close>
  chain :: "(read_fn, write_fn) chain"
  udpconn :: bool       \<comment> \<open>the UDP connection exists\<close>
  sent :: "udp_datagram list"
  posted :: "app_event list"
  health :: u8
  lastevent :: u8       \<comment> \<open>next event number of \<open>process_alloc_event\<close>\<close>
  stack_bytes :: buf    \<comment> \<open>what a packet buffer on the stack holds before it is filled\<close>
  out_of_fuel :: bool   \<comment> \<open>set when the model of the call recursion runs out of fuel\<close>

definition ENDPOINT_REGISTER :: "descriptor \<Rightarrow> 'a plat_scheme \<Rightarrow> 'a plat_scheme" where
  "ENDPOINT_REGISTER ep s = s\<lparr>chain := endpoint_register (ENDPOINT_REGISTRY_DEBUG (conf s)) ep (chain s)\<rparr>"

text \<open>Event numbers of the process kernel.\<close>

definition PROCESS_EVENT_TIMER :: u8 where "PROCESS_EVENT_TIMER = 0x88"
definition PROCESS_EVENT_MAX :: u8 where "PROCESS_EVENT_MAX = 0x8a"

definition process_alloc_event :: "'a plat_scheme \<Rightarrow> u8 \<times> 'a plat_scheme" where
  "process_alloc_event s = (lastevent s, s\<lparr>lastevent := lastevent s + 1\<rparr>)"

definition process_broadcast :: "app_event \<Rightarrow> 'a plat_scheme \<Rightarrow> 'a plat_scheme" where
  "process_broadcast ev s = s\<lparr>posted := posted s @ [ev]\<rparr>"

text \<open>A device after power-up, for examples.\<close>

definition fresh_plat :: plat where
  "fresh_plat = \<lparr>conf = hexabus_config, ee = (\<lambda>_. 0), clock = 0, leds = 0, leds_inverted = 0, led_port = 0,
     relay_port = 0, chain = [], udpconn = True, sent = [], posted = [], health = 0,
     lastevent = PROCESS_EVENT_MAX, stack_bytes = replicate 141 0, out_of_fuel = False\<rparr>"

section \<open>Health\<close>

definition HE_NO_CONNECTION :: u8 where "HE_NO_CONNECTION = 1"
definition HE_PT100_BROKEN :: u8 where "HE_PT100_BROKEN = 2"
definition HE_HYT_BROKEN :: u8 where "HE_HYT_BROKEN = 4"

definition health_update :: "u8 \<Rightarrow> bool \<Rightarrow> 'a plat_scheme \<Rightarrow> 'a plat_scheme" where
  "health_update b on s =
     (let old = health s;
          s = (if on then s\<lparr>health := health s OR b\<rparr> else s\<lparr>health := health s AND NOT b\<rparr>)
      in if health s \<noteq> old then process_broadcast (Health_Event (health s)) s else s)"

section \<open>LEDs\<close>

definition LEDS_GREEN :: u8 where "LEDS_GREEN = 1"
definition LEDS_RED :: u8 where "LEDS_RED = 4"
definition LEDS_ALL :: u8 where "LEDS_ALL = 7"

text \<open>The red LED is bit 0 of the port, the green one bit 1; a zero switches on.\<close>

definition leds_arch_get :: "'a plat_scheme \<Rightarrow> u8" where
  "leds_arch_get s = (if led_port s AND 1 \<noteq> 0 then 0 else LEDS_RED) OR (if led_port s AND 2 \<noteq> 0 then 0 else LEDS_GREEN)"

definition leds_arch_set :: "u8 \<Rightarrow> 'a plat_scheme \<Rightarrow> 'a plat_scheme" where
  "leds_arch_set l s = s\<lparr>led_port := (led_port s AND NOT 3)
     OR (if l AND LEDS_RED \<noteq> 0 then 0 else 1) OR (if l AND LEDS_GREEN \<noteq> 0 then 0 else 2)\<rparr>"

definition show_leds :: "'a plat_scheme \<Rightarrow> 'a plat_scheme" where
  "show_leds s = leds_arch_set (leds s XOR leds_inverted s) s"

definition leds_on :: "u8 \<Rightarrow> 'a plat_scheme \<Rightarrow> 'a plat_scheme" where
  "leds_on l s = show_leds (s\<lparr>leds := leds s OR l\<rparr>)"

definition leds_off :: "u8 \<Rightarrow> 'a plat_scheme \<Rightarrow> 'a plat_scheme" where
  "leds_off l s = show_leds (s\<lparr>leds := leds s AND NOT l\<rparr>)"

definition leds_invert :: "u8 \<Rightarrow> 'a plat_scheme \<Rightarrow> 'a plat_scheme" where
  "leds_invert l s = show_leds (s\<lparr>leds_inverted := leds_inverted s XOR l\<rparr>)"

definition leds_toggle :: "u8 \<Rightarrow> 'a plat_scheme \<Rightarrow> 'a plat_scheme" where
  "leds_toggle l s = leds_invert l s"

text \<open>The two inversions of \<open>leds_blink\<close>; the delay between them has no effect on the state.\<close>

definition leds_blink :: "'a plat_scheme \<Rightarrow> 'a plat_scheme" where
  "leds_blink s = (let inv = NOT (leds s XOR leds_inverted s) in leds_invert inv (leds_invert inv s))"

section \<open>Lemmas\<close>

lemma plat_frame [frame_simps]:
  "clock (process_broadcast ev s) = clock s" "ee (process_broadcast ev s) = ee s" "conf (process_broadcast ev s) = conf s"
  "clock (health_update b v s) = clock s" "ee (health_update b v s) = ee s" "conf (health_update b v s) = conf s"
  "sent (health_update b v s) = sent s" "chain (health_update b v s) = chain s"
  "sent (process_broadcast ev s) = sent s" "chain (process_broadcast ev s) = chain s"
  "clock (leds_on l s) = clock s" "ee (leds_on l s) = ee s" "conf (leds_on l s) = conf s"
  "clock (leds_off l s) = clock s" "ee (leds_off l s) = ee s" "conf (leds_off l s) = conf s"
  "sent (leds_on l s) = sent s" "sent (leds_off l s) = sent s" "chain (leds_on l s) = chain s" "chain (leds_off l s) = chain s"
  "out_of_fuel (leds_on l s) = out_of_fuel s" "out_of_fuel (leds_off l s) = out_of_fuel s"
  "relay_port (leds_on l s) = relay_port s" "relay_port (leds_off l s) = relay_port s"
  "out_of_fuel (process_broadcast ev s) = out_of_fuel s" "out_of_fuel (health_update b v s) = out_of_fuel s"
  by (simp_all add: process_broadcast_def health_update_def leds_on_def leds_off_def show_leds_def leds_arch_set_def Let_def)

text \<open>The port shows the LEDs that are on and not inverted, or off and inverted.\<close>

lemma leds_arch_get_set: "leds_arch_get (leds_arch_set l s) = l AND 5"
proof -
  have five: "l AND 5 = (l AND 4) OR (l AND 1)"
    by (rule bit_word_eqI) (auto simp: bit_and_iff bit_or_iff bit_small_masks simp del: bit_numeral_word_iff)
  show ?thesis unfolding five
    by (simp add: leds_arch_get_def leds_arch_set_def LEDS_RED_def LEDS_GREEN_def and_small_masks bit_and_iff
        bit_or_iff bit_not_iff bit_small_masks del: bit_numeral_word_iff)
qed

lemma health_bit:
  "bit (health (health_update b v s)) n = (if bit b n then v else bit (health s) n)"
proof -
  have "health (health_update b v s) = (if v then health s OR b else health s AND NOT b)"
    by (simp add: health_update_def process_broadcast_def Let_def)
  then show ?thesis using no_bit_beyond(2) [of n b] no_bit_beyond(2) [of n "health s"]
    by (cases "n < 8") (auto simp: bit_simps)
qed

end
