(* ===== verification/Datetime.thy ===== *)
theory Datetime
  imports Platform
begin

text \<open>
  \<^verbatim>\<open>datetime_service.c\<close>: the device's copy of date and time, set by broadcasts, advanced once a
  second, and valid for five minutes after an update. Proved: the time of day counts modulo a day,
  the validity window, and what the code makes of the last second of a month.
\<close>

definition VALID_TIME :: int where "VALID_TIME = 300"
definition UPDATE_INTERVALL :: u16 where "UPDATE_INTERVALL = 1"

record dts = plat +
  current_dt :: hxb_datetime
  time_valid :: bool
  timestamp :: u32
  valid_counter :: int
  update_timer :: app_timer

section \<open>Operations\<close>

definition updateDatetime :: "hxb_envelope \<Rightarrow> 'a dts_scheme \<Rightarrow> 'a dts_scheme" where
  "updateDatetime env s = s\<lparr>current_dt := v_datetime (env_value env), time_valid := True, valid_counter := 0,
     update_timer := app_timer_restart (clock s) (update_timer s)\<rparr>"

text \<open>The return value 0 of \<open>getDatetime\<close> is \<open>True\<close> here.\<close>

definition getDatetime :: "'a dts_scheme \<Rightarrow> bool \<times> hxb_datetime" where
  "getDatetime s = (time_valid s, current_dt s)"

definition getTimestamp :: "'a dts_scheme \<Rightarrow> u32" where
  "getTimestamp s = timestamp s"

text \<open>The process up to its first wait, and its reaction to an event.\<close>

definition datetime_service_start :: "'a dts_scheme \<Rightarrow> 'a dts_scheme" where
  "datetime_service_start s = s\<lparr>timestamp := 0, time_valid := False, valid_counter := VALID_TIME,
     update_timer := app_timer_set (clock s) (CLOCK_SECOND * UPDATE_INTERVALL) (update_timer s)\<rparr>"

definition month_over :: "hxb_datetime \<Rightarrow> bool" where
  "month_over dt =
     ((month dt = 1 \<or> month dt = 3 \<or> month dt = 5 \<or> month dt = 7 \<or> month dt = 8 \<or> month dt = 10 \<or> month dt = 12) \<and> day dt > 31
      \<or> (month dt = 4 \<or> month dt = 6 \<or> month dt = 9 \<or> month dt = 11) \<and> day dt > 30
      \<or> month dt = 2 \<and> day dt > 28)"

definition next_month :: "hxb_datetime \<Rightarrow> hxb_datetime" where
  "next_month dt =
     (let dt = dt\<lparr>day := 0, month := month dt + 1\<rparr> in
      if month dt > 12 then dt\<lparr>month := 0, year := year dt + 1\<rparr> else dt)"

definition next_day :: "hxb_datetime \<Rightarrow> hxb_datetime" where
  "next_day dt =
     (let dt = dt\<lparr>hour := 0, day := day dt + 1, weekday := weekday dt + 1\<rparr>;
          dt = (if weekday dt > 6 then dt\<lparr>weekday := 0\<rparr> else dt)
      in if month_over dt then next_month dt else dt)"

definition tick :: "hxb_datetime \<Rightarrow> hxb_datetime" where
  "tick dt =
     (let dt = dt\<lparr>second := second dt + 1\<rparr> in
      if second dt > 59 then
        (let dt = dt\<lparr>second := 0, minute := minute dt + 1\<rparr> in
         if minute dt > 59 then
           (let dt = dt\<lparr>minute := 0, hour := hour dt + 1\<rparr> in
            if hour dt > 23 then next_day dt else dt)
         else dt)
      else dt)"

definition datetime_timer_event :: "'a dts_scheme \<Rightarrow> 'a dts_scheme" where
  "datetime_timer_event s =
     (let s = (if \<not> at_armed (update_timer s) then s\<lparr>update_timer := app_timer_reset (update_timer s)\<rparr> else s);
          s = s\<lparr>timestamp := timestamp s + 1\<rparr>;
          s = (if valid_counter s < VALID_TIME then s\<lparr>valid_counter := valid_counter s + 1\<rparr> else s\<lparr>time_valid := False\<rparr>)
      in s\<lparr>current_dt := tick (current_dt s)\<rparr>)"

section \<open>Time of day\<close>

definition valid_time :: "hxb_datetime \<Rightarrow> bool" where
  "valid_time dt = (hour dt < 24 \<and> minute dt < 60 \<and> second dt < 60)"

definition second_of_day :: "hxb_datetime \<Rightarrow> nat" where
  "second_of_day dt = 3600 * unat (hour dt) + 60 * unat (minute dt) + unat (second dt)"

lemma unat_Suc_small: "(w :: u8) < 60 \<Longrightarrow> unat (w + 1) = Suc (unat w)"
  by (subst unat_add_lem [THEN iffD1]) (auto simp: word_less_nat_alt)

lemma next_day_time [simp]:
  "hour (next_day dt) = 0" "minute (next_day dt) = minute dt" "second (next_day dt) = second dt"
  by (simp_all add: next_day_def next_month_def Let_def)

text \<open>The three carries of a tick.\<close>

lemma carry: "(w :: u8) < 60 \<Longrightarrow> (w + 1 > 59) = (unat w = 59)" "(w :: u8) < 24 \<Longrightarrow> (w + 1 > 23) = (unat w = 23)"
proof -
  show "w < 60 \<Longrightarrow> (w + 1 > 59) = (unat w = 59)"
    using unat_Suc_small [of w] by (auto simp: word_less_nat_alt)
  assume a: "w < 24"
  then have "w < 60" by (auto simp: word_less_nat_alt)
  with a show "(w + 1 > 23) = (unat w = 23)"
    using unat_Suc_small [of w] by (auto simp: word_less_nat_alt)
qed

lemma tick_time:
  assumes "valid_time dt"
  shows "valid_time (tick dt)" and "second_of_day (tick dt) = (second_of_day dt + 1) mod 86400"
proof -
  have lt: "unat (hour dt) < 24" "unat (minute dt) < 60" "unat (second dt) < 60" "hour dt < 60"
    using assms by (simp_all add: valid_time_def word_less_nat_alt)
  note v = assms [unfolded valid_time_def]
  note s = unat_Suc_small [of "second dt"] unat_Suc_small [of "minute dt"] unat_Suc_small [of "hour dt"]
  consider "unat (second dt) \<noteq> 59" | "unat (second dt) = 59" "unat (minute dt) \<noteq> 59"
    | "unat (second dt) = 59" "unat (minute dt) = 59" "unat (hour dt) \<noteq> 23"
    | "unat (second dt) = 59" "unat (minute dt) = 59" "unat (hour dt) = 23" by blast
  then have "valid_time (tick dt) \<and> second_of_day (tick dt) = (second_of_day dt + 1) mod 86400"
    using v s lt by cases (simp_all add: tick_def Let_def carry valid_time_def second_of_day_def word_less_nat_alt)
  then show "valid_time (tick dt)" "second_of_day (tick dt) = (second_of_day dt + 1) mod 86400" by simp_all
qed

lemma tick_within_day:
  assumes "valid_time dt" "second_of_day dt < 86399"
  shows "day (tick dt) = day dt \<and> month (tick dt) = month dt \<and> year (tick dt) = year dt \<and> weekday (tick dt) = weekday dt"
proof -
  have lt: "unat (minute dt) < 60" "unat (second dt) < 60" "unat (hour dt) < 24"
    using assms(1) by (simp_all add: valid_time_def word_less_nat_alt)
  then have "\<not> (unat (second dt) = 59 \<and> unat (minute dt) = 59 \<and> unat (hour dt) = 23)"
    using assms(2) by (auto simp: second_of_day_def)
  then show ?thesis using assms(1) by (auto simp: tick_def Let_def carry valid_time_def)
qed

lemma tick_midnight: "hour dt = 23 \<Longrightarrow> minute dt = 59 \<Longrightarrow> second dt = 59 \<Longrightarrow>
    tick dt = next_day (dt\<lparr>second := 0, minute := 0\<rparr>)"
  by (simp add: tick_def Let_def next_day_def)

lemma month_over_frame [simp]:
  "month_over (dt\<lparr>hour := h\<rparr>) = month_over dt" "month_over (dt\<lparr>weekday := w\<rparr>) = month_over dt"
  "month_over (dt\<lparr>minute := m\<rparr>) = month_over dt" "month_over (dt\<lparr>second := x\<rparr>) = month_over dt"
  "month_over (dt\<lparr>hour := h, day := d, weekday := w\<rparr>) = month_over (dt\<lparr>day := d\<rparr>)"
  "month_over (dt\<lparr>hour := h, day := d\<rparr>) = month_over (dt\<lparr>day := d\<rparr>)"
  "month_over (dt\<lparr>second := x, minute := m, day := d\<rparr>) = month_over (dt\<lparr>day := d\<rparr>)"
  by (simp_all add: month_over_def)

lemma next_day_date:
  "day (next_day dt) = (if month_over (dt\<lparr>day := day dt + 1\<rparr>) then 0 else day dt + 1)"
  "month (next_day dt) = (if month_over (dt\<lparr>day := day dt + 1\<rparr>)
     then if month dt + 1 > 12 then 0 else month dt + 1 else month dt)"
  "year (next_day dt) = (if month_over (dt\<lparr>day := day dt + 1\<rparr>) \<and> month dt + 1 > 12 then year dt + 1 else year dt)"
  by (simp_all add: next_day_def next_month_def Let_def)

section \<open>Validity\<close>

lemma timer_event_fields [simp]:
  "valid_counter (datetime_timer_event s) = (if valid_counter s < VALID_TIME then valid_counter s + 1 else valid_counter s)"
  "time_valid (datetime_timer_event s) = (time_valid s \<and> valid_counter s < VALID_TIME)"
  "timestamp (datetime_timer_event s) = timestamp s + 1"
  "current_dt (datetime_timer_event s) = tick (current_dt s)"
  by (simp_all add: datetime_timer_event_def Let_def)

lemma validity_after:
  assumes "valid_counter s = 0" "time_valid s"
  shows "valid_counter ((datetime_timer_event ^^ n) s) = min (int n) VALID_TIME"
    and "time_valid ((datetime_timer_event ^^ n) s) = (int n \<le> VALID_TIME)"
proof (induction n)
  case 0
  { case 1 show ?case using assms by (simp add: VALID_TIME_def) }
  { case 2 show ?case using assms by (simp add: VALID_TIME_def) }
next
  case (Suc n)
  { case 1 show ?case using Suc by (auto simp: min_def) }
  { case 2 show ?case using Suc by (auto simp: min_def) }
qed

section \<open>Properties\<close>

text \<open>The wall clock counts the seconds of the day: \<open>n\<close> timer events after a valid time of day, the
  clock shows a valid time of day \<open>n\<close> seconds later, modulo one day.\<close>

theorem clock_counts_seconds:
  assumes "valid_time (current_dt s)"
  shows "valid_time (current_dt ((datetime_timer_event ^^ n) s)) \<and>
    second_of_day (current_dt ((datetime_timer_event ^^ n) s)) = (second_of_day (current_dt s) + n) mod 86400"
proof (induction n)
  case 0
  have "unat (hour (current_dt s)) < 24" "unat (minute (current_dt s)) < 60" "unat (second (current_dt s)) < 60"
    using assms by (simp_all add: valid_time_def word_less_nat_alt)
  then show ?case using assms by (simp add: second_of_day_def)
next
  case (Suc n)
  then show ?case using tick_time [of "current_dt ((datetime_timer_event ^^ n) s)"] by (simp add: mod_Suc_eq)
qed

definition fresh_dts :: dts where
  "fresh_dts = plat.extend fresh_plat (dts.fields
     \<lparr>hour = 23, minute = 59, second = 58, day = 31, month = 12, year = 2013, weekday = 2\<rparr> True 0 0 no_timer)"

theorem clock_counts_seconds_witness:
  "second_of_day (current_dt ((datetime_timer_event ^^ 3) fresh_dts)) = 1"
  using clock_counts_seconds [of fresh_dts 3]
  by (simp add: fresh_dts_def fresh_plat_def plat.defs dts.defs valid_time_def second_of_day_def)

text \<open>An update makes the time valid for exactly \<open>VALID_TIME\<close> further timer events.\<close>

theorem update_validity_window:
  "fst (getDatetime ((datetime_timer_event ^^ n) (updateDatetime env s))) \<longleftrightarrow> int n \<le> VALID_TIME"
  using validity_after(2) [of "updateDatetime env s" n] by (simp add: getDatetime_def updateDatetime_def)

text \<open>The last second of a month leads to day 0 of the next month, and the last second of a year to
  month 0: dates that do not exist (both should be 1). Day and weekday advance on every other midnight.\<close>

theorem month_rollover_yields_day_zero:
  assumes "hour dt = 23" "minute dt = 59" "second dt = 59" "day dt < 255"
  shows "day (tick dt) = (if month_over (dt\<lparr>day := day dt + 1\<rparr>) then 0 else day dt + 1) \<and>
    (month dt = 12 \<and> day dt = 31 \<longrightarrow> day (tick dt) = 0 \<and> month (tick dt) = 0 \<and> year (tick dt) = year dt + 1)"
  using assms by (simp add: tick_midnight next_day_date) (simp add: month_over_def)

theorem month_rollover_yields_day_zero_witness:
  "(let dt = tick \<lparr>hour = 23, minute = 59, second = 59, day = 31, month = 12, year = 2013, weekday = 2\<rparr>
    in day dt = 0 \<and> month dt = 0)"
  using month_rollover_yields_day_zero
    [of "\<lparr>hour = 23, minute = 59, second = 59, day = 31, month = 12, year = 2013, weekday = 2\<rparr>"]
  by (simp add: Let_def month_over_def)

end
