(* ===== verification/State_Machine.thy ===== *)
theory State_Machine
  imports Datetime
begin

text \<open>
  \<^verbatim>\<open>state_machine.c\<close>: conditions, the two transition tables, the process that evaluates them, and
  starting, stopping and restarting that process. The process is modelled with the three states of
  the process kernel, because a call to a process that is already running its handler is dropped:
  that is what bounds the recursion from a transition's write over a broadcast back to the state
  machine. \<open>wr\<close> is \<open>endpoint_write\<close> and \<open>bc\<close> is \<open>broadcast_value\<close>, both further up.
\<close>

definition HXB_SM_HOUR :: u8 where "HXB_SM_HOUR = 0x01"
definition HXB_SM_MINUTE :: u8 where "HXB_SM_MINUTE = 0x02"
definition HXB_SM_SECOND :: u8 where "HXB_SM_SECOND = 0x04"
definition HXB_SM_DAY :: u8 where "HXB_SM_DAY = 0x08"
definition HXB_SM_MONTH :: u8 where "HXB_SM_MONTH = 0x10"
definition HXB_SM_YEAR :: u8 where "HXB_SM_YEAR = 0x20"
definition HXB_SM_WEEKDAY :: u8 where "HXB_SM_WEEKDAY = 0x40"
definition HXB_SM_DATETIME_OP_GEQ :: u8 where "HXB_SM_DATETIME_OP_GEQ = 0x80"
definition HXB_SM_TIMESTAMP_OP :: u8 where "HXB_SM_TIMESTAMP_OP = 0x80"
definition TRUE_COND_INDEX :: u8 where "TRUE_COND_INDEX = 255"

datatype process_state = PROCESS_STATE_NONE | PROCESS_STATE_RUNNING | PROCESS_STATE_CALLED

record sms = dts +
  transLength :: u8
  dtTransLength :: u8
  curState :: u8
  inStateSince :: u32
  dt_valid :: bool
  sm_state :: process_state
  sm_handle_input_event :: u8
  udp_event_number :: u8     \<comment> \<open>the variable \<open>udp_handler_event\<close>\<close>
  check_timer :: app_timer

section \<open>Conditions\<close>

definition compare_op :: "u8 \<Rightarrow> 'v::linorder \<Rightarrow> 'v \<Rightarrow> bool" where
  "compare_op cop a b =
     (case stm_op_of cop of
        Some STM_EQ \<Rightarrow> a = b
      | Some STM_LEQ \<Rightarrow> a \<le> b
      | Some STM_GEQ \<Rightarrow> a \<ge> b
      | Some STM_LT \<Rightarrow> a < b
      | Some STM_GT \<Rightarrow> a > b
      | Some STM_NEQ \<Rightarrow> a \<noteq> b
      | None \<Rightarrow> False)"

definition compare_float :: "u8 \<Rightarrow> f32 \<Rightarrow> f32 \<Rightarrow> bool" where
  "compare_float cop a b =
     (case stm_op_of cop of
        Some STM_EQ \<Rightarrow> f32_eq a b
      | Some STM_LEQ \<Rightarrow> f32_le a b
      | Some STM_GEQ \<Rightarrow> f32_le b a
      | Some STM_LT \<Rightarrow> f32_lt a b
      | Some STM_GT \<Rightarrow> f32_lt b a
      | Some STM_NEQ \<Rightarrow> \<not> f32_eq a b
      | None \<Rightarrow> False)"

text \<open>The field of the date that the operator selects, widened to 32 bit; the first set bit counts.\<close>

definition datetime_field :: "u8 \<Rightarrow> hxb_datetime \<Rightarrow> u32 option" where
  "datetime_field cop dt =
     (if cop AND HXB_SM_HOUR \<noteq> 0 then Some (ucast (hour dt))
      else if cop AND HXB_SM_MINUTE \<noteq> 0 then Some (ucast (minute dt))
      else if cop AND HXB_SM_SECOND \<noteq> 0 then Some (ucast (second dt))
      else if cop AND HXB_SM_DAY \<noteq> 0 then Some (ucast (day dt))
      else if cop AND HXB_SM_MONTH \<noteq> 0 then Some (ucast (month dt))
      else if cop AND HXB_SM_YEAR \<noteq> 0 then Some (ucast (year dt))
      else if cop AND HXB_SM_WEEKDAY \<noteq> 0 then Some (ucast (weekday dt))
      else None)"

definition compare_datetime :: "u8 \<Rightarrow> hxb_datetime \<Rightarrow> u32 \<Rightarrow> bool" where
  "compare_datetime cop dt x =
     (case datetime_field cop dt of
        Some f \<Rightarrow> (if cop AND HXB_SM_DATETIME_OP_GEQ \<noteq> 0 then f \<ge> x else f < x)
      | None \<Rightarrow> False)"

definition anyhost :: "ip6 \<Rightarrow> bool" where
  "anyhost ip = (\<forall>b \<in> set ip. b = 0)"

definition eval :: "u8 \<Rightarrow> hxb_envelope option \<Rightarrow> 'a sms_scheme \<Rightarrow> bool" where
  "eval condIndex envelope s =
     (if condIndex = TRUE_COND_INDEX then True
      else case envelope of
        None \<Rightarrow> False
      | Some env \<Rightarrow>
          (let cond = sm_get_condition condIndex (ee s);
               dtype = vdatatype (cond_value cond);
               timed = (dtype = dtype_code HXB_DTYPE_DATETIME \<or> dtype = dtype_code HXB_DTYPE_TIMESTAMP)
           in
             if \<not> timed \<and> \<not> anyhost (sourceIP cond) \<and> sourceIP cond \<noteq> env_src_ip env then False
             else if sourceEID cond \<noteq> env_eid env \<and> \<not> timed then False
             else if vdatatype (env_value env) \<noteq> dtype \<and> dtype \<noteq> dtype_code HXB_DTYPE_TIMESTAMP then False
             else case dtype_of dtype of
                 Some HXB_DTYPE_BOOL \<Rightarrow> compare_op (cond_op cond) (v_u8 (env_value env)) (v_u8 (cond_value cond))
               | Some HXB_DTYPE_UINT8 \<Rightarrow> compare_op (cond_op cond) (v_u8 (env_value env)) (v_u8 (cond_value cond))
               | Some HXB_DTYPE_UINT32 \<Rightarrow> compare_op (cond_op cond) (v_u32 (env_value env)) (v_u32 (cond_value cond))
               | Some HXB_DTYPE_FLOAT \<Rightarrow> compare_float (cond_op cond) (v_float (env_value env)) (v_float (cond_value cond))
               | Some HXB_DTYPE_DATETIME \<Rightarrow>
                   dt_valid s \<and> compare_datetime (cond_op cond) (v_datetime (env_value env)) (v_u32 (cond_value cond))
               | Some HXB_DTYPE_TIMESTAMP \<Rightarrow>
                   cond_op cond = HXB_SM_TIMESTAMP_OP \<and> getTimestamp s - inStateSince s \<ge> v_u32 (cond_value cond)
               | _ \<Rightarrow> False))"

section \<open>Transitions\<close>

type_synonym 's writer = "u32 \<Rightarrow> hxb_envelope \<Rightarrow> 's \<Rightarrow> hxb_error_code \<times> 's"

text \<open>
  The source address of a transition's write: \<open>uip_ipaddr\<close> is the IPv4 macro, it sets the first
  four bytes; the others are whatever the stack held, zeros here.
\<close>

definition action_env :: "sm_transition \<Rightarrow> hxb_envelope" where
  "action_env t = \<lparr>env_src_ip = [0, 0, 0, 1] @ replicate 12 0, env_src_port = 0, env_eid = trans_eid t,
     env_value = trans_value t\<rparr>"

definition has_action :: "sm_transition \<Rightarrow> bool" where
  "has_action t = (trans_eid t \<noteq> 0 \<or> vdatatype (trans_value t) \<noteq> 0)"

definition enter_state :: "u8 \<Rightarrow> 'a sms_scheme \<Rightarrow> 'a sms_scheme" where
  "enter_state q s = s\<lparr>inStateSince := getTimestamp s, curState := q\<rparr>"

definition take_transition :: "'a sms_scheme writer \<Rightarrow> sm_transition \<Rightarrow> 'a sms_scheme \<Rightarrow> 'a sms_scheme" where
  "take_transition wr t s =
     (if has_action t then
        (let (err, s) = wr (trans_eid t) (action_env t) s
         in enter_state (if err = HXB_ERR_SUCCESS then goodState t else badState t) s)
      else enter_state (goodState t) s)"

text \<open>The loop of both check functions; a transition with an action ends it, one without does not.\<close>

fun check_transitions ::
    "'a sms_scheme writer \<Rightarrow> bool \<Rightarrow> hxb_envelope option \<Rightarrow> u8 list \<Rightarrow> 'a sms_scheme \<Rightarrow> 'a sms_scheme" where
  "check_transitions wr datetime env [] s = s"
| "check_transitions wr datetime env (i # is) s =
     (let t = sm_get_transition datetime i (ee s) in
      if fromState t = curState s \<and> eval (trans_cond t) env s then
        (if has_action t then take_transition wr t s
         else check_transitions wr datetime env is (take_transition wr t s))
      else check_transitions wr datetime env is s)"

definition indices :: "u8 \<Rightarrow> u8 list" where
  "indices n = map of_nat [0..<unat n]"

definition check_value_transitions :: "'a sms_scheme writer \<Rightarrow> hxb_envelope option \<Rightarrow> 'a sms_scheme \<Rightarrow> 'a sms_scheme" where
  "check_value_transitions wr env s = check_transitions wr False env (indices (transLength s)) s"

text \<open>The fields of the local envelope that the code leaves uninitialised are never compared: a
  condition that looks at them has another data type than the envelope and fails on that.\<close>

definition datetime_env :: "hxb_datetime \<Rightarrow> hxb_envelope" where
  "datetime_env dt = \<lparr>env_src_ip = replicate 16 0, env_src_port = 0, env_eid = 0,
     env_value = set_datetime dt (fresh_value\<lparr>vdatatype := dtype_code HXB_DTYPE_DATETIME\<rparr>)\<rparr>"

definition check_datetime_transitions :: "'a sms_scheme writer \<Rightarrow> 'a sms_scheme \<Rightarrow> 'a sms_scheme" where
  "check_datetime_transitions wr s =
     (let (valid, dt) = getDatetime s; s = s\<lparr>dt_valid := valid\<rparr>
      in check_transitions wr True (Some (datetime_env dt)) (indices (dtTransLength s)) s)"

section \<open>The process\<close>

definition sm_is_running :: "'a sms_scheme \<Rightarrow> bool" where
  "sm_is_running s = (sm_state s \<noteq> PROCESS_STATE_NONE)"

text \<open>The process from \<open>PROCESS_BEGIN\<close> to its first wait, on \<open>PROCESS_EVENT_INIT\<close>.\<close>

definition sm_process_init :: "'a sms_scheme \<Rightarrow> 'a sms_scheme" where
  "sm_process_init s =
     (let (n, s) = process_alloc_event s
      in s\<lparr>sm_handle_input_event := n, transLength := sm_get_number_of_transitions False (ee s),
           dtTransLength := sm_get_number_of_transitions True (ee s),
           check_timer := app_timer_set (clock s) (CLOCK_SECOND * 5) (check_timer s),
           sm_state := PROCESS_STATE_RUNNING\<rparr>)"

definition sm_start :: "'a sms_scheme \<Rightarrow> 'a sms_scheme" where
  "sm_start s = (if sm_is_running s then s else sm_process_init (s\<lparr>curState := 0\<rparr>))"

text \<open>The exit of a process takes its timers off the timer list.\<close>

definition sm_stop :: "'a sms_scheme \<Rightarrow> 'a sms_scheme" where
  "sm_stop s = (if \<not> sm_is_running s then s
     else s\<lparr>sm_state := PROCESS_STATE_NONE, check_timer := app_timer_stop (check_timer s)\<rparr>)"

definition sm_restart :: "'a sms_scheme \<Rightarrow> 'a sms_scheme" where
  "sm_restart s = sm_start (sm_stop s)"

text \<open>The data pointer of an event.\<close>

datatype event_data = No_Data | Envelope hxb_envelope | Udp_State udp_handler_event

definition envelope_of :: "event_data \<Rightarrow> hxb_envelope option" where
  "envelope_of d = (case d of Envelope e \<Rightarrow> Some e | _ \<Rightarrow> None)"

text \<open>Reading the data as \<open>udp_handler_event_t\<close> (an int) and comparing it with \<open>UDP_HANDLER_UP\<close>, 0.\<close>

definition is_udp_up :: "event_data \<Rightarrow> bool" where
  "is_udp_up d = (case d of Udp_State u \<Rightarrow> u = UDP_HANDLER_UP | Envelope e \<Rightarrow> get16 0 (env_src_ip e) = 0 | No_Data \<Rightarrow> False)"

definition is_own_reset_id :: "hxb_envelope \<Rightarrow> 'a sms_scheme \<Rightarrow> bool" where
  "is_own_reset_id env s =
     (env_eid env = EP_SM_RESET_ID \<and> vdatatype (env_value env) = dtype_code HXB_DTYPE_16BYTES \<and>
      env_src_ip env \<noteq> ip6_localhost \<and> take 16 (vblob (env_value env)) = sm_get_id (ee s))"

text \<open>One round of the process loop for an event.\<close>

definition sm_thread ::
    "(u32 \<Rightarrow> 'a sms_scheme \<Rightarrow> 'a sms_scheme) \<Rightarrow> 'a sms_scheme writer \<Rightarrow> u8 \<Rightarrow> event_data \<Rightarrow> 'a sms_scheme \<Rightarrow> 'a sms_scheme" where
  "sm_thread bc wr ev data s =
     (if ev = udp_event_number s \<and> is_udp_up data then
        (if \<not> sm_id_is_zero (ee s) then
           check_value_transitions wr None ((bc EP_SM_RESET_ID s)\<lparr>curState := 0\<rparr>)
         else s)
      else if ev = PROCESS_EVENT_TIMER then
        (let s = check_datetime_transitions wr s in s\<lparr>check_timer := app_timer_reset (check_timer s)\<rparr>)
      else if ev = sm_handle_input_event s then
        (let s = (if \<not> sm_id_is_zero (ee s) then
                    (case envelope_of data of
                       Some env \<Rightarrow> (if is_own_reset_id env s then sm_restart s else s)
                     | None \<Rightarrow> s)
                  else s)
         in check_value_transitions wr (envelope_of data) s)
      else s)"

text \<open>\<open>call_process\<close> for this process: only a process that waits is called.\<close>

definition sm_call ::
    "(u32 \<Rightarrow> 'a sms_scheme \<Rightarrow> 'a sms_scheme) \<Rightarrow> 'a sms_scheme writer \<Rightarrow> u8 \<Rightarrow> event_data \<Rightarrow> 'a sms_scheme \<Rightarrow> 'a sms_scheme" where
  "sm_call bc wr ev data s =
     (if sm_state s = PROCESS_STATE_RUNNING then
        (let s = sm_thread bc wr ev data (s\<lparr>sm_state := PROCESS_STATE_CALLED\<rparr>)
         in if sm_is_running s then s\<lparr>sm_state := PROCESS_STATE_RUNNING\<rparr> else s)
      else s)"

definition sm_handle_input ::
    "(u32 \<Rightarrow> 'a sms_scheme \<Rightarrow> 'a sms_scheme) \<Rightarrow> 'a sms_scheme writer \<Rightarrow> hxb_envelope \<Rightarrow> 'a sms_scheme \<Rightarrow> 'a sms_scheme" where
  "sm_handle_input bc wr env s = sm_call bc wr (sm_handle_input_event s) (Envelope env) s"

section \<open>What a pass over a table does\<close>

definition matches :: "bool \<Rightarrow> hxb_envelope option \<Rightarrow> u8 \<Rightarrow> 'a sms_scheme \<Rightarrow> bool" where
  "matches datetime env i s =
     (fromState (sm_get_transition datetime i (ee s)) = curState s \<and>
      eval (trans_cond (sm_get_transition datetime i (ee s))) env s)"

text \<open>
  The relation a pass over the indices \<open>is\<close> is to compute: nothing matches; or the first match has
  an action, which is performed and ends the pass; or it has none, and the pass goes on behind it
  in the new state.
\<close>

inductive fires ::
    "'a sms_scheme writer \<Rightarrow> bool \<Rightarrow> hxb_envelope option \<Rightarrow> u8 list \<Rightarrow> 'a sms_scheme \<Rightarrow> 'a sms_scheme \<Rightarrow> bool"
  for wr datetime env where
  quiet: "\<forall>i \<in> set is. \<not> matches datetime env i s \<Longrightarrow> fires wr datetime env is s s"
| action: "\<forall>j \<in> set pre. \<not> matches datetime env j s \<Longrightarrow> matches datetime env i s \<Longrightarrow>
    has_action (sm_get_transition datetime i (ee s)) \<Longrightarrow>
    fires wr datetime env (pre @ i # post) s (take_transition wr (sm_get_transition datetime i (ee s)) s)"
| silent: "\<forall>j \<in> set pre. \<not> matches datetime env j s \<Longrightarrow> matches datetime env i s \<Longrightarrow>
    \<not> has_action (sm_get_transition datetime i (ee s)) \<Longrightarrow>
    fires wr datetime env post (enter_state (goodState (sm_get_transition datetime i (ee s))) s) s' \<Longrightarrow>
    fires wr datetime env (pre @ i # post) s s'"

inductive_cases fires_NilE: "fires wr datetime env [] s s'"

lemma take_silent: "\<not> has_action t \<Longrightarrow> take_transition wr t s = enter_state (goodState t) s"
  by (simp add: take_transition_def)

lemma check_skip: "\<forall>j \<in> set pre. \<not> matches datetime env j s \<Longrightarrow>
    check_transitions wr datetime env (pre @ is) s = check_transitions wr datetime env is s"
  by (induction pre) (auto simp: matches_def Let_def)

lemma check_hit: "matches datetime env i s \<Longrightarrow>
    check_transitions wr datetime env (i # post) s =
      (let t = sm_get_transition datetime i (ee s) in
       if has_action t then take_transition wr t s
       else check_transitions wr datetime env post (enter_state (goodState t) s))"
  by (simp add: matches_def Let_def take_silent)

lemma fires_check: "fires wr datetime env is s s' \<Longrightarrow> s' = check_transitions wr datetime env is s"
proof (induction rule: fires.induct)
  case (quiet "is" s)
  then show ?case using check_skip [of "is" datetime env s wr "[]"] by simp
next
  case (action pre s i post)
  then show ?case by (simp add: check_skip check_hit Let_def del: check_transitions.simps)
next
  case (silent pre s i post s')
  then show ?case by (simp add: check_skip check_hit Let_def del: check_transitions.simps)
qed

lemma fires_cons:
  assumes f: "fires wr datetime env is s s'" and n: "\<not> matches datetime env i s"
  shows "fires wr datetime env (i # is) s s'"
  using f
proof (cases rule: fires.cases)
  case quiet
  show ?thesis unfolding \<open>s' = s\<close> by (rule fires.quiet) (use quiet n in auto)
next
  case (action pre j post)
  have "fires wr datetime env ((i # pre) @ j # post) s (take_transition wr (sm_get_transition datetime j (ee s)) s)"
    using action n by (intro fires.action) auto
  with action show ?thesis by simp
next
  case (silent pre j post)
  have "fires wr datetime env ((i # pre) @ j # post) s s'"
    using silent n by (intro fires.silent) auto
  with silent show ?thesis by simp
qed

lemma check_fires: "fires wr datetime env is s (check_transitions wr datetime env is s)"
proof (induction "is" arbitrary: s)
  case Nil
  then show ?case by (auto intro: fires.quiet)
next
  case (Cons i "is")
  let ?t = "sm_get_transition datetime i (ee s)"
  show ?case
  proof (cases "matches datetime env i s")
    case False
    then have "check_transitions wr datetime env (i # is) s = check_transitions wr datetime env is s"
      by (auto simp: matches_def Let_def)
    with fires_cons [OF Cons.IH False] show ?thesis by simp
  next
    case True
    show ?thesis
    proof (cases "has_action ?t")
      case act: True
      have "fires wr datetime env ([] @ i # is) s (take_transition wr ?t s)"
        by (rule fires.action) (use True act in auto)
      with act show ?thesis by (simp add: check_hit [OF True] Let_def del: check_transitions.simps)
    next
      case act: False
      have "fires wr datetime env ([] @ i # is) s
          (check_transitions wr datetime env is (enter_state (goodState ?t) s))"
        by (rule fires.silent) (use True act Cons.IH in auto)
      with act show ?thesis by (simp add: check_hit [OF True] Let_def del: check_transitions.simps)
    qed
  qed
qed

lemma enter_state_fields [simp]:
  "curState (enter_state q s) = q" "inStateSince (enter_state q s) = getTimestamp s"
  "ee (enter_state q s) = ee s" "sm_state (enter_state q s) = sm_state s" "conf (enter_state q s) = conf s"
  "out_of_fuel (enter_state q s) = out_of_fuel s" "timestamp (enter_state q s) = timestamp s"
  "getTimestamp (enter_state q s) = getTimestamp s"
  by (simp_all add: enter_state_def getTimestamp_def)

lemma take_transition_state: "curState (take_transition wr t s) \<in> {goodState t, badState t}"
  by (simp add: take_transition_def split_beta)

definition targets :: "bool \<Rightarrow> eeprom \<Rightarrow> u8 list \<Rightarrow> u8 set" where
  "targets datetime e is =
     (\<Union>i \<in> set is. {goodState (sm_get_transition datetime i e), badState (sm_get_transition datetime i e)})"

lemma targets_append [simp]: "targets datetime e (xs @ ys) = targets datetime e xs \<union> targets datetime e ys"
  by (auto simp: targets_def)

lemma targets_cons [simp]: "targets datetime e (i # is) =
    {goodState (sm_get_transition datetime i e), badState (sm_get_transition datetime i e)} \<union> targets datetime e is"
  by (auto simp: targets_def)

lemma fires_state: "fires wr datetime env is s s' \<Longrightarrow> curState s' \<in> insert (curState s) (targets datetime (ee s) is)"
proof (induction rule: fires.induct)
  case (quiet "is" s) then show ?case by simp
next
  case (action pre s i post)
  then show ?case using take_transition_state [of wr "sm_get_transition datetime i (ee s)" s] by auto
next
  case (silent pre s i post s') then show ?case by auto
qed

section \<open>Event numbers\<close>

lemma sm_restart_event:
  "sm_handle_input_event (sm_restart s) = lastevent s" "lastevent (sm_restart s) = lastevent s + 1"
  by (simp_all add: sm_restart_def sm_stop_def sm_start_def sm_is_running_def sm_process_init_def process_alloc_event_def)

lemma sm_restarts_lastevent: "lastevent ((sm_restart ^^ n) s) = lastevent s + of_nat n"
  by (induction n) (simp_all add: sm_restart_event)

lemma sm_restart_state: "sm_state (sm_restart s) = PROCESS_STATE_RUNNING" "curState (sm_restart s) = 0"
  by (simp_all add: sm_restart_def sm_stop_def sm_start_def sm_is_running_def sm_process_init_def process_alloc_event_def)

section \<open>Properties\<close>

text \<open>C12: A pass over a transition table computes exactly what the relation \<open>fires\<close> describes: the first
  matching transition with an action is performed and ends the pass, matching transitions without an
  action change the state on the way.\<close>

theorem transition_pass_spec:
  "fires wr datetime env is s s' \<longleftrightarrow> s' = check_transitions wr datetime env is s"
  using fires_check [of wr datetime env "is" s s'] check_fires [of wr datetime env "is" s] by blast

text \<open>Whatever the written endpoints do, a pass over the value transitions leaves the machine in its
  old state or in the good or bad state of a transition of the table.\<close>

theorem pass_reaches_only_table_states:
  "curState (check_value_transitions wr env s)
     \<in> insert (curState s) (targets False (ee s) (indices (transLength s)))"
  unfolding check_value_transitions_def by (rule fires_state [OF check_fires])

text \<open>An in-state-since condition of \<open>v\<close> seconds becomes true exactly \<open>v\<close> ticks of the timestamp after
  the machine entered its state, also across the wrap-around of the timestamp.\<close>

theorem in_state_since:
  assumes "c \<noteq> TRUE_COND_INDEX" "vdatatype (cond_value (sm_get_condition c (ee s))) = dtype_code HXB_DTYPE_TIMESTAMP"
    and "cond_op (sm_get_condition c (ee s)) = HXB_SM_TIMESTAMP_OP" "n < 2 ^ 32"
  shows "eval c (Some env) ((enter_state q s)\<lparr>timestamp := timestamp s + of_nat n\<rparr>) \<longleftrightarrow>
    unat (v_u32 (cond_value (sm_get_condition c (ee s)))) \<le> n"
proof -
  have "unat (of_nat n :: u32) = n" using assms(4) by (intro unat_small) simp
  then show ?thesis using assms(1-3)
    by (simp add: eval_def Let_def getTimestamp_def word_le_nat_alt)
qed

definition fresh_sms :: sms where
  "fresh_sms = dts.extend fresh_dts (sms.fields 0 0 0 0 False PROCESS_STATE_RUNNING 0x8a 0x8b no_timer)"

definition ten_seconds :: sm_condition where
  "ten_seconds = \<lparr>sourceIP = replicate 16 0, sourceEID = 0, cond_op = 0x80,
     cond_value = \<lparr>vdatatype = 7, vraw = [10, 0, 0, 0, 0, 0, 0, 0], vblob = []\<rparr>\<rparr>"

theorem in_state_since_witness:
  "eval 0 (Some (datetime_env (current_dt fresh_sms)))
     ((enter_state 3 (fresh_sms\<lparr>ee := sm_write_condition 0 ten_seconds (ee fresh_sms)\<rparr>))
        \<lparr>timestamp := timestamp fresh_sms + of_nat 10\<rparr>)"
proof -
  let ?s = "fresh_sms\<lparr>ee := sm_write_condition 0 ten_seconds (ee fresh_sms)\<rparr>"
  have "sm_get_condition 0 (ee ?s) = ten_seconds"
    by (simp add: condition_same wf_condition_def wf_value_def ten_seconds_def)
  moreover have "unat (v_u32 (cond_value ten_seconds)) \<le> 10"
    by (simp add: ten_seconds_def v_u32_def get32_def le32_def)
  ultimately show ?thesis
    using in_state_since [of 0 ?s 10 "datetime_env (current_dt fresh_sms)" 3]
    by (simp add: ten_seconds_def TRUE_COND_INDEX_def HXB_SM_TIMESTAMP_OP_def)
qed

lemma udp_event_restart [simp]: "udp_event_number ((sm_restart ^^ n) s) = udp_event_number s"
  by (induction n) (simp_all add: sm_restart_def sm_stop_def sm_start_def sm_is_running_def sm_process_init_def
      process_alloc_event_def)

lemma event_after_restarts: "sm_handle_input_event ((sm_restart ^^ Suc n) s) = lastevent s + of_nat n"
  by (simp add: sm_restart_event sm_restarts_lastevent)

text \<open>Every restart takes a new event number from an eight bit counter. After at most 256 restarts the
  number for inputs is the one of timer events, and a broadcast value no longer evaluates the value
  transitions but the date/time transitions.\<close>

theorem event_numbers_run_out:
  assumes "udp_event_number s \<noteq> PROCESS_EVENT_TIMER"
  shows "\<exists>n \<le> 256. let s' = (sm_restart ^^ n) s in
    sm_handle_input_event s' = PROCESS_EVENT_TIMER \<and>
    (\<forall>bc wr env. sm_thread bc wr (sm_handle_input_event s') (Envelope env) s' =
       (let s'' = check_datetime_transitions wr s' in s''\<lparr>check_timer := app_timer_reset (check_timer s'')\<rparr>))"
proof -
  let ?n = "unat (PROCESS_EVENT_TIMER - lastevent s)"
  have "unat (PROCESS_EVENT_TIMER - lastevent s) < 2 ^ LENGTH(8)" by (rule unsigned_less)
  then have n: "Suc ?n \<le> 256" by simp
  have "sm_handle_input_event ((sm_restart ^^ Suc ?n) s) = PROCESS_EVENT_TIMER"
    unfolding event_after_restarts by simp
  then show ?thesis using n assms
    by (intro exI [of _ "Suc ?n"]) (simp add: Let_def sm_thread_def del: funpow.simps)
qed

theorem event_numbers_run_out_witness:
  "\<exists>n \<le> 256. sm_handle_input_event ((sm_restart ^^ n) fresh_sms) = PROCESS_EVENT_TIMER"
  using event_numbers_run_out [of fresh_sms]
  by (auto simp: Let_def fresh_sms_def sms.defs dts.defs fresh_dts_def plat.defs fresh_plat_def PROCESS_EVENT_TIMER_def)

end
