(* ===== verification/Metering.thy ===== *)
theory Metering
  imports State_Machine
begin

text \<open>
  \<^verbatim>\<open>metering.c\<close> and \<^verbatim>\<open>relay.c\<close>. The two files call each other (switching the relay resets the
  meter, calibration switches the relay), so they share a theory. The metering interrupt is an
  operation of its own; the clock does not advance during an operation. \<open>bc\<close> is
  \<open>broadcast_value\<close>.
\<close>

definition OUT_OF_DATE_TIME :: u16 where "OUT_OF_DATE_TIME = 240"

record mts = sms +
  metering_pulse_period :: clock_time
  clock_old :: clock_time
  metering_calibration_power :: u16
  metering_reference_value :: u16
  metering_calibration_state :: u8
  metering_power :: u16
  metering_calibration :: bool
  metering_stop_timer :: app_timer
  ticks_until_broadcast :: u8
  last_broadcast :: clock_time
  last_power :: u32
  metering_pulses_total :: u32
  metering_pulses :: u32
  metering_interrupt :: bool      \<comment> \<open>INT1 enabled in \<open>EIMSK\<close>\<close>
  relay_default_state :: bool
  relay_state :: bool

type_synonym 's broadcaster = "u32 \<Rightarrow> 's \<Rightarrow> 's"

section \<open>Power\<close>

text \<open>The recurring computation of the ticks since \<open>past\<close> with its case for the wrapped clock.\<close>

definition ticks_since :: "clock_time \<Rightarrow> clock_time \<Rightarrow> u16" where
  "ticks_since now past = (if now > past then now - past else (0xFFFF - past) + now + 1)"

definition calc_power :: "u16 \<Rightarrow> 'a mts_scheme \<Rightarrow> u16" where
  "calc_power pulse_period s =
     (if pulse_period = 0 then div_by_zero (conf s)
      else if S0_ENABLE (conf s) then ucast ((ucast (metering_reference_value s) * 10 :: u32) div ucast pulse_period)
      else metering_reference_value s div pulse_period)"

definition metering_out_of_date :: "u16 \<Rightarrow> 'a mts_scheme \<Rightarrow> bool" where
  "metering_out_of_date tmp s =
     (metering_power s \<noteq> 0 \<and>
      (if S0_ENABLE (conf s)
       then ucast tmp > (2 * ((ucast (metering_reference_value s) * 10) div ucast (metering_power s)) :: u32)
       else tmp > 2 * (metering_reference_value s div metering_power s)))"

definition metering_get_power :: "'a mts_scheme \<Rightarrow> u16 \<times> 'a mts_scheme" where
  "metering_get_power s =
     (let tmp = ticks_since (clock s) (clock_old s);
          s = (if tmp > OUT_OF_DATE_TIME * CLOCK_SECOND then s\<lparr>metering_power := 0\<rparr>
               else if metering_out_of_date tmp s then s\<lparr>metering_power := calc_power tmp s\<rparr>
               else s)
      in (metering_power s, s))"

section \<open>Energy\<close>

definition kwh_divisor :: f32 where "kwh_divisor = f32_of_u32 3600000"

definition metering_get_energy :: "'a mts_scheme \<Rightarrow> f32" where
  "metering_get_energy s =
     f32_div (f32_of_u32 (metering_pulses s * ucast (metering_reference_value s div CLOCK_SECOND))) kwh_divisor"

definition metering_get_energy_total :: "'a mts_scheme \<Rightarrow> f32" where
  "metering_get_energy_total s =
     f32_div (f32_of_u32 (metering_pulses_total s * ucast (metering_reference_value s div CLOCK_SECOND))) kwh_divisor"

definition metering_reset_energy :: "'a mts_scheme \<Rightarrow> 'a mts_scheme" where
  "metering_reset_energy s = s\<lparr>metering_pulses := 0\<rparr>"

section \<open>Endpoints\<close>

definition read_power :: "hxb_value \<Rightarrow> 'a mts_scheme \<Rightarrow> hxb_error_code \<times> hxb_value \<times> 'a mts_scheme" where
  "read_power v s = (let (p, s) = metering_get_power s in (HXB_ERR_SUCCESS, set_u32 (ucast p) v, s))"

definition read_energy_total :: "hxb_value \<Rightarrow> 'a mts_scheme \<Rightarrow> hxb_error_code \<times> hxb_value \<times> 'a mts_scheme" where
  "read_energy_total v s = (HXB_ERR_SUCCESS, set_float (metering_get_energy_total s) v, s)"

definition read_energy :: "hxb_value \<Rightarrow> 'a mts_scheme \<Rightarrow> hxb_error_code \<times> hxb_value \<times> 'a mts_scheme" where
  "read_energy v s = (HXB_ERR_SUCCESS, set_float (metering_get_energy s) v, s)"

definition write_energy :: "hxb_envelope \<Rightarrow> 'a mts_scheme \<Rightarrow> hxb_error_code \<times> 'a mts_scheme" where
  "write_energy env s = (HXB_ERR_SUCCESS, metering_reset_energy s)"

definition endpoint_power :: descriptor where
  "endpoint_power = \<lparr>ep_datatype = dtype_code HXB_DTYPE_UINT32, ep_eid = EP_POWER_METER,
     ep_name = Some (ascii ''Power Meter''), ep_read = Some Rd_power, ep_write = None\<rparr>"

definition endpoint_energy_total :: descriptor where
  "endpoint_energy_total = \<lparr>ep_datatype = dtype_code HXB_DTYPE_FLOAT, ep_eid = EP_ENERGY_METER_TOTAL,
     ep_name = Some (ascii ''Energy Meter Total''), ep_read = Some Rd_energy_total, ep_write = None\<rparr>"

definition endpoint_energy :: descriptor where
  "endpoint_energy = \<lparr>ep_datatype = dtype_code HXB_DTYPE_FLOAT, ep_eid = EP_ENERGY_METER,
     ep_name = Some (ascii ''Energy Meter''), ep_read = Some Rd_energy, ep_write = Some Wr_energy\<rparr>"

section \<open>Starting and stopping the meter\<close>

definition metering_start :: "'a mts_scheme \<Rightarrow> 'a mts_scheme" where
  "metering_start s =
     (let s = s\<lparr>metering_pulse_period := 0, metering_power := 0, clock_old := clock s\<rparr>;
          s = (if METERING_IMMEDIATE_BROADCAST (conf s) then s\<lparr>last_broadcast := clock s\<rparr> else s)
      in s\<lparr>metering_interrupt := True\<rparr>)"

definition metering_reset :: "'a mts_scheme broadcaster \<Rightarrow> 'a mts_scheme \<Rightarrow> 'a mts_scheme" where
  "metering_reset bc s =
     (let s = bc EP_POWER_METER (s\<lparr>metering_power := 0\<rparr>)
      in if METERING_ENERGY (conf s) then bc EP_ENERGY_METER_TOTAL s else s)"

definition metering_stop :: "'a mts_scheme broadcaster \<Rightarrow> 'a mts_scheme \<Rightarrow> 'a mts_scheme" where
  "metering_stop bc s = metering_reset bc (s\<lparr>metering_interrupt := False\<rparr>)"

definition metering_init :: "'a mts_scheme \<Rightarrow> 'a mts_scheme" where
  "metering_init s =
     (let s = s\<lparr>metering_reference_value := eeprom_read_word (ee s) EE_METERING_REF,
                metering_calibration_power := eeprom_read_word (ee s) EE_METERING_CAL_LOAD\<rparr>;
          s = (if METERING_ENERGY (conf s) then
                 (let s = s\<lparr>metering_pulses := 0, metering_pulses_total := 0\<rparr> in
                  if METERING_ENERGY_PERSISTENT (conf s) then
                    s\<lparr>metering_pulses_total := get32 0 (eeprom_read_block (ee s) EE_ENERGY_METERING_PULSES_TOTAL 4),
                      metering_pulses := get32 0 (eeprom_read_block (ee s) EE_ENERGY_METERING_PULSES 4)\<rparr>
                  else s)
               else s);
          s = metering_start s;
          s = (if METERING_POWER (conf s) then ENDPOINT_REGISTER endpoint_power s else s)
      in if METERING_ENERGY (conf s) then ENDPOINT_REGISTER endpoint_energy (ENDPOINT_REGISTER endpoint_energy_total s)
         else s)"

text \<open>The argument of the division is a 16 bit product that may wrap, also to zero.\<close>

definition metering_set_s0_calibration :: "'a mts_scheme broadcaster \<Rightarrow> u16 \<Rightarrow> 'a mts_scheme \<Rightarrow> 'a mts_scheme" where
  "metering_set_s0_calibration bc v s =
     (let s = metering_stop bc s;
          q = (if v * 10 = 0 then div_by_zero (conf s)
               else ucast ((3600000 * ucast CLOCK_SECOND :: u32) div ucast (v * 10)));
          s = s\<lparr>ee := eeprom_write_word EE_METERING_REF q (ee s)\<rparr>
      in metering_start (metering_init s))"

section \<open>Relay\<close>

definition relay_leds :: "'a mts_scheme \<Rightarrow> 'a mts_scheme" where
  "relay_leds s = (if relay_state s then leds_off LEDS_GREEN (leds_on LEDS_RED s)
     else leds_off LEDS_RED (leds_on LEDS_GREEN s))"

definition relay_get_state :: "'a mts_scheme \<Rightarrow> bool" where
  "relay_get_state s = relay_state s"

definition relay_on :: "'a mts_scheme broadcaster \<Rightarrow> 'a mts_scheme \<Rightarrow> 'a mts_scheme" where
  "relay_on bc s =
     (if METERING_ENERGY_PERSISTENT (conf s) then s
      else if \<not> relay_state s then
        metering_reset bc (relay_leds (s\<lparr>relay_port := relay_port s OR 8, relay_state := True\<rparr>))
      else s)"

definition relay_off :: "'a mts_scheme broadcaster \<Rightarrow> 'a mts_scheme \<Rightarrow> 'a mts_scheme" where
  "relay_off bc s =
     (if METERING_ENERGY_PERSISTENT (conf s) then s
      else metering_reset bc (relay_leds (s\<lparr>relay_port := relay_port s AND NOT 8, relay_state := False\<rparr>)))"

definition relay_toggle :: "'a mts_scheme broadcaster \<Rightarrow> 'a mts_scheme \<Rightarrow> 'a mts_scheme" where
  "relay_toggle bc s = (if relay_state s then relay_off bc s else relay_on bc s)"

definition relay_default :: "'a mts_scheme broadcaster \<Rightarrow> 'a mts_scheme \<Rightarrow> 'a mts_scheme" where
  "relay_default bc s = (if relay_default_state s then relay_on bc s else relay_off bc s)"

definition set_relay_default :: "bool \<Rightarrow> 'a mts_scheme \<Rightarrow> 'a mts_scheme" where
  "set_relay_default d s =
     (if relay_default_state s \<noteq> d
      then s\<lparr>ee := eeprom_write_byte EE_RELAY_DEFAULT (if d then 1 else 0) (ee s), relay_default_state := d\<rparr>
      else s)"

definition read_relay :: "hxb_value \<Rightarrow> 'a mts_scheme \<Rightarrow> hxb_error_code \<times> hxb_value \<times> 'a mts_scheme" where
  "read_relay v s = (HXB_ERR_SUCCESS, set_u8 (if relay_get_state s = False then HXB_TRUE else HXB_FALSE) v, s)"

text \<open>The relay is normally closed: \<open>relay_off\<close> switches the socket on.\<close>

definition write_relay :: "'a mts_scheme broadcaster \<Rightarrow> hxb_envelope \<Rightarrow> 'a mts_scheme \<Rightarrow> hxb_error_code \<times> 'a mts_scheme" where
  "write_relay bc env s =
     (HXB_ERR_SUCCESS, if v_bool (env_value env) = HXB_TRUE then relay_off bc s else relay_on bc s)"

definition endpoint_relay :: descriptor where
  "endpoint_relay = \<lparr>ep_datatype = dtype_code HXB_DTYPE_BOOL, ep_eid = EP_POWER_SWITCH,
     ep_name = Some (ascii ''Main Switch''), ep_read = Some Rd_relay, ep_write = Some Wr_relay\<rparr>"

definition relay_init :: "'a mts_scheme broadcaster \<Rightarrow> 'a mts_scheme \<Rightarrow> 'a mts_scheme" where
  "relay_init bc s =
     (if RELAY_ENABLE (conf s) then
        (let s = (if METERING_ENERGY_PERSISTENT (conf s) then s
                  else relay_default bc (s\<lparr>relay_default_state := (eeprom_read_byte (ee s) EE_RELAY_DEFAULT \<noteq> 0),
                         relay_state := False\<rparr>))
         in ENDPOINT_REGISTER endpoint_relay s)
      else s)"

section \<open>Calibration and the metering interrupt\<close>

definition metering_calibrate :: "'a mts_scheme broadcaster \<Rightarrow> 'a mts_scheme \<Rightarrow> bool \<times> 'a mts_scheme" where
  "metering_calibrate bc s =
     (let s = (if eeprom_read_byte (ee s) EE_METERING_CAL_FLAG = 0xFF \<and> \<not> metering_calibration s then
                 (let s = relay_off bc (s\<lparr>metering_calibration := True, metering_calibration_state := 0\<rparr>);
                      s = leds_on LEDS_ALL s
                  in s\<lparr>metering_stop_timer := app_timer_set (clock s) (CLOCK_SECOND * 60) (metering_stop_timer s)\<rparr>)
               else s)
      in (metering_calibration s, s))"

definition lock_calibration :: "u16 \<Rightarrow> 'a mts_scheme \<Rightarrow> 'a mts_scheme" where
  "lock_calibration r s = s\<lparr>ee := eeprom_write_byte EE_METERING_CAL_FLAG 0 (eeprom_write_word EE_METERING_REF r (ee s)),
     metering_calibration_state := 0, metering_calibration := False\<rparr>"

definition metering_calibration_stop :: "'a mts_scheme \<Rightarrow> 'a mts_scheme" where
  "metering_calibration_stop s =
     (let s = relay_leds (lock_calibration 0 s)
      in s\<lparr>metering_stop_timer := app_timer_stop (metering_stop_timer s)\<rparr>)"

text \<open>The two branches of the interrupt: a calibration pulse and a measured pulse.\<close>

definition calibration_pulse :: "'a mts_scheme broadcaster \<Rightarrow> 'a mts_scheme \<Rightarrow> 'a mts_scheme" where
  "calibration_pulse bc s =
     (if metering_calibration_state s < 10 then
        (let s = (if metering_calibration_state s = 0
                  then s\<lparr>metering_pulse_period := clock s, metering_stop_timer := app_timer_stop (metering_stop_timer s)\<rparr>
                  else s)
         in s\<lparr>metering_calibration_state := metering_calibration_state s + 1\<rparr>)
      else
        (let s = s\<lparr>metering_pulse_period := ticks_since (clock s) (metering_pulse_period s)\<rparr>;
             s = s\<lparr>metering_pulse_period := metering_pulse_period s div 10\<rparr>;
             s = s\<lparr>metering_reference_value := metering_pulse_period s * metering_calibration_power s\<rparr>;
             s = lock_calibration (metering_reference_value s) s
         in relay_leds (relay_on bc s)))"

definition immediate_broadcast :: "'a mts_scheme broadcaster \<Rightarrow> 'a mts_scheme \<Rightarrow> 'a mts_scheme" where
  "immediate_broadcast bc s =
     (let s = s\<lparr>ticks_until_broadcast := ticks_until_broadcast s - 1\<rparr> in
      if ticks_until_broadcast s = 0 then
        (let s = s\<lparr>ticks_until_broadcast := METERING_IMMEDIATE_BROADCAST_NUMBER_OF_TICKS (conf s)\<rparr> in
         if ticks_since (clock s) (last_broadcast s) > METERING_IMMEDIATE_BROADCAST_MINIMUM_TIMEOUT (conf s) * CLOCK_SECOND then
           (let s = s\<lparr>last_broadcast := clock s\<rparr> in
            if last_power s \<noteq> ucast (metering_power s) then
              (let s = bc EP_POWER_METER s in s\<lparr>last_power := ucast (metering_power s)\<rparr>)
            else s)
         else s)
      else s)"

definition metering_pulse :: "'a mts_scheme broadcaster \<Rightarrow> 'a mts_scheme \<Rightarrow> 'a mts_scheme" where
  "metering_pulse bc s =
     (let s = s\<lparr>metering_pulse_period := ticks_since (clock s) (clock_old s), clock_old := clock s\<rparr>;
          s = s\<lparr>metering_power := calc_power (metering_pulse_period s) s\<rparr>;
          s = (if METERING_IMMEDIATE_BROADCAST (conf s) then immediate_broadcast bc s else s)
      in if METERING_ENERGY (conf s)
         then s\<lparr>metering_pulses := metering_pulses s + 1, metering_pulses_total := metering_pulses_total s + 1\<rparr>
         else s)"

definition metering_isr :: "'a mts_scheme broadcaster \<Rightarrow> 'a mts_scheme \<Rightarrow> 'a mts_scheme" where
  "metering_isr bc s = (if metering_calibration s then calibration_pulse bc s else metering_pulse bc s)"

section \<open>Lemmas\<close>

text \<open>The case distinction on the wrapped clock is subtraction modulo the clock width.\<close>

lemma ticks_since_eq: "ticks_since now past = now - past"
  by (simp add: ticks_since_def)

lemma ticks_since_later: "n < 2 ^ 16 \<Longrightarrow> unat (ticks_since (past + of_nat n) past) = n"
  using unat_small [of n, where 'a = 16] by (simp add: ticks_since_eq)

text \<open>The relay coil and the variable that remembers it agree.\<close>

definition relay_ok :: "'a mts_scheme \<Rightarrow> bool" where
  "relay_ok s = (bit (relay_port s) 3 = relay_state s)"

lemma relay_leds_frame [simp]:
  "relay_port (relay_leds s) = relay_port s" "relay_state (relay_leds s) = relay_state s"
  "ee (relay_leds s) = ee s" "conf (relay_leds s) = conf s" "clock (relay_leds s) = clock s"
  "metering_calibration (relay_leds s) = metering_calibration s" "sent (relay_leds s) = sent s"
  "metering_reference_value (relay_leds s) = metering_reference_value s"
  "sm_state (relay_leds s) = sm_state s" "out_of_fuel (relay_leds s) = out_of_fuel s"
  by (simp_all add: relay_leds_def leds_on_def leds_off_def show_leds_def leds_arch_set_def)

lemma leds_on_mts [simp]:
  "relay_state (leds_on l s) = relay_state (s :: 'a mts_scheme)" "metering_calibration (leds_on l s) = metering_calibration s"
  "sm_state (leds_on l s) = sm_state s"
  by (simp_all add: leds_on_def show_leds_def leds_arch_set_def)

lemma relay_ok_leds [simp]: "relay_ok (relay_leds s) = relay_ok s" "relay_ok (leds_on l s) = relay_ok s"
  by (simp_all add: relay_ok_def frame_simps)

lemma relay_ok_updates [simp]:
  "relay_ok (s\<lparr>metering_power := p\<rparr>) = relay_ok s" "relay_ok (s\<lparr>clock_old := c\<rparr>) = relay_ok s"
  "relay_ok (s\<lparr>metering_pulse_period := c\<rparr>) = relay_ok s" "relay_ok (s\<lparr>last_broadcast := c\<rparr>) = relay_ok s"
  "relay_ok (s\<lparr>metering_interrupt := b\<rparr>) = relay_ok s" "relay_ok (s\<lparr>metering_calibration := b\<rparr>) = relay_ok s"
  "relay_ok (s\<lparr>metering_calibration_state := k\<rparr>) = relay_ok s" "relay_ok (s\<lparr>metering_stop_timer := t\<rparr>) = relay_ok s"
  "relay_ok (s\<lparr>metering_reference_value := r\<rparr>) = relay_ok s" "relay_ok (s\<lparr>metering_calibration_power := r\<rparr>) = relay_ok s"
  "relay_ok (s\<lparr>ticks_until_broadcast := k\<rparr>) = relay_ok s" "relay_ok (s\<lparr>last_power := w\<rparr>) = relay_ok s"
  "relay_ok (s\<lparr>metering_pulses := w\<rparr>) = relay_ok s" "relay_ok (s\<lparr>metering_pulses_total := w\<rparr>) = relay_ok s"
  "relay_ok (s\<lparr>ee := e\<rparr>) = relay_ok s" "relay_ok (s\<lparr>chain := ch\<rparr>) = relay_ok s" "relay_ok (s\<lparr>sent := x\<rparr>) = relay_ok s"
  "relay_ok (s\<lparr>relay_default_state := b\<rparr>) = relay_ok s" "relay_ok (s\<lparr>clock := c\<rparr>) = relay_ok s"
  by (simp_all add: relay_ok_def)

lemma bit_relay_coil: "bit (p OR 8 :: u8) 3" "\<not> bit (p AND NOT 8 :: u8) 3"
  by (simp_all add: bit_or_iff bit_and_iff bit_not_iff bit_small_masks del: bit_numeral_word_iff)

lemma relay_ok_set:
  "relay_ok (s\<lparr>relay_port := p OR 8, relay_state := True\<rparr>)" "relay_ok (s\<lparr>relay_port := p AND NOT 8, relay_state := False\<rparr>)"
  unfolding relay_ok_def using bit_relay_coil [of p] by simp_all

text \<open>
  What the meter and the relay need of the broadcasts they send: the state machine may react to
  them and switch the relay, but it keeps coil and variable together.
\<close>

locale relay_broadcast =
  fixes bc :: "'a mts_scheme broadcaster"
  assumes bc_relay_ok: "relay_ok s \<Longrightarrow> relay_ok (bc e s)"
begin

lemma metering_reset_ok: "relay_ok s \<Longrightarrow> relay_ok (metering_reset bc s)"
  by (simp add: metering_reset_def Let_def bc_relay_ok)

lemma relay_on_ok: "relay_ok s \<Longrightarrow> relay_ok (relay_on bc s)"
  unfolding relay_on_def by (simp only: split: if_split) (simp only: metering_reset_ok relay_ok_leds relay_ok_set simp_thms)

lemma relay_off_ok: "relay_ok s \<Longrightarrow> relay_ok (relay_off bc s)"
  unfolding relay_off_def by (simp only: split: if_split) (simp only: metering_reset_ok relay_ok_leds relay_ok_set simp_thms)

lemma relay_toggle_ok: "relay_ok s \<Longrightarrow> relay_ok (relay_toggle bc s)"
  by (simp add: relay_toggle_def relay_on_ok relay_off_ok)

lemma write_relay_ok: "relay_ok s \<Longrightarrow> relay_ok (snd (write_relay bc env s))"
  by (simp add: write_relay_def relay_on_ok relay_off_ok)

lemma metering_calibrate_ok: "relay_ok s \<Longrightarrow> relay_ok (snd (metering_calibrate bc s))"
  by (simp add: metering_calibrate_def Let_def relay_off_ok)

lemma metering_isr_ok: "relay_ok s \<Longrightarrow> relay_ok (metering_isr bc s)"
  by (simp add: metering_isr_def calibration_pulse_def metering_pulse_def immediate_broadcast_def
      lock_calibration_def Let_def relay_on_ok bc_relay_ok)

text \<open>Switching establishes the agreement, whatever coil and variable were before.\<close>

lemma relay_on_establishes:
  "\<not> METERING_ENERGY_PERSISTENT (conf s) \<Longrightarrow> \<not> relay_state s \<Longrightarrow> relay_ok (relay_on bc s)"
  unfolding relay_on_def by (simp only: if_False if_True simp_thms) (simp only: metering_reset_ok relay_ok_leds relay_ok_set)

lemma relay_off_establishes: "\<not> METERING_ENERGY_PERSISTENT (conf s) \<Longrightarrow> relay_ok (relay_off bc s)"
  unfolding relay_off_def by (simp only: split: if_split) (simp only: metering_reset_ok relay_ok_leds relay_ok_set simp_thms)

lemma relay_init_ok:
  assumes "RELAY_ENABLE (conf s)" "\<not> METERING_ENERGY_PERSISTENT (conf s)"
  shows "relay_ok (relay_init bc s)"
proof -
  let ?s = "s\<lparr>relay_default_state := (eeprom_read_byte (ee s) EE_RELAY_DEFAULT \<noteq> 0), relay_state := False\<rparr>"
  have "relay_ok (relay_on bc ?s)"
    using assms(2) by (intro relay_on_establishes) simp_all
  moreover have "relay_ok (relay_off bc ?s)" using assms(2) by (intro relay_off_establishes) simp
  ultimately have "relay_ok (relay_default bc ?s)" unfolding relay_default_def by (simp only: split: if_split) blast
  then show ?thesis using assms by (simp add: relay_init_def ENDPOINT_REGISTER_def)
qed

end

section \<open>Properties\<close>

definition fresh_mts :: mts where
  "fresh_mts = sms.extend fresh_sms (mts.fields 0 0 40 2000 0 0 False no_timer 1 0 0xffffffff 0 0 True False False)"

lemmas fresh_defs = fresh_mts_def mts.defs fresh_sms_def sms.defs fresh_dts_def dts.defs fresh_plat_def plat.defs
  hexabus_config_def



text \<open>A reading \<open>n\<close> ticks after the last pulse (before the clock has wrapped once) is zero after
  \<open>OUT_OF_DATE_TIME\<close> seconds, falls with the time since the pulse once twice the period of the last
  measurement has passed, and is that measurement otherwise.\<close>

theorem power_reading:
  assumes "\<not> S0_ENABLE (conf s)" "n < 2 ^ 16" "clock s = clock_old s + of_nat n"
  shows "fst (metering_get_power s) =
    (if n > 30000 then 0
     else if metering_power s \<noteq> 0 \<and> n > unat (2 * (metering_reference_value s div metering_power s))
     then metering_reference_value s div of_nat n
     else metering_power s)"
proof -
  have t: "ticks_since (clock s) (clock_old s) = of_nat n" by (simp add: ticks_since_eq assms(3))
  have u: "unat (of_nat n :: u16) = n" using assms(2) by (intro unat_small) simp
  have c: "OUT_OF_DATE_TIME * CLOCK_SECOND < of_nat n \<longleftrightarrow> 30000 < n"
    by (simp add: word_less_nat_alt u OUT_OF_DATE_TIME_def CLOCK_SECOND_def)
  have "(of_nat n :: u16) = 0 \<longleftrightarrow> n = 0" using u by auto
  then show ?thesis unfolding metering_get_power_def Let_def t c metering_out_of_date_def calc_power_def
    using assms(1) u by (simp add: word_less_nat_alt del: of_nat_eq_0_iff)
qed

theorem power_reading_witness:
  "fst (metering_get_power (fresh_mts\<lparr>metering_power := 20, clock := 0 + of_nat 250\<rparr>)) = 8"
  using power_reading [of "fresh_mts\<lparr>metering_power := 20, clock := 0 + of_nat 250\<rparr>" 250]
  by (simp add: fresh_defs)

definition pulses :: "'a mts_scheme broadcaster \<Rightarrow> clock_time list \<Rightarrow> 'a mts_scheme \<Rightarrow> 'a mts_scheme" where
  "pulses bc cs s = fold (\<lambda>c s. metering_isr bc (s\<lparr>clock := c\<rparr>)) cs s"

lemma calibrating:
  assumes "metering_calibration s" "0 < metering_calibration_state s"
    and "unat (metering_calibration_state s) + length cs \<le> 10"
  shows "metering_calibration (pulses bc cs s) \<and>
    unat (metering_calibration_state (pulses bc cs s)) = unat (metering_calibration_state s) + length cs \<and>
    metering_pulse_period (pulses bc cs s) = metering_pulse_period s \<and>
    metering_calibration_power (pulses bc cs s) = metering_calibration_power s"
  using assms
proof (induction cs arbitrary: s)
  case (Cons c cs)
  let ?s = "s\<lparr>clock := c, metering_calibration_state := metering_calibration_state s + 1\<rparr>"
  have k: "metering_calibration_state s < 10" "metering_calibration_state s \<noteq> 0"
    using Cons.prems by (simp_all add: word_less_nat_alt) auto
  have u: "unat (metering_calibration_state s + 1) = Suc (unat (metering_calibration_state s))"
    using Cons.prems by (subst unat_add_lem [THEN iffD1]) auto
  have step: "metering_isr bc (s\<lparr>clock := c\<rparr>) = ?s"
    using Cons.prems(1) k by (simp add: metering_isr_def calibration_pulse_def Let_def)
  have "0 < metering_calibration_state ?s" by (simp add: word_less_nat_alt u)
  with Cons.IH [of ?s] Cons.prems u show ?case by (simp add: pulses_def step)
qed (simp add: pulses_def)

lemma calibration_first_pulse:
  assumes "metering_calibration s" "metering_calibration_state s = 0"
  shows "metering_isr bc (s\<lparr>clock := c\<rparr>) = s\<lparr>clock := c, metering_pulse_period := c,
    metering_stop_timer := app_timer_stop (metering_stop_timer s), metering_calibration_state := 1\<rparr>"
  using assms by (simp add: metering_isr_def calibration_pulse_def Let_def)

lemma calibration_last_pulse:
  assumes "metering_calibration s" "\<not> metering_calibration_state s < 10"
    and "\<And>e t. ee (bc e t) = ee t \<and> metering_calibration (bc e t) = metering_calibration t \<and>
       metering_reference_value (bc e t) = metering_reference_value t"
  shows "\<not> metering_calibration (metering_isr bc (s\<lparr>clock := c\<rparr>)) \<and>
    metering_reference_value (metering_isr bc (s\<lparr>clock := c\<rparr>))
      = ((c - metering_pulse_period s) div 10) * metering_calibration_power s \<and>
    ee (metering_isr bc (s\<lparr>clock := c\<rparr>)) = eeprom_write_byte EE_METERING_CAL_FLAG 0
      (eeprom_write_word EE_METERING_REF (((c - metering_pulse_period s) div 10) * metering_calibration_power s) (ee s))"
  using assms by (simp add: metering_isr_def calibration_pulse_def Let_def ticks_since_eq lock_calibration_def
      relay_on_def metering_reset_def)

text \<open>C20: Eleven pulses complete a calibration: the reference value is the mean period of the ten intervals
  times the calibration load, it is stored in EEPROM, and the calibration is over.\<close>

theorem calibration_completes:
  assumes "metering_calibration s" "metering_calibration_state s = 0" "length cs = 9"
    and "\<And>e t. ee (bc e t) = ee t \<and> metering_calibration (bc e t) = metering_calibration t \<and>
       metering_reference_value (bc e t) = metering_reference_value t"
  shows "let s' = pulses bc (c0 # cs @ [c]) s; r = ((c - c0) div 10) * metering_calibration_power s in
    \<not> metering_calibration s' \<and> metering_reference_value s' = r \<and>
    eeprom_read_word (ee s') EE_METERING_REF = r \<and> eeprom_read_byte (ee s') EE_METERING_CAL_FLAG = 0"
proof -
  let ?s1 = "metering_isr bc (s\<lparr>clock := c0\<rparr>)"
  let ?s2 = "pulses bc cs ?s1"
  have s1: "metering_calibration ?s1" "metering_calibration_state ?s1 = 1" "metering_pulse_period ?s1 = c0"
    "metering_calibration_power ?s1 = metering_calibration_power s"
    using assms(1) by (simp_all add: calibration_first_pulse [OF assms(1,2)])
  have s2: "metering_calibration ?s2" "unat (metering_calibration_state ?s2) = 10" "metering_pulse_period ?s2 = c0"
    "metering_calibration_power ?s2 = metering_calibration_power s"
    using calibrating [of ?s1 cs bc] s1 assms(3) by simp_all
  then have "\<not> metering_calibration_state ?s2 < 10" by (simp add: word_less_nat_alt)
  note last = calibration_last_pulse [OF s2(1) this assms(4), where c = c]
  have "pulses bc (c0 # cs @ [c]) s = metering_isr bc (?s2\<lparr>clock := c\<rparr>)" by (simp add: pulses_def)
  then show ?thesis using last s2
    by (simp add: Let_def eeprom_write_byte_def eeprom_read_byte_def eeprom_read_word_def eeprom_write_word_def offset_simps)
qed

theorem calibration_completes_witness:
  "metering_reference_value (pulses (\<lambda>e t. t) (100 # replicate 9 0 @ [1100]) (fresh_mts\<lparr>metering_calibration := True\<rparr>)) = 4000"
proof -
  let ?s = "fresh_mts\<lparr>metering_calibration := True\<rparr>"
  have c: "metering_calibration ?s" "metering_calibration_state ?s = 0" "metering_calibration_power ?s = 40"
    by (simp_all add: fresh_defs)
  have q: "((1100 - 100) div 10 :: u16) * 40 = 4000" by simp
  show ?thesis
    using calibration_completes [OF c(1,2), of "replicate 9 0" "\<lambda>e t. t" 100 1100]
    unfolding Let_def by (simp only: c q length_replicate simp_thms)
qed

end
