(* ===== verification/Provisioning.thy ===== *)
theory Provisioning
  imports Metering
begin

text \<open>
  \<^verbatim>\<open>apps/provisioning/provisioning.c\<close>, the side of the socket: it switches the radio to the
  provisioning network without encryption, asks for a provisioning message until one arrives or
  thirty seconds have passed, and stores network and key. The environment is a list of rounds: the
  clock when the round begins, the clock after its half second of waiting, and the payload of the
  frame that was received by then (empty when none was). The USB stick's side is in theory
  \<open>Usb_Stick\<close>.
\<close>

definition PROVISIONING_HEADER :: buf where
  "PROVISIONING_HEADER = ascii ''PROVISIONING'' @ [0]"

definition PROV_TIMEOUT_SOCKET :: u16 where "PROV_TIMEOUT_SOCKET = 30"

definition sizeof_provisioning_m :: nat where "sizeof_provisioning_m = 31"

record provs = mts +
  mac_src_pan_id :: u16
  mac_dst_pan_id :: u16
  radio_pan_id :: u16
  radio_key :: buf
  bootloader_mode :: bool
  bootloader_pkt :: bool
  encryption_enabled :: u8
  blink_time :: clock_time
  red_on :: bool
  frames_sent :: "(u16 \<times> buf) list"    \<comment> \<open>destination network and payload\<close>

type_synonym prov_round = "clock_time \<times> clock_time \<times> buf"

definition provisioning_leds :: "'a provs_scheme \<Rightarrow> 'a provs_scheme" where
  "provisioning_leds s =
     (if clock s - blink_time s > CLOCK_SECOND div 2 then
        (let s = (if red_on s then leds_on LEDS_RED s else leds_off LEDS_RED s)
         in s\<lparr>red_on := \<not> red_on s, blink_time := clock s\<rparr>)
      else s)"

text \<open>Five half seconds, the green LED on in the odd ones.\<close>

definition provisioning_done_leds :: "'a provs_scheme \<Rightarrow> 'a provs_scheme" where
  "provisioning_done_leds s =
     fold (\<lambda>i s. if odd i then leds_on LEDS_GREEN s else leds_off LEDS_GREEN s) [0..<(5::nat)] (leds_off LEDS_ALL s)"

definition rf212_set_pan_addr :: "u16 \<Rightarrow> 'a provs_scheme \<Rightarrow> 'a provs_scheme" where
  "rf212_set_pan_addr p s = s\<lparr>radio_pan_id := p\<rparr>"

definition is_provisioning_message :: "buf \<Rightarrow> bool" where
  "is_provisioning_message b = (length b = sizeof_provisioning_m \<and> take (length PROVISIONING_HEADER) b = PROVISIONING_HEADER)"

text \<open>One round after its timeout check: ask, wait, receive.\<close>

definition ask_round :: "clock_time \<Rightarrow> 'a provs_scheme \<Rightarrow> 'a provs_scheme" where
  "ask_round later s =
     (let s = provisioning_leds s;
          s = s\<lparr>frames_sent := frames_sent s @ [(mac_dst_pan_id s, PROVISIONING_HEADER)], clock := later\<rparr>
      in provisioning_leds s)"

text \<open>The loop; \<open>None\<close> when it is still asking at the end of the given rounds.\<close>

fun slave_loop :: "clock_time \<Rightarrow> prov_round list \<Rightarrow> 'a provs_scheme \<Rightarrow> (buf \<times> 'a provs_scheme) option" where
  "slave_loop time [] s = None"
| "slave_loop time ((now, later, payload) # rs) s =
     (let s = s\<lparr>clock := now\<rparr> in
      if now - time > CLOCK_SECOND * PROV_TIMEOUT_SOCKET then Some ([], s)
      else (let s = ask_round later s in
            if is_provisioning_message payload then Some (payload, s) else slave_loop time rs s))"

definition enter_provisioning :: "'a provs_scheme \<Rightarrow> 'a provs_scheme" where
  "enter_provisioning s =
     rf212_set_pan_addr 1 ((leds_off LEDS_GREEN s)\<lparr>bootloader_pkt := False, bootloader_mode := True,
       mac_dst_pan_id := 1, mac_src_pan_id := 1, encryption_enabled := 0\<rparr>)"

definition use_network :: "u16 \<Rightarrow> 'a provs_scheme \<Rightarrow> 'a provs_scheme" where
  "use_network p s = rf212_set_pan_addr p (s\<lparr>mac_dst_pan_id := p, mac_src_pan_id := p\<rparr>)"

definition provisioning_slave :: "prov_round list \<Rightarrow> 'a provs_scheme \<Rightarrow> (bool \<times> 'a provs_scheme) option" where
  "provisioning_slave rounds s0 =
     (let old_pan_id = mac_src_pan_id s0; tmp_enc = encryption_enabled s0; time = clock s0 in
      case slave_loop time rounds (enter_provisioning s0) of
        None \<Rightarrow> None
      | Some (packet, s) \<Rightarrow>
          (if clock s - time > CLOCK_SECOND * PROV_TIMEOUT_SOCKET then
             Some (False, relay_leds ((use_network old_pan_id s)\<lparr>bootloader_mode := False, encryption_enabled := tmp_enc\<rparr>))
           else
             (let pan_id = get16 13 packet; aes_key = get_bytes 15 16 packet;
                  s = s\<lparr>ee := eeprom_update_block EE_ENCRYPTION_KEY aes_key (eeprom_write_word EE_PAN_ID pan_id (ee s))\<rparr>;
                  s = provisioning_done_leds s;
                  s = use_network pan_id (s\<lparr>radio_key := aes_key\<rparr>)
              in Some (True, relay_leds (s\<lparr>bootloader_mode := False, encryption_enabled := tmp_enc\<rparr>)))))"

section \<open>Lemmas\<close>

text \<open>The LEDs are the only thing the LED functions change.\<close>

lemma leds_provs [simp]:
  "mac_src_pan_id (leds_on l s) = mac_src_pan_id (s :: 'a provs_scheme)" "mac_src_pan_id (leds_off l s) = mac_src_pan_id s"
  "mac_dst_pan_id (leds_on l s) = mac_dst_pan_id s" "mac_dst_pan_id (leds_off l s) = mac_dst_pan_id s"
  "radio_pan_id (leds_on l s) = radio_pan_id s" "radio_pan_id (leds_off l s) = radio_pan_id s"
  "radio_key (leds_on l s) = radio_key s" "radio_key (leds_off l s) = radio_key s"
  "encryption_enabled (leds_on l s) = encryption_enabled s" "encryption_enabled (leds_off l s) = encryption_enabled s"
  "bootloader_mode (leds_on l s) = bootloader_mode s" "bootloader_mode (leds_off l s) = bootloader_mode s"
  by (simp_all add: leds_on_def leds_off_def show_leds_def leds_arch_set_def)

lemma relay_leds_provs [simp]:
  "mac_src_pan_id (relay_leds s) = mac_src_pan_id (s :: 'a provs_scheme)" "mac_dst_pan_id (relay_leds s) = mac_dst_pan_id s"
  "radio_pan_id (relay_leds s) = radio_pan_id s" "radio_key (relay_leds s) = radio_key s"
  "encryption_enabled (relay_leds s) = encryption_enabled s" "bootloader_mode (relay_leds s) = bootloader_mode s"
  by (simp_all add: relay_leds_def)

lemma provisioning_leds_frame [simp]:
  "mac_src_pan_id (provisioning_leds s) = mac_src_pan_id s" "mac_dst_pan_id (provisioning_leds s) = mac_dst_pan_id s"
  "radio_pan_id (provisioning_leds s) = radio_pan_id s" "radio_key (provisioning_leds s) = radio_key s"
  "encryption_enabled (provisioning_leds s) = encryption_enabled s" "ee (provisioning_leds s) = ee s"
  "clock (provisioning_leds s) = clock s" "frames_sent (provisioning_leds s) = frames_sent s"
  by (simp_all add: provisioning_leds_def Let_def frame_simps)
     (simp_all add: leds_on_def leds_off_def show_leds_def leds_arch_set_def)

lemma done_leds_frame [simp]:
  "ee (provisioning_done_leds s) = ee s" "radio_key (provisioning_done_leds s) = radio_key s"
  by (simp_all add: provisioning_done_leds_def upt_rec frame_simps)

lemma ask_round_frame [simp]:
  "mac_src_pan_id (ask_round c s) = mac_src_pan_id s" "mac_dst_pan_id (ask_round c s) = mac_dst_pan_id s"
  "radio_key (ask_round c s) = radio_key s" "ee (ask_round c s) = ee s" "clock (ask_round c s) = c"
  "frames_sent (ask_round c s) = frames_sent s @ [(mac_dst_pan_id s, PROVISIONING_HEADER)]"
  by (simp_all add: ask_round_def Let_def)

text \<open>The loop keeps EEPROM and key, and what it returns is a message from the rounds, in time, or nothing, too late.\<close>

lemma slave_loop_result:
  "slave_loop time rs s = Some (packet, s') \<Longrightarrow> ee s' = ee s \<and> radio_key s' = radio_key s \<and>
    (packet = [] \<and> clock s' - time > CLOCK_SECOND * PROV_TIMEOUT_SOCKET \<or>
     is_provisioning_message packet \<and> (\<exists>now later. (now, later, packet) \<in> set rs \<and> clock s' = later))"
proof (induction time rs s rule: slave_loop.induct)
  case (1 time s)
  then show ?case by simp
next
  case (2 time now later payload rs s)
  show ?case
  proof (cases "now - time > CLOCK_SECOND * PROV_TIMEOUT_SOCKET")
    case True
    with "2.prems" show ?thesis by (auto simp: Let_def)
  next
    case late: False
    show ?thesis
    proof (cases "is_provisioning_message payload")
      case True
      with "2.prems" late show ?thesis by (auto simp: Let_def)
    next
      case False
      with "2.prems" late have
        "slave_loop time rs (ask_round later (s\<lparr>clock := now\<rparr>)) = Some (packet, s')"
        by (simp add: Let_def)
      from "2.IH" [OF refl late refl False this] show ?thesis by auto
    qed
  qed
qed

lemma enter_provisioning_frame [simp]:
  "ee (enter_provisioning s) = ee s" "radio_key (enter_provisioning s) = radio_key s"
  by (simp_all add: enter_provisioning_def rf212_set_pan_addr_def frame_simps)

section \<open>Properties\<close>

text \<open>However provisioning ends, the radio leaves the provisioning network and the encryption setting is
  back. When it fails, network, key and EEPROM are as before; when it succeeds, network and key are
  those of a provisioning message that was received, in the radio and in the EEPROM.\<close>

theorem provisioning_outcome:
  assumes "provisioning_slave rounds s = Some (ok, s')"
  shows "\<not> bootloader_mode s' \<and> encryption_enabled s' = encryption_enabled s \<and> mac_dst_pan_id s' = mac_src_pan_id s' \<and>
    radio_pan_id s' = mac_src_pan_id s' \<and>
    (if ok then \<exists>now later packet. (now, later, packet) \<in> set rounds \<and> is_provisioning_message packet \<and>
         mac_src_pan_id s' = get16 13 packet \<and> radio_key s' = get_bytes 15 16 packet \<and>
         eeprom_read_word (ee s') EE_PAN_ID = get16 13 packet \<and>
         eeprom_read_block (ee s') EE_ENCRYPTION_KEY 16 = get_bytes 15 16 packet
     else mac_src_pan_id s' = mac_src_pan_id s \<and> radio_key s' = radio_key s \<and> ee s' = ee s)"
proof -
  obtain packet t where loop: "slave_loop (clock s) rounds (enter_provisioning s) = Some (packet, t)"
    using assms by (auto simp: provisioning_slave_def Let_def split: option.splits)
  note r = slave_loop_result [OF loop]
  show ?thesis
  proof (cases "clock t - clock s > CLOCK_SECOND * PROV_TIMEOUT_SOCKET")
    case True
    with assms loop r show ?thesis
      by (auto simp: provisioning_slave_def Let_def use_network_def rf212_set_pan_addr_def)
  next
    case False
    with r have msg: "is_provisioning_message packet" "\<exists>now later. (now, later, packet) \<in> set rounds" by auto
    then have "length (get_bytes 15 16 packet) = 16" by (simp add: is_provisioning_message_def sizeof_provisioning_m_def)
    then have "eeprom_read_word (eeprom_update_block EE_ENCRYPTION_KEY (get_bytes 15 16 packet)
          (eeprom_write_word EE_PAN_ID (get16 13 packet) e)) EE_PAN_ID = get16 13 packet"
        "eeprom_read_block (eeprom_update_block EE_ENCRYPTION_KEY (get_bytes 15 16 packet) e) EE_ENCRYPTION_KEY 16
          = get_bytes 15 16 packet" for e
      using ee.rd_wr_same [where bs = "get_bytes 15 16 packet" and a = EE_ENCRYPTION_KEY and s = e]
      by (simp_all add: eeprom_read_word_def eeprom_write_word_def) (simp_all add: eeprom_update_block_def offset_simps)
    with False assms loop r have
      "\<not> bootloader_mode s' \<and> encryption_enabled s' = encryption_enabled s \<and> mac_dst_pan_id s' = mac_src_pan_id s' \<and>
       radio_pan_id s' = mac_src_pan_id s' \<and> ok \<and> mac_src_pan_id s' = get16 13 packet \<and>
       radio_key s' = get_bytes 15 16 packet \<and> eeprom_read_word (ee s') EE_PAN_ID = get16 13 packet \<and>
       eeprom_read_block (ee s') EE_ENCRYPTION_KEY 16 = get_bytes 15 16 packet"
      by (auto simp: provisioning_slave_def Let_def use_network_def rf212_set_pan_addr_def)
    with msg show ?thesis by auto
  qed
qed

definition fresh_provs :: provs where
  "fresh_provs = mts.extend fresh_mts (provs.fields 0x0205 0x0205 0x0205 (replicate 16 1) False False 1 0 True [])"

definition example_message :: buf where
  "example_message = PROVISIONING_HEADER @ [0x34, 0x12] @ replicate 16 7"

lemma example_message_ok: "is_provisioning_message example_message" "get16 13 example_message = 0x1234"
  by (simp_all add: example_message_def is_provisioning_message_def PROVISIONING_HEADER_def ascii_def
      sizeof_provisioning_m_def get16_def le16_def)

text \<open>A socket that is answered in its second round.\<close>

theorem provisioning_outcome_witness:
  "case provisioning_slave [(0, 62, []), (62, 124, example_message)] fresh_provs of
     Some (ok, s') \<Rightarrow> ok \<and> \<not> bootloader_mode s' \<and> encryption_enabled s' = 1
   | None \<Rightarrow> False"
proof -
  have "\<exists>s'. provisioning_slave [(0, 62, []), (62, 124, example_message)] fresh_provs = Some (True, s')"
    by (simp add: provisioning_slave_def Let_def enter_provisioning_def rf212_set_pan_addr_def example_message_ok frame_simps
        CLOCK_SECOND_def PROV_TIMEOUT_SOCKET_def is_provisioning_message_def [of "[]"] sizeof_provisioning_m_def)
       (simp add: fresh_provs_def provs.defs fresh_defs)
  then obtain s' where s': "provisioning_slave [(0, 62, []), (62, 124, example_message)] fresh_provs = Some (True, s')" ..
  have "encryption_enabled fresh_provs = 1" by (simp add: fresh_provs_def provs.defs fresh_defs)
  with provisioning_outcome [OF s'] s' show ?thesis by simp
qed

end
