(* ===== verification/Udp_Send.thy ===== *)
theory Udp_Send
  imports Platform
begin

text \<open>
  The sending half of \<^verbatim>\<open>udp_handler.c\<close>: a packet generator fills a buffer, the buffer is prepared
  and handed to the IP stack, which is the log of sent datagrams here. The buffer is a local variable
  that is not initialised; its first contents are the field \<open>stack_bytes\<close>.
\<close>

definition do_udp_send :: "ip6 option \<Rightarrow> u16 \<Rightarrow> buf \<Rightarrow> 'a plat_scheme \<Rightarrow> 'a plat_scheme" where
  "do_udp_send toaddr toport packet s =
     (let (len, packet) = prepare_for_send packet in
      if len = 0 then s
      else if \<not> udpconn s then s
      else (let toaddr = (case toaddr of Some a \<Rightarrow> a | None \<Rightarrow> HXB_GROUP);
                toport = (if toport = 0 then HXB_PORT else toport)
            in s\<lparr>sent := sent s @ [\<lparr>dg_to = toaddr, dg_port = toport, dg_data = take len packet\<rparr>]\<rparr>))"

type_synonym 's generator = "buf \<Rightarrow> 's \<Rightarrow> hxb_error_code \<times> buf \<times> 's"

definition udp_handler_send_generated ::
    "ip6 option \<Rightarrow> u16 \<Rightarrow> 'a plat_scheme generator \<Rightarrow> 'a plat_scheme \<Rightarrow> hxb_error_code \<times> 'a plat_scheme" where
  "udp_handler_send_generated toaddr toport packet_gen_fn s =
     (let (err, packet, s) = packet_gen_fn (stack_bytes s) s in
      if err \<noteq> HXB_ERR_SUCCESS then (err, s)
      else (HXB_ERR_SUCCESS, do_udp_send toaddr toport packet s))"

text \<open>The error packet is a struct of its own; the fields not named are zero.\<close>

definition udp_handler_send_error :: "ip6 option \<Rightarrow> u16 \<Rightarrow> hxb_error_code \<Rightarrow> 'a plat_scheme \<Rightarrow> 'a plat_scheme" where
  "udp_handler_send_error toaddr toport code s =
     do_udp_send toaddr toport
       (put8 off_error_code (err_code code) (put8 off_type (ptype_code HXB_PTYPE_ERROR) (replicate sizeof_packet_any 0))) s"

text \<open>A local value whose pointer member has been linked to the value field of the packet buffer.\<close>

definition linked_value :: "buf \<Rightarrow> 'a plat_scheme \<Rightarrow> hxb_value" where
  "linked_value buffer s = \<lparr>vdatatype = 0, vraw = take 8 (stack_bytes s),
     vblob = get_bytes off_value (HXB_STRING_PACKET_BUFFER_LENGTH + 1) buffer\<rparr>"

section \<open>Lemmas\<close>

lemma do_udp_send_frame [frame_simps]:
  "ee (do_udp_send a p b s) = ee s" "conf (do_udp_send a p b s) = conf s" "clock (do_udp_send a p b s) = clock s"
  "chain (do_udp_send a p b s) = chain s" "out_of_fuel (do_udp_send a p b s) = out_of_fuel s"
  "relay_port (do_udp_send a p b s) = relay_port s" "lastevent (do_udp_send a p b s) = lastevent s"
  "stack_bytes (do_udp_send a p b s) = stack_bytes s" "udpconn (do_udp_send a p b s) = udpconn s"
  "posted (do_udp_send a p b s) = posted s" "health (do_udp_send a p b s) = health s"
  by (simp_all add: do_udp_send_def split_beta Let_def)

lemma do_udp_send_as_update: "\<exists>x. do_udp_send a p b s = s\<lparr>sent := x\<rparr>"
proof -
  have "s = s\<lparr>sent := sent s\<rparr>" by simp
  then show ?thesis unfolding do_udp_send_def split_beta Let_def by metis
qed

lemma do_udp_send_more [frame_simps]: "plat.more (do_udp_send a p b s) = plat.more s"
  by (simp add: do_udp_send_def split_beta Let_def)

text \<open>Every datagram that leaves the device has the magic bytes, no flags, its full length and a valid checksum.\<close>

definition well_formed_datagram :: "udp_datagram \<Rightarrow> bool" where
  "well_formed_datagram d = (\<exists>b. wf_packet b \<and> get_bytes off_magic 4 b = HXB_HEADER \<and> get8 off_flags b = 0 \<and>
     dg_data d = take (length (dg_data d)) b \<and> crc_data_len b = Some (length (dg_data d)) \<and> check_crc b = HXB_ERR_SUCCESS)"

lemma do_udp_send_well_formed:
  assumes "wf_packet packet" "\<forall>d \<in> set (sent s). well_formed_datagram d"
  shows "\<forall>d \<in> set (sent (do_udp_send toaddr toport packet s)). well_formed_datagram d"
proof -
  obtain len b where p: "prepare_for_send packet = (len, b)" by fastforce
  show ?thesis
  proof (cases "len = 0 \<or> \<not> udpconn s")
    case True
    with assms(2) p show ?thesis by (auto simp: do_udp_send_def)
  next
    case False
    have "wf_packet b" "crc_data_len b = Some len" "len \<le> sizeof_packet_any"
      using prepare_len [OF assms(1) p] False by simp_all
    moreover have "check_crc b = HXB_ERR_SUCCESS" using prepared_passes_check [OF assms(1) p] False by simp
    moreover have "get_bytes off_magic 4 b = HXB_HEADER" "get8 off_flags b = 0"
      using header_fields [OF prepare_header [OF assms(1) p]] False by simp_all
    ultimately have "well_formed_datagram \<lparr>dg_to = x, dg_port = y, dg_data = take len b\<rparr>" for x y
      by (auto simp: well_formed_datagram_def wf_packet_def min_def)
    with False assms(2) p show ?thesis by (auto simp: do_udp_send_def Let_def)
  qed
qed

end
