(* ===== verification/Devices.thy ===== *)
theory Devices
  imports Provisioning Udp_Send
begin

text \<open>
  The small applications behind endpoints: the state machine upload (\<^verbatim>\<open>sm_upload.c\<close>), the switched
  outputs (\<^verbatim>\<open>hexonoff.c\<close>), the presence detector (\<^verbatim>\<open>presence_detector.c\<close>), the button endpoints
  (\<^verbatim>\<open>button_handlers.c\<close>, \<^verbatim>\<open>hexapush.c\<close>, \<^verbatim>\<open>hexasense.c\<close>) and two sensors (\<^verbatim>\<open>pt100.c\<close>,
  \<^verbatim>\<open>humidity.c\<close>). What a sensor answers is part of the state: the next conversions of an analog
  channel and the reply on the I2C bus.
\<close>

datatype sense_pc = Sense_Blink | Sense_Pause | Sense_Idle

record devs = provs +
  port_a :: u8
  ddr_a :: u8
  output_vector :: u8
  presence :: u8
  global_presence :: u8
  pd_timeout :: app_timer
  pd_keep_alive :: app_timer
  button_pushed :: u8
  pressed_vector :: u8
  clicked_vector :: u8
  hexasense_state :: u8
  sense_leds :: u8             \<comment> \<open>port bits of the three HexaSense LEDs; zero is lit\<close>
  sense_pc :: sense_pc         \<comment> \<open>where the feedback process waits\<close>
  sense_timer :: app_timer
  live_channels :: u8
  adc_samples :: "u8 \<Rightarrow> nat \<Rightarrow> u16"
  hyt_reply :: "buf option"
  rebooting :: bool

section \<open>State machine upload\<close>

definition read_control :: "hxb_value \<Rightarrow> 'a sms_scheme \<Rightarrow> hxb_error_code \<times> hxb_value \<times> 'a sms_scheme" where
  "read_control v s = (HXB_ERR_SUCCESS, set_u8 (if sm_is_running s then STM_STATE_RUNNING else STM_STATE_STOPPED) v, s)"

definition write_control :: "hxb_envelope \<Rightarrow> 'a sms_scheme \<Rightarrow> hxb_error_code \<times> 'a sms_scheme" where
  "write_control env s =
     (if v_u8 (env_value env) = STM_STATE_STOPPED then (HXB_ERR_SUCCESS, sm_stop s)
      else if v_u8 (env_value env) = STM_STATE_RUNNING then
        (HXB_ERR_SUCCESS, if sm_is_running s then sm_restart s else sm_start s)
      else (HXB_ERR_INVALID_VALUE, s))"

definition read_receiver :: "hxb_value \<Rightarrow> 'a sms_scheme \<Rightarrow> hxb_error_code \<times> hxb_value \<times> 'a sms_scheme" where
  "read_receiver v s = (HXB_ERR_SUCCESS, v, s)"

definition send_acknack :: "bool \<Rightarrow> 'a sms_scheme generator" where
  "send_acknack data packet s =
     (HXB_ERR_SUCCESS,
      put8 off_value (if data then 1 else 0)
        (put32 off_eid EP_SM_UP_ACKNAK
          (put8 off_datatype (dtype_code HXB_DTYPE_BOOL) (put8 off_type (ptype_code HXB_PTYPE_INFO) packet))), s)"

definition write_receiver :: "hxb_envelope \<Rightarrow> 'a sms_scheme \<Rightarrow> hxb_error_code \<times> 'a sms_scheme" where
  "write_receiver env s =
     (let payload = vblob (env_value env);
          (result, e) = sm_write_chunk (payload ! 0) (tl payload) (ee s);
          s = s\<lparr>ee := e\<rparr>;
          s = snd (udp_handler_send_generated (Some (env_src_ip env)) (env_src_port env) (send_acknack result) s)
      in (if result then HXB_ERR_SUCCESS else HXB_ERR_INVALID_VALUE, s))"

definition read_acknack :: "hxb_value \<Rightarrow> 'a sms_scheme \<Rightarrow> hxb_error_code \<times> hxb_value \<times> 'a sms_scheme" where
  "read_acknack v s = (HXB_ERR_SUCCESS, v, s)"

text \<open>The id is copied to where the value's pointer points.\<close>

definition read_reset :: "hxb_value \<Rightarrow> 'a sms_scheme \<Rightarrow> hxb_error_code \<times> hxb_value \<times> 'a sms_scheme" where
  "read_reset v s = (HXB_ERR_SUCCESS, v\<lparr>vblob := put_bytes 0 (sm_get_id (ee s)) (vblob v)\<rparr>, s)"

definition endpoint_sm_upload_control :: descriptor where
  "endpoint_sm_upload_control = \<lparr>ep_datatype = dtype_code HXB_DTYPE_UINT8, ep_eid = EP_SM_CONTROL,
     ep_name = Some (ascii ''Statemachine Control''), ep_read = Some Rd_sm_control, ep_write = Some Wr_sm_control\<rparr>"

definition endpoint_sm_upload_receiver :: descriptor where
  "endpoint_sm_upload_receiver = \<lparr>ep_datatype = dtype_code HXB_DTYPE_65BYTES, ep_eid = EP_SM_UP_RECEIVER,
     ep_name = Some (ascii ''Statemachine Upload Receiver''), ep_read = Some Rd_sm_receiver, ep_write = Some Wr_sm_receiver\<rparr>"

definition endpoint_sm_upload_acknack :: descriptor where
  "endpoint_sm_upload_acknack = \<lparr>ep_datatype = dtype_code HXB_DTYPE_BOOL, ep_eid = EP_SM_UP_ACKNAK,
     ep_name = Some (ascii ''Statemachine Upload ACK/NAK''), ep_read = Some Rd_sm_acknack, ep_write = None\<rparr>"

definition endpoint_sm_reset :: descriptor where
  "endpoint_sm_reset = \<lparr>ep_datatype = dtype_code HXB_DTYPE_16BYTES, ep_eid = EP_SM_RESET_ID,
     ep_name = Some (ascii ''Statemachine emergency-reset endpoint.''), ep_read = Some Rd_sm_reset, ep_write = None\<rparr>"

definition sm_upload_init :: "'a plat_scheme \<Rightarrow> 'a plat_scheme" where
  "sm_upload_init s = ENDPOINT_REGISTER endpoint_sm_reset (ENDPOINT_REGISTER endpoint_sm_upload_acknack
     (ENDPOINT_REGISTER endpoint_sm_upload_receiver (ENDPOINT_REGISTER endpoint_sm_upload_control s)))"

section \<open>Hexonoff\<close>

text \<open>Outputs are the pins 2 and 3 of port A (\<^verbatim>\<open>hexonoff.h\<close>).\<close>

definition HEXONOFF_OUTPUTS :: u8 where "HEXONOFF_OUTPUTS = 12"

definition set_outputs :: "u8 \<Rightarrow> 'a devs_scheme \<Rightarrow> 'a devs_scheme" where
  "set_outputs o_vec s = s\<lparr>port_a := (port_a s AND NOT (output_vector s)) OR (o_vec AND output_vector s)\<rparr>"

definition toggle_outputs :: "u8 \<Rightarrow> 'a devs_scheme \<Rightarrow> 'a devs_scheme" where
  "toggle_outputs o_vec s =
     s\<lparr>port_a := (port_a s AND NOT (output_vector s)) OR (NOT (port_a s) AND output_vector s AND o_vec)\<rparr>"

definition get_outputs :: "'a devs_scheme \<Rightarrow> u8" where
  "get_outputs s = port_a s AND output_vector s"

definition read_hexonoff :: "hxb_value \<Rightarrow> 'a devs_scheme \<Rightarrow> hxb_error_code \<times> hxb_value \<times> 'a devs_scheme" where
  "read_hexonoff v s = (HXB_ERR_SUCCESS, set_u8 (get_outputs s) v, s)"

definition write_set :: "hxb_envelope \<Rightarrow> 'a devs_scheme \<Rightarrow> hxb_error_code \<times> 'a devs_scheme" where
  "write_set env s = (HXB_ERR_SUCCESS, set_outputs (v_u8 (env_value env)) s)"

definition write_toggle :: "hxb_envelope \<Rightarrow> 'a devs_scheme \<Rightarrow> hxb_error_code \<times> 'a devs_scheme" where
  "write_toggle env s = (HXB_ERR_SUCCESS, toggle_outputs (v_u8 (env_value env)) s)"

definition endpoint_hexonoff_set :: descriptor where
  "endpoint_hexonoff_set = \<lparr>ep_datatype = dtype_code HXB_DTYPE_UINT8, ep_eid = EP_HEXONOFF_SET,
     ep_name = Some (ascii ''Hexonoff, your friendly output setter.''), ep_read = Some Rd_hexonoff, ep_write = Some Wr_hexonoff_set\<rparr>"

definition endpoint_hexonoff_toggle :: descriptor where
  "endpoint_hexonoff_toggle = \<lparr>ep_datatype = dtype_code HXB_DTYPE_UINT8, ep_eid = EP_HEXONOFF_TOGGLE,
     ep_name = Some (ascii ''Hexonoff, your friendly output toggler.''), ep_read = Some Rd_hexonoff, ep_write = Some Wr_hexonoff_toggle\<rparr>"

definition hexonoff_init :: "'a devs_scheme \<Rightarrow> 'a devs_scheme" where
  "hexonoff_init s =
     (let s = s\<lparr>output_vector := HEXONOFF_OUTPUTS\<rparr>;
          s = s\<lparr>ddr_a := ddr_a s OR output_vector s, port_a := port_a s AND NOT (output_vector s)\<rparr>;
          s = set_outputs (HEXONOFF_INITIAL_VALUE (conf s)) s
      in ENDPOINT_REGISTER endpoint_hexonoff_toggle (ENDPOINT_REGISTER endpoint_hexonoff_set s))"

section \<open>Presence detector\<close>

definition PRESENCE :: u8 where "PRESENCE = 1"
definition NO_PRESENCE :: u8 where "NO_PRESENCE = 0"

definition global_presence_detected :: "'a devs_scheme broadcaster \<Rightarrow> 'a devs_scheme \<Rightarrow> 'a devs_scheme" where
  "global_presence_detected bc s =
     (if PRESENCE_DETECTOR_SERVER (conf s) then
        (let s = (if global_presence s \<noteq> PRESENCE then bc EP_PRESENCE_DETECTOR (s\<lparr>global_presence := PRESENCE\<rparr>) else s)
         in s\<lparr>pd_timeout := app_timer_restart (clock s) (pd_timeout s)\<rparr>)
      else s)"

definition no_global_presence :: "'a devs_scheme broadcaster \<Rightarrow> 'a devs_scheme \<Rightarrow> 'a devs_scheme" where
  "no_global_presence bc s =
     (if PRESENCE_DETECTOR_SERVER (conf s) then bc EP_PRESENCE_DETECTOR (s\<lparr>global_presence := NO_PRESENCE\<rparr>) else s)"

definition raw_presence_detected :: "'a devs_scheme broadcaster \<Rightarrow> 'a devs_scheme \<Rightarrow> 'a devs_scheme" where
  "raw_presence_detected bc s =
     (if PRESENCE_DETECTOR_CLIENT (conf s) then
        (let tmp = global_presence s;
             s = s\<lparr>presence := PRESENCE_DETECTOR_CLIENT_GROUP (conf s)\<rparr>;
             s = bc EP_PRESENCE_DETECTOR (s\<lparr>global_presence := presence s\<rparr>);
             s = s\<lparr>global_presence := tmp\<rparr>
         in if PRESENCE_DETECTOR_CLIENT_KEEP_ALIVE (conf s) \<noteq> 0
            then s\<lparr>pd_keep_alive := app_timer_restart (clock s) (pd_keep_alive s)\<rparr> else s)
      else s)"

definition no_raw_presence :: "'a devs_scheme \<Rightarrow> 'a devs_scheme" where
  "no_raw_presence s = (if PRESENCE_DETECTOR_CLIENT (conf s) then s\<lparr>presence := NO_PRESENCE\<rparr> else s)"

definition presence_keep_alive :: "'a devs_scheme broadcaster \<Rightarrow> 'a devs_scheme \<Rightarrow> 'a devs_scheme" where
  "presence_keep_alive bc s =
     (if PRESENCE_DETECTOR_CLIENT (conf s) \<and> presence s \<noteq> 0 then raw_presence_detected bc s else s)"

definition read_presence :: "hxb_value \<Rightarrow> 'a devs_scheme \<Rightarrow> hxb_error_code \<times> hxb_value \<times> 'a devs_scheme" where
  "read_presence v s = (HXB_ERR_SUCCESS, set_u8 (global_presence s) v, s)"

definition write_presence :: "'a devs_scheme broadcaster \<Rightarrow> hxb_envelope \<Rightarrow> 'a devs_scheme \<Rightarrow> hxb_error_code \<times> 'a devs_scheme" where
  "write_presence bc env s =
     (HXB_ERR_SUCCESS,
      if v_u8 (env_value env) = 1 then global_presence_detected bc s
      else if v_u8 (env_value env) = 0 then no_raw_presence s
      else raw_presence_detected bc s)"

definition endpoint_presence_detector :: descriptor where
  "endpoint_presence_detector = \<lparr>ep_datatype = dtype_code HXB_DTYPE_UINT8, ep_eid = EP_PRESENCE_DETECTOR,
     ep_name = Some (ascii ''Presence Detector''), ep_read = Some Rd_presence, ep_write = Some Wr_presence\<rparr>"

definition presence_detector_init :: "'a devs_scheme \<Rightarrow> 'a devs_scheme" where
  "presence_detector_init s =
     (let s = s\<lparr>global_presence := NO_PRESENCE\<rparr>;
          s = (if PRESENCE_DETECTOR_SERVER (conf s)
               then s\<lparr>pd_timeout := app_timer_stop (app_timer_set (clock s)
                       (CLOCK_SECOND * 60 * PRESENCE_DETECTOR_SERVER_TIMEOUT (conf s)) (pd_timeout s))\<rparr> else s);
          s = (if PRESENCE_DETECTOR_CLIENT (conf s) then
                 (let s = s\<lparr>presence := NO_PRESENCE\<rparr> in
                  if PRESENCE_DETECTOR_CLIENT_KEEP_ALIVE (conf s) \<noteq> 0
                  then s\<lparr>pd_keep_alive := app_timer_stop (app_timer_set (clock s)
                          (CLOCK_SECOND * PRESENCE_DETECTOR_CLIENT_KEEP_ALIVE (conf s)) (pd_keep_alive s))\<rparr>
                  else s)
               else s)
      in ENDPOINT_REGISTER endpoint_presence_detector s)"

section \<open>System button\<close>

definition read_sysbutton :: "hxb_value \<Rightarrow> 'a devs_scheme \<Rightarrow> hxb_error_code \<times> hxb_value \<times> 'a devs_scheme" where
  "read_sysbutton v s = (HXB_ERR_SUCCESS, set_u8 (button_pushed s) v, s)"

definition endpoint_sysbutton :: descriptor where
  "endpoint_sysbutton = \<lparr>ep_datatype = dtype_code HXB_DTYPE_BOOL, ep_eid = EP_BUTTON,
     ep_name = Some (ascii ''Hexabus Socket Pushbutton''), ep_read = Some Rd_sysbutton, ep_write = None\<rparr>"

definition sysbutton_clicked :: "'a devs_scheme broadcaster \<Rightarrow> u8 \<Rightarrow> 'a devs_scheme \<Rightarrow> 'a devs_scheme" where
  "sysbutton_clicked bc button s =
     (let s = (if BUTTON_HAS_EID (conf s) then (bc EP_BUTTON (s\<lparr>button_pushed := 1\<rparr>))\<lparr>button_pushed := 0\<rparr> else s)
      in if BUTTON_TOGGLES_RELAY (conf s) then relay_toggle bc s else s)"

definition BUTTON_LONG_CLICK_TICKS :: u16 where "BUTTON_LONG_CLICK_TICKS = 875"

text \<open>Provisioning blocks; \<open>None\<close> when it is not over by the end of the given rounds.\<close>

definition sysbutton_pressed ::
    "'a devs_scheme broadcaster \<Rightarrow> prov_round list \<Rightarrow> u8 \<Rightarrow> bool \<Rightarrow> u16 \<Rightarrow> 'a devs_scheme \<Rightarrow> 'a devs_scheme option" where
  "sysbutton_pressed bc rounds button released ticks s =
     (let (calibrating, s) = metering_calibrate bc s in
      if calibrating then Some s
      else case (if released then map_option (\<lambda>(ok, s). bc 0 s) (provisioning_slave rounds s)
                 else Some (provisioning_leds s)) of
             None \<Rightarrow> None
           | Some s \<Rightarrow>
               (if ticks > BUTTON_LONG_CLICK_TICKS
                then Some (s\<lparr>ee := eeprom_write_byte EE_BOOTLOADER_FLAG 1 (ee s), rebooting := True\<rparr>)
                else Some s))"

section \<open>Hexapush\<close>

definition read_pressed :: "hxb_value \<Rightarrow> 'a devs_scheme \<Rightarrow> hxb_error_code \<times> hxb_value \<times> 'a devs_scheme" where
  "read_pressed v s = (HXB_ERR_SUCCESS, set_u8 (pressed_vector s) v, s)"

definition read_clicked :: "hxb_value \<Rightarrow> 'a devs_scheme \<Rightarrow> hxb_error_code \<times> hxb_value \<times> 'a devs_scheme" where
  "read_clicked v s = (HXB_ERR_SUCCESS, set_u8 (clicked_vector s) v, s)"

definition endpoint_hexapush_pressed :: descriptor where
  "endpoint_hexapush_pressed = \<lparr>ep_datatype = dtype_code HXB_DTYPE_UINT8, ep_eid = EP_HEXAPUSH_PRESSED,
     ep_name = Some (ascii ''Pressed Hexapush buttons''), ep_read = Some Rd_hexapush_pressed, ep_write = None\<rparr>"

definition endpoint_hexapush_clicked :: descriptor where
  "endpoint_hexapush_clicked = \<lparr>ep_datatype = dtype_code HXB_DTYPE_UINT8, ep_eid = EP_HEXAPUSH_CLICKED,
     ep_name = Some (ascii ''Clicked Hexapush buttons''), ep_read = Some Rd_hexapush_clicked, ep_write = None\<rparr>"

definition hexapush_clicked :: "'a devs_scheme broadcaster \<Rightarrow> u8 \<Rightarrow> 'a devs_scheme \<Rightarrow> 'a devs_scheme" where
  "hexapush_clicked bc button s =
     (let s = bc EP_HEXAPUSH_CLICKED (s\<lparr>clicked_vector := clicked_vector s OR button\<rparr>)
      in s\<lparr>clicked_vector := clicked_vector s AND NOT button\<rparr>)"

definition hexapush_pressed :: "'a devs_scheme broadcaster \<Rightarrow> u8 \<Rightarrow> bool \<Rightarrow> u16 \<Rightarrow> 'a devs_scheme \<Rightarrow> 'a devs_scheme" where
  "hexapush_pressed bc button released pressed_ticks s =
     (if \<not> released \<and> pressed_vector s AND button = 0 then
        bc EP_HEXAPUSH_PRESSED (s\<lparr>pressed_vector := pressed_vector s OR button\<rparr>)
      else if released \<and> pressed_vector s AND button \<noteq> 0 then
        bc EP_HEXAPUSH_PRESSED (s\<lparr>pressed_vector := pressed_vector s AND NOT button\<rparr>)
      else s)"

definition HEXAPUSH_MASK :: u8 where "HEXAPUSH_MASK = 3"

section \<open>HexaSense\<close>

definition read_state :: "hxb_value \<Rightarrow> 'a devs_scheme \<Rightarrow> hxb_error_code \<times> hxb_value \<times> 'a devs_scheme" where
  "read_state v s = (HXB_ERR_SUCCESS, set_u8 (hexasense_state s) v, s)"

definition endpoint_hexasense_state :: descriptor where
  "endpoint_hexasense_state = \<lparr>ep_datatype = dtype_code HXB_DTYPE_UINT8, ep_eid = EP_HEXASENSE_BUTTON_STATE,
     ep_name = Some (ascii ''HexaSense button state''), ep_read = Some Rd_hexasense, ep_write = None\<rparr>"

definition button1_pressed :: "'a devs_scheme broadcaster \<Rightarrow> u8 \<Rightarrow> bool \<Rightarrow> u16 \<Rightarrow> 'a devs_scheme \<Rightarrow> 'a devs_scheme" where
  "button1_pressed bc button released pressed_ticks s =
     (if released then bc EP_HEXASENSE_BUTTON_STATE (s\<lparr>hexasense_state := hexasense_state s XOR 1\<rparr>) else s)"

definition button2_pressed :: "'a devs_scheme broadcaster \<Rightarrow> u8 \<Rightarrow> bool \<Rightarrow> u16 \<Rightarrow> 'a devs_scheme \<Rightarrow> 'a devs_scheme" where
  "button2_pressed bc button released pressed_ticks s =
     (if released then bc EP_HEXASENSE_BUTTON_STATE (s\<lparr>hexasense_state := hexasense_state s XOR 2\<rparr>) else s)"

text \<open>The feedback process: its loop head, and what it does with an event at each of its waits.\<close>

definition feedback_loop :: "'a devs_scheme \<Rightarrow> 'a devs_scheme" where
  "feedback_loop s =
     (if hexasense_state s \<noteq> 0
      then s\<lparr>sense_leds := sense_leds s AND NOT 7,
             sense_timer := app_timer_set (clock s) (CLOCK_SECOND div 20) (sense_timer s), sense_pc := Sense_Blink\<rparr>
      else s\<lparr>sense_timer := app_timer_set (clock s) CLOCK_SECOND (sense_timer s), sense_pc := Sense_Idle\<rparr>)"

definition feedback_event :: "'a devs_scheme \<Rightarrow> 'a devs_scheme" where
  "feedback_event s =
     (if at_armed (sense_timer s) then s
      else case sense_pc s of
        Sense_Blink \<Rightarrow> s\<lparr>sense_leds := sense_leds s OR 7,
           sense_timer := app_timer_set (clock s) (3 * CLOCK_SECOND) (sense_timer s), sense_pc := Sense_Pause\<rparr>
      | Sense_Pause \<Rightarrow> feedback_loop s
      | Sense_Idle \<Rightarrow> feedback_loop s)"

section \<open>PT100 temperature sensors\<close>

definition PT100_CHANNEL_HOT :: u8 where "PT100_CHANNEL_HOT = 0"
definition PT100_CHANNEL_COLD :: u8 where "PT100_CHANNEL_COLD = 4"

definition adc_get_super_sample :: "u8 \<Rightarrow> 'a devs_scheme \<Rightarrow> u16" where
  "adc_get_super_sample channel s = fold (\<lambda>i buffer. buffer + adc_samples s channel i) [0..<8] 0 div 8"

text \<open>-10 plus 110/960 times the sample, in single precision.\<close>

definition pt100_temperature :: "u16 \<Rightarrow> f32" where
  "pt100_temperature adc =
     f32_add 0xc1200000 (f32_mul (f32_div (f32_of_nat 110) (f32_of_nat 960)) (f32_of_nat (unat adc)))"

definition temperature_adc :: "u8 \<Rightarrow> hxb_value \<Rightarrow> 'a devs_scheme \<Rightarrow> hxb_error_code \<times> hxb_value" where
  "temperature_adc channel v s =
     (let adc = adc_get_super_sample channel s in
      if adc = 0 \<or> adc = 1023 then (HXB_ERR_NO_VALUE, v)
      else (HXB_ERR_SUCCESS, set_float (pt100_temperature adc) v))"

definition channel_live :: "nat \<Rightarrow> bool \<Rightarrow> 'a devs_scheme \<Rightarrow> 'a devs_scheme" where
  "channel_live channel live s =
     (let s = (if live then s\<lparr>live_channels := live_channels s OR push_bit channel 1\<rparr>
               else s\<lparr>live_channels := live_channels s AND NOT (push_bit channel 1)\<rparr>)
      in if live_channels s = 0 then health_update HE_PT100_BROKEN True s
         else health_update HE_PT100_BROKEN False s)"

definition read_hot :: "hxb_value \<Rightarrow> 'a devs_scheme \<Rightarrow> hxb_error_code \<times> hxb_value \<times> 'a devs_scheme" where
  "read_hot v s = (let (err, v) = temperature_adc PT100_CHANNEL_HOT v s
     in (err, v, channel_live 0 (err = HXB_ERR_SUCCESS) s))"

definition read_cold :: "hxb_value \<Rightarrow> 'a devs_scheme \<Rightarrow> hxb_error_code \<times> hxb_value \<times> 'a devs_scheme" where
  "read_cold v s = (let (err, v) = temperature_adc PT100_CHANNEL_COLD v s
     in (err, v, channel_live 1 (err = HXB_ERR_SUCCESS) s))"

definition endpoint_heater_hot :: descriptor where
  "endpoint_heater_hot = \<lparr>ep_datatype = dtype_code HXB_DTYPE_FLOAT, ep_eid = EP_HEATER_HOT,
     ep_name = Some (ascii ''Heater inflow temperature''), ep_read = Some Rd_heater_hot, ep_write = None\<rparr>"

definition endpoint_heater_cold :: descriptor where
  "endpoint_heater_cold = \<lparr>ep_datatype = dtype_code HXB_DTYPE_FLOAT, ep_eid = EP_HEATER_COLD,
     ep_name = Some (ascii ''Heater outflow temperature''), ep_read = Some Rd_heater_cold, ep_write = None\<rparr>"

section \<open>Humidity sensor\<close>

text \<open>\<open>hyt_reply\<close> is what the bus transfers return: nothing on a bus error, else the bytes read. The
  factor 100/16384 is 25/4096, an exact float.\<close>

definition read_humidity :: "'a devs_scheme \<Rightarrow> f32 option" where
  "read_humidity s =
     (case hyt_reply s of
        None \<Rightarrow> None
      | Some bytes \<Rightarrow>
          (let rawhum = (push_bit 8 (ucast (bytes ! 0)) OR ucast (bytes ! 1) :: u16) AND 0x3FFF
           in Some (f32_mul (f32_div (f32_of_nat 100) (f32_of_nat 16384)) (f32_of_nat (unat rawhum)))))"

definition read_humidity_ep :: "hxb_value \<Rightarrow> 'a devs_scheme \<Rightarrow> hxb_error_code \<times> hxb_value \<times> 'a devs_scheme" where
  "read_humidity_ep v s =
     (case read_humidity s of
        Some h \<Rightarrow> (HXB_ERR_SUCCESS, set_float h v, health_update HE_HYT_BROKEN False s)
      | None \<Rightarrow> (HXB_ERR_NO_VALUE, v, health_update HE_HYT_BROKEN True s))"

definition endpoint_humidity :: descriptor where
  "endpoint_humidity = \<lparr>ep_datatype = dtype_code HXB_DTYPE_FLOAT, ep_eid = EP_HUMIDITY,
     ep_name = Some (ascii ''Humidity sensor''), ep_read = Some Rd_humidity, ep_write = None\<rparr>"

section \<open>Properties\<close>

text \<open>Setting the outputs drives exactly the output pins to the given vector. Toggling inverts the outputs the
  vector names, but it also switches off every output the vector does not name; no other pin changes.\<close>

theorem hexonoff_effect:
  "bit (port_a (set_outputs v s)) n = (if bit (output_vector s) n then bit v n else bit (port_a s) n) \<and>
   bit (port_a (toggle_outputs v s)) n =
     (if bit (output_vector s) n then bit v n \<and> \<not> bit (port_a s) n else bit (port_a s) n)"
proof -
  have n: "bit x n \<Longrightarrow> n < 8" for x :: u8 using no_bit_beyond(2) [of n x] by (cases "n < 8") simp_all
  show ?thesis using n [of "port_a s"] n [of "output_vector s"] n [of v]
    by (auto simp: set_outputs_def toggle_outputs_def bit_and_iff bit_or_iff bit_not_iff)
qed

text \<open>Reading a temperature channel records whether it answered, leaves the record of the other channel alone,
  and raises the health bit of the PT100 sensors exactly when no channel is live.\<close>

theorem pt100_health_reporting:
  "(case read_hot v s of (err, _, t) \<Rightarrow> bit (live_channels t) 0 = (err = HXB_ERR_SUCCESS) \<and>
      bit (live_channels t) 1 = bit (live_channels s) 1 \<and> bit (health t) 1 = (live_channels t = 0)) \<and>
   (case read_cold v s of (err, _, t) \<Rightarrow> bit (live_channels t) 1 = (err = HXB_ERR_SUCCESS) \<and>
      bit (live_channels t) 0 = bit (live_channels s) 0 \<and> bit (health t) 1 = (live_channels t = 0))"
proof -
  have h: "live_channels (health_update x y t) = live_channels t" for x y and t :: "'a devs_scheme"
    by (simp add: health_update_def process_broadcast_def Let_def)
  have "live_channels (channel_live k b s) =
      (if b then live_channels s OR push_bit k 1 else live_channels s AND NOT (push_bit k 1))" for k b
    by (simp add: channel_live_def Let_def h)
  then have live: "bit (live_channels (channel_live k b s)) j = (if j = k then b \<and> k < 8 else bit (live_channels s) j)" for k b j
    using no_bit_beyond(2) [of j "live_channels s"] by (cases "j < 8") (auto simp: bit_simps)
  have broken: "bit (health (channel_live k b s)) 1 = (live_channels (channel_live k b s) = 0)" for k b
  proof -
    have "bit HE_PT100_BROKEN 1" by (simp add: HE_PT100_BROKEN_def)
    then show ?thesis by (simp add: channel_live_def Let_def h health_bit)
  qed
  show ?thesis by (simp add: read_hot_def read_cold_def split_beta Let_def live broken [unfolded One_nat_def])
qed

text \<open>Every chunk of an upload is answered: one well-formed acknowledge datagram goes to the sender, whose
  value says whether the chunk was stored, in agreement with the error code of the write.\<close>

theorem upload_is_acknowledged:
  assumes "udpconn s" "wf_packet (stack_bytes s)" "env_src_port env \<noteq> 0"
  shows "\<exists>d. sent (snd (write_receiver env s)) = sent s @ [d] \<and> dg_to d = env_src_ip env \<and> dg_port d = env_src_port env \<and>
    well_formed_datagram d \<and>
    (case sm_write_chunk (vblob (env_value env) ! 0) (tl (vblob (env_value env))) (ee s) of (ok, e) \<Rightarrow>
       dg_data d ! off_value = (if ok then 1 else 0) \<and> ee (snd (write_receiver env s)) = e \<and>
       (fst (write_receiver env s) = HXB_ERR_SUCCESS) = ok)"
proof -
  obtain ok e where w: "sm_write_chunk (vblob (env_value env) ! 0) (tl (vblob (env_value env))) (ee s) = (ok, e)" by fastforce
  define p where "p = put8 off_value (if ok then 1 else 0) (put32 off_eid EP_SM_UP_ACKNAK
      (put8 off_datatype (dtype_code HXB_DTYPE_BOOL) (put8 off_type (ptype_code HXB_PTYPE_INFO) (stack_bytes s))))"
  have wf: "wf_packet p" using assms(2) by (simp add: p_def wf_packet_def)
  have p: "get8 off_type p = ptype_code HXB_PTYPE_INFO" "get8 off_datatype p = dtype_code HXB_DTYPE_BOOL"
    "get8 off_value p = (if ok then 1 else 0)"
    using assms(2) by (simp_all add: p_def wf_packet_def buf_simps offset_simps)
  from prepare_value [OF wf p(1) _ p(2)] obtain b where b: "prepare_for_send p = (sizeof_p_u8, b)"
    "b = put_crc sizeof_p_u8 (net_value HXB_DTYPE_BOOL (net_eid (with_header p)))"
    by (simp add: value_size_def)
  have v: "b ! off_value = (if ok then 1 else 0)"
  proof -
    have "get8 off_value b = get8 off_value p" using wf
      by (simp add: b(2) put_crc_def net_value_def net_eid_def with_header_def wf_packet_def offset_simps HXB_HEADER_def
          get8_def put8_def put16_def put32_def put_bytes_def nth_append)
    then show ?thesis using p(3) by (simp add: get8_def)
  qed
  let ?d = "\<lparr>dg_to = env_src_ip env, dg_port = env_src_port env, dg_data = take sizeof_p_u8 b\<rparr>"
  have r: "write_receiver env s = (if ok then HXB_ERR_SUCCESS else HXB_ERR_INVALID_VALUE, s\<lparr>ee := e, sent := sent s @ [?d]\<rparr>)"
    using assms(1,3) b(1) w
    by (simp add: write_receiver_def udp_handler_send_generated_def send_acknack_def do_udp_send_def Let_def p_def sizeof_p_u8_def)
  have "wf_packet b \<and> crc_data_len b = Some sizeof_p_u8 \<and> sizeof_p_u8 \<le> sizeof_packet_any"
    by (rule prepare_len [OF wf b(1)]) (simp add: offset_simps)
  moreover have "check_crc b = HXB_ERR_SUCCESS" by (rule prepared_passes_check [OF wf b(1)]) (simp add: offset_simps)
  moreover have "get_bytes off_magic 4 b = HXB_HEADER \<and> get8 off_flags b = 0"
    by (rule header_fields [OF prepare_header [OF wf b(1)]]) (simp add: offset_simps)
  ultimately have "well_formed_datagram ?d"
    by (auto simp: well_formed_datagram_def wf_packet_def min_def)
  moreover have "dg_data ?d ! off_value = (if ok then 1 else 0)" using v by (simp add: offset_simps)
  ultimately show ?thesis using w by (intro exI [of _ ?d]) (simp add: r)
qed

theorem upload_is_acknowledged_witness:
  "\<exists>d. sent (snd (write_receiver \<lparr>env_src_ip = ip6_localhost, env_src_port = 7, env_eid = 10,
       env_value = fresh_value\<lparr>vblob := replicate 65 1\<rparr>\<rparr> fresh_sms)) = sent fresh_sms @ [d] \<and> dg_port d = 7"
proof -
  have "udpconn fresh_sms" "wf_packet (stack_bytes fresh_sms)"
    by (simp_all add: fresh_defs wf_packet_def offset_simps)
  from upload_is_acknowledged [OF this, of "\<lparr>env_src_ip = ip6_localhost, env_src_port = 7, env_eid = 10,
       env_value = fresh_value\<lparr>vblob := replicate 65 1\<rparr>\<rparr>"]
  show ?thesis by auto
qed

end
