(* ===== verification/IR_Receiver.thy ===== *)
theory IR_Receiver
  imports Devices
begin

text \<open>
  \<^verbatim>\<open>ir_receiver.c\<close>: the decoder of the infrared remote control. An interrupt on each edge of the
  signal measures the time since the previous edge in 100 microsecond ticks and drives a small
  automaton, which also turns the sense of the next edge around; a complete code is handed to a
  process by a poll. The configuration is that of \<^verbatim>\<open>ir_receiver.h\<close> (\<open>IR_SAMSUNG\<close>, no raw mode,
  \<open>IR_REPEAT\<close>).
\<close>

datatype ir_states = IR_IDLE_STATE | IR_START_STATE | IR_DATA_STATE

record irs = devs +
  ir_time :: u32
  ir_time_since_last :: u32
  ir_data :: buf
  ir_prev_data :: buf
  ir_last_data :: buf
  ir_state :: ir_states
  ir_edge_up :: bool         \<comment> \<open>\<open>ir_edge_dir\<close> is \<open>IR_EDGE_UP\<close>\<close>
  ir_sense_rising :: bool    \<comment> \<open>the edge INT2 reacts to, in \<open>EICRA\<close>\<close>
  ir_repeat :: bool
  ir_bit :: u8
  ir_byte :: u8
  ir_rep_timer :: timer
  ir_polled :: bool          \<comment> \<open>\<open>needspoll\<close> of the receiver process\<close>

definition IR_REPEAT_MASK :: u32 where "IR_REPEAT_MASK = 0x143c7800"

text \<open>\<open>IR0\<close> to \<open>IR31\<close>.\<close>

definition ir_codes :: "u32 list" where
  "ir_codes = [3994093319, 4211345159, 4194633479, 4177921799, 4144498439, 4127786759, 4111075079, 4077651719,
     4060940039, 4044228359, 4244768519, 4161210119, 4094363399, 3977381639, 4010804999, 4027516679,
     3843688199, 4261480199, 2673870599, 2657158919, 2590312199, 2640447239, 2540177159, 2807564039,
     3526166279, 3760129799, 3125085959, 3041527559, 3074950919, 3058239239, 3091662599, 3108374279]"

definition ir_get_last_command :: "'a irs_scheme \<Rightarrow> u32" where
  "ir_get_last_command s =
     (case find (\<lambda>i. ir_codes ! i = get32 0 (ir_last_data s)) [0..<32] of Some i \<Rightarrow> push_bit i 1 | None \<Rightarrow> 0)"

definition read_ir :: "hxb_value \<Rightarrow> 'a irs_scheme \<Rightarrow> hxb_error_code \<times> hxb_value \<times> 'a irs_scheme" where
  "read_ir v s = (HXB_ERR_SUCCESS, set_u32 (ir_get_last_command s) v, s)"

definition endpoint_ir_receiver :: descriptor where
  "endpoint_ir_receiver = \<lparr>ep_datatype = dtype_code HXB_DTYPE_UINT32, ep_eid = EP_IR_RECEIVER,
     ep_name = Some (ascii ''IR remote control receiver''), ep_read = Some Rd_ir, ep_write = None\<rparr>"

definition ir_receiver_init :: "'a irs_scheme \<Rightarrow> 'a irs_scheme" where
  "ir_receiver_init s = ENDPOINT_REGISTER endpoint_ir_receiver
     (s\<lparr>ir_time := 0, ir_time_since_last := 0, ir_data := replicate 4 0, ir_prev_data := replicate 4 0,
        ir_state := IR_IDLE_STATE, ir_edge_up := False, ir_repeat := False, ir_bit := 0, ir_byte := 0,
        ir_sense_rising := False, ir_rep_timer := timer_set (clock s) 37 (ir_rep_timer s)\<rparr>)"

definition ir_receiver_reset :: "'a irs_scheme \<Rightarrow> 'a irs_scheme" where
  "ir_receiver_reset s = s\<lparr>ir_data := (ir_data s)[0 := 0, 1 := 0, 2 := 0, 3 := 0], ir_state := IR_IDLE_STATE,
     ir_sense_rising := False, ir_edge_up := False\<rparr>"

definition to_be_repeated :: "'a irs_scheme \<Rightarrow> bool" where
  "to_be_repeated s = (ir_get_last_command s AND IR_REPEAT_MASK \<noteq> 0)"

text \<open>The reaction of the process to its poll.\<close>

definition ir_process_poll :: "'a irs_scheme broadcaster \<Rightarrow> 'a irs_scheme \<Rightarrow> 'a irs_scheme" where
  "ir_process_poll bc s =
     (let s = s\<lparr>ir_polled := False\<rparr> in
      if ir_repeat s then s\<lparr>ir_repeat := False\<rparr>
      else if get32 0 (ir_prev_data s) \<noteq> get32 0 (ir_last_data s) \<or> timer_expired (clock s) (ir_rep_timer s) \<or> to_be_repeated s
      then bc EP_IR_RECEIVER (s\<lparr>ir_prev_data := ir_last_data s, ir_rep_timer := timer_restart (clock s) (ir_rep_timer s)\<rparr>)
      else s\<lparr>ir_rep_timer := timer_restart (clock s) (ir_rep_timer s)\<rparr>)"

definition next_edge :: "bool \<Rightarrow> 'a irs_scheme \<Rightarrow> 'a irs_scheme" where
  "next_edge up s = s\<lparr>ir_sense_rising := up, ir_edge_up := up\<rparr>"

definition next_ir_bit :: "'a irs_scheme \<Rightarrow> 'a irs_scheme" where
  "next_ir_bit s =
     (let s = s\<lparr>ir_bit := ir_bit s + 1\<rparr> in
      if ir_bit s > 7 then s\<lparr>ir_bit := 0, ir_byte := ir_byte s + 1\<rparr> else s)"

text \<open>The edge interrupt.\<close>

definition INT2_vect :: "'a irs_scheme \<Rightarrow> 'a irs_scheme" where
  "INT2_vect s =
     (let t = ir_time s; s = s\<lparr>ir_time_since_last := t, ir_time := 0\<rparr> in
      case ir_state s of
        IR_IDLE_STATE \<Rightarrow>
          (if \<not> ir_edge_up s then next_edge True s
           else if t > 40 \<and> t < 47 then next_edge False (s\<lparr>ir_state := IR_START_STATE\<rparr>)
           else ir_receiver_reset s)
      | IR_START_STATE \<Rightarrow>
          (if t > 40 \<and> t < 47 then next_edge True (s\<lparr>ir_state := IR_DATA_STATE, ir_bit := 0, ir_byte := 0\<rparr>)
           else if t > 20 \<and> t < 25 then ir_receiver_reset (s\<lparr>ir_repeat := True, ir_polled := True\<rparr>)
           else ir_receiver_reset s)
      | IR_DATA_STATE \<Rightarrow>
          (if ir_edge_up s then
             (if ir_byte s > 3 then ir_receiver_reset (s\<lparr>ir_last_data := ir_data s, ir_polled := True\<rparr>)
              else if t > 1 \<and> t < 7 then next_edge False s
              else ir_receiver_reset s)
           else if t > 1 \<and> t < 7 then next_edge True (next_ir_bit s)
           else if t > 14 \<and> t < 19 then
             next_edge True (next_ir_bit (s\<lparr>ir_data := (ir_data s)[unat (ir_byte s) :=
                ir_data s ! unat (ir_byte s) OR push_bit (unat (ir_bit s)) 1]\<rparr>))
           else ir_receiver_reset s))"

definition TIMER0_COMPA_vect :: "'a irs_scheme \<Rightarrow> 'a irs_scheme" where
  "TIMER0_COMPA_vect s = s\<lparr>ir_time := ir_time s + 1\<rparr>"

section \<open>The decoder stays within its buffer\<close>

definition ir_ok :: "'a irs_scheme \<Rightarrow> bool" where
  "ir_ok s = (length (ir_data s) = 4 \<and> ir_sense_rising s = ir_edge_up s \<and>
     (ir_state s = IR_START_STATE \<longrightarrow> \<not> ir_edge_up s) \<and>
     (ir_state s = IR_DATA_STATE \<longrightarrow> ir_bit s \<le> 7 \<and> ir_byte s \<le> 4 \<and> (\<not> ir_edge_up s \<longrightarrow> ir_byte s \<le> 3)))"

lemma ir_ok_reset: "length (ir_data s) = 4 \<Longrightarrow> ir_ok (ir_receiver_reset s)"
  by (simp add: ir_ok_def ir_receiver_reset_def)

lemma byte_Suc_le: "(b :: u8) \<le> 3 \<Longrightarrow> b + 1 \<le> 4" "(b :: u8) \<le> 7 \<Longrightarrow> \<not> b + 1 > 7 \<Longrightarrow> b + 1 \<le> 7"
proof -
  assume "b \<le> 3"
  then have "unat (b + 1) = unat b + 1" by (subst unat_add_lem [THEN iffD1]) (auto simp: word_le_nat_alt)
  with \<open>b \<le> 3\<close> show "b + 1 \<le> 4" by (simp add: word_le_nat_alt)
qed simp

lemma ir_ok_next_bit:
  assumes "ir_bit s \<le> 7" "ir_byte s \<le> 3" "length (ir_data s) = 4" "ir_state s = IR_DATA_STATE"
  shows "ir_ok (next_edge True (next_ir_bit s))"
proof -
  have "ir_byte s + 1 \<le> 4" "ir_byte s \<le> 4"
    using byte_Suc_le(1) [OF assms(2)] assms(2) by (simp_all add: word_le_nat_alt)
  then show ?thesis using assms by (auto simp: ir_ok_def next_edge_def next_ir_bit_def Let_def not_less)
qed

lemma ir_ok_interrupt:
  assumes "ir_ok s" shows "ir_ok (INT2_vect s)"
proof -
  have len: "length (ir_data s) = 4" using assms by (simp add: ir_ok_def)
  show ?thesis
  proof (cases "ir_state s")
    case IR_IDLE_STATE
    with assms len show ?thesis
      by (simp add: INT2_vect_def Let_def ir_ok_reset) (simp add: ir_ok_def next_edge_def)
  next
    case IR_START_STATE
    with len show ?thesis by (simp add: INT2_vect_def Let_def ir_ok_reset) (simp add: ir_ok_def next_edge_def)
  next
    case IR_DATA_STATE
    then have d: "ir_bit s \<le> 7" "\<not> ir_edge_up s \<Longrightarrow> ir_byte s \<le> 3" using assms by (simp_all add: ir_ok_def)
    show ?thesis
    proof (cases "ir_edge_up s")
      case True
      with IR_DATA_STATE len d(1) show ?thesis
        by (simp add: INT2_vect_def Let_def ir_ok_reset) (auto simp: ir_ok_def next_edge_def not_less word_le_nat_alt)
    next
      case False
      with IR_DATA_STATE len d show ?thesis
        by (simp add: INT2_vect_def Let_def ir_ok_reset ir_ok_next_bit)
    qed
  qed
qed

lemma ir_ok_tick: "ir_ok s \<Longrightarrow> ir_ok (TIMER0_COMPA_vect s)"
  by (simp add: ir_ok_def TIMER0_COMPA_vect_def)

text \<open>The interrupts in any order.\<close>

inductive ir_reachable :: "'a irs_scheme \<Rightarrow> 'a irs_scheme \<Rightarrow> bool" where
  start: "ir_reachable s (ir_receiver_init s)"
| edge: "ir_reachable s t \<Longrightarrow> ir_reachable s (INT2_vect t)"
| tick: "ir_reachable s t \<Longrightarrow> ir_reachable s (TIMER0_COMPA_vect t)"

lemma ir_reachable_ok: "ir_reachable s t \<Longrightarrow> ir_ok t"
  by (induction rule: ir_reachable.induct)
     (simp_all add: ir_ok_interrupt ir_ok_tick, simp add: ir_ok_def ir_receiver_init_def ENDPOINT_REGISTER_def)

section \<open>Decoding a transmission\<close>

text \<open>Edges at the given distances from each other.\<close>

definition edges :: "u32 list \<Rightarrow> 'a irs_scheme \<Rightarrow> 'a irs_scheme" where
  "edges ts s = fold (\<lambda>t s. INT2_vect (s\<lparr>ir_time := t\<rparr>)) ts s"

lemma edges_simps [simp]:
  "edges [] s = s" "edges (t # ts) s = edges ts (INT2_vect (s\<lparr>ir_time := t\<rparr>))"
  by (simp_all add: edges_def)

lemma edges_append: "edges (xs @ ys) s = edges ys (edges xs s)"
  by (simp add: edges_def)

text \<open>A bit is a short pulse and a short or long space; a code is sent low byte and low bit first.\<close>

definition bit_edges :: "bool \<Rightarrow> u32 list" where
  "bit_edges b = [4, if b then 16 else 4]"

definition code_bit :: "buf \<Rightarrow> nat \<Rightarrow> bool" where
  "code_bit code k = bit (code ! (k div 8)) (k mod 8)"

definition payload_edges :: "buf \<Rightarrow> nat \<Rightarrow> u32 list" where
  "payload_edges code n = concat (map (\<lambda>k. bit_edges (code_bit code k)) [0..<n])"

definition transmission :: "buf \<Rightarrow> u32 list" where
  "transmission code = payload_edges code 32 @ [4]"

text \<open>The first \<open>k\<close> bits have arrived.\<close>

definition collected :: "buf \<Rightarrow> nat \<Rightarrow> 'a irs_scheme \<Rightarrow> bool" where
  "collected code k s = (ir_state s = IR_DATA_STATE \<and> ir_edge_up s \<and> length (ir_data s) = 4 \<and>
     unat (ir_byte s) = k div 8 \<and> unat (ir_bit s) = k mod 8 \<and>
     (\<forall>j < 4. \<forall>i < 8. bit (ir_data s ! j) i = (8 * j + i < k \<and> code_bit code (8 * j + i))))"

lemma next_ir_bit_position:
  assumes "unat (ir_byte s) = k div 8" "unat (ir_bit s) = k mod 8" "k < 32"
  shows "unat (ir_byte (next_ir_bit s)) = Suc k div 8" "unat (ir_bit (next_ir_bit s)) = Suc k mod 8"
proof -
  have u: "unat (ir_bit s + 1) = Suc (k mod 8)" "unat (ir_byte s + 1) = Suc (k div 8)"
    using assms by (subst unat_add_lem [THEN iffD1]; auto)+
  have g: "ir_bit s + 1 > 7 \<longleftrightarrow> k mod 8 = 7"
    using u(1) mod_less_divisor [of 8 k] by (auto simp: word_less_nat_alt)
  show "unat (ir_byte (next_ir_bit s)) = Suc k div 8"
    using u g assms(1) by (auto simp: next_ir_bit_def Let_def div_Suc mod_Suc)
  show "unat (ir_bit (next_ir_bit s)) = Suc k mod 8"
    using u g by (auto simp: next_ir_bit_def Let_def mod_Suc)
qed

lemma next_ir_bit_frame [simp]:
  "ir_state (next_ir_bit s) = ir_state s" "ir_data (next_ir_bit s) = ir_data s"
  "ir_edge_up (next_ir_bit s) = ir_edge_up s"
  by (simp_all add: next_ir_bit_def Let_def)

lemma position_split: "i < 8 \<Longrightarrow> (8 * j + i = k) = (j = k div 8 \<and> i = k mod 8)" for i j k :: nat
  by auto

lemma data_space:
  assumes "ir_state s = IR_DATA_STATE" "\<not> ir_edge_up s"
  shows "INT2_vect (s\<lparr>ir_time := 4\<rparr>) = next_edge True (next_ir_bit (s\<lparr>ir_time_since_last := 4, ir_time := 0\<rparr>))"
    and "INT2_vect (s\<lparr>ir_time := 16\<rparr>) = next_edge True (next_ir_bit (s\<lparr>ir_time_since_last := 16, ir_time := 0,
      ir_data := (ir_data s)[unat (ir_byte s) := ir_data s ! unat (ir_byte s) OR push_bit (unat (ir_bit s)) 1]\<rparr>))"
  using assms by (simp_all add: INT2_vect_def Let_def)

lemma next_edge_frame [simp]:
  "ir_state (next_edge up s) = ir_state s" "ir_edge_up (next_edge up s) = up" "ir_data (next_edge up s) = ir_data s"
  "ir_byte (next_edge up s) = ir_byte s" "ir_bit (next_edge up s) = ir_bit s"
  by (simp_all add: next_edge_def)

lemma collected_step:
  assumes c: "collected code k s" and k: "k < 32"
  shows "collected code (Suc k) (edges (bit_edges (code_bit code k)) s)"
proof -
  have st: "ir_state s = IR_DATA_STATE" "ir_edge_up s" "length (ir_data s) = 4"
    "unat (ir_byte s) = k div 8" "unat (ir_bit s) = k mod 8"
    and data: "\<And>j i. j < 4 \<Longrightarrow> i < 8 \<Longrightarrow> bit (ir_data s ! j) i = (8 * j + i < k \<and> code_bit code (8 * j + i))"
    using c by (auto simp: collected_def)
  have "\<not> ir_byte s > 3" using st(4) k by (auto simp: word_less_nat_alt)
  then have mid: "INT2_vect (s\<lparr>ir_time := 4\<rparr>) = next_edge False (s\<lparr>ir_time_since_last := 4, ir_time := 0\<rparr>)"
    using st by (simp add: INT2_vect_def Let_def)
  let ?m = "next_edge False (s\<lparr>ir_time_since_last := 4, ir_time := 0\<rparr>)"
  let ?d = "if code_bit code k then (ir_data s)[k div 8 := ir_data s ! (k div 8) OR push_bit (k mod 8) 1] else ir_data s"
  define e where "e = edges (bit_edges (code_bit code k)) s"
  have "\<exists>r. e = next_edge True (next_ir_bit r) \<and> ir_data r = ?d \<and> ir_state r = IR_DATA_STATE \<and>
      ir_byte r = ir_byte s \<and> ir_bit r = ir_bit s"
  proof (cases "code_bit code k")
    case True
    have "e = INT2_vect (?m\<lparr>ir_time := 16\<rparr>)" using True by (simp add: e_def bit_edges_def mid)
    then have "e = next_edge True (next_ir_bit (?m\<lparr>ir_time_since_last := 16, ir_time := 0,
        ir_data := (ir_data ?m)[unat (ir_byte ?m) := ir_data ?m ! unat (ir_byte ?m) OR push_bit (unat (ir_bit ?m)) 1]\<rparr>))"
      using data_space(2) [of ?m] st by simp
    then show ?thesis using True st by (intro exI conjI) (assumption | simp)+
  next
    case False
    have "e = INT2_vect (?m\<lparr>ir_time := 4\<rparr>)" using False by (simp add: e_def bit_edges_def mid)
    then have "e = next_edge True (next_ir_bit (?m\<lparr>ir_time_since_last := 4, ir_time := 0\<rparr>))"
      using data_space(1) [of ?m] st by simp
    then show ?thesis using False st by (intro exI conjI) (assumption | simp)+
  qed
  then obtain r where e: "e = next_edge True (next_ir_bit r)" and r: "ir_data r = ?d" "ir_state r = IR_DATA_STATE"
    "ir_byte r = ir_byte s" "ir_bit r = ir_bit s" by blast
  have pos: "unat (ir_byte (next_ir_bit r)) = Suc k div 8" "unat (ir_bit (next_ir_bit r)) = Suc k mod 8"
    using next_ir_bit_position [of r k] r st k by simp_all
  have "bit (?d ! j) i = (8 * j + i < Suc k \<and> code_bit code (8 * j + i))" if ji: "j < 4" "i < 8" for j i
  proof -
    have "bit (?d ! j) i = (bit (ir_data s ! j) i \<or> code_bit code k \<and> 8 * j + i = k)"
      using st(3) ji k by (auto simp: nth_list_update position_split bit_simps)
    then show ?thesis using data [OF ji] by (auto simp: less_Suc_eq)
  qed
  then show ?thesis using st(3) r pos unfolding e_def [symmetric] e collected_def by (simp add: next_edge_def)
qed

lemma collected_all:
  "collected code 0 s \<Longrightarrow> n \<le> 32 \<Longrightarrow> collected code n (edges (payload_edges code n) s)"
proof (induction n)
  case 0
  then show ?case by (simp add: payload_edges_def)
next
  case (Suc n)
  then have "collected code n (edges (payload_edges code n) s)" by simp
  from collected_step [OF this] Suc.prems(2) show ?case by (simp add: payload_edges_def edges_append)
qed

lemma collected_code:
  assumes "collected code 32 s" "length code = 4"
  shows "ir_data s = code"
proof (rule nth_equalityI)
  show len: "length (ir_data s) = length code" using assms by (simp add: collected_def)
  fix j assume "j < length (ir_data s)"
  then have j: "j < 4" using len assms(2) by simp
  show "ir_data s ! j = code ! j"
  proof (rule bit_word_eqI)
    fix i assume "i < LENGTH(8)"
    then have i: "i < 8" by simp
    then have "bit (ir_data s ! j) i = code_bit code (8 * j + i)" using assms(1) j by (auto simp: collected_def)
    also have "\<dots> = bit (code ! j) i" using i by (simp add: code_bit_def)
    finally show "bit (ir_data s ! j) i = bit (code ! j) i" .
  qed
qed

lemma header_edges:
  assumes "ir_state s = IR_IDLE_STATE" "\<not> ir_edge_up s" "ir_data s = [0, 0, 0, 0]"
  shows "collected code 0 (edges [t, 43, 43] s)"
proof -
  let ?a = "next_edge True (s\<lparr>ir_time_since_last := t, ir_time := 0\<rparr>)"
  let ?b = "next_edge False (?a\<lparr>ir_time_since_last := 43, ir_time := 0, ir_state := IR_START_STATE\<rparr>)"
  let ?c = "next_edge True (?b\<lparr>ir_time_since_last := 43, ir_time := 0, ir_state := IR_DATA_STATE, ir_bit := 0, ir_byte := 0\<rparr>)"
  have "INT2_vect (s\<lparr>ir_time := t\<rparr>) = ?a" using assms by (simp add: INT2_vect_def Let_def)
  moreover have "INT2_vect (?a\<lparr>ir_time := 43\<rparr>) = ?b" using assms by (simp add: INT2_vect_def Let_def)
  moreover have "INT2_vect (?b\<lparr>ir_time := 43\<rparr>) = ?c" by (simp add: INT2_vect_def Let_def)
  ultimately have e: "edges [t, 43, 43] s = ?c" by simp
  have "[0, 0, 0, 0] = replicate 4 (0 :: u8)" by (simp add: numeral_eq_Suc)
  then have "ir_data ?c = replicate 4 0" using assms(3) by simp
  then show ?thesis unfolding e collected_def by simp
qed

lemma stop_bit:
  assumes c: "collected code 32 b" and len: "length code = 4"
  shows "ir_last_data (INT2_vect (b\<lparr>ir_time := 4\<rparr>)) = code \<and> ir_polled (INT2_vect (b\<lparr>ir_time := 4\<rparr>)) \<and>
      ir_state (INT2_vect (b\<lparr>ir_time := 4\<rparr>)) = IR_IDLE_STATE \<and> \<not> ir_edge_up (INT2_vect (b\<lparr>ir_time := 4\<rparr>)) \<and>
      ir_data (INT2_vect (b\<lparr>ir_time := 4\<rparr>)) = [0, 0, 0, 0]"
proof -
  have d: "ir_data b = code" by (rule collected_code [OF c len])
  have f: "ir_state b = IR_DATA_STATE" "ir_edge_up b" "ir_byte b > 3"
    using c by (simp_all add: collected_def word_less_nat_alt)
  have "code[0 := 0, 1 := 0, 2 := 0, 3 := 0] = [0, 0, 0, 0]"
    using len by (auto simp: numeral_eq_Suc length_Suc_conv)
  then show ?thesis using d f by (simp add: INT2_vect_def Let_def ir_receiver_reset_def)
qed

section \<open>Properties\<close>

text \<open>C19: In every state the interrupts can produce, the decoder's byte index is within its buffer when a bit
  is stored, and the hardware senses the edge the automaton waits for.\<close>

theorem ir_buffer_in_bounds:
  assumes "ir_reachable s t"
  shows "length (ir_data t) = 4 \<and> ir_sense_rising t = ir_edge_up t \<and>
    (ir_state t = IR_DATA_STATE \<and> \<not> ir_edge_up t \<longrightarrow> unat (ir_byte t) < length (ir_data t) \<and> unat (ir_bit t) < 8)"
  using ir_reachable_ok [OF assms] by (auto simp: ir_ok_def word_le_nat_alt)

definition fresh_irs :: irs where
  "fresh_irs = devs.extend (provs.extend fresh_provs (devs.fields 0 0 0 0 0 no_timer no_timer 0 0 0 0 0 Sense_Idle no_timer 3
      (\<lambda>_ _. 0) None False))
     (irs.fields 0 0 [0, 0, 0, 0] [0, 0, 0, 0] [0, 0, 0, 0] IR_IDLE_STATE False False False 0 0 \<lparr>tm_start = 0, tm_interval = 0\<rparr> False)"

theorem ir_buffer_in_bounds_witness:
  "length (ir_data (INT2_vect (ir_receiver_init fresh_irs))) = 4"
  using ir_buffer_in_bounds [OF ir_reachable.edge [OF ir_reachable.start [of fresh_irs]]] by simp

text \<open>C18: A transmission with nominal timing, whatever its 32 bits are, received by an idle decoder, is decoded
  to its four bytes, reported to the process, and leaves the decoder idle.\<close>

theorem ir_transmission_decoded:
  assumes "ir_state s = IR_IDLE_STATE" "\<not> ir_edge_up s" "ir_data s = [0, 0, 0, 0]" "length code = 4"
  shows "let s' = edges (t # 43 # 43 # transmission code) s in
    ir_last_data s' = code \<and> ir_polled s' \<and> ir_state s' = IR_IDLE_STATE \<and> \<not> ir_edge_up s' \<and> ir_data s' = [0, 0, 0, 0]"
proof -
  define h where "h = edges [t, 43, 43] s"
  define b where "b = edges (payload_edges code 32) h"
  have "collected code 0 h" unfolding h_def by (rule header_edges [OF assms(1-3)])
  then have c: "collected code 32 b" unfolding b_def by (rule collected_all) simp
  have "edges (t # 43 # 43 # transmission code) s = edges (payload_edges code 32 @ [4]) h"
    by (simp only: transmission_def h_def edges_simps)
  also have "\<dots> = INT2_vect (b\<lparr>ir_time := 4\<rparr>)" by (simp only: edges_append b_def edges_simps)
  finally show ?thesis using stop_bit [OF c assms(4)] by (simp only: Let_def simp_thms)
qed

theorem ir_transmission_decoded_witness:
  "ir_last_data (edges (9 # 43 # 43 # transmission [7, 7, 0x11, 0xee]) fresh_irs) = [7, 7, 0x11, 0xee]"
  using ir_transmission_decoded [of fresh_irs "[7, 7, 0x11, 0xee]" 9]
  by (simp add: fresh_irs_def irs.defs devs.defs provs.defs Let_def)

end
