(* ===== verification/Shutter.thy ===== *)
theory Shutter
  imports IR_Receiver
begin

text \<open>
  \<^verbatim>\<open>shutter.c\<close>: the window shutter. A write of the endpoint starts the motor towards a goal or stops
  it; an encoder interrupt polls the shutter process, which counts the position and stops the motor at
  the goal; a timeout of the encoder (the motor has run against its end) stops it as well and
  calibrates. A second process calibrates at boot. Proved: the outputs of the two directions are never
  both on, the shutter stops exactly at its goal, and no event but a new command starts the motor.
\<close>

section \<open>State\<close>

datatype setup_pc = Setup_Closing | Setup_Opening | Setup_Done

record shs = irs +
  shutter_direction :: "8 word"      \<comment> \<open>\<open>int8_t\<close>\<close>
  shutter_goal :: i16
  shutter_pos :: i16
  shutter_upperbound :: i16
  shutter_poke :: u8
  shutter_pokes :: nat               \<comment> \<open>pokes posted to the process and not yet delivered\<close>
  shutter_encoder_timer :: app_timer
  shutter_setup :: setup_pc          \<comment> \<open>where the setup process pauses\<close>

definition SHUTTER_OUT_UP :: nat where "SHUTTER_OUT_UP = 2"
definition SHUTTER_OUT_DOWN :: nat where "SHUTTER_OUT_DOWN = 3"
definition SHUTTER_MAX_BOUND :: i16 where "SHUTTER_MAX_BOUND = 30000"
definition SHUTTER_DIR_UP :: "8 word" where "SHUTTER_DIR_UP = 1"
definition SHUTTER_DIR_DOWN :: "8 word" where "SHUTTER_DIR_DOWN = - 1"
definition SHUTTER_DIR_STOP :: "8 word" where "SHUTTER_DIR_STOP = 0"
definition ENCODER_TIMEOUT :: clock_time where "ENCODER_TIMEOUT = 300"

section \<open>Operations\<close>

definition shutter_open :: "'a shs_scheme \<Rightarrow> 'a shs_scheme" where
  "shutter_open s = s\<lparr>shutter_direction := SHUTTER_DIR_UP,
     port_a := (port_a s AND NOT (push_bit SHUTTER_OUT_DOWN 1)) OR push_bit SHUTTER_OUT_UP 1,
     shutter_pokes := shutter_pokes s + 1\<rparr>"

definition shutter_close :: "'a shs_scheme \<Rightarrow> 'a shs_scheme" where
  "shutter_close s = s\<lparr>shutter_direction := SHUTTER_DIR_DOWN,
     port_a := (port_a s AND NOT (push_bit SHUTTER_OUT_UP 1)) OR push_bit SHUTTER_OUT_DOWN 1,
     shutter_pokes := shutter_pokes s + 1\<rparr>"

definition shutter_stop :: "'a shs_scheme \<Rightarrow> 'a shs_scheme" where
  "shutter_stop s = s\<lparr>shutter_direction := SHUTTER_DIR_STOP,
     port_a := port_a s AND NOT (push_bit SHUTTER_OUT_UP 1 OR push_bit SHUTTER_OUT_DOWN 1)\<rparr>"

text \<open>A 16 bit integer as a float.\<close>

definition f32_of_i16 :: "i16 \<Rightarrow> f32" where
  "f32_of_i16 n = f32_signed (sint n < 0) (f32_of_nat (nat \<bar>sint n\<bar>))"

text \<open>The position that \<open>val\<close> 255ths of the way are, converted back to an integer.\<close>

definition shutter_scaled :: "f32 \<Rightarrow> i16 \<Rightarrow> int" where
  "shutter_scaled x bound = f32_trunc (f32_mul x (f32_div (f32_of_i16 bound) (f32_of_nat 255)))"

definition shutter_set :: "u8 \<Rightarrow> 'a shs_scheme \<Rightarrow> 'a shs_scheme" where
  "shutter_set val s =
     (let s = s\<lparr>shutter_goal := (if val = 255 then SHUTTER_MAX_BOUND
                else if val = 1 then - SHUTTER_MAX_BOUND
                else word_of_int (shutter_scaled (f32_of_nat (unat val)) (shutter_upperbound s)))\<rparr>
      in if sint (shutter_goal s) > sint (shutter_pos s) then shutter_open s
         else if sint (shutter_goal s) < sint (shutter_pos s) then shutter_close s
         else s)"

definition shutter_toggle :: "u8 \<Rightarrow> 'a shs_scheme \<Rightarrow> 'a shs_scheme" where
  "shutter_toggle val s =
     (if shutter_direction s = SHUTTER_DIR_STOP \<and> val \<noteq> 0 then shutter_set val s else shutter_stop s)"

text \<open>The conversion to \<open>uint8_t\<close> is undefined when the value does not fit; the model reduces it.\<close>

definition shutter_get_state :: "'a shs_scheme \<Rightarrow> u8" where
  "shutter_get_state s = word_of_int (shutter_scaled (f32_of_i16 (shutter_pos s)) (shutter_upperbound s))"

definition read_shutter :: "hxb_value \<Rightarrow> 'a shs_scheme \<Rightarrow> hxb_error_code \<times> hxb_value \<times> 'a shs_scheme" where
  "read_shutter v s = (HXB_ERR_SUCCESS, set_u8 (shutter_get_state s) v, s)"

definition write_shutter :: "hxb_envelope \<Rightarrow> 'a shs_scheme \<Rightarrow> hxb_error_code \<times> 'a shs_scheme" where
  "write_shutter env s = (HXB_ERR_SUCCESS, shutter_toggle (v_u8 (env_value env)) s)"

definition endpoint_shutter :: descriptor where
  "endpoint_shutter = \<lparr>ep_datatype = dtype_code HXB_DTYPE_UINT8, ep_eid = EP_SHUTTER,
     ep_name = Some (ascii ''Window Shutter''), ep_read = Some Rd_shutter, ep_write = Some Wr_shutter\<rparr>"

text \<open>Bits 4 and 5 of the port are the encoder inputs with their pull-ups.\<close>

definition shutter_init :: "'a shs_scheme \<Rightarrow> 'a shs_scheme" where
  "shutter_init s =
     (let s = s\<lparr>ddr_a := (ddr_a s OR (push_bit SHUTTER_OUT_UP 1 OR push_bit SHUTTER_OUT_DOWN 1))
                AND NOT (push_bit 4 1 OR push_bit 5 1),
                port_a := port_a s OR (push_bit 4 1 OR push_bit 5 1)\<rparr>;
          (poke, s) = process_alloc_event s
      in ENDPOINT_REGISTER endpoint_shutter
           (s\<lparr>shutter_poke := poke, shutter_goal := 0, shutter_direction := SHUTTER_DIR_STOP,
              shutter_pos := 15000, shutter_upperbound := SHUTTER_MAX_BOUND\<rparr>))"

section \<open>Processes\<close>

text \<open>The setup process from its start to its first pause, and its continuation after a pause.\<close>

definition setup_finish :: "'a shs_scheme \<Rightarrow> 'a shs_scheme" where
  "setup_finish s =
     (let s = s\<lparr>shutter_setup := Setup_Done\<rparr>
      in if SHUTTER_INITIAL_POSITION (conf s) \<noteq> 0 then shutter_toggle (SHUTTER_INITIAL_POSITION (conf s)) s else s)"

definition setup_await_open :: "'a shs_scheme \<Rightarrow> 'a shs_scheme" where
  "setup_await_open s =
     (if shutter_direction s \<noteq> SHUTTER_DIR_STOP then s\<lparr>shutter_setup := Setup_Opening\<rparr> else setup_finish s)"

definition setup_await_close :: "'a shs_scheme \<Rightarrow> 'a shs_scheme" where
  "setup_await_close s =
     (if shutter_direction s \<noteq> SHUTTER_DIR_STOP then s\<lparr>shutter_setup := Setup_Closing\<rparr>
      else setup_await_open (shutter_toggle 255 s))"

definition shutter_setup_start :: "'a shs_scheme \<Rightarrow> 'a shs_scheme" where
  "shutter_setup_start s =
     (if SHUTTER_CALIBRATE_ON_BOOT (conf s) then setup_await_close (shutter_toggle 1 s) else setup_finish s)"

definition shutter_setup_continue :: "'a shs_scheme \<Rightarrow> 'a shs_scheme" where
  "shutter_setup_continue s =
     (case shutter_setup s of
        Setup_Closing \<Rightarrow> setup_await_close s
      | Setup_Opening \<Rightarrow> setup_await_open s
      | Setup_Done \<Rightarrow> s)"

text \<open>The shutter process: started, polled by the encoder interrupt, timed out, poked.\<close>

definition shutter_process_start :: "'a shs_scheme \<Rightarrow> 'a shs_scheme" where
  "shutter_process_start s = s\<lparr>shutter_encoder_timer :=
     app_timer_set (clock s) (CLOCK_SECOND * ENCODER_TIMEOUT div 1000) (shutter_encoder_timer s)\<rparr>"

definition shutter_polled :: "'a shs_scheme \<Rightarrow> 'a shs_scheme" where
  "shutter_polled s =
     (let s = s\<lparr>shutter_encoder_timer := app_timer_restart (clock s) (shutter_encoder_timer s),
                shutter_pos := shutter_pos s + scast (shutter_direction s)\<rparr>
      in if (sint (shutter_pos s) \<ge> sint (shutter_goal s) \<and> shutter_direction s = SHUTTER_DIR_UP) \<or>
            (sint (shutter_pos s) \<le> sint (shutter_goal s) \<and> shutter_direction s = SHUTTER_DIR_DOWN)
         then shutter_stop s else s)"

definition shutter_timed_out :: "'a shs_scheme \<Rightarrow> 'a shs_scheme" where
  "shutter_timed_out s =
     (let s = (if shutter_direction s = SHUTTER_DIR_UP then s\<lparr>shutter_upperbound := shutter_pos s\<rparr>
               else if shutter_direction s = SHUTTER_DIR_DOWN then s\<lparr>shutter_pos := 1\<rparr> else s)
      in shutter_stop s)"

definition shutter_poked :: "'a shs_scheme \<Rightarrow> 'a shs_scheme" where
  "shutter_poked s = s\<lparr>shutter_encoder_timer := app_timer_restart (clock s) (shutter_encoder_timer s),
     shutter_pokes := shutter_pokes s - 1\<rparr>"

section \<open>The interlock\<close>

lemma bit_port_masks:
  "bit ((p AND NOT 8) OR 4 :: u8) n = (if n = 2 then True else if n = 3 then False else bit p n)"
  "bit ((p AND NOT 4) OR 8 :: u8) n = (if n = 3 then True else if n = 2 then False else bit p n)"
  "bit (p AND NOT 12 :: u8) n = (n \<noteq> 2 \<and> n \<noteq> 3 \<and> bit p n)"
proof -
  have n: "bit p n \<Longrightarrow> n < 8" using no_bit_beyond(2) [of n p] by (cases "n < 8") simp_all
  show "bit ((p AND NOT 8) OR 4 :: u8) n = (if n = 2 then True else if n = 3 then False else bit p n)"
    "bit ((p AND NOT 4) OR 8 :: u8) n = (if n = 3 then True else if n = 2 then False else bit p n)"
    "bit (p AND NOT 12 :: u8) n = (n \<noteq> 2 \<and> n \<noteq> 3 \<and> bit p n)"
    by (simp_all only: bit_and_iff bit_or_iff bit_not_iff bit_small_masks possible_bit_word) (use n in auto)
qed

lemma out_masks: "push_bit SHUTTER_OUT_UP 1 = (4 :: u8)" "push_bit SHUTTER_OUT_DOWN 1 = (8 :: u8)" "4 OR 8 = (12 :: u8)"
  by (simp_all add: SHUTTER_OUT_UP_def SHUTTER_OUT_DOWN_def)

lemma port_bits:
  "bit (port_a (shutter_open s)) n = (if n = 2 then True else if n = 3 then False else bit (port_a s) n)"
  "bit (port_a (shutter_close s)) n = (if n = 3 then True else if n = 2 then False else bit (port_a s) n)"
  "bit (port_a (shutter_stop s)) n = (n \<noteq> 2 \<and> n \<noteq> 3 \<and> bit (port_a s) n)"
proof -
  have "port_a (shutter_open s) = (port_a s AND NOT 8) OR 4" "port_a (shutter_close s) = (port_a s AND NOT 4) OR 8"
    "port_a (shutter_stop s) = port_a s AND NOT 12"
    by (simp_all only: shutter_open_def shutter_close_def shutter_stop_def out_masks) simp_all
  then show "bit (port_a (shutter_open s)) n = (if n = 2 then True else if n = 3 then False else bit (port_a s) n)"
    "bit (port_a (shutter_close s)) n = (if n = 3 then True else if n = 2 then False else bit (port_a s) n)"
    "bit (port_a (shutter_stop s)) n = (n \<noteq> 2 \<and> n \<noteq> 3 \<and> bit (port_a s) n)"
    by (simp_all only: bit_port_masks)
qed

lemma direction_simps [simp]:
  "shutter_direction (shutter_open s) = SHUTTER_DIR_UP" "shutter_direction (shutter_close s) = SHUTTER_DIR_DOWN"
  "shutter_direction (shutter_stop s) = SHUTTER_DIR_STOP"
  by (simp_all add: shutter_open_def shutter_close_def shutter_stop_def)

lemma directions_distinct [simp]:
  "SHUTTER_DIR_UP \<noteq> SHUTTER_DIR_DOWN" "SHUTTER_DIR_UP \<noteq> SHUTTER_DIR_STOP" "SHUTTER_DIR_DOWN \<noteq> SHUTTER_DIR_STOP"
  "SHUTTER_DIR_DOWN \<noteq> SHUTTER_DIR_UP" "SHUTTER_DIR_STOP \<noteq> SHUTTER_DIR_UP" "SHUTTER_DIR_STOP \<noteq> SHUTTER_DIR_DOWN"
  by (simp_all add: SHUTTER_DIR_UP_def SHUTTER_DIR_DOWN_def SHUTTER_DIR_STOP_def)

definition motor_ok :: "'a shs_scheme \<Rightarrow> bool" where
  "motor_ok s = (shutter_direction s \<in> {SHUTTER_DIR_UP, SHUTTER_DIR_DOWN, SHUTTER_DIR_STOP} \<and>
     (bit (port_a s) 2 \<longleftrightarrow> shutter_direction s = SHUTTER_DIR_UP) \<and>
     (bit (port_a s) 3 \<longleftrightarrow> shutter_direction s = SHUTTER_DIR_DOWN))"

lemma motor_ok_update [simp]:
  "motor_ok (s\<lparr>shutter_goal := g\<rparr>) = motor_ok s" "motor_ok (s\<lparr>shutter_pos := p\<rparr>) = motor_ok s"
  "motor_ok (s\<lparr>shutter_upperbound := b\<rparr>) = motor_ok s" "motor_ok (s\<lparr>shutter_setup := c\<rparr>) = motor_ok s"
  "motor_ok (s\<lparr>shutter_encoder_timer := t\<rparr>) = motor_ok s" "motor_ok (s\<lparr>shutter_pokes := k\<rparr>) = motor_ok s"
  by (simp_all add: motor_ok_def)

lemma motor_ok_ops [simp]: "motor_ok (shutter_open s)" "motor_ok (shutter_close s)" "motor_ok (shutter_stop s)"
  by (simp_all add: motor_ok_def port_bits)

lemma motor_ok_toggle [simp]: "motor_ok s \<Longrightarrow> motor_ok (shutter_toggle v s)"
  by (simp add: shutter_toggle_def shutter_set_def Let_def)

lemma motor_ok_setup:
  assumes "motor_ok s"
  shows "motor_ok (setup_finish s)" "motor_ok (setup_await_open s)" "motor_ok (setup_await_close s)"
    "motor_ok (shutter_setup_start s)" "motor_ok (shutter_setup_continue s)"
proof -
  have f: "motor_ok t \<Longrightarrow> motor_ok (setup_finish t)" for t :: "'a shs_scheme" by (simp add: setup_finish_def Let_def)
  then have o: "motor_ok t \<Longrightarrow> motor_ok (setup_await_open t)" for t :: "'a shs_scheme" by (simp add: setup_await_open_def)
  then have c: "motor_ok t \<Longrightarrow> motor_ok (setup_await_close t)" for t :: "'a shs_scheme" by (simp add: setup_await_close_def)
  show "motor_ok (setup_finish s)" "motor_ok (setup_await_open s)" "motor_ok (setup_await_close s)"
    using f o c assms by blast+
  show "motor_ok (shutter_setup_start s)" "motor_ok (shutter_setup_continue s)"
    using f o c assms by (simp_all add: shutter_setup_start_def shutter_setup_continue_def split: setup_pc.split)
qed

text \<open>What happens to the shutter: commands over its endpoint, its process's events, and the setup process,
  in any order, from a device whose outputs are off.\<close>

inductive shutter_reachable :: "'a shs_scheme \<Rightarrow> bool" where
  init: "\<not> bit (port_a s) 2 \<Longrightarrow> \<not> bit (port_a s) 3 \<Longrightarrow> shutter_reachable (shutter_init s)"
| setup_start: "shutter_reachable s \<Longrightarrow> shutter_reachable (shutter_setup_start s)"
| setup_continue: "shutter_reachable s \<Longrightarrow> shutter_reachable (shutter_setup_continue s)"
| process_start: "shutter_reachable s \<Longrightarrow> shutter_reachable (shutter_process_start s)"
| command: "shutter_reachable s \<Longrightarrow> shutter_reachable (snd (write_shutter env s))"
| polled: "shutter_reachable s \<Longrightarrow> shutter_reachable (shutter_polled s)"
| timed_out: "shutter_reachable s \<Longrightarrow> shutter_reachable (shutter_timed_out s)"
| poked: "shutter_reachable s \<Longrightarrow> shutter_reachable (shutter_poked s)"

lemma motor_ok_init:
  assumes "\<not> bit (port_a s) 2" "\<not> bit (port_a s) 3" shows "motor_ok (shutter_init s)"
  using assms by (simp add: motor_ok_def shutter_init_def process_alloc_event_def ENDPOINT_REGISTER_def Let_def bit_simps)

lemma reachable_motor_ok: "shutter_reachable s \<Longrightarrow> motor_ok s"
proof (induction rule: shutter_reachable.induct)
  case (init s)
  then show ?case by (rule motor_ok_init)
next
  case (polled s)
  then show ?case by (simp add: shutter_polled_def Let_def)
next
  case (timed_out s)
  then show ?case by (simp add: shutter_timed_out_def Let_def)
qed (simp_all add: motor_ok_setup shutter_process_start_def write_shutter_def shutter_poked_def)

section \<open>Moving to the goal\<close>

lemma scast_direction: "sint (scast (d :: 8 word) :: i16) = sint d"
  by (rule sint_up_scast) (simp add: is_up)

lemma sint_step:
  fixes p :: i16 and d :: "8 word"
  assumes "sint p + sint d = q" "- 32768 \<le> q" "q < 32768"
  shows "sint (p + scast d) = q"
  using assms by (simp add: sint_word_ariths scast_direction signed_take_bit_int_eq_self)

lemma polled_moving:
  assumes d: "shutter_direction s = d" "d = SHUTTER_DIR_UP \<or> d = SHUTTER_DIR_DOWN"
    and away: "sint d * (sint (shutter_goal s) - sint (shutter_pos s)) > 0"
  shows "sint (shutter_pos (shutter_polled s)) = sint (shutter_pos s) + sint d"
    "shutter_goal (shutter_polled s) = shutter_goal s"
    "shutter_direction (shutter_polled s) =
       (if sint (shutter_pos s) + sint d = sint (shutter_goal s) then SHUTTER_DIR_STOP else d)"
proof -
  have sd: "sint SHUTTER_DIR_UP = 1" "sint SHUTTER_DIR_DOWN = - 1"
    by (simp_all add: SHUTTER_DIR_UP_def SHUTTER_DIR_DOWN_def)
  have range: "- 32768 \<le> sint (shutter_goal s)" "sint (shutter_goal s) < 32768"
    "- 32768 \<le> sint (shutter_pos s)" "sint (shutter_pos s) < 32768"
    using sint_ge [of "shutter_goal s"] sint_lt [of "shutter_goal s"] sint_ge [of "shutter_pos s"] sint_lt [of "shutter_pos s"]
    by simp_all
  have pos: "sint (shutter_pos s + scast d) = sint (shutter_pos s) + sint d"
    using d(2) away range sd by (intro sint_step) auto
  show "sint (shutter_pos (shutter_polled s)) = sint (shutter_pos s) + sint d"
    "shutter_goal (shutter_polled s) = shutter_goal s"
    using d(1) pos by (simp_all add: shutter_polled_def shutter_stop_def Let_def)
  show "shutter_direction (shutter_polled s) =
       (if sint (shutter_pos s) + sint d = sint (shutter_goal s) then SHUTTER_DIR_STOP else d)"
    using d pos away sd by (auto simp: shutter_polled_def Let_def)
qed

lemma polled_run:
  assumes d: "shutter_direction s = d" "d = SHUTTER_DIR_UP \<or> d = SHUTTER_DIR_DOWN"
    and n: "sint (shutter_goal s) = sint (shutter_pos s) + sint d * int n"
  shows "k \<le> n \<Longrightarrow> 0 < k \<Longrightarrow> sint (shutter_pos ((shutter_polled ^^ k) s)) = sint (shutter_pos s) + sint d * int k \<and>
    shutter_goal ((shutter_polled ^^ k) s) = shutter_goal s \<and>
    shutter_direction ((shutter_polled ^^ k) s) = (if k = n then SHUTTER_DIR_STOP else d)"
proof (induction k)
  case (Suc k)
  let ?t = "(shutter_polled ^^ k) s"
  have sq: "sint d * sint d = 1" and nz: "sint d \<noteq> 0"
    using d(2) by (auto simp: SHUTTER_DIR_UP_def SHUTTER_DIR_DOWN_def)
  have t: "sint (shutter_pos ?t) = sint (shutter_pos s) + sint d * int k" "shutter_goal ?t = shutter_goal s"
    "shutter_direction ?t = d"
    using Suc d(1) by (cases "k = 0"; simp)+
  have "sint d * (sint (shutter_goal ?t) - sint (shutter_pos ?t)) = sint d * sint d * (int n - int k)"
    using t n by (simp add: algebra_simps)
  then have "sint d * (sint (shutter_goal ?t) - sint (shutter_pos ?t)) > 0" using sq Suc.prems by simp
  note m = polled_moving [OF t(3) d(2) this]
  have "sint (shutter_pos ?t) + sint d = sint (shutter_goal ?t) \<longleftrightarrow> sint d * (int k + 1) = sint d * int n"
    using t n by (simp add: algebra_simps)
  also have "\<dots> \<longleftrightarrow> Suc k = n" using nz by auto
  finally show ?case using m t by (simp add: algebra_simps)
qed simp

section \<open>Properties\<close>

text \<open>C11: Whatever commands, encoder pulses, timeouts and setup steps occur in whatever order, the motor
  outputs of the two directions are never on together, and an output is on exactly while the recorded
  direction is the one it drives.\<close>

theorem shutter_interlock:
  assumes "shutter_reachable s"
  shows "\<not> (bit (port_a s) SHUTTER_OUT_UP \<and> bit (port_a s) SHUTTER_OUT_DOWN) \<and>
    (bit (port_a s) SHUTTER_OUT_UP \<longleftrightarrow> shutter_direction s = SHUTTER_DIR_UP) \<and>
    (bit (port_a s) SHUTTER_OUT_DOWN \<longleftrightarrow> shutter_direction s = SHUTTER_DIR_DOWN)"
  using reachable_motor_ok [OF assms] by (auto simp: motor_ok_def SHUTTER_OUT_UP_def SHUTTER_OUT_DOWN_def)

definition fresh_shs :: shs where
  "fresh_shs = irs.extend (devs.extend (provs.extend (provs.truncate fresh_irs) (devs.fields 0 0 0 0 0 no_timer no_timer 0 0 0 0 0
      Sense_Idle no_timer 3 (\<lambda>_ _. 0) None False)) (irs.fields 0 0 [0, 0, 0, 0] [0, 0, 0, 0] [0, 0, 0, 0] IR_IDLE_STATE
      False False False 0 0 \<lparr>tm_start = 0, tm_interval = 0\<rparr> False))
     (shs.fields 0 0 0 0 0 0 no_timer Setup_Done)"

theorem shutter_interlock_witness:
  "\<not> (bit (port_a (shutter_polled (shutter_setup_start (shutter_init (shutter_stop fresh_shs))))) SHUTTER_OUT_UP \<and>
      bit (port_a (shutter_polled (shutter_setup_start (shutter_init (shutter_stop fresh_shs))))) SHUTTER_OUT_DOWN)"
proof -
  have "shutter_reachable (shutter_init (shutter_stop fresh_shs))"
    by (rule shutter_reachable.init) (simp_all add: port_bits)
  from shutter_interlock [OF shutter_reachable.polled [OF shutter_reachable.setup_start [OF this]]]
  show ?thesis by blast
qed

text \<open>A shutter that moves towards its goal counts one position per encoder pulse, keeps moving until
  the pulse on which the position is the goal, and stops on that pulse, in either direction.\<close>

theorem shutter_stops_at_goal:
  assumes "shutter_direction s = d" "d = SHUTTER_DIR_UP \<or> d = SHUTTER_DIR_DOWN"
    "sint (shutter_goal s) = sint (shutter_pos s) + sint d * int n" "0 < k" "k \<le> n"
  shows "sint (shutter_pos ((shutter_polled ^^ k) s)) = sint (shutter_pos s) + sint d * int k \<and>
    shutter_direction ((shutter_polled ^^ k) s) = (if k = n then SHUTTER_DIR_STOP else d)"
  using polled_run [OF assms(1-3,5,4)] by blast

theorem shutter_stops_at_goal_witness:
  "shutter_direction ((shutter_polled ^^ 20) (shutter_open (fresh_shs\<lparr>shutter_pos := 80, shutter_goal := 100\<rparr>))) = SHUTTER_DIR_STOP"
proof -
  let ?s = "shutter_open (fresh_shs\<lparr>shutter_pos := 80, shutter_goal := 100\<rparr>)"
  have g: "sint (shutter_goal ?s) = sint (shutter_pos ?s) + sint SHUTTER_DIR_UP * int 20"
    by (simp add: shutter_open_def SHUTTER_DIR_UP_def)
  have "shutter_direction ?s = SHUTTER_DIR_UP" by simp
  from conjunct2 [OF shutter_stops_at_goal [OF this disjI1 [OF refl] g zero_less_numeral order_refl]]
  show ?thesis by (simp only: refl if_True)
qed

text \<open>The reading of the shutter endpoint multiplies the position by upperbound/255 instead of dividing:
  right after initialisation, with the shutter half way, the value to be returned in eight bits is
  1764705.\<close>

theorem shutter_reading_out_of_range:
  "shutter_scaled (f32_of_i16 (shutter_pos (shutter_init s))) (shutter_upperbound (shutter_init s)) = 1764705"
proof -
  have i: "shutter_pos (shutter_init s) = 15000" "shutter_upperbound (shutter_init s) = 30000"
    by (simp_all add: shutter_init_def process_alloc_event_def ENDPOINT_REGISTER_def Let_def SHUTTER_MAX_BOUND_def)
  have n: "f32_of_nat 30000 = 0x46EA6000" "f32_of_nat 15000 = 0x466A6000" "f32_of_nat 255 = 0x437F0000"
    unfolding f32_of_nat_def by (rule f32_roundI, simp+)+
  have d: "f32_div 0x46EA6000 0x437F0000 = f32_signed False (f32_round 1006632960000 8556380160)"
    using f32_div_finite [of "0x46EA6000" "0x437F0000" 15360000 512 16711680 65536] by (simp add: f32_bits)
  have "f32_round 1006632960000 8556380160 = 0x42EB4B4B" by (rule f32_roundI, simp+)
  with d have d: "f32_div 0x46EA6000 0x437F0000 = 0x42EB4B4B" by (simp add: f32_signed_def)
  have m: "f32_mul 0x466A6000 0x42EB4B4B = f32_signed False (f32_round 236854809600000 134217728)"
    using f32_mul_finite [of "0x466A6000" "0x42EB4B4B" 15360000 1024 15420235 131072] by (simp add: f32_bits)
  have "f32_round 236854809600000 134217728 = 0x49D76B0F" by (rule f32_roundI, simp+)
  with m have m: "f32_mul 0x466A6000 0x42EB4B4B = 0x49D76B0F" by (simp add: f32_signed_def)
  show ?thesis unfolding i by (simp add: shutter_scaled_def f32_of_i16_def f32_signed_def n d m f32_trunc_def f32_bits)
qed

end
