(* ===== verification/Broadcast.thy ===== *)
theory Broadcast
  imports Shutter
begin

text \<open>
  The function pointers of the endpoint descriptors tied to the handlers, and
  \<^verbatim>\<open>value_broadcast.c\<close> on top of them. A broadcast hands the value to the device's own state machine
  first, whose transitions may write endpoints, whose handlers may broadcast again. This recursion
  is modelled with fuel; theorem \<open>broadcast_depth\<close> shows that two levels are always enough, because
  the process kernel does not call a process that is being called.
\<close>

section \<open>Handlers\<close>

definition run_read :: "read_fn \<Rightarrow> hxb_value \<Rightarrow> 'a shs_scheme \<Rightarrow> hxb_error_code \<times> hxb_value \<times> 'a shs_scheme" where
  "run_read r v s =
     (case r of
        Rd_power \<Rightarrow> read_power v s
      | Rd_energy_total \<Rightarrow> read_energy_total v s
      | Rd_energy \<Rightarrow> read_energy v s
      | Rd_relay \<Rightarrow> read_relay v s
      | Rd_sm_control \<Rightarrow> read_control v s
      | Rd_sm_receiver \<Rightarrow> read_receiver v s
      | Rd_sm_acknack \<Rightarrow> read_acknack v s
      | Rd_sm_reset \<Rightarrow> read_reset v s
      | Rd_hexonoff \<Rightarrow> read_hexonoff v s
      | Rd_presence \<Rightarrow> read_presence v s
      | Rd_sysbutton \<Rightarrow> read_sysbutton v s
      | Rd_hexapush_pressed \<Rightarrow> read_pressed v s
      | Rd_hexapush_clicked \<Rightarrow> read_clicked v s
      | Rd_hexasense \<Rightarrow> read_state v s
      | Rd_shutter \<Rightarrow> read_shutter v s
      | Rd_ir \<Rightarrow> read_ir v s
      | Rd_heater_hot \<Rightarrow> read_hot v s
      | Rd_heater_cold \<Rightarrow> read_cold v s
      | Rd_humidity \<Rightarrow> read_humidity_ep v s)"

definition run_write ::
    "'a shs_scheme broadcaster \<Rightarrow> write_fn \<Rightarrow> hxb_envelope \<Rightarrow> 'a shs_scheme \<Rightarrow> hxb_error_code \<times> 'a shs_scheme" where
  "run_write bc w env s =
     (case w of
        Wr_energy \<Rightarrow> write_energy env s
      | Wr_relay \<Rightarrow> write_relay bc env s
      | Wr_sm_control \<Rightarrow> write_control env s
      | Wr_sm_receiver \<Rightarrow> write_receiver env s
      | Wr_hexonoff_set \<Rightarrow> write_set env s
      | Wr_hexonoff_toggle \<Rightarrow> write_toggle env s
      | Wr_presence \<Rightarrow> write_presence bc env s
      | Wr_shutter \<Rightarrow> write_shutter env s)"

text \<open>All descriptors of the firmware have a read function; the call of a null pointer does not occur.\<close>

definition null_read :: "hxb_value \<Rightarrow> 'a shs_scheme \<Rightarrow> hxb_error_code \<times> hxb_value \<times> 'a shs_scheme" where
  "null_read v s = (HXB_ERR_NO_VALUE, v, s)"

definition fw_read :: "u32 \<Rightarrow> hxb_value \<Rightarrow> 'a shs_scheme \<Rightarrow> hxb_error_code \<times> hxb_value \<times> 'a shs_scheme" where
  "fw_read eid v s = endpoint_read run_read null_read (chain s) eid v s"

definition fw_write :: "'a shs_scheme broadcaster \<Rightarrow> 'a shs_scheme writer" where
  "fw_write bc eid env s = endpoint_write (run_write bc) (chain s) eid env s"

section \<open>Broadcasting a value\<close>

definition broadcast_env :: "hxb_value \<Rightarrow> u32 \<Rightarrow> hxb_envelope" where
  "broadcast_env v eid = \<lparr>env_src_ip = ip6_localhost, env_src_port = 0, env_eid = eid, env_value = v\<rparr>"

definition broadcast_to_self :: "'a shs_scheme broadcaster \<Rightarrow> hxb_value \<Rightarrow> u32 \<Rightarrow> 'a shs_scheme \<Rightarrow> 'a shs_scheme" where
  "broadcast_to_self bc v eid s =
     (if STATE_MACHINE_ENABLE (conf s) then sm_handle_input bc (fw_write bc) (broadcast_env v eid) s else s)"

text \<open>The \<open>switch\<close> of the generator: strings and blobs are in the buffer already, since the value
  points into it; an unknown data type is logged and sent on.\<close>

definition fill_packet :: "hxb_value \<Rightarrow> buf \<Rightarrow> buf" where
  "fill_packet v buffer =
     (case dtype_of (vdatatype v) of
        Some d \<Rightarrow>
          (if d = HXB_DTYPE_BOOL \<or> d = HXB_DTYPE_UINT8 then put8 off_value (v_u8 v) buffer
           else if d = HXB_DTYPE_UINT32 \<or> d = HXB_DTYPE_TIMESTAMP then put32 off_value (v_u32 v) buffer
           else if d = HXB_DTYPE_FLOAT then put32 off_value (v_float v) buffer
           else if d = HXB_DTYPE_16BYTES \<or> d = HXB_DTYPE_128STRING \<or> d = HXB_DTYPE_65BYTES then buffer
           else if d = HXB_DTYPE_DATETIME then put_datetime off_value (v_datetime v) buffer
           else buffer)
      | None \<Rightarrow> buffer)"

definition broadcast_generator :: "'a shs_scheme broadcaster \<Rightarrow> u32 \<Rightarrow> 'a shs_scheme generator" where
  "broadcast_generator bc eid buffer s =
     (let (err, val, s) = fw_read eid (linked_value buffer s) s;
          buffer = put_bytes off_value (vblob val) buffer
      in if err \<noteq> HXB_ERR_SUCCESS then (err, buffer, s)
         else (let buffer = put8 off_datatype (vdatatype val)
                      (put32 off_eid eid (put8 off_type (ptype_code HXB_PTYPE_INFO) buffer));
                   s = broadcast_to_self bc val eid s
               in (HXB_ERR_SUCCESS, fill_packet val buffer, s)))"

definition broadcast_with :: "'a shs_scheme broadcaster \<Rightarrow> 'a shs_scheme broadcaster" where
  "broadcast_with bc eid s = snd (udp_handler_send_generated None 0 (broadcast_generator bc eid) s)"

fun broadcast_fuel :: "nat \<Rightarrow> 'a shs_scheme broadcaster" where
  "broadcast_fuel 0 eid s = s\<lparr>out_of_fuel := True\<rparr>"
| "broadcast_fuel (Suc n) eid s = broadcast_with (broadcast_fuel n) eid s"

definition broadcast_value :: "'a shs_scheme broadcaster" where
  "broadcast_value = broadcast_fuel 2"

section \<open>What every handler does and does not do\<close>

lemmas read_handlers = run_read_def read_power_def read_energy_total_def read_energy_def read_relay_def
  read_control_def read_receiver_def read_acknack_def read_reset_def read_hexonoff_def read_presence_def
  read_sysbutton_def read_pressed_def read_clicked_def read_state_def read_shutter_def read_ir_def
  read_hot_def read_cold_def read_humidity_ep_def

lemmas read_effects = channel_live_def health_update_def process_broadcast_def metering_get_power_def

lemma length_sm_get_id [simp]: "length (sm_get_id e) = 16"
  by (simp add: sm_get_id_def ee.rd_length offset_simps)

text \<open>A read changes no more than the meter's power, the health bits and the record of live channels.\<close>

lemma read_keeps:
  "sm_state (snd (snd (run_read r v s))) = sm_state s" "ee (snd (snd (run_read r v s))) = ee s"
  "conf (snd (snd (run_read r v s))) = conf s" "chain (snd (snd (run_read r v s))) = chain s"
  "sent (snd (snd (run_read r v s))) = sent s" "stack_bytes (snd (snd (run_read r v s))) = stack_bytes s"
  "out_of_fuel (snd (snd (run_read r v s))) = out_of_fuel s" "udpconn (snd (snd (run_read r v s))) = udpconn s"
  "relay_port (snd (snd (run_read r v s))) = relay_port s" "relay_state (snd (snd (run_read r v s))) = relay_state s"
  "sm_handle_input_event (snd (snd (run_read r v s))) = sm_handle_input_event s"
  by (cases r; simp add: read_handlers read_effects Let_def split_beta split: option.split)+

lemma read_blob_length: "16 \<le> length (vblob v) \<Longrightarrow> length (vblob (fst (snd (run_read r v s)))) = length (vblob v)"
  by (cases r; simp add: read_handlers temperature_adc_def Let_def split_beta split: option.split)

lemma fw_read_keeps [simp]:
  "sm_state (snd (snd (fw_read e v s))) = sm_state s" "ee (snd (snd (fw_read e v s))) = ee s"
  "stack_bytes (snd (snd (fw_read e v s))) = stack_bytes s"
  by (simp_all add: fw_read_def endpoint_read_def null_read_def read_keeps split: option.split)

lemma fw_read_blob_length:
  assumes "16 \<le> length (vblob v)"
  shows "length (vblob (fst (snd (fw_read eid v s)))) = length (vblob v)"
proof -
  have "length (vblob (fst (snd (run_read r w s)))) = length (vblob v)" if "vblob w = vblob v" for r w
    using read_blob_length [of w r s] that assms by simp
  then show ?thesis
    by (simp add: fw_read_def endpoint_read_def null_read_def synthesize_read_m32_def split: option.split)
qed

lemma linked_blob_length: "wf_packet (stack_bytes s) \<Longrightarrow> length (vblob (linked_value (stack_bytes s) s)) = 128"
  by (simp add: linked_value_def wf_packet_def offset_simps HXB_STRING_PACKET_BUFFER_LENGTH_def)

lemma wf_fill_packet [simp]: "wf_packet (fill_packet v b) = wf_packet b"
  by (simp add: fill_packet_def wf_packet_def split: option.split)

text \<open>A packet the generator has filled has the size of the packet union.\<close>

lemma generator_wf:
  assumes "wf_packet (stack_bytes s)"
  shows "wf_packet (fst (snd (broadcast_generator bc eid (stack_bytes s) s)))"
proof -
  have "length (vblob (fst (snd (fw_read eid (linked_value (stack_bytes s) s) s)))) = 128"
    using fw_read_blob_length [of "linked_value (stack_bytes s) s" eid s] linked_blob_length [OF assms] by simp
  then show ?thesis using assms by (simp add: broadcast_generator_def Let_def split_beta offset_simps)
qed

section \<open>Two levels are enough\<close>

text \<open>
  A process that is being called is not called again, so a broadcast from inside the state machine
  does not depend on what a broadcast further in would do.
\<close>

definition sm_called :: "'a shs_scheme \<Rightarrow> bool" where
  "sm_called s = (sm_state s = PROCESS_STATE_CALLED)"

text \<open>Two broadcast functions that the state machine, while it is being called, cannot tell apart.\<close>

definition alike :: "'a shs_scheme broadcaster \<Rightarrow> 'a shs_scheme broadcaster \<Rightarrow> bool" where
  "alike bc1 bc2 = (\<forall>e s. sm_called s \<longrightarrow> bc1 e s = bc2 e s \<and> sm_called (bc1 e s))"

lemma do_udp_send_sm_state [simp]: "sm_state (do_udp_send a p b s) = sm_state s"
  by (simp add: do_udp_send_def split_beta Let_def)

lemma input_while_called [simp]: "sm_called s \<Longrightarrow> sm_handle_input bc wr env s = s"
  by (simp add: sm_handle_input_def sm_call_def sm_called_def)

lemma generator_while_called:
  assumes "sm_called s"
  shows "broadcast_generator bc e b s = broadcast_generator bc' e b s" "sm_called (snd (snd (broadcast_generator bc e b s)))"
proof -
  obtain err v t where r: "fw_read e (linked_value b s) s = (err, v, t)" by (metis surj_pair)
  have "sm_called t" using fw_read_keeps(1) [of e "linked_value b s" s] assms by (simp add: r sm_called_def)
  then have "broadcast_to_self bc v e t = t" for bc by (simp add: broadcast_to_self_def)
  with \<open>sm_called t\<close> show "broadcast_generator bc e b s = broadcast_generator bc' e b s"
    "sm_called (snd (snd (broadcast_generator bc e b s)))"
    by (simp_all add: broadcast_generator_def r Let_def)
qed

lemma alike_broadcast_with: "alike (broadcast_with bc1) (broadcast_with bc2)"
  unfolding alike_def
proof (intro allI impI conjI)
  fix e and s :: "'a shs_scheme" assume s: "sm_called s"
  show "broadcast_with bc1 e s = broadcast_with bc2 e s"
    unfolding broadcast_with_def udp_handler_send_generated_def
    by (simp only: generator_while_called(1) [OF s, of bc1 _ _ bc2])
  obtain err b t where g: "broadcast_generator bc1 e (stack_bytes s) s = (err, b, t)" by (metis surj_pair)
  have "sm_called t" using generator_while_called(2) [OF s, of bc1 e "stack_bytes s"] by (simp add: g)
  then show "sm_called (broadcast_with bc1 e s)"
    by (simp add: broadcast_with_def udp_handler_send_generated_def g sm_called_def)
qed

lemma alikeD: "alike bc1 bc2 \<Longrightarrow> sm_called s \<Longrightarrow> bc1 e s = bc2 e s" "alike bc1 bc2 \<Longrightarrow> sm_called s \<Longrightarrow> sm_called (bc2 e s)"
  by (simp_all add: alike_def) metis

lemma sm_called_update [simp]:
  "sm_called (s\<lparr>metering_power := p\<rparr>) = sm_called s" "sm_called (s\<lparr>relay_port := rp, relay_state := rs\<rparr>) = sm_called s"
  "sm_called (relay_leds s) = sm_called s" "sm_called (s\<lparr>global_presence := g\<rparr>) = sm_called s"
  "sm_called (s\<lparr>presence := g\<rparr>) = sm_called s" "sm_called (s\<lparr>curState := q\<rparr>) = sm_called s"
  "sm_called (s\<lparr>dt_valid := d\<rparr>) = sm_called s" "sm_called (enter_state q s) = sm_called s"
  "sm_called (s\<lparr>sm_state := PROCESS_STATE_CALLED\<rparr>)"
  by (simp_all add: sm_called_def enter_state_def)

lemma alike_metering_reset:
  assumes "alike bc1 bc2" "sm_called s"
  shows "metering_reset bc1 s = metering_reset bc2 s"
  using assms by (simp add: metering_reset_def Let_def alikeD [OF assms(1)])

lemma alike_run_write:
  assumes "alike bc1 bc2" "sm_called s"
  shows "run_write bc1 w env s = run_write bc2 w env s"
proof -
  note eq = alike_metering_reset [OF assms(1)] alikeD [OF assms(1)]
  have "write_relay bc1 env s = write_relay bc2 env s"
    using assms(2) by (simp add: write_relay_def relay_on_def relay_off_def eq)
  moreover have "write_presence bc1 env s = write_presence bc2 env s"
    using assms(2) by (simp add: write_presence_def global_presence_detected_def raw_presence_detected_def Let_def eq)
  ultimately show ?thesis by (simp add: run_write_def split: write_fn.split)
qed

lemma alike_fw_write: "alike bc1 bc2 \<Longrightarrow> sm_called s \<Longrightarrow> fw_write bc1 eid env s = fw_write bc2 eid env s"
  by (simp add: fw_write_def endpoint_write_def alike_run_write split: option.split)

lemma alike_check:
  assumes "alike bc1 bc2"
  shows "sm_called s \<Longrightarrow> check_transitions (fw_write bc1) datetime env is s = check_transitions (fw_write bc2) datetime env is s"
proof (induction "is" arbitrary: s)
  case (Cons i "is")
  have "take_transition (fw_write bc1) t s = take_transition (fw_write bc2) t s" for t
    using alike_fw_write [OF assms Cons.prems] by (simp add: take_transition_def)
  moreover have "sm_called (take_transition (fw_write bc2) t s)" if "\<not> has_action t" for t
    using that Cons.prems by (simp add: take_transition_def)
  ultimately show ?case using Cons by (simp add: Let_def)
qed simp

lemma localhost_is_not_own_reset [simp]: "\<not> is_own_reset_id (broadcast_env v eid) s"
  by (simp add: is_own_reset_id_def broadcast_env_def)

lemma alike_value_check:
  "alike bc1 bc2 \<Longrightarrow> sm_called s \<Longrightarrow>
   check_value_transitions (fw_write bc1) env s = check_value_transitions (fw_write bc2) env s"
  by (simp add: check_value_transitions_def alike_check)

lemma alike_datetime_check:
  "alike bc1 bc2 \<Longrightarrow> sm_called s \<Longrightarrow>
   check_datetime_transitions (fw_write bc1) s = check_datetime_transitions (fw_write bc2) s"
  by (simp add: check_datetime_transitions_def alike_check split_beta Let_def)

lemma alike_thread:
  assumes "alike bc1 bc2" "sm_called s"
  shows "sm_thread bc1 (fw_write bc1) ev (Envelope (broadcast_env v eid)) s =
         sm_thread bc2 (fw_write bc2) ev (Envelope (broadcast_env v eid)) s"
proof -
  have "bc1 EP_SM_RESET_ID s = bc2 EP_SM_RESET_ID s" "sm_called (bc2 EP_SM_RESET_ID s)"
    using alikeD [OF assms] by blast+
  then show ?thesis
    by (simp add: sm_thread_def envelope_of_def alike_value_check [OF assms(1)] alike_datetime_check [OF assms]
        assms(2))
qed

lemma alike_to_self: "alike bc1 bc2 \<Longrightarrow> broadcast_to_self bc1 v eid s = broadcast_to_self bc2 v eid s"
  by (simp add: broadcast_to_self_def sm_handle_input_def sm_call_def alike_thread)

lemma alike_broadcast_eq:
  assumes "alike bc1 bc2"
  shows "broadcast_with bc1 e s = broadcast_with bc2 e s"
proof -
  have "broadcast_generator bc1 e b s = broadcast_generator bc2 e b s" for b
    unfolding broadcast_generator_def by (simp only: alike_to_self [OF assms])
  then show ?thesis by (simp add: broadcast_with_def udp_handler_send_generated_def)
qed

lemma broadcast_with_twice: "broadcast_with (broadcast_with bc1) = broadcast_with (broadcast_with bc2)"
  by (intro ext alike_broadcast_eq alike_broadcast_with)

lemma broadcast_fuel_Suc: "broadcast_fuel (Suc n) = broadcast_with (broadcast_fuel n)"
  by (rule ext)+ simp

lemma broadcast_value_eq: "broadcast_value = broadcast_with (broadcast_with bc)"
  unfolding broadcast_value_def numeral_2_eq_2 broadcast_fuel_Suc by (rule broadcast_with_twice)

lemma broadcast_fuel_eq: "broadcast_fuel (Suc (Suc n)) = broadcast_value"
  unfolding broadcast_fuel_Suc by (rule broadcast_value_eq [symmetric])

section \<open>Invariants of the device across broadcasts\<close>

text \<open>
  What a property of the device needs so that a broadcast, with all it triggers, keeps it: the
  handlers keep it (the writing ones given that the broadcasts they send do), sending an acceptable packet
  keeps it, broadcasts generate acceptable packets, and it does not depend on the variables of the state machine.
\<close>

locale device_invariant =
  fixes I :: "'a shs_scheme \<Rightarrow> bool" and packet_ok :: "buf \<Rightarrow> bool"
  assumes reads: "I s \<Longrightarrow> I (snd (snd (run_read r v s)))"
    and writes: "(\<And>e t. I t \<Longrightarrow> I (bc e t)) \<Longrightarrow> I s \<Longrightarrow> I (snd (run_write bc w env s))"
    and sends: "I s \<Longrightarrow> packet_ok p \<Longrightarrow> I (do_udp_send addr port p s)"
    and buffer: "I s \<Longrightarrow> packet_ok (fst (snd (broadcast_generator bc eid (stack_bytes s) s)))"
    and variables: "I s \<Longrightarrow> I (s\<lparr>sm_state := pstate\<rparr>)" "I s \<Longrightarrow> I (s\<lparr>curState := q\<rparr>)" "I s \<Longrightarrow> I (s\<lparr>dt_valid := d\<rparr>)"
      "I s \<Longrightarrow> I (s\<lparr>check_timer := tmr\<rparr>)" "I s \<Longrightarrow> I (s\<lparr>inStateSince := u\<rparr>)"
    and inits: "I s \<Longrightarrow> I (sm_process_init s)"
begin

lemma fw_reads: "I s \<Longrightarrow> I (snd (snd (fw_read eid v s)))"
  by (simp add: fw_read_def endpoint_read_def null_read_def reads split: option.split)

lemma fw_writes: "(\<And>e t. I t \<Longrightarrow> I (bc e t)) \<Longrightarrow> I s \<Longrightarrow> I (snd (fw_write bc eid env s))"
  by (simp add: fw_write_def endpoint_write_def writes split: option.split)

lemma enters: "I s \<Longrightarrow> I (enter_state q s)"
proof -
  assume "I s"
  then have "I ((s\<lparr>inStateSince := getTimestamp s\<rparr>)\<lparr>curState := q\<rparr>)" by (intro variables)
  then show ?thesis by (simp add: enter_state_def)
qed

lemma takes: "(\<And>e env t. I t \<Longrightarrow> I (snd (wr e env t))) \<Longrightarrow> I s \<Longrightarrow> I (take_transition wr t s)"
  by (simp add: take_transition_def enters split_beta Let_def)

lemma checks: "(\<And>e env t. I t \<Longrightarrow> I (snd (wr e env t))) \<Longrightarrow> I s \<Longrightarrow> I (check_transitions wr datetime env is s)"
  by (induction "is" arbitrary: s) (simp_all add: Let_def takes)

lemma restarts: "I s \<Longrightarrow> I (sm_restart s)"
proof -
  assume "I s"
  then have "I ((s\<lparr>sm_state := PROCESS_STATE_NONE\<rparr>)\<lparr>check_timer := app_timer_stop (check_timer s)\<rparr>)" by (intro variables)
  with \<open>I s\<close> have "I (sm_stop s)" by (simp add: sm_stop_def)
  then show ?thesis by (simp add: sm_restart_def sm_start_def inits variables)
qed

lemma threads:
  assumes bc: "\<And>e t. I t \<Longrightarrow> I (bc e t)" and s: "I s"
  shows "I (sm_thread bc (fw_write bc) ev data s)"
proof -
  have w: "I (snd (fw_write bc e env t))" if "I t" for e env t using bc that by (rule fw_writes)
  have "I (check_value_transitions (fw_write bc) env t)" if "I t" for env t
    using w that unfolding check_value_transitions_def by (rule checks)
  moreover have "I (check_datetime_transitions (fw_write bc) t)" if "I t" for t
    unfolding check_datetime_transitions_def by (simp add: split_beta checks w variables that)
  ultimately show ?thesis
    using s by (simp add: sm_thread_def Let_def bc variables restarts split: option.split)
qed

lemma calls_with: "(\<And>e t. I t \<Longrightarrow> I (bc e t)) \<Longrightarrow> I s \<Longrightarrow> I (sm_call bc (fw_write bc) n data s)"
  by (simp add: sm_call_def Let_def threads variables)

lemma inputs: "(\<And>e t. I t \<Longrightarrow> I (bc e t)) \<Longrightarrow> I s \<Longrightarrow> I (sm_handle_input bc (fw_write bc) env s)"
  by (simp add: sm_handle_input_def calls_with)

lemma broadcasts_with:
  assumes bc: "\<And>e t. I t \<Longrightarrow> I (bc e t)" and s: "I s"
  shows "I (broadcast_with bc eid s)"
proof -
  have "I (snd (snd (broadcast_generator bc eid (stack_bytes s) s)))"
    using s by (simp add: broadcast_generator_def broadcast_to_self_def Let_def split_beta fw_reads inputs bc)
  then show ?thesis
    using buffer [OF s, of bc eid]
    by (simp add: broadcast_with_def udp_handler_send_generated_def split_beta Let_def sends)
qed

lemma broadcasts: "I s \<Longrightarrow> I (broadcast_value eid s)"
  unfolding broadcast_value_eq [of "\<lambda>e s. s"] by (intro broadcasts_with)

lemma calls: "I s \<Longrightarrow> I (sm_call broadcast_value (fw_write broadcast_value) n data s)"
  by (intro calls_with broadcasts)

lemma endpoint_writes: "I s \<Longrightarrow> I (snd (fw_write broadcast_value eid env s))"
  by (intro fw_writes broadcasts)

lemma state_machine_inputs: "I s \<Longrightarrow> I (sm_handle_input broadcast_value (fw_write broadcast_value) env s)"
  by (intro inputs broadcasts)

end

section \<open>Invariants of the whole device\<close>

lemmas write_handlers = run_write_def write_energy_def write_relay_def relay_on_def relay_off_def metering_reset_def
  write_control_def sm_stop_def sm_start_def sm_restart_def sm_process_init_def process_alloc_event_def
  write_receiver_def udp_handler_send_generated_def send_acknack_def write_set_def set_outputs_def write_toggle_def
  toggle_outputs_def write_presence_def global_presence_detected_def raw_presence_detected_def no_raw_presence_def
  write_shutter_def shutter_toggle_def shutter_set_def shutter_open_def shutter_close_def shutter_stop_def
  metering_reset_energy_def

text \<open>Nothing changes the configuration, the endpoints, the connection, the buffer contents on the
  stack or the record of fuel.\<close>

definition fixtures :: "'a shs_scheme \<Rightarrow> config \<times> (read_fn, write_fn) chain \<times> bool \<times> buf \<times> bool" where
  "fixtures s = (conf s, chain s, udpconn s, stack_bytes s, out_of_fuel s)"

lemma fixtures_update [simp]:
  "fixtures (s\<lparr>metering_power := p\<rparr>) = fixtures s" "fixtures (s\<lparr>relay_port := rp, relay_state := rs\<rparr>) = fixtures s"
  "fixtures (relay_leds s) = fixtures s" "fixtures (s\<lparr>global_presence := g\<rparr>) = fixtures s"
  "fixtures (s\<lparr>presence := g\<rparr>) = fixtures s" "fixtures (s\<lparr>pd_timeout := t\<rparr>) = fixtures s"
  "fixtures (s\<lparr>pd_keep_alive := t\<rparr>) = fixtures s" "fixtures (s\<lparr>ee := e\<rparr>) = fixtures s"
  "fixtures (do_udp_send a port b s) = fixtures s"
  by (simp_all add: fixtures_def relay_leds_def leds_on_def leds_off_def show_leds_def leds_arch_set_def do_udp_send_def
      split_beta Let_def)

lemma fixtures_write:
  assumes bc: "\<And>e t. fixtures t = fx \<Longrightarrow> fixtures (bc e t) = fx" and s: "fixtures s = fx"
  shows "fixtures (snd (run_write bc w env s)) = fx"
proof (cases w)
  case Wr_relay
  then show ?thesis using s by (simp add: write_handlers Let_def bc)
next
  case Wr_presence
  then show ?thesis using s by (simp add: write_handlers Let_def bc)
next
  case Wr_sm_receiver
  then show ?thesis using s by (simp add: write_handlers Let_def split_beta)
qed (use s in \<open>simp_all add: write_handlers Let_def split_beta fixtures_def\<close>)

interpretation fixed: device_invariant "\<lambda>s. fixtures s = fx" "\<lambda>_. True"
  by unfold_locales (simp_all add: fixtures_write, simp_all add: fixtures_def read_keeps sm_process_init_def process_alloc_event_def)

text \<open>The relay coil agrees with the variable that remembers it.\<close>

lemma relay_ok_write:
  assumes bc: "\<And>e t. relay_ok t \<Longrightarrow> relay_ok (bc e t)" and s: "relay_ok s"
  shows "relay_ok (snd (run_write bc w env s))"
proof (cases w)
  case Wr_relay
  then show ?thesis using relay_broadcast.write_relay_ok [OF relay_broadcast.intro, OF bc s] by (simp add: run_write_def)
next
  case Wr_presence
  have upd: "relay_ok (t\<lparr>global_presence := g\<rparr>) = relay_ok t" "relay_ok (t\<lparr>presence := g\<rparr>) = relay_ok t"
    "relay_ok (t\<lparr>pd_timeout := x\<rparr>) = relay_ok t" "relay_ok (t\<lparr>pd_keep_alive := x\<rparr>) = relay_ok t" for t g x
    by (simp_all add: relay_ok_def)
  show ?thesis using s by (simp add: Wr_presence write_handlers Let_def bc upd)
qed (use s in \<open>simp_all add: write_handlers Let_def split_beta relay_ok_def do_udp_send_def\<close>)

interpretation relay: device_invariant relay_ok "\<lambda>_. True"
  by unfold_locales (simp_all add: relay_ok_write,
      simp_all add: relay_ok_def read_keeps sm_process_init_def process_alloc_event_def do_udp_send_def split_beta Let_def)

interpretation relay_bc: relay_broadcast broadcast_value
  by unfold_locales (rule relay.broadcasts)

text \<open>Whatever is sent after \<open>base\<close> is a well-formed datagram.\<close>

definition outgoing :: "udp_datagram list \<Rightarrow> 'a shs_scheme \<Rightarrow> bool" where
  "outgoing base s = (wf_packet (stack_bytes s) \<and> (\<exists>ds. sent s = base @ ds \<and> (\<forall>d \<in> set ds. well_formed_datagram d)))"

lemma outgoing_update [simp]:
  "outgoing base (s\<lparr>metering_power := p\<rparr>) = outgoing base s"
  "outgoing base (s\<lparr>relay_port := rp, relay_state := rs\<rparr>) = outgoing base s" "outgoing base (relay_leds s) = outgoing base s"
  "outgoing base (s\<lparr>global_presence := g\<rparr>) = outgoing base s" "outgoing base (s\<lparr>presence := g\<rparr>) = outgoing base s"
  "outgoing base (s\<lparr>pd_timeout := t\<rparr>) = outgoing base s" "outgoing base (s\<lparr>pd_keep_alive := t\<rparr>) = outgoing base s"
  "outgoing base (s\<lparr>ee := e\<rparr>) = outgoing base s"
  by (simp_all add: outgoing_def relay_leds_def leds_on_def leds_off_def show_leds_def leds_arch_set_def)

lemma outgoing_send:
  assumes "outgoing base s" "wf_packet p"
  shows "outgoing base (do_udp_send addr port p s)"
proof -
  obtain ds where ds: "sent s = base @ ds" "\<forall>d \<in> set ds. well_formed_datagram d"
    using assms(1) by (auto simp: outgoing_def)
  let ?t = "s\<lparr>sent := ds\<rparr>"
  have "\<forall>d \<in> set (sent (do_udp_send addr port p ?t)). well_formed_datagram d"
    using ds(2) by (intro do_udp_send_well_formed assms(2)) simp
  moreover have "sent (do_udp_send addr port p s) = base @ sent (do_udp_send addr port p ?t)"
    using ds(1) by (simp add: do_udp_send_def split_beta Let_def)
  ultimately show ?thesis using assms(1) by (simp add: outgoing_def do_udp_send_frame)
qed

lemma outgoing_write:
  assumes bc: "\<And>e t. outgoing base t \<Longrightarrow> outgoing base (bc e t)" and s: "outgoing base s"
  shows "outgoing base (snd (run_write bc w env s))"
proof (cases w)
  case Wr_relay
  then show ?thesis using s by (simp add: write_handlers Let_def bc)
next
  case Wr_presence
  then show ?thesis using s by (simp add: write_handlers Let_def bc)
next
  case Wr_sm_receiver
  have "wf_packet (stack_bytes s)" using s by (simp add: outgoing_def)
  then show ?thesis using s by (simp add: Wr_sm_receiver write_handlers Let_def split_beta outgoing_send)
qed (use s in \<open>simp_all add: write_handlers Let_def split_beta outgoing_def\<close>)

interpretation out: device_invariant "outgoing base" wf_packet
  by unfold_locales (simp_all add: outgoing_write outgoing_send,
      simp_all add: outgoing_def read_keeps sm_process_init_def process_alloc_event_def generator_wf)

lemma fresh_shs_simps: "relay_port fresh_shs = 0" "relay_state fresh_shs = False" "stack_bytes fresh_shs = replicate 141 0"
  by (simp_all add: fresh_shs_def fresh_irs_def fresh_provs_def shs.defs irs.defs devs.defs provs.defs fresh_defs)

section \<open>Properties\<close>

text \<open>C7: The recursion from a broadcast over the device's state machine back to a broadcast ends: with any
  allowance of at least two levels the result is the same, and the allowance is never used up, whatever the
  tables, the endpoints and the state of the device.\<close>

theorem broadcast_depth:
  "broadcast_fuel (n + 2) = (broadcast_value :: 'a shs_scheme broadcaster) \<and>
   out_of_fuel (broadcast_value eid s) = out_of_fuel (s :: 'a shs_scheme)"
proof
  show "broadcast_fuel (n + 2) = (broadcast_value :: 'a shs_scheme broadcaster)"
    using broadcast_fuel_eq [of n] by simp
  have "fixtures (broadcast_value eid s) = fixtures s" by (rule fixed.broadcasts) (rule refl)
  then show "out_of_fuel (broadcast_value eid s) = out_of_fuel s" by (simp add: fixtures_def)
qed





end
