(* ===== verification/Udp_Handler.thy ===== *)
theory Udp_Handler
  imports Broadcast
begin

text \<open>
  The receiving half of \<^verbatim>\<open>udp_handler.c\<close> and its process: a datagram is tested, dispatched by its
  packet type and answered; a timer watches the default route. What the IP stack hands over is the
  record \<open>in_datagram\<close>: the code overlays the packet union on the stack's buffer at \<open>uip_appdata\<close>,
  so the bytes behind a short payload are those an earlier packet left there (\<open>in_stale\<close>).

  Sending reuses the stack's buffer. No byte of the received packet is read after a packet has been
  sent while it is handled, apart from the copies the code makes, so the model keeps the received
  packet as a value.
\<close>

record in_datagram =
  in_src :: ip6
  in_srcport :: u16      \<comment> \<open>as it is in the header, in network order\<close>
  in_dst :: ip6
  in_payload :: buf
  in_stale :: buf

definition packet_of :: "in_datagram \<Rightarrow> buf" where
  "packet_of dg = take sizeof_packet_any (in_payload dg @ drop (length (in_payload dg)) (in_stale dg))"

text \<open>The entry of the default router list that \<open>uip_ds6_defrt_lookup(uip_ds6_defrt_choose())\<close> finds.\<close>

record defrt =
  isused :: bool
  isinfinite :: bool
  lifetime :: stimer

datatype udp_pc = Udp_Wait_Timer | Udp_Wait_Event | Udp_Paused

record fws = shs +
  udp_state :: udp_handler_event    \<comment> \<open>the variable \<open>state\<close>\<close>
  udp_unreachable_timer :: app_timer
  default_router :: "defrt option"
  seconds :: u32                    \<comment> \<open>\<open>clock_seconds()\<close>\<close>
  udp_pc :: udp_pc
  joined_group :: bool

section \<open>Answers\<close>

definition generate_query_response :: "u32 \<Rightarrow> 'a shs_scheme generator" where
  "generate_query_response eid buffer s =
     (let buffer = put32 off_eid eid (put8 off_type (ptype_code HXB_PTYPE_INFO) buffer);
          (err, value, s) = fw_read eid (linked_value buffer s) s;
          buffer = put_bytes off_value (vblob value) buffer
      in if err \<noteq> HXB_ERR_SUCCESS then (err, buffer, s)
         else (let (err, buffer) = pack_value value buffer in (err, buffer, s)))"

definition generate_epquery_response :: "u32 \<Rightarrow> 'a shs_scheme generator" where
  "generate_epquery_response eid buffer s =
     (let dtype = endpoint_get_datatype (chain s) eid;
          buffer = put8 off_datatype dtype (put32 off_eid eid (put8 off_type (ptype_code HXB_PTYPE_EPINFO) buffer))
      in if dtype = dtype_code HXB_DTYPE_UNDEFINED then (HXB_ERR_UNKNOWNEID, buffer, s)
         else (let (err, name) = endpoint_get_name (ee s) (chain s) eid
                     (get_bytes off_value (HXB_STRING_PACKET_BUFFER_LENGTH + 1) buffer) HXB_STRING_PACKET_BUFFER_LENGTH
               in (err, put8 (off_value + HXB_STRING_PACKET_BUFFER_LENGTH) 0 (put_bytes off_value name buffer), s)))"

section \<open>Dispatch\<close>

text \<open>The value of the local envelope before \<open>extract_value\<close>.\<close>

definition received_env :: "in_datagram \<Rightarrow> u32 \<Rightarrow> hxb_value \<Rightarrow> hxb_envelope" where
  "received_env dg eid v = \<lparr>env_src_ip = in_src dg, env_src_port = uip_ntohs (in_srcport dg),
     env_eid = uip_ntohl eid, env_value = v\<rparr>"

definition local_value :: "'a plat_scheme \<Rightarrow> hxb_value" where
  "local_value s = \<lparr>vdatatype = 0, vraw = take 8 (stack_bytes s), vblob = []\<rparr>"

definition handle_write :: "in_datagram \<Rightarrow> 'a shs_scheme \<Rightarrow> hxb_error_code \<times> 'a shs_scheme" where
  "handle_write dg s =
     (let packet = packet_of dg;
          (err, v) = extract_value packet (local_value s);
          env = received_env dg (get32 off_eid packet) v
      in if err \<noteq> HXB_ERR_SUCCESS then (err, s) else fw_write broadcast_value (env_eid env) env s)"

definition handle_info :: "in_datagram \<Rightarrow> 'a shs_scheme \<Rightarrow> hxb_error_code \<times> 'a shs_scheme" where
  "handle_info dg s =
     (let packet = packet_of dg;
          (err, v) = extract_value packet (local_value s);
          envelope = received_env dg (get32 off_eid packet) v
      in (HXB_ERR_SUCCESS,
          if err \<noteq> HXB_ERR_SUCCESS then s
          else if get8 off_datatype packet \<noteq> dtype_code HXB_DTYPE_DATETIME then
            (if STATE_MACHINE_ENABLE (conf s)
             then sm_handle_input broadcast_value (fw_write broadcast_value) envelope s else s)
          else if DATETIME_SERVICE_ENABLE (conf s) then updateDatetime envelope s else s))"

definition handle_packet :: "in_datagram \<Rightarrow> 'a shs_scheme \<Rightarrow> hxb_error_code \<times> 'a shs_scheme" where
  "handle_packet dg s =
     (let packet = packet_of dg; srcip = in_src dg; srcport = uip_ntohs (in_srcport dg) in
      case ptype_of (get8 off_type packet) of
        Some t \<Rightarrow>
          (if t = HXB_PTYPE_WRITE then handle_write dg s
           else if t = HXB_PTYPE_QUERY then
             udp_handler_send_generated (Some srcip) srcport (generate_query_response (uip_ntohl (get32 off_eid packet))) s
           else if t = HXB_PTYPE_EPQUERY then
             udp_handler_send_generated (Some srcip) srcport (generate_epquery_response (uip_ntohl (get32 off_eid packet))) s
           else if t = HXB_PTYPE_INFO then handle_info dg s
           else (HXB_ERR_UNEXPECTED_PACKET, s))
      | None \<Rightarrow> (HXB_ERR_UNEXPECTED_PACKET, s))"

text \<open>Internal errors are not reported, and nothing that was sent to the group as INFO.\<close>

definition reply_error :: "in_datagram \<Rightarrow> hxb_error_code \<Rightarrow> 'a plat_scheme \<Rightarrow> 'a plat_scheme" where
  "reply_error dg err s =
     (let is_broadcast = (get8 off_type (packet_of dg) = ptype_code HXB_PTYPE_INFO \<and> in_dst dg = HXB_GROUP)
      in if err \<noteq> HXB_ERR_SUCCESS \<and> \<not> is_broadcast \<and> \<not> err_internal err
         then udp_handler_send_error (Some (in_src dg)) (uip_ntohs (in_srcport dg)) err s else s)"

definition receive_datagram :: "in_datagram \<Rightarrow> 'a shs_scheme \<Rightarrow> 'a shs_scheme" where
  "receive_datagram dg s =
     (let packet = packet_of dg in
      if get_bytes off_magic 4 packet \<noteq> HXB_HEADER then s
      else (let err = check_crc packet in
            if err \<noteq> HXB_ERR_SUCCESS then reply_error dg err s
            else (let (err, s) = handle_packet dg s in reply_error dg err s)))"

section \<open>The watch over the default route\<close>

definition reset_unreachable_timer :: "'a fws_scheme \<Rightarrow> 'a fws_scheme" where
  "reset_unreachable_timer s = s\<lparr>udp_unreachable_timer := app_timer_set (clock s) (2 * CLOCK_SECOND) (udp_unreachable_timer s)\<rparr>"

text \<open>The code computes \<open>expired\<close> from the entry before it tests that there is one.\<close>

definition route_valid :: "'a fws_scheme \<Rightarrow> bool" where
  "route_valid s =
     (case default_router s of
        None \<Rightarrow> False
      | Some rtr \<Rightarrow> isused rtr \<and> (isinfinite rtr \<or> \<not> stimer_expired (seconds s) (lifetime rtr)))"

definition check_route :: "'a fws_scheme \<Rightarrow> 'a fws_scheme" where
  "check_route s =
     (if \<not> at_armed (udp_unreachable_timer s) then
        (let s = reset_unreachable_timer s in
         if \<not> route_valid s \<and> udp_state s \<noteq> UDP_HANDLER_DOWN then
           health_update HE_NO_CONNECTION True
             (process_broadcast (Udp_Event UDP_HANDLER_DOWN) (s\<lparr>udp_state := UDP_HANDLER_DOWN\<rparr>))
         else if route_valid s \<and> udp_state s = UDP_HANDLER_DOWN then
           health_update HE_NO_CONNECTION False
             (process_broadcast (Udp_Event UDP_HANDLER_UP) (s\<lparr>udp_state := UDP_HANDLER_UP\<rparr>))
         else s)
      else s)"

section \<open>The process\<close>

text \<open>What the kernel may call the process with; \<open>Ev_Tcpip None\<close> is a poll of the stack without data.\<close>

datatype udp_input = Ev_Timer | Ev_Tcpip "in_datagram option" | Ev_Continue | Ev_Other

definition udphandler :: "udp_input \<Rightarrow> 'a fws_scheme \<Rightarrow> 'a fws_scheme" where
  "udphandler ev s =
     (case ev of
        Ev_Timer \<Rightarrow> check_route s
      | Ev_Tcpip (Some dg) \<Rightarrow> receive_datagram dg s
      | _ \<Rightarrow> s)"

text \<open>Start of the process, up to its first wait.\<close>

definition udp_process_init :: "'a fws_scheme \<Rightarrow> 'a fws_scheme" where
  "udp_process_init s =
     (let (n, s) = process_alloc_event s
      in s\<lparr>udp_event_number := n, udp_pc := Udp_Wait_Timer,
           udp_unreachable_timer := app_timer_set (clock s) (CLOCK_SECOND * 3) (udp_unreachable_timer s)\<rparr>)"

text \<open>
  One call of the process. It ends in \<open>PROCESS_PAUSE\<close>, which posts \<open>PROCESS_EVENT_CONTINUE\<close> to the
  process itself and waits for that event; every other event that arrives meanwhile is dropped.
\<close>

definition udp_thread :: "udp_input \<Rightarrow> 'a fws_scheme \<Rightarrow> 'a fws_scheme" where
  "udp_thread ev s =
     (case udp_pc s of
        Udp_Wait_Timer \<Rightarrow>
          (if ev = Ev_Timer then
             process_broadcast (Udp_Event UDP_HANDLER_UP)
               ((reset_unreachable_timer (s\<lparr>joined_group := True, udpconn := True\<rparr>))
                 \<lparr>udp_state := UDP_HANDLER_UP, udp_pc := Udp_Wait_Event\<rparr>)
           else s)
      | Udp_Wait_Event \<Rightarrow> (udphandler ev s)\<lparr>udp_pc := Udp_Paused\<rparr>
      | Udp_Paused \<Rightarrow> (if ev = Ev_Continue then s\<lparr>udp_pc := Udp_Wait_Event\<rparr> else s))"

section \<open>Sizes of the answers\<close>

lemma wf_pack_blob: "wf_packet b \<Longrightarrow> length (vblob v) = 128 \<Longrightarrow> wf_packet (snd (pack_value v b))"
  by (auto simp: pack_value_def Let_def offset_simps split: option.split intro!: wf_packet_put_bytes)

lemma query_response_wf:
  assumes "wf_packet (stack_bytes s)"
  shows "wf_packet (fst (snd (generate_query_response eid (stack_bytes s) s)))"
proof -
  define b where "b = put32 off_eid eid (put8 off_type (ptype_code HXB_PTYPE_INFO) (stack_bytes s))"
  have wf: "wf_packet b" using assms by (simp add: b_def)
  obtain err v t where r: "fw_read eid (linked_value b s) s = (err, v, t)" by (metis surj_pair)
  have "length (vblob (linked_value b s)) = 128"
    using wf by (simp add: linked_value_def wf_packet_def offset_simps HXB_STRING_PACKET_BUFFER_LENGTH_def)
  then have v: "length (vblob v) = 128" using fw_read_blob_length [of "linked_value b s" eid s] by (simp add: r)
  then have b: "wf_packet (put_bytes off_value (vblob v) b)"
    using wf by (intro wf_packet_put_bytes) (simp_all add: offset_simps)
  show ?thesis
  proof (cases "err = HXB_ERR_SUCCESS")
    case True
    show ?thesis unfolding generate_query_response_def Let_def b_def [symmetric] r prod.case True
      using wf_pack_blob [OF b v] by (simp add: split_beta)
  next
    case False
    then show ?thesis unfolding generate_query_response_def Let_def b_def [symmetric] r prod.case using b by simp
  qed
qed

lemma endpoint_get_name_length:
  assumes "length buffer = 128"
  shows "length (snd (endpoint_get_name e ch eid buffer HXB_STRING_PACKET_BUFFER_LENGTH)) = 128"
proof -
  have "length (strncpy 127 nm) = 127" for nm by (simp add: strncpy_def Let_def)
  then show ?thesis using assms
    by (simp add: endpoint_get_name_def Let_def HXB_STRING_PACKET_BUFFER_LENGTH_def offset_simps ee.rd_length
        split: option.split)
qed

lemma epquery_response_wf:
  assumes "wf_packet (stack_bytes s)"
  shows "wf_packet (fst (snd (generate_epquery_response eid (stack_bytes s) s)))"
proof -
  define b where "b x = put8 off_datatype x (put32 off_eid eid (put8 off_type (ptype_code HXB_PTYPE_EPINFO) (stack_bytes s)))" for x
  have wf: "wf_packet (b x)" for x using assms by (simp add: b_def)
  have "length (get_bytes off_value (HXB_STRING_PACKET_BUFFER_LENGTH + 1) (b x)) = 128" for x
    using wf [of x] by (simp add: wf_packet_def offset_simps HXB_STRING_PACKET_BUFFER_LENGTH_def)
  from endpoint_get_name_length [OF this, where ch = "chain s"]
  have "wf_packet (put_bytes off_value (snd (endpoint_get_name (ee s) (chain s) eid
      (get_bytes off_value (HXB_STRING_PACKET_BUFFER_LENGTH + 1) (b x)) HXB_STRING_PACKET_BUFFER_LENGTH)) (b x))" for x
    using wf [of x] by (intro wf_packet_put_bytes) (simp_all add: offset_simps)
  then show ?thesis using wf unfolding generate_epquery_response_def Let_def split_beta b_def [symmetric] by simp
qed

section \<open>Invariants across received datagrams\<close>

text \<open>What a property of the device needs on top of \<open>device_invariant\<close> to survive any datagram.\<close>

locale service_invariant = device_invariant I packet_ok
  for I :: "'a shs_scheme \<Rightarrow> bool" and packet_ok :: "buf \<Rightarrow> bool" +
  assumes dates: "I s \<Longrightarrow> I (updateDatetime env s)"
    and query_packets: "I s \<Longrightarrow> packet_ok (fst (snd (generate_query_response eid (stack_bytes s) s)))"
    and epquery_packets: "I s \<Longrightarrow> packet_ok (fst (snd (generate_epquery_response eid (stack_bytes s) s)))"
    and error_packets: "packet_ok (put8 off_error_code code (put8 off_type typ (replicate sizeof_packet_any 0)))"
begin

lemma infos: "I s \<Longrightarrow> I (snd (handle_info dg s))"
  by (simp add: handle_info_def Let_def split_beta state_machine_inputs dates)

lemma handle_writes: "I s \<Longrightarrow> I (snd (handle_write dg s))"
  by (simp add: handle_write_def Let_def split_beta endpoint_writes)

lemma queries: "I s \<Longrightarrow> I (snd (udp_handler_send_generated a prt (generate_query_response eid) s))"
proof -
  assume s: "I s"
  then have "I (snd (snd (generate_query_response eid (stack_bytes s) s)))"
    by (simp add: generate_query_response_def Let_def split_beta fw_reads)
  then show ?thesis using query_packets [OF s, of eid]
    by (simp add: udp_handler_send_generated_def split_beta Let_def sends)
qed

lemma epqueries: "I s \<Longrightarrow> I (snd (udp_handler_send_generated a prt (generate_epquery_response eid) s))"
proof -
  assume s: "I s"
  then have "I (snd (snd (generate_epquery_response eid (stack_bytes s) s)))"
    by (simp add: generate_epquery_response_def Let_def split_beta)
  then show ?thesis using epquery_packets [OF s, of eid]
    by (simp add: udp_handler_send_generated_def split_beta Let_def sends)
qed

lemma packets: "I s \<Longrightarrow> I (snd (handle_packet dg s))"
  by (simp add: handle_packet_def Let_def infos handle_writes queries epqueries split: option.split)

lemma errors: "I s \<Longrightarrow> I (reply_error dg err s)"
  by (simp add: reply_error_def Let_def udp_handler_send_error_def sends error_packets)

lemma datagrams: "I s \<Longrightarrow> I (receive_datagram dg s)"
  by (simp add: receive_datagram_def Let_def split_beta packets errors)

end

interpretation fixed_udp: service_invariant "\<lambda>s. fixtures s = fx" "\<lambda>_. True"
  by unfold_locales (simp_all add: fixtures_def updateDatetime_def)

interpretation relay_udp: service_invariant relay_ok "\<lambda>_. True"
  by unfold_locales (simp_all add: relay_ok_def updateDatetime_def)

interpretation out_udp: service_invariant "outgoing base" wf_packet
  by unfold_locales (simp_all add: outgoing_def updateDatetime_def query_response_wf epquery_response_wf,
      simp add: wf_packet_def)

section \<open>One answer\<close>

lemma send_one:
  assumes "udpconn s" "wf_packet p" "prepare_for_send p = (len, b)" "len \<noteq> 0" "port \<noteq> 0"
    and d: "d = \<lparr>dg_to = a, dg_port = port, dg_data = take len b\<rparr>"
  shows "do_udp_send (Some a) port p s = s\<lparr>sent := sent s @ [d]\<rparr>" "well_formed_datagram d"
proof -
  show "do_udp_send (Some a) port p s = s\<lparr>sent := sent s @ [d]\<rparr>"
    using assms(1,3,4,5) by (simp add: do_udp_send_def d)
  have "wf_packet b \<and> crc_data_len b = Some len \<and> len \<le> sizeof_packet_any" using assms(2-4) by (rule prepare_len)
  moreover have "check_crc b = HXB_ERR_SUCCESS" using assms(2-4) by (rule prepared_passes_check)
  moreover note header_fields [OF prepare_header [OF assms(2-4)]]
  ultimately show "well_formed_datagram d" unfolding well_formed_datagram_def d
    by (intro exI [of _ b]) (simp add: wf_packet_def min_def)
qed

text \<open>An error packet carries its code behind the header.\<close>

lemma error_answer:
  assumes "udpconn s" "port \<noteq> 0"
  shows "\<exists>d. udp_handler_send_error (Some a) port err s = s\<lparr>sent := sent s @ [d]\<rparr> \<and> dg_to d = a \<and> dg_port d = port \<and>
    well_formed_datagram d \<and> get8 off_type (dg_data d) = ptype_code HXB_PTYPE_ERROR \<and>
    get8 off_error_code (dg_data d) = err_code err"
proof -
  define p where "p = put8 off_error_code (err_code err) (put8 off_type (ptype_code HXB_PTYPE_ERROR) (replicate sizeof_packet_any 0))"
  let ?b = "put_crc sizeof_p_error (with_header p)"
  have wf: "wf_packet p" by (simp add: p_def wf_packet_def)
  have t: "get8 off_type p = ptype_code HXB_PTYPE_ERROR" by (simp add: p_def buf_simps offset_simps)
  have prep: "prepare_for_send p = (sizeof_p_error, ?b)" using prepare_other [OF wf t] by simp
  have ec: "get8 off_error_code p = err_code err" by (simp add: p_def buf_simps offset_simps)
  have size: "off_type + 2 < sizeof_p_error" "off_error_code + 2 < sizeof_p_error" by (simp_all add: offset_simps)
  have "get8 off_type ?b = ptype_code HXB_PTYPE_ERROR" using get8_with_header(1) [OF wf] t get8_put_crc [OF size(1)] by simp
  moreover have "get8 off_error_code ?b = err_code err"
    using get8_put_crc [OF size(2), of "with_header p"] ec nth_header [OF wf, of off_error_code]
    by (simp add: with_header_def get8_def offset_simps)
  ultimately have b: "get8 off_type (take sizeof_p_error ?b) = ptype_code HXB_PTYPE_ERROR"
    "get8 off_error_code (take sizeof_p_error ?b) = err_code err" by (simp_all add: get8_def offset_simps)
  have "sizeof_p_error \<noteq> 0" by (simp add: offset_simps)
  from send_one [OF assms(1) wf prep this assms(2) refl, of a] b show ?thesis
    unfolding udp_handler_send_error_def p_def [symmetric]
    by (intro exI [of _ "\<lparr>dg_to = a, dg_port = port, dg_data = take sizeof_p_error ?b\<rparr>"]) simp
qed

text \<open>Bytes that are in the buffer already may be written again.\<close>

lemma put_prefix_again:
  "p + length bs \<le> length b \<Longrightarrow> q < p \<Longrightarrow>
   put_bytes p (take n bs) (put8 q x (put_bytes p bs b)) = put8 q x (put_bytes p bs b)"
  by (rule nth_equalityI) (auto simp: put8_def nth_put_bytes nth_list_update min_def)

lemma put_again: "p + length bs \<le> length b \<Longrightarrow> q < p \<Longrightarrow>
   put_bytes p bs (put8 q x (put_bytes p bs b)) = put8 q x (put_bytes p bs b)"
  using put_prefix_again [of p bs b q "length bs" x] by simp

lemma linked_value_header: "linked_value (put32 off_eid e (put8 off_type x b)) s = linked_value b s"
  by (simp add: linked_value_def buf_simps offset_simps)

lemma fw_read_keeps_log:
  "sent (snd (snd (fw_read e v s))) = sent s" "udpconn (snd (snd (fw_read e v s))) = udpconn s"
  by (simp_all add: fw_read_def endpoint_read_def null_read_def read_keeps split: option.split)

lemma uip_htons_0 [simp]: "uip_htons 0 = 0"
  by (simp add: uip_htons_def)

definition sent_part :: "hxb_datatype \<Rightarrow> hxb_value \<Rightarrow> hxb_value" where
  "sent_part d v = v\<lparr>vblob := take (blob_size d) (vblob v)\<rparr>"

lemma pack_sent_part:
  assumes "wf_packet b" "length (vblob v) = 128" "vdatatype v = dtype_code d" "d \<noteq> HXB_DTYPE_128STRING"
  shows "pack_value v (put_bytes off_value (vblob v) b) = pack_value (sent_part d v) (put_bytes off_value (vblob v) b)"
proof -
  have l: "off_value + length (vblob v) \<le> length b" "off_datatype < off_value"
    using assms(1,2) by (simp_all add: wf_packet_def offset_simps)
  have raw: "v_u8 (sent_part d v) = v_u8 v" "v_u32 (sent_part d v) = v_u32 v" "v_float (sent_part d v) = v_float v"
    "v_datetime (sent_part d v) = v_datetime v" "vdatatype (sent_part d v) = dtype_code d"
    "vblob (sent_part d v) = take (blob_size d) (vblob v)"
    by (simp_all add: sent_part_def v_u8_def v_u32_def v_float_def v_datetime_def assms(3))
  show ?thesis unfolding pack_value_def Let_def raw assms(3)
    using assms(4) by (cases d) (simp_all add: put_prefix_again [OF l] put_again [OF l])
qed

lemma get32_put_bytes_below: "q + 3 < p \<Longrightarrow> p + length bs \<le> length b \<Longrightarrow> get32 q (put_bytes p bs b) = get32 q b"
  by (simp add: get32_def nth_put_bytes)

lemma pack_value_eid: "wf_packet b \<Longrightarrow> sendable d v \<Longrightarrow> get32 off_eid (snd (pack_value v b)) = get32 off_eid b"
  by (cases d; simp add: pack_value_def Let_def sendable_def blob_size_def wf_packet_def buf_simps
      get32_put_bytes_below offset_simps)

lemma finished_eid:
  assumes "wf_packet p" "d \<noteq> HXB_DTYPE_UNDEFINED"
  shows "uip_ntohl (get32 off_eid (put_crc (value_size d) (net_value d (net_eid (with_header p))))) = get32 off_eid p"
proof -
  have len: "length (with_header p) = 141" using wf_with_header [OF assms(1)] by (simp add: wf_packet_def offset_simps)
  have "off_eid + 5 < value_size d" using assms(2) by (cases d) (simp_all add: value_size_def offset_simps)
  moreover have "get32 off_eid (net_value d (net_eid (with_header p))) = get32 off_eid (net_eid (with_header p))"
    by (simp add: net_value_def htonf_at_def buf_simps offset_simps)
  moreover have "get32 off_eid (net_eid (with_header p)) = uip_htonl (get32 off_eid (with_header p))"
    using len by (simp add: net_eid_def buf_simps offset_simps)
  moreover have "get32 off_eid (with_header p) = get32 off_eid p"
    using nth_header [OF assms(1)] by (simp add: get32_def with_header_def offset_simps)
  ultimately show ?thesis by (simp add: get32_put_crc)
qed

text \<open>Reads keep the eight bytes of the union.\<close>

lemma fw_read_wf: "wf_value v \<Longrightarrow> wf_value (fst (snd (fw_read eid v s)))"
proof -
  assume v: "wf_value v"
  have "wf_value (fst (snd (run_read r w s)))" if "wf_value w" for r w
    using that by (cases r; simp add: read_handlers temperature_adc_def Let_def split_beta split: option.split)
  with v show ?thesis
    by (simp add: fw_read_def endpoint_read_def null_read_def synthesize_read_m32_def split: option.split)
qed

text \<open>The answer to a query whose read succeeds: it decodes to the endpoint and the value read.\<close>

definition answers_query :: "udp_datagram \<Rightarrow> u32 \<Rightarrow> hxb_datatype \<Rightarrow> hxb_value \<Rightarrow> bool" where
  "answers_query dg eid d v =
     (\<exists>b w. wf_packet b \<and> dg_data dg = take (value_size d) b \<and> check_crc b = HXB_ERR_SUCCESS \<and>
        get8 off_type b = ptype_code HXB_PTYPE_INFO \<and> uip_ntohl (get32 off_eid b) = eid \<and>
        extract_value b fresh_value = (HXB_ERR_SUCCESS, w) \<and> same_value d w (sent_part d v))"

lemma query_answer:
  assumes conn: "udpconn s" "port \<noteq> 0" and wf: "wf_packet (stack_bytes s)"
    and r: "fw_read eid (linked_value (stack_bytes s) s) s = (HXB_ERR_SUCCESS, v, t)"
    and v: "vdatatype v = dtype_code d" "d \<noteq> HXB_DTYPE_UNDEFINED" "d \<noteq> HXB_DTYPE_128STRING"
  shows "\<exists>dg. udp_handler_send_generated (Some a) port (generate_query_response eid) s =
      (HXB_ERR_SUCCESS, t\<lparr>sent := sent s @ [dg]\<rparr>) \<and> dg_to dg = a \<and> dg_port dg = port \<and> well_formed_datagram dg \<and>
      answers_query dg eid d v"
proof -
  define b where "b = put32 off_eid eid (put8 off_type (ptype_code HXB_PTYPE_INFO) (stack_bytes s))"
  have wfb: "wf_packet b" using wf by (simp add: b_def)
  have "linked_value b s = linked_value (stack_bytes s) s"
    by (simp only: b_def linked_value_header)
  then have rb: "fw_read eid (linked_value b s) s = (HXB_ERR_SUCCESS, v, t)" by (simp add: r)
  have lv: "length (vblob v) = 128" using fw_read_blob_length [of "linked_value (stack_bytes s) s" eid s] linked_blob_length [OF wf]
    by (simp add: r)
  have "wf_value (linked_value (stack_bytes s) s)" using wf by (simp add: wf_value_def linked_value_def wf_packet_def offset_simps)
  then have wv: "wf_value v" using fw_read_wf [of "linked_value (stack_bytes s) s" eid s] by (simp add: r)
  define B where "B = put_bytes off_value (vblob v) b"
  have wfB: "wf_packet B" unfolding B_def using lv wfb by (intro wf_packet_put_bytes) (simp_all add: offset_simps)
  have tB: "get8 off_type B = ptype_code HXB_PTYPE_INFO" and eB: "get32 off_eid B = eid"
    using wfb wf lv by (simp_all add: B_def b_def wf_packet_def buf_simps get32_put_bytes_below offset_simps)
  have sp: "sendable d (sent_part d v)"
    using wv v lv by (cases d) (simp_all add: sendable_def sent_part_def blob_size_def offset_simps)
  have pk: "pack_value v B = pack_value (sent_part d v) B"
    unfolding B_def using wfb lv v(1,3) by (rule pack_sent_part)
  note pt = pack_value_type [OF wfB sp]
  let ?P = "snd (pack_value (sent_part d v) B)"
  have wfP: "wf_packet ?P" by (rule wf_pack_value [OF wfB sp])
  obtain b' w where prep: "prepare_for_send ?P = (value_size d, b')"
    and ex: "extract_value b' fresh_value = (HXB_ERR_SUCCESS, w)" "same_value d w (sent_part d v)"
    using extract_prepared [OF wfB tB _ sp wf_fresh] by blast
  have n0: "value_size d \<noteq> 0" using v(2) by (cases d) (simp_all add: value_size_def offset_simps)
  have b': "b' = put_crc (value_size d) (net_value d (net_eid (with_header ?P)))"
    using prepare_value [OF wfP trans [OF pt(1) tB] _ pt(2) v(2)] prep by simp
  have eid: "uip_ntohl (get32 off_eid b') = eid"
    unfolding b' using finished_eid [OF wfP v(2)] pack_value_eid [OF wfB sp] eB by simp
  have "get8 off_type (net_value d (net_eid (with_header ?P))) = ptype_code HXB_PTYPE_INFO"
    using get8_with_header(1) [OF wfP] pt(1) tB by (simp add: get8_net)
  moreover have "off_type + 2 < value_size d" using v(2) by (cases d) (simp_all add: value_size_def offset_simps)
  ultimately have tb: "get8 off_type b' = ptype_code HXB_PTYPE_INFO" unfolding b' by (simp only: get8_put_crc)
  have keep: "sent t = sent s" "udpconn t = udpconn s"
    using fw_read_keeps_log [of eid "linked_value (stack_bytes s) s" s] by (simp_all add: r)
  let ?d = "\<lparr>dg_to = a, dg_port = port, dg_data = take (value_size d) b'\<rparr>"
  have one: "do_udp_send (Some a) port ?P t = t\<lparr>sent := sent t @ [?d]\<rparr>" "well_formed_datagram ?d"
    using send_one [OF _ wfP prep n0 conn(2) refl, of t a] conn(1) keep by simp_all
  have gen: "generate_query_response eid (stack_bytes s) s = (HXB_ERR_SUCCESS, ?P, t)"
    unfolding generate_query_response_def Let_def b_def [symmetric] rb prod.case B_def [symmetric] pk
    using pt(3) by (cases "pack_value (sent_part d v) B") simp
  have "answers_query ?d eid d v" unfolding answers_query_def
    using prepare_len [OF wfP prep n0] prepared_passes_check [OF wfP prep n0] tb eid ex by auto
  then show ?thesis using one keep by (intro exI [of _ ?d]) (simp add: udp_handler_send_generated_def gen)
qed

text \<open>The handler looks at a datagram through the packet overlaid on the buffer and its addresses only.\<close>

lemma receive_cong:
  assumes eq: "packet_of d1 = packet_of d2" "in_src d1 = in_src d2" "in_srcport d1 = in_srcport d2" "in_dst d1 = in_dst d2"
  shows "receive_datagram d1 s = receive_datagram d2 s"
proof -
  have env: "received_env d1 e v = received_env d2 e v" for e v by (simp add: received_env_def eq)
  have "handle_write d1 t = handle_write d2 t" "handle_info d1 t = handle_info d2 t" for t :: "'a shs_scheme"
    by (simp_all only: handle_write_def handle_info_def env eq)
  then have "handle_packet d1 t = handle_packet d2 t" for t :: "'a shs_scheme"
    by (simp only: handle_packet_def eq)
  moreover have "reply_error d1 e t = reply_error d2 e t" for e and t :: "'a shs_scheme"
    by (simp only: reply_error_def eq)
  ultimately show ?thesis by (simp only: receive_datagram_def eq)
qed

text \<open>A query as it arrives, for examples.\<close>

definition query_packet :: "u32 \<Rightarrow> buf" where
  "query_packet eid = put32 off_eid eid (put8 off_type (ptype_code HXB_PTYPE_QUERY) (replicate sizeof_packet_any 0))"

definition query_datagram :: "u32 \<Rightarrow> in_datagram" where
  "query_datagram eid = \<lparr>in_src = ip6_localhost, in_srcport = 0x3412, in_dst = HXB_GROUP,
     in_payload = take sizeof_p_query (snd (prepare_for_send (query_packet eid))), in_stale = replicate sizeof_packet_any 0\<rparr>"

lemma query_datagram_valid:
  shows "get_bytes off_magic 4 (packet_of (query_datagram eid)) = HXB_HEADER" "check_crc (packet_of (query_datagram eid)) = HXB_ERR_SUCCESS"
    "get8 off_type (packet_of (query_datagram eid)) = ptype_code HXB_PTYPE_QUERY"
    "uip_ntohl (get32 off_eid (packet_of (query_datagram eid))) = eid"
proof -
  define q where "q = query_packet eid"
  have wf: "wf_packet q" by (simp add: q_def query_packet_def wf_packet_def)
  have t: "get8 off_type q = ptype_code HXB_PTYPE_QUERY" and e: "get32 off_eid q = eid"
    by (simp_all add: q_def query_packet_def buf_simps offset_simps)
  let ?b = "put_crc sizeof_p_query (net_eid (with_header q))"
  have prep: "prepare_for_send q = (sizeof_p_query, ?b)" using prepare_other [OF wf t] by simp
  have n: "sizeof_p_query \<noteq> 0" by (simp add: offset_simps)
  have wb: "wf_packet ?b" using prepare_len [OF wf prep n] by simp
  have tail: "drop sizeof_p_query ?b = drop sizeof_p_query (replicate sizeof_packet_any 0)"
    using wf by (intro nth_equalityI)
      (auto simp: put_crc_def net_eid_def with_header_def q_def query_packet_def wf_packet_def put16_def put32_def put8_def
        nth_list_update nth_put_bytes offset_simps)
  have "packet_of (query_datagram eid) = take sizeof_packet_any (take sizeof_p_query ?b @ drop sizeof_p_query (replicate sizeof_packet_any 0))"
    using wb by (simp add: packet_of_def query_datagram_def q_def [symmetric] prep wf_packet_def min_def offset_simps)
  then have b: "packet_of (query_datagram eid) = ?b" unfolding tail [symmetric] append_take_drop_id
    using wb by (simp add: wf_packet_def)
  show "check_crc (packet_of (query_datagram eid)) = HXB_ERR_SUCCESS"
    unfolding b by (rule prepared_passes_check [OF wf prep n])
  have len: "length (with_header q) = 141" using wf_with_header [OF wf] by (simp add: wf_packet_def offset_simps)
  have "get32 off_eid (with_header q) = eid"
    using nth_header [OF wf] e by (simp add: get32_def with_header_def offset_simps)
  then show "uip_ntohl (get32 off_eid (packet_of (query_datagram eid))) = eid"
    unfolding b using len by (simp add: get32_put_crc net_eid_def buf_simps offset_simps)
  have "off_type + 2 < sizeof_p_query" by (simp add: offset_simps)
  then show "get8 off_type (packet_of (query_datagram eid)) = ptype_code HXB_PTYPE_QUERY"
    unfolding b using get8_with_header(1) [OF wf] t by (simp add: get8_put_crc get8_net)
  show "get_bytes off_magic 4 (packet_of (query_datagram eid)) = HXB_HEADER"
    unfolding b using wf by (simp add: net_eid_def with_header_def wf_packet_def buf_simps offset_simps)
qed

definition fresh_fws :: fws where
  "fresh_fws = shs.extend fresh_shs (fws.fields UDP_HANDLER_UP no_timer None 0 Udp_Wait_Timer False)"

lemma fresh_fws_simps [simp]:
  "udp_state fresh_fws = UDP_HANDLER_UP" "udp_unreachable_timer fresh_fws = no_timer" "default_router fresh_fws = None"
  "health fresh_fws = 0" "posted fresh_fws = []" "udp_pc fresh_fws = Udp_Wait_Timer" "stack_bytes fresh_fws = replicate 141 0"
  "relay_port fresh_fws = 0" "relay_state fresh_fws = False" "out_of_fuel fresh_fws = False"
  by (simp_all add: fresh_fws_def fws.defs fresh_shs_def fresh_irs_def fresh_provs_def shs.defs irs.defs devs.defs
      provs.defs fresh_defs)

section \<open>Properties\<close>

text \<open>A QUERY with a valid checksum is answered exactly once, to the address and port it came from, with a
  well-formed datagram: an INFO packet that decodes to the queried endpoint and the value its read function
  returned, or an error packet with the error code of the read; only internal errors are not answered.\<close>

theorem query_answered:
  assumes "udpconn s" "wf_packet (stack_bytes s)" "in_srcport dg \<noteq> 0"
    and "get_bytes off_magic 4 (packet_of dg) = HXB_HEADER" "check_crc (packet_of dg) = HXB_ERR_SUCCESS"
    and "get8 off_type (packet_of dg) = ptype_code HXB_PTYPE_QUERY" "eid = uip_ntohl (get32 off_eid (packet_of dg))"
    and "fw_read eid (linked_value (stack_bytes s) s) s = (err, v, t)"
    and "err = HXB_ERR_SUCCESS \<Longrightarrow> vdatatype v = dtype_code d \<and> d \<noteq> HXB_DTYPE_UNDEFINED \<and> d \<noteq> HXB_DTYPE_128STRING"
  shows "\<exists>a. sent (receive_datagram dg s) = sent s @ (if err_internal err then [] else [a]) \<and>
    dg_to a = in_src dg \<and> dg_port a = uip_ntohs (in_srcport dg) \<and> well_formed_datagram a \<and>
    (if err = HXB_ERR_SUCCESS then answers_query a eid d v
     else get8 off_type (dg_data a) = ptype_code HXB_PTYPE_ERROR \<and> get8 off_error_code (dg_data a) = err_code err)"
proof -
  let ?a = "in_src dg" and ?p = "uip_ntohs (in_srcport dg)"
  have p: "?p \<noteq> 0" using assms(3) by (metis uip_htons_involution uip_htons_0)
  have h: "handle_packet dg s = udp_handler_send_generated (Some ?a) ?p (generate_query_response eid) s"
    using assms(6,7) by (simp add: handle_packet_def)
  have keep: "sent t = sent s" "udpconn t = udpconn s"
    using fw_read_keeps_log [of eid "linked_value (stack_bytes s) s" s] assms(8) by simp_all
  show ?thesis
  proof (cases "err = HXB_ERR_SUCCESS")
    case True
    then have d: "vdatatype v = dtype_code d" "d \<noteq> HXB_DTYPE_UNDEFINED" "d \<noteq> HXB_DTYPE_128STRING" using assms(9) by simp_all
    from query_answer [OF assms(1) p assms(2) assms(8) [unfolded True] d, of ?a] show ?thesis
      using assms(4,5) by (auto simp: receive_datagram_def h True reply_error_def)
  next
    case False
    have "\<exists>b. generate_query_response eid (stack_bytes s) s = (err, b, t)"
      using assms(8) False by (simp add: generate_query_response_def Let_def linked_value_header)
    then obtain b where "generate_query_response eid (stack_bytes s) s = (err, b, t)" ..
    then have r: "handle_packet dg s = (err, t)" unfolding h udp_handler_send_generated_def using False by simp
    from error_answer [OF _ p, of t ?a err] obtain a where "udp_handler_send_error (Some ?a) ?p err t = t\<lparr>sent := sent t @ [a]\<rparr>"
      "dg_to a = ?a" "dg_port a = ?p" "well_formed_datagram a" "get8 off_type (dg_data a) = ptype_code HXB_PTYPE_ERROR"
      "get8 off_error_code (dg_data a) = err_code err" using assms(1) keep by auto
    then show ?thesis using assms(4-6) r False keep
      by (intro exI [of _ a]) (simp add: receive_datagram_def reply_error_def)
  qed
qed

theorem query_answered_witness:
  "\<exists>a. sent (receive_datagram (query_datagram EP_POWER_SWITCH) (fresh_shs\<lparr>chain := [endpoint_relay], udpconn := True\<rparr>))
       = sent fresh_shs @ [a] \<and>
     answers_query a EP_POWER_SWITCH HXB_DTYPE_BOOL
       (set_u8 1 ((linked_value (replicate 141 0) fresh_shs)\<lparr>vdatatype := dtype_code HXB_DTYPE_BOOL\<rparr>))"
proof -
  let ?s = "fresh_shs\<lparr>chain := [endpoint_relay], udpconn := True\<rparr>"
  have s: "udpconn ?s" "wf_packet (stack_bytes ?s)" by (simp_all add: fresh_shs_simps wf_packet_def offset_simps)
  have lv: "linked_value b ?s = linked_value b fresh_shs" for b by (simp add: linked_value_def)
  have "fw_read EP_POWER_SWITCH (linked_value (stack_bytes ?s) ?s) ?s = (HXB_ERR_SUCCESS,
      set_u8 1 ((linked_value (replicate 141 0) fresh_shs)\<lparr>vdatatype := dtype_code HXB_DTYPE_BOOL\<rparr>), ?s)"
    unfolding lv by (simp add: fw_read_def endpoint_read_def find_descriptor_def endpoint_relay_def EP_POWER_SWITCH_def run_read_def
        read_relay_def relay_get_state_def fresh_shs_simps HXB_TRUE_def)
  from query_answered [OF s _ query_datagram_valid(1-3) query_datagram_valid(4) [symmetric] this, of HXB_DTYPE_BOOL]
  show ?thesis by (auto simp: query_datagram_def)
qed

text \<open>A datagram that is not a Hexabus packet has no effect at all. One with a wrong checksum changes nothing
  but the log of sent datagrams: the sender gets exactly one error packet that names the checksum, unless the packet
  is malformed or is an INFO packet to the group, which stay unanswered.\<close>

theorem invalid_datagram_refused:
  assumes "udpconn s" "in_srcport dg \<noteq> 0"
    and "get_bytes off_magic 4 (packet_of dg) \<noteq> HXB_HEADER \<or> check_crc (packet_of dg) \<noteq> HXB_ERR_SUCCESS"
  shows "if get_bytes off_magic 4 (packet_of dg) \<noteq> HXB_HEADER \<or> check_crc (packet_of dg) = HXB_ERR_MALFORMED_PACKET \<or>
       get8 off_type (packet_of dg) = ptype_code HXB_PTYPE_INFO \<and> in_dst dg = HXB_GROUP
     then receive_datagram dg s = s
     else \<exists>d. receive_datagram dg s = s\<lparr>sent := sent s @ [d]\<rparr> \<and> dg_to d = in_src dg \<and>
       dg_port d = uip_ntohs (in_srcport dg) \<and> get8 off_type (dg_data d) = ptype_code HXB_PTYPE_ERROR \<and>
       get8 off_error_code (dg_data d) = err_code HXB_ERR_CRCFAILED"
proof -
  have p: "uip_ntohs (in_srcport dg) \<noteq> 0" using assms(2) by (metis uip_htons_involution uip_htons_0)
  have c: "check_crc (packet_of dg) \<in> {HXB_ERR_SUCCESS, HXB_ERR_MALFORMED_PACKET, HXB_ERR_CRCFAILED}"
    by (simp add: check_crc_def split: option.split)
  consider (other) "get_bytes off_magic 4 (packet_of dg) \<noteq> HXB_HEADER"
    | (bad) "get_bytes off_magic 4 (packet_of dg) = HXB_HEADER" "check_crc (packet_of dg) \<noteq> HXB_ERR_SUCCESS"
    using assms(3) by blast
  then show ?thesis
  proof cases
    case other
    then show ?thesis by (simp add: receive_datagram_def)
  next
    case bad
    then have r: "receive_datagram dg s = reply_error dg (check_crc (packet_of dg)) s" by (simp add: receive_datagram_def)
    from bad c have "check_crc (packet_of dg) = HXB_ERR_MALFORMED_PACKET \<or> check_crc (packet_of dg) = HXB_ERR_CRCFAILED" by simp
    then show ?thesis
    proof
      assume e: "check_crc (packet_of dg) = HXB_ERR_MALFORMED_PACKET"
      show ?thesis unfolding r by (simp add: e reply_error_def)
    next
      assume e: "check_crc (packet_of dg) = HXB_ERR_CRCFAILED"
      show ?thesis using error_answer [OF assms(1) p, of "in_src dg" HXB_ERR_CRCFAILED] bad(1)
        unfolding r by (simp only: e reply_error_def Let_def) auto
    qed
  qed
qed

theorem invalid_datagram_refused_witness:
  "receive_datagram ((query_datagram 1)\<lparr>in_payload := replicate 20 0\<rparr>) (fresh_shs\<lparr>udpconn := True\<rparr>) = fresh_shs\<lparr>udpconn := True\<rparr>"
proof -
  let ?dg = "(query_datagram 1)\<lparr>in_payload := replicate 20 0\<rparr>"
  have m: "get_bytes off_magic 4 (packet_of ?dg) \<noteq> HXB_HEADER"
  proof -
    have "get_bytes off_magic 4 (packet_of ?dg) = replicate 4 0"
      by (simp add: packet_of_def get_bytes_def offset_simps min_def)
    moreover have "hd (replicate 4 0) \<noteq> hd HXB_HEADER" by (simp add: HXB_HEADER_def)
    ultimately show ?thesis by metis
  qed
  from invalid_datagram_refused [of "fresh_shs\<lparr>udpconn := True\<rparr>" ?dg] m show ?thesis by (simp add: query_datagram_def)
qed

text \<open>The length of a datagram is never compared with the size of its packet type: the first \<open>k\<close> bytes of a packet,
  even none at all, received while the stack's buffer still holds that packet, have the effect of the whole packet.\<close>

theorem truncated_datagram_accepted:
  "receive_datagram (dg\<lparr>in_payload := take k (in_payload dg),
      in_stale := in_payload dg @ drop (length (in_payload dg)) (in_stale dg)\<rparr>) s = receive_datagram dg s"
proof -
  let ?dg = "dg\<lparr>in_payload := take k (in_payload dg), in_stale := in_payload dg @ drop (length (in_payload dg)) (in_stale dg)\<rparr>"
  have "take k xs @ drop (length (take k xs)) (xs @ ys) = xs @ ys" for xs ys :: buf
    by (cases "k \<le> length xs") (simp_all add: min_def)
  moreover have "in_payload ?dg = take k (in_payload dg)"
    "in_stale ?dg = in_payload dg @ drop (length (in_payload dg)) (in_stale dg)" by simp_all
  ultimately have "in_payload ?dg @ drop (length (in_payload ?dg)) (in_stale ?dg) =
      in_payload dg @ drop (length (in_payload dg)) (in_stale dg)" by metis
  then have "packet_of ?dg = packet_of dg" by (simp only: packet_of_def)
  then show ?thesis by (rule receive_cong) simp_all
qed

text \<open>When the route timer has expired, the state of the handler becomes DOWN exactly if there is no valid default
  route, a change (and nothing else) is announced by one event that carries the new state, and the timer runs again;
  the health bit for a missing connection goes on agreeing with the state.\<close>

theorem route_watch:
  assumes "\<not> at_armed (udp_unreachable_timer s)" "bit (health s) 0 = (udp_state s = UDP_HANDLER_DOWN)"
  shows "udp_state (check_route s) = (if route_valid s then UDP_HANDLER_UP else UDP_HANDLER_DOWN) \<and>
    filter (\<lambda>e. \<exists>u. e = Udp_Event u) (posted (check_route s)) = filter (\<lambda>e. \<exists>u. e = Udp_Event u) (posted s) @
      (if udp_state (check_route s) = udp_state s then [] else [Udp_Event (udp_state (check_route s))]) \<and>
    at_armed (udp_unreachable_timer (check_route s)) \<and>
    bit (health (check_route s)) 0 = (udp_state (check_route s) = UDP_HANDLER_DOWN)"
proof -
  let ?t = "reset_unreachable_timer s"
  have t: "route_valid ?t = route_valid s" "udp_state ?t = udp_state s" "posted ?t = posted s" "health ?t = health s"
    "at_armed (udp_unreachable_timer ?t)"
    by (simp_all add: reset_unreachable_timer_def route_valid_def app_timer_set_def split: option.split)
  have u: "udp_state (health_update b v r) = udp_state r"
    "udp_unreachable_timer (health_update b v r) = udp_unreachable_timer r"
    "filter (\<lambda>e. \<exists>u. e = Udp_Event u) (posted (health_update b v r)) = filter (\<lambda>e. \<exists>u. e = Udp_Event u) (posted r)"
    for b v and r :: "'a fws_scheme"
    by (simp_all add: health_update_def process_broadcast_def Let_def)
  have p: "udp_state (process_broadcast e r) = udp_state r" "health (process_broadcast e r) = health r"
    "udp_unreachable_timer (process_broadcast e r) = udp_unreachable_timer r"
    "posted (process_broadcast e r) = posted r @ [e]" for e and r :: "'a fws_scheme"
    by (simp_all add: process_broadcast_def)
  have b: "bit HE_NO_CONNECTION 0" by (simp add: HE_NO_CONNECTION_def)
  show ?thesis
    using assms(2) by (cases "udp_state s") (simp_all add: check_route_def assms(1) t u p health_bit b)
qed

theorem route_watch_witness:
  "udp_state (check_route fresh_fws) = UDP_HANDLER_DOWN \<and>
   filter (\<lambda>e. \<exists>u. e = Udp_Event u) (posted (check_route fresh_fws)) = [Udp_Event UDP_HANDLER_DOWN]"
  using route_watch [of fresh_fws] by (simp add: route_valid_def no_timer_def)

text \<open>Between the end of one event and its own continue event the process takes no other event: datagrams and
  timer events that arrive then are dropped. If the continue event could not be queued, that is for good.\<close>

theorem paused_handler_drops_events:
  assumes "udp_pc s = Udp_Paused" "Ev_Continue \<notin> set evs"
  shows "fold udp_thread evs s = s"
  using assms by (induction evs arbitrary: s) (auto simp: udp_thread_def)

theorem paused_handler_drops_events_witness:
  "fold udp_thread [Ev_Tcpip (Some (query_datagram 1)), Ev_Timer] (fresh_fws\<lparr>udp_pc := Udp_Paused\<rparr>) = fresh_fws\<lparr>udp_pc := Udp_Paused\<rparr>"
  by (rule paused_handler_drops_events) simp_all

end
