(* ===== verification/Button.thy ===== *)
theory Button
  imports Prelude
begin

text \<open>
  \<^verbatim>\<open>apps/button/button.c\<close>: the debouncing state machine that turns pin levels, sampled once per
  clock tick, into clicks and press reports. A button's state is packed into sixteen bits as in the
  code: two bits of automaton state and a saturating tick counter of fourteen bits. Reading the port
  and the two callbacks are functions on the state \<open>'s\<close> of whoever registers the buttons.
\<close>

record 's button_set_descriptor =
  port :: "'s \<Rightarrow> u8"
  pin_mask :: u8
  activeLevel :: bool
  click_ticks :: u16
  pressed_ticks :: u16
  clicked :: "(u8 \<Rightarrow> 's \<Rightarrow> 's) option"
  pressed :: "(u8 \<Rightarrow> bool \<Rightarrow> u16 \<Rightarrow> 's \<Rightarrow> 's) option"

datatype button_state = IDLE | DEBOUNCE_ACTIVE | ACTIVE | DEBOUNCE_IDLE

fun state_code :: "button_state \<Rightarrow> u16" where
  "state_code IDLE = 0"
| "state_code DEBOUNCE_ACTIVE = 1"
| "state_code ACTIVE = 2"
| "state_code DEBOUNCE_IDLE = 3"

definition state_of :: "u16 \<Rightarrow> button_state" where
  "state_of x = (let q = x AND 3 in
     if q = 0 then IDLE else if q = 1 then DEBOUNCE_ACTIVE else if q = 2 then ACTIVE else DEBOUNCE_IDLE)"

definition BUTTON_DEBOUNCE_TICKS :: u16 where "BUTTON_DEBOUNCE_TICKS = 1"
definition TICKS_MAX :: u16 where "TICKS_MAX = 0x3FFF"    \<comment> \<open>\<open>0xFFFF >> STATE_SHAMT\<close>\<close>

definition advance_ticks :: "u16 \<Rightarrow> u16" where
  "advance_ticks ticks =
     (if (ticks + BUTTON_DEBOUNCE_TICKS) AND TICKS_MAX > ticks then ticks + BUTTON_DEBOUNCE_TICKS else TICKS_MAX)"

definition call_clicked :: "'s button_set_descriptor \<Rightarrow> u8 \<Rightarrow> 's \<Rightarrow> 's" where
  "call_clicked d b s = (case clicked d of Some f \<Rightarrow> f b s | None \<Rightarrow> s)"

definition call_pressed :: "'s button_set_descriptor \<Rightarrow> u8 \<Rightarrow> bool \<Rightarrow> u16 \<Rightarrow> 's \<Rightarrow> 's" where
  "call_pressed d b released ticks s = (case pressed d of Some f \<Rightarrow> f b released ticks s | None \<Rightarrow> s)"

text \<open>One sample of one button: its packed state and the state of the callbacks.\<close>

definition button_sample :: "'s button_set_descriptor \<Rightarrow> u8 \<Rightarrow> bool \<Rightarrow> u16 \<Rightarrow> 's \<Rightarrow> u16 \<times> 's" where
  "button_sample d b active st s =
     (let ticks = advance_ticks (drop_bit 2 st); smState = state_of st;
          (smState, ticks, s) =
            (case smState of
               IDLE \<Rightarrow> (if active then (DEBOUNCE_ACTIVE, 0, s) else (IDLE, ticks, s))
             | DEBOUNCE_ACTIVE \<Rightarrow>
                 (if active then (ACTIVE, ticks, if pressed_ticks d \<le> ticks then call_pressed d b False ticks s else s)
                  else (IDLE, 0, s))
             | ACTIVE \<Rightarrow>
                 (if active then (ACTIVE, ticks, if pressed_ticks d \<le> ticks then call_pressed d b False ticks s else s)
                  else (DEBOUNCE_IDLE, ticks, s))
             | DEBOUNCE_IDLE \<Rightarrow>
                 (if active then (ACTIVE, ticks, s)
                  else (IDLE, 0,
                    (let s = (if click_ticks d \<ge> ticks then call_clicked d b s else s)
                     in if pressed_ticks d \<le> ticks then call_pressed d b True ticks s else s))))
      in (push_bit 2 ticks OR state_code smState, s))"

definition is_active :: "'s button_set_descriptor \<Rightarrow> u8 \<Rightarrow> 's \<Rightarrow> bool" where
  "is_active d b s = ((port d s AND b \<noteq> 0) = activeLevel d)"

text \<open>All buttons of a descriptor, from the highest bit down; the states are in that order too.\<close>

definition button_bits :: "u8 list" where
  "button_bits = [0x80, 0x40, 0x20, 0x10, 0x08, 0x04, 0x02, 0x01]"

fun button_scan :: "'s button_set_descriptor \<Rightarrow> u8 list \<Rightarrow> u16 list \<Rightarrow> 's \<Rightarrow> u16 list \<times> 's" where
  "button_scan d [] states s = (states, s)"
| "button_scan d (b # bs) states s =
     (if pin_mask d AND b = 0 then button_scan d bs states s
      else case states of
        [] \<Rightarrow> ([], s)
      | st # rest \<Rightarrow>
          (let (st, s) = button_sample d b (is_active d b s) st s;
               (rest, s) = button_scan d bs rest s
           in (st # rest, s)))"

fun button_iterate_once :: "('s button_set_descriptor \<times> u16 list) list \<Rightarrow> 's \<Rightarrow> ('s button_set_descriptor \<times> u16 list) list \<times> 's" where
  "button_iterate_once [] s = ([], s)"
| "button_iterate_once ((d, states) # rest) s =
     (let (states, s) = button_scan d button_bits states s;
          (rest, s) = button_iterate_once rest s
      in ((d, states) # rest, s))"

text \<open>\<open>BUTTON_REGISTER\<close>: one zeroed state per button.\<close>

definition BUTTON_REGISTER :: "'s button_set_descriptor \<Rightarrow> nat \<Rightarrow> ('s button_set_descriptor \<times> u16 list) list \<Rightarrow>
    ('s button_set_descriptor \<times> u16 list) list" where
  "BUTTON_REGISTER d pincount chain = (d, replicate pincount 0) # chain"

section \<open>The packed state\<close>

definition packed :: "nat \<Rightarrow> button_state \<Rightarrow> u16" where
  "packed n q = push_bit 2 (of_nat n) OR state_code q"

lemma bit_state_code: "bit (state_code q) n \<Longrightarrow> n < 2"
proof -
  assume b: "bit (state_code q) n"
  have "state_code q AND mask 2 = state_code q" by (cases q) (simp_all add: mask_eq_exp_minus_1)
  with b have "bit (state_code q AND mask 2) n" by simp
  then show "n < 2" by (simp add: bit_simps)
qed

lemma take_bit_small: "n < 2 ^ 14 \<Longrightarrow> take_bit 14 (of_nat n :: u16) = of_nat n"
  by (simp add: word_unat_eq_iff unsigned_take_bit_eq unat_of_nat take_bit_nat_eq_self)

lemma drop_packed:
  assumes w: "take_bit 14 w = (w :: u16)"
  shows "drop_bit 2 (push_bit 2 w OR state_code q) = w"
proof (rule bit_word_eqI)
  fix k assume "k < LENGTH(16)"
  have "bit w k \<Longrightarrow> k < 14" using w by (metis bit_take_bit_iff)
  moreover have "\<not> bit (state_code q) (k + 2)" using bit_state_code [of q "k + 2"] by auto
  ultimately show "bit (drop_bit 2 (push_bit 2 w OR state_code q)) k = bit w k" by (auto simp: bit_simps)
qed

lemma packed_ticks: "n < 2 ^ 14 \<Longrightarrow> drop_bit 2 (packed n q) = of_nat n"
  unfolding packed_def by (rule drop_packed [OF take_bit_small])

lemma packed_state: "state_of (packed n q) = q"
proof -
  have "packed n q AND 3 = state_code q"
  proof (rule bit_word_eqI)
    fix k assume "k < LENGTH(16)"
    have three: "bit (3 :: u16) k = (k < 2)"
      using bit_mask_iff [where 'a = "16 word", of 2 k] by (auto simp: mask_eq_exp_minus_1 simp del: bit_numeral_word_iff)
    show "bit (packed n q AND 3) k = bit (state_code q) k"
      using bit_state_code [of q k] by (auto simp: packed_def bit_and_iff bit_or_iff bit_push_bit_iff three simp del: bit_numeral_word_iff)
  qed
  then show ?thesis by (cases q) (simp_all add: state_of_def)
qed

lemma advance_packed: "n < 2 ^ 14 - 1 \<Longrightarrow> advance_ticks (of_nat n) = of_nat (Suc n)"
proof -
  assume n: "n < 2 ^ 14 - 1"
  have u: "unat (of_nat n :: u16) = n" "unat (of_nat (Suc n) :: u16) = Suc n"
    using n by (simp_all add: unat_of_nat del: of_nat_Suc)
  have "(of_nat n + BUTTON_DEBOUNCE_TICKS) AND TICKS_MAX = (of_nat (Suc n) :: u16)"
  proof -
    have "TICKS_MAX = mask 14" by (simp add: TICKS_MAX_def mask_eq_exp_minus_1)
    moreover have "take_bit 14 (of_nat (Suc n) :: u16) = of_nat (Suc n)"
      using n by (intro take_bit_small) simp
    ultimately show ?thesis by (simp add: BUTTON_DEBOUNCE_TICKS_def take_bit_eq_mask add.commute)
  qed
  moreover have "of_nat n + BUTTON_DEBOUNCE_TICKS = (of_nat (Suc n) :: u16)"
    by (simp add: BUTTON_DEBOUNCE_TICKS_def)
  ultimately show ?thesis using u by (simp add: advance_ticks_def word_less_nat_alt del: of_nat_Suc)
qed

section \<open>What a press of a button reports\<close>

datatype report = Clicked u8 | Pressed u8 bool u16

text \<open>A button whose callbacks write a log.\<close>

definition logging :: "bool \<Rightarrow> u16 \<Rightarrow> u16 \<Rightarrow> report list button_set_descriptor" where
  "logging level ct pt = \<lparr>port = (\<lambda>_. 0), pin_mask = 1, activeLevel = level, click_ticks = ct, pressed_ticks = pt,
     clicked = Some (\<lambda>b s. s @ [Clicked b]), pressed = Some (\<lambda>b r t s. s @ [Pressed b r t])\<rparr>"

definition samples :: "'s button_set_descriptor \<Rightarrow> u8 \<Rightarrow> bool list \<Rightarrow> u16 \<times> 's \<Rightarrow> u16 \<times> 's" where
  "samples d b ls st = fold (\<lambda>l (q, s). button_sample d b l q s) ls st"

lemma samples_simps [simp]:
  "samples d b [] st = st" "samples d b (l # ls) (q, s) = samples d b ls (button_sample d b l q s)"
  by (simp_all add: samples_def)

lemma samples_append: "samples d b (xs @ ys) st = samples d b ys (samples d b xs st)"
  by (simp add: samples_def)

text \<open>The word the code stores is the packed state again.\<close>

lemma stored: "push_bit 2 (of_nat n) OR state_code q = packed n q" "push_bit 2 0 OR state_code q = packed 0 q"
  by (simp_all add: packed_def)

lemma sample_idle: "button_sample d b True (packed n IDLE) s = (packed 0 DEBOUNCE_ACTIVE, s)"
  unfolding button_sample_def packed_state Let_def by (simp only: button_state.case if_True prod.case stored)

lemma sample_stays_idle: "n < 2 ^ 14 - 1 \<Longrightarrow> button_sample d b False (packed n IDLE) s = (packed (Suc n) IDLE, s)"
proof -
  assume m: "n < 2 ^ 14 - 1"
  then have n: "n < 2 ^ 14" by simp
  show ?thesis unfolding button_sample_def packed_state packed_ticks [OF n] advance_packed [OF m] Let_def
    by (simp only: button_state.case if_False prod.case stored)
qed

lemma sample_active:
  assumes "n < 2 ^ 14 - 1" "q = DEBOUNCE_ACTIVE \<or> q = ACTIVE"
  shows "button_sample d b True (packed n q) s =
    (packed (Suc n) ACTIVE, if pressed_ticks d \<le> of_nat (Suc n) then call_pressed d b False (of_nat (Suc n)) s else s)"
proof -
  have n: "n < 2 ^ 14" using assms(1) by simp
  show ?thesis using assms(2)
    unfolding button_sample_def packed_state packed_ticks [OF n] advance_packed [OF assms(1)] Let_def
    by (elim disjE) (simp_all only: button_state.case if_True prod.case stored)
qed

lemma sample_released:
  "n < 2 ^ 14 - 1 \<Longrightarrow> button_sample d b False (packed n ACTIVE) s = (packed (Suc n) DEBOUNCE_IDLE, s)"
  "button_sample d b False (packed n DEBOUNCE_ACTIVE) s = (packed 0 IDLE, s)"
proof -
  show "button_sample d b False (packed n DEBOUNCE_ACTIVE) s = (packed 0 IDLE, s)"
    unfolding button_sample_def packed_state Let_def by (simp only: button_state.case if_False prod.case stored)
  assume m: "n < 2 ^ 14 - 1"
  then have n: "n < 2 ^ 14" by simp
  show "button_sample d b False (packed n ACTIVE) s = (packed (Suc n) DEBOUNCE_IDLE, s)"
    unfolding button_sample_def packed_state packed_ticks [OF n] advance_packed [OF m] Let_def
    by (simp only: button_state.case if_False prod.case stored)
qed

lemma sample_done:
  assumes "n < 2 ^ 14 - 1"
  shows "button_sample d b False (packed n DEBOUNCE_IDLE) s =
    (packed 0 IDLE, let s = (if click_ticks d \<ge> of_nat (Suc n) then call_clicked d b s else s)
       in if pressed_ticks d \<le> of_nat (Suc n) then call_pressed d b True (of_nat (Suc n)) s else s)"
proof -
  have n: "n < 2 ^ 14" using assms by simp
  show ?thesis
    unfolding button_sample_def packed_state packed_ticks [OF n] advance_packed [OF assms] Let_def
    by (simp only: button_state.case if_False prod.case stored)
qed

definition held_reports :: "u8 \<Rightarrow> u16 \<Rightarrow> nat \<Rightarrow> nat \<Rightarrow> report list" where
  "held_reports b pt m n = map (\<lambda>k. Pressed b False (of_nat k)) (List.filter (\<lambda>k. pt \<le> of_nat k) [m..<n])"

lemma held:
  assumes "m + Suc k < 2 ^ 14" "q = DEBOUNCE_ACTIVE \<or> q = ACTIVE"
  shows "samples (logging lv ct pt) b (replicate (Suc k) True) (packed m q, log) =
    (packed (m + Suc k) ACTIVE, log @ held_reports b pt (Suc m) (Suc (m + Suc k)))"
  using assms
proof (induction k arbitrary: m q log)
  case 0
  then show ?case
    by (simp add: sample_active held_reports_def logging_def call_pressed_def del: of_nat_Suc)
next
  case (Suc k)
  let ?log = "if pt \<le> of_nat (Suc m) then log @ [Pressed b False (of_nat (Suc m))] else log"
  have "button_sample (logging lv ct pt) b True (packed m q) log = (packed (Suc m) ACTIVE, ?log)"
    using Suc.prems by (simp add: sample_active logging_def call_pressed_def del: of_nat_Suc)
  moreover have "samples (logging lv ct pt) b (replicate (Suc k) True) (packed (Suc m) ACTIVE, ?log) =
      (packed (Suc m + Suc k) ACTIVE, ?log @ held_reports b pt (Suc (Suc m)) (Suc (Suc m + Suc k)))"
    using Suc.IH [of "Suc m" ACTIVE ?log] Suc.prems by simp
  moreover have "?log @ held_reports b pt (Suc (Suc m)) (Suc (Suc m + Suc k)) =
      log @ held_reports b pt (Suc m) (Suc (m + Suc (Suc k)))"
    by (simp add: held_reports_def upt_conv_Cons del: of_nat_Suc upt_Suc)
  ultimately show ?case by (simp del: of_nat_Suc upt_Suc replicate.simps(2) add: replicate.simps(2) [of "Suc k"])
qed

lemma released_twice:
  assumes "k + 2 < 2 ^ 14"
  shows "samples (logging lv ct pt) b [False, False] (packed k ACTIVE, log) =
    (packed 0 IDLE, log @ (if of_nat (k + 2) \<le> ct then [Clicked b] else []) @
       (if pt \<le> of_nat (k + 2) then [Pressed b True (of_nat (k + 2))] else []))"
  using assms by (simp add: sample_released sample_done logging_def call_clicked_def call_pressed_def Let_def del: of_nat_Suc)

section \<open>Properties\<close>

text \<open>C21: A button held for \<open>n\<close> samples and then released for two reports, in this order: every sample from
  the second on that is not shorter than \<open>pressed_ticks\<close>, a click if the whole took at most
  \<open>click_ticks\<close>, and the release if it took at least \<open>pressed_ticks\<close>; it is idle again afterwards.
  A single sample reports nothing.\<close>

theorem press_reports:
  assumes "0 < n" "n + 1 < 2 ^ 14"
  shows "let (q, log) = samples (logging lv ct pt) b (replicate n True @ [False, False]) (packed t IDLE, []) in
    state_of q = IDLE \<and>
    log = (if n = 1 then []
     else held_reports b pt 1 n @ (if of_nat (n + 1) \<le> ct then [Clicked b] else []) @
          (if pt \<le> of_nat (n + 1) then [Pressed b True (of_nat (n + 1))] else []))"
proof -
  obtain k where n: "n = Suc k" using assms(1) by (cases n) auto
  show ?thesis
  proof (cases k)
    case 0
    with n show ?thesis by (simp add: sample_idle sample_released sample_stays_idle packed_state)
  next
    case (Suc j)
    note h = held [of 0 j DEBOUNCE_ACTIVE lv ct pt b "[]"]
    have "samples (logging lv ct pt) b (replicate n True) (packed t IDLE, []) = (packed k ACTIVE, held_reports b pt 1 n)"
      using h n Suc assms(2) by (simp add: sample_idle del: upt_Suc)
    moreover have "k + 2 = n + 1" "k + 2 < 2 ^ 14" "n \<noteq> 1" using n Suc assms(2) by simp_all
    ultimately show ?thesis using released_twice [of k lv ct pt b "held_reports b pt 1 n"]
      by (simp only: samples_append) (simp add: packed_state)
  qed
qed

text \<open>The system button: 300 samples are a press of more than two seconds, and no click.\<close>

theorem press_reports_witness:
  "Clicked 1 \<notin> set (snd (samples (logging False 250 251) 1 (replicate 300 True @ [False, False]) (packed 0 IDLE, [])))"
proof -
  have "(of_nat (300 + 1) :: u16) \<le> 250 \<longleftrightarrow> False" by simp
  moreover have "Clicked 1 \<notin> set (held_reports 1 251 1 300)" by (auto simp: held_reports_def)
  ultimately show ?thesis
    using press_reports [of 300 False 250 251 1 0] by (auto simp: Let_def split: prod.splits)
qed

end
