(* ===== verification/Firmware.thy ===== *)
theory Firmware
  imports Udp_Handler Button
begin

text \<open>
  The device as a whole: one step is one call of a process by the kernel, one button callback, one
  interrupt, or a change of the surroundings (time, timers that expire, the default route, what
  sensors answer). Interrupts are taken between steps here; the interleaving of an interrupt with the
  code it interrupts is not modelled.
\<close>

section \<open>Steps\<close>

inductive device_step :: "'a fws_scheme \<Rightarrow> 'a fws_scheme \<Rightarrow> bool" where
  udp_event: "device_step s (udp_thread ev s)"
| sm_event: "device_step s (sm_call broadcast_value (fw_write broadcast_value) n data s)"
| datetime_event: "device_step s (datetime_timer_event s)"
| meter_pulse: "device_step s (metering_isr broadcast_value s)"
| meter_timeout: "device_step s (metering_calibration_stop s)"
| button_clicked: "device_step s (sysbutton_clicked broadcast_value b s)"
| button_calibrates: "device_step s (snd (metering_calibrate broadcast_value s))"
| push_clicked: "device_step s (hexapush_clicked broadcast_value b s)"
| push_pressed: "device_step s (hexapush_pressed broadcast_value b released ticks s)"
| sense_pressed: "device_step s (button1_pressed broadcast_value b released ticks s)"
| sense_pressed2: "device_step s (button2_pressed broadcast_value b released ticks s)"
| sense_feedback: "device_step s (feedback_event s)"
| presence_seen: "device_step s (raw_presence_detected broadcast_value s)"
| presence_gone: "device_step s (no_raw_presence s)"
| presence_timeout: "device_step s (no_global_presence broadcast_value s)"
| presence_refresh: "device_step s (presence_keep_alive broadcast_value s)"
| ir_edge: "device_step s (INT2_vect s)"
| ir_tick: "device_step s (TIMER0_COMPA_vect s)"
| ir_poll: "device_step s (ir_process_poll broadcast_value s)"
| encoder: "device_step s (shutter_polled s)"
| encoder_timeout: "device_step s (shutter_timed_out s)"
| encoder_poked: "device_step s (shutter_poked s)"
| shutter_set_up: "device_step s (shutter_setup_continue s)"
| time: "device_step s (s\<lparr>clock := c, seconds := u\<rparr>)"
| route: "device_step s (s\<lparr>default_router := r\<rparr>)"
| route_timer: "device_step s (s\<lparr>udp_unreachable_timer := tm\<rparr>)"
| update_timer_fires: "device_step s (s\<lparr>update_timer := tm\<rparr>)"
| sensors: "device_step s (s\<lparr>adc_samples := x, hyt_reply := y\<rparr>)"
| stack: "wf_packet b \<Longrightarrow> device_step s (s\<lparr>stack_bytes := b\<rparr>)"

definition device_reachable :: "'a fws_scheme \<Rightarrow> 'a fws_scheme \<Rightarrow> bool" where
  "device_reachable s t = device_step\<^sup>*\<^sup>* s t"

section \<open>The invariant\<close>

definition device_ok :: "udp_datagram list \<Rightarrow> 'a fws_scheme \<Rightarrow> bool" where
  "device_ok base s = (relay_ok s \<and> outgoing base s \<and> bit (health s) 0 = (udp_state s = UDP_HANDLER_DOWN) \<and>
     (udp_pc s = Udp_Wait_Timer \<longrightarrow> udp_state s = UDP_HANDLER_UP) \<and> \<not> out_of_fuel s)"

text \<open>The connection's health bit is touched by the watch over the route only.\<close>

definition watch_of :: "'a fws_scheme \<Rightarrow> bool \<times> udp_handler_event \<times> udp_pc" where
  "watch_of s = (bit (health s) 0, udp_state s, udp_pc s)"

lemma watch_health [simp]:
  "\<not> bit b 0 \<Longrightarrow> watch_of (health_update b v s) = watch_of s"
  unfolding watch_of_def health_bit by (simp add: health_update_def process_broadcast_def Let_def)

lemma watch_update [simp]:
  "watch_of (s\<lparr>metering_power := p\<rparr>) = watch_of s" "watch_of (s\<lparr>relay_port := rp, relay_state := rs\<rparr>) = watch_of s"
  "watch_of (relay_leds s) = watch_of s" "watch_of (s\<lparr>global_presence := g\<rparr>) = watch_of s"
  "watch_of (s\<lparr>presence := g\<rparr>) = watch_of s" "watch_of (s\<lparr>pd_timeout := t\<rparr>) = watch_of s"
  "watch_of (s\<lparr>pd_keep_alive := t\<rparr>) = watch_of s" "watch_of (s\<lparr>ee := e\<rparr>) = watch_of s"
  "watch_of (do_udp_send a prt b s) = watch_of s" "watch_of (s\<lparr>live_channels := l\<rparr>) = watch_of s"
  by (simp_all add: watch_of_def relay_leds_def leds_on_def leds_off_def show_leds_def leds_arch_set_def do_udp_send_def
      split_beta Let_def)

lemma sensor_bits: "\<not> bit HE_PT100_BROKEN 0" "\<not> bit HE_HYT_BROKEN 0"
  by (simp_all add: HE_PT100_BROKEN_def HE_HYT_BROKEN_def)

lemma watch_read: "watch_of (snd (snd (run_read r v s))) = watch_of s"
  by (cases r; simp add: read_handlers channel_live_def metering_get_power_def sensor_bits Let_def split_beta split: option.split)

lemma watch_write:
  assumes bc: "\<And>e t. watch_of t = x \<Longrightarrow> watch_of (bc e t) = x" and s: "watch_of s = x"
  shows "watch_of (snd (run_write bc w env s)) = x"
proof (cases w)
  case Wr_relay
  then show ?thesis using s by (simp add: write_handlers Let_def bc)
next
  case Wr_presence
  then show ?thesis using s by (simp add: write_handlers Let_def bc)
next
  case Wr_sm_receiver
  then show ?thesis using s by (simp add: write_handlers Let_def split_beta)
qed (use s in \<open>simp_all add: write_handlers Let_def split_beta watch_of_def\<close>)

interpretation watch: service_invariant "\<lambda>s. watch_of s = x" "\<lambda>_. True"
  by unfold_locales (simp_all add: watch_read watch_write, simp_all add: watch_of_def sm_process_init_def
      process_alloc_event_def updateDatetime_def)

lemma watch_iff: "watch_of t = watch_of s \<Longrightarrow> bit (health t) 0 = bit (health s) 0 \<and> udp_state t = udp_state s \<and> udp_pc t = udp_pc s"
  by (simp add: watch_of_def)

lemma device_ok_bc [intro, simp]: "device_ok base s \<Longrightarrow> device_ok base (broadcast_value e s)"
  using relay.broadcasts [of s e] out.broadcasts [of base s e] watch.broadcasts [of s "watch_of s" e]
    fixed.broadcasts [of s "fixtures s" e]
  by (auto simp: device_ok_def fixtures_def dest!: watch_iff)

lemma device_ok_datagram: "device_ok base s \<Longrightarrow> device_ok base (receive_datagram dg s)"
  using relay_udp.datagrams [of s dg] out_udp.datagrams [of base s dg] watch.datagrams [of s "watch_of s" dg]
    fixed_udp.datagrams [of s "fixtures s" dg]
  by (auto simp: device_ok_def fixtures_def dest!: watch_iff)

text \<open>The fields the invariant looks at.\<close>

definition essence :: "'a fws_scheme \<Rightarrow> u8 \<times> bool \<times> buf \<times> udp_datagram list \<times> u8 \<times> udp_handler_event \<times> udp_pc \<times> bool" where
  "essence s = (relay_port s, relay_state s, stack_bytes s, sent s, health s, udp_state s, udp_pc s, out_of_fuel s)"

lemma device_ok_essence: "essence s = essence t \<Longrightarrow> device_ok base t \<Longrightarrow> device_ok base s"
  by (simp add: essence_def device_ok_def relay_ok_def outgoing_def)

lemma essence_leds [simp]:
  "essence (leds_on l s) = essence s" "essence (leds_off l s) = essence s" "essence (relay_leds s) = essence s"
  by (simp_all add: essence_def relay_leds_def leds_on_def leds_off_def show_leds_def leds_arch_set_def)

lemma device_ok_leds [simp]:
  "device_ok base (leds_on l s) = device_ok base s" "device_ok base (relay_leds s) = device_ok base s"
  by (metis device_ok_essence essence_leds)+

lemma device_ok_update [simp]:
  "device_ok base (s\<lparr>metering_power := p\<rparr>) = device_ok base s" "device_ok base (s\<lparr>clock_old := c\<rparr>) = device_ok base s"
  "device_ok base (s\<lparr>metering_pulse_period := c\<rparr>) = device_ok base s" "device_ok base (s\<lparr>last_broadcast := c\<rparr>) = device_ok base s"
  "device_ok base (s\<lparr>metering_calibration := b\<rparr>) = device_ok base s" "device_ok base (s\<lparr>metering_calibration_state := k\<rparr>) = device_ok base s"
  "device_ok base (s\<lparr>metering_stop_timer := t\<rparr>) = device_ok base s" "device_ok base (s\<lparr>metering_reference_value := r\<rparr>) = device_ok base s"
  "device_ok base (s\<lparr>ticks_until_broadcast := k\<rparr>) = device_ok base s" "device_ok base (s\<lparr>last_power := w\<rparr>) = device_ok base s"
  "device_ok base (s\<lparr>metering_pulses := w\<rparr>) = device_ok base s" "device_ok base (s\<lparr>metering_pulses_total := w\<rparr>) = device_ok base s"
  "device_ok base (s\<lparr>ee := e\<rparr>) = device_ok base s" "device_ok base (s\<lparr>button_pushed := k\<rparr>) = device_ok base s"
  "device_ok base (s\<lparr>clicked_vector := k\<rparr>) = device_ok base s" "device_ok base (s\<lparr>pressed_vector := k\<rparr>) = device_ok base s"
  "device_ok base (s\<lparr>hexasense_state := k\<rparr>) = device_ok base s" "device_ok base (s\<lparr>presence := k\<rparr>) = device_ok base s"
  "device_ok base (s\<lparr>global_presence := k\<rparr>) = device_ok base s" "device_ok base (s\<lparr>pd_keep_alive := t\<rparr>) = device_ok base s"
  "device_ok base (s\<lparr>ir_polled := b\<rparr>) = device_ok base s" "device_ok base (s\<lparr>ir_repeat := b\<rparr>) = device_ok base s"
  "device_ok base (s\<lparr>ir_prev_data := bs\<rparr>) = device_ok base s" "device_ok base (s\<lparr>ir_rep_timer := tt\<rparr>) = device_ok base s"
  "device_ok base (s\<lparr>sm_state := ps\<rparr>) = device_ok base s"
  by (simp_all add: device_ok_def relay_ok_def outgoing_def)

lemma device_ok_relay:
  assumes "device_ok base s"
  shows "device_ok base (relay_on broadcast_value s)" "device_ok base (relay_off broadcast_value s)"
proof -
  have "device_ok base (s\<lparr>relay_port := relay_port s OR 8, relay_state := True\<rparr>)"
    "device_ok base (s\<lparr>relay_port := relay_port s AND NOT 8, relay_state := False\<rparr>)"
    using assms relay_ok_set by (simp_all add: device_ok_def outgoing_def)
  then show "device_ok base (relay_on broadcast_value s)" "device_ok base (relay_off broadcast_value s)"
    using assms by (simp_all add: relay_on_def relay_off_def metering_reset_def Let_def)
qed

text \<open>Steps that leave all of this alone.\<close>

lemma essence_ir:
  "essence (next_edge up s) = essence s" "essence (ir_receiver_reset s) = essence s" "essence (next_ir_bit s) = essence s"
  "essence (s\<lparr>ir_time_since_last := t, ir_time := t'\<rparr>) = essence s" "essence (s\<lparr>ir_state := st\<rparr>) = essence s"
  "essence (s\<lparr>ir_state := st, ir_bit := b, ir_byte := b'\<rparr>) = essence s" "essence (s\<lparr>ir_data := d\<rparr>) = essence s"
  "essence (s\<lparr>ir_repeat := r, ir_polled := p\<rparr>) = essence s" "essence (s\<lparr>ir_last_data := d, ir_polled := p\<rparr>) = essence s"
  "essence (s\<lparr>ir_time_since_last := t, ir_time := t', ir_state := st\<rparr>) = essence s"
  "essence (s\<lparr>ir_time_since_last := t, ir_time := t', ir_state := st, ir_bit := b, ir_byte := b'\<rparr>) = essence s"
  "essence (s\<lparr>ir_time_since_last := t, ir_time := t', ir_repeat := r, ir_polled := p\<rparr>) = essence s"
  "essence (s\<lparr>ir_time_since_last := t, ir_time := t', ir_last_data := d, ir_polled := p\<rparr>) = essence s"
  "essence (s\<lparr>ir_time_since_last := t, ir_time := t', ir_data := d\<rparr>) = essence s"
  by (simp_all add: essence_def next_edge_def ir_receiver_reset_def next_ir_bit_def Let_def)

lemma quiet_steps [simp]:
  "essence (datetime_timer_event s) = essence s" "essence (metering_calibration_stop s) = essence s"
  "essence (feedback_event s) = essence s" "essence (no_raw_presence s) = essence s" "essence (INT2_vect s) = essence s"
  "essence (TIMER0_COMPA_vect s) = essence s" "essence (shutter_polled s) = essence s" "essence (shutter_timed_out s) = essence s"
  "essence (shutter_poked s) = essence s"
proof -
  show "essence (datetime_timer_event s) = essence s" "essence (no_raw_presence s) = essence s"
    "essence (TIMER0_COMPA_vect s) = essence s" "essence (shutter_polled s) = essence s" "essence (shutter_timed_out s) = essence s"
    "essence (shutter_poked s) = essence s"
    by (simp_all add: essence_def datetime_timer_event_def no_raw_presence_def TIMER0_COMPA_vect_def shutter_polled_def
        shutter_timed_out_def shutter_poked_def shutter_stop_def Let_def)
  show "essence (metering_calibration_stop s) = essence s"
    using essence_leds(3) [of "lock_calibration 0 s"] by (simp add: metering_calibration_stop_def Let_def essence_def lock_calibration_def)
  show "essence (feedback_event s) = essence s"
    by (simp add: essence_def feedback_event_def feedback_loop_def split: sense_pc.split)
  show "essence (INT2_vect s) = essence s"
    by (simp add: INT2_vect_def Let_def essence_ir split: ir_states.split)
qed

lemma quiet_setup [simp]: "essence (shutter_setup_continue s) = essence s"
proof -
  have t: "essence (shutter_toggle v t) = essence t" for v and t :: "'a fws_scheme"
    by (simp add: essence_def shutter_toggle_def shutter_set_def shutter_open_def shutter_close_def shutter_stop_def Let_def)
  have u: "essence (t\<lparr>shutter_setup := x\<rparr>) = essence t" for x and t :: "'a fws_scheme" by (simp add: essence_def)
  show ?thesis
    by (simp add: shutter_setup_continue_def setup_await_close_def setup_await_open_def setup_finish_def Let_def t u split: setup_pc.split)
qed

section \<open>Every step keeps the invariant\<close>

lemma health_update_fields:
  "relay_ok (health_update b v s) = relay_ok s" "outgoing base (health_update b v s) = outgoing base s"
  "udp_state (health_update b v s) = udp_state s" "udp_pc (health_update b v s) = udp_pc s"
  "out_of_fuel (health_update b v s) = out_of_fuel s"
  by (simp_all add: relay_ok_def outgoing_def health_update_def process_broadcast_def Let_def)

lemma device_ok_announce:
  assumes "device_ok base t" "udp_pc t \<noteq> Udp_Wait_Timer" "v = (u = UDP_HANDLER_DOWN)"
  shows "device_ok base (health_update HE_NO_CONNECTION v (process_broadcast e (t\<lparr>udp_state := u\<rparr>)))"
proof -
  have "bit HE_NO_CONNECTION 0" by (simp add: HE_NO_CONNECTION_def)
  then show ?thesis using assms
    by (simp add: device_ok_def health_update_fields health_bit)
       (simp add: relay_ok_def outgoing_def process_broadcast_def)
qed

lemma device_ok_watch:
  assumes "device_ok base s" "udp_pc s \<noteq> Udp_Wait_Timer"
  shows "device_ok base (check_route s)"
proof -
  let ?t = "reset_unreachable_timer s"
  have "device_ok base ?t"
    by (rule device_ok_essence [OF _ assms(1)]) (simp add: essence_def reset_unreachable_timer_def)
  moreover have "udp_pc ?t \<noteq> Udp_Wait_Timer" using assms(2) by (simp add: reset_unreachable_timer_def)
  ultimately show ?thesis using assms by (simp add: check_route_def Let_def device_ok_announce)
qed

lemma device_ok_udp:
  assumes "device_ok base s"
  shows "device_ok base (udp_thread ev s)"
proof (cases "udp_pc s")
  case Udp_Wait_Timer
  then have u: "udp_state s = UDP_HANDLER_UP" using assms by (simp add: device_ok_def)
  show ?thesis using assms
    by (simp add: udp_thread_def Udp_Wait_Timer)
      (simp add: device_ok_def relay_ok_def outgoing_def process_broadcast_def reset_unreachable_timer_def u)
next
  case Udp_Wait_Event
  have "device_ok base (udphandler ev s)"
    using assms Udp_Wait_Event by (cases ev) (simp_all add: udphandler_def device_ok_watch device_ok_datagram split: option.split)
  then show ?thesis by (simp add: udp_thread_def Udp_Wait_Event device_ok_def relay_ok_def outgoing_def)
next
  case Udp_Paused
  then show ?thesis using assms by (simp add: udp_thread_def device_ok_def relay_ok_def outgoing_def)
qed

lemma device_ok_sm_call:
  assumes "device_ok base s"
  shows "device_ok base (sm_call broadcast_value (fw_write broadcast_value) n data s)"
proof -
  have I: "relay_ok s" "outgoing base s" "watch_of s = watch_of s" "fixtures s = fixtures s" using assms by (simp_all add: device_ok_def)
  note calls = relay.calls [OF I(1)] out.calls [OF I(2)] watch.calls [OF I(3)] fixed.calls [OF I(4)]
  show ?thesis using assms calls [of n data] by (auto simp: device_ok_def fixtures_def dest!: watch_iff)
qed

lemma device_ok_step: "device_step s t \<Longrightarrow> device_ok base s \<Longrightarrow> device_ok base t"
proof (induction rule: device_step.induct)
  case (meter_pulse s)
  then show ?case
    by (simp add: metering_isr_def calibration_pulse_def metering_pulse_def immediate_broadcast_def lock_calibration_def
        Let_def device_ok_relay)
next
  case (button_clicked b s)
  then show ?case by (simp add: sysbutton_clicked_def relay_toggle_def Let_def device_ok_relay)
next
  case (button_calibrates s)
  then show ?case by (simp add: metering_calibrate_def Let_def device_ok_relay)
next
  case (time c u s)
  then show ?case by (rule device_ok_essence [rotated]) (simp add: essence_def)
next
  case (route r s)
  then show ?case by (rule device_ok_essence [rotated]) (simp add: essence_def)
next
  case (route_timer tm s)
  then show ?case by (rule device_ok_essence [rotated]) (simp add: essence_def)
next
  case (update_timer_fires tm s)
  then show ?case by (rule device_ok_essence [rotated]) (simp add: essence_def)
next
  case (sensors x y s)
  then show ?case by (rule device_ok_essence [rotated]) (simp add: essence_def)
next
  case (stack b s)
  then show ?case by (simp add: device_ok_def relay_ok_def outgoing_def)
qed (simp_all add: device_ok_udp device_ok_sm_call hexapush_clicked_def hexapush_pressed_def button1_pressed_def
    button2_pressed_def raw_presence_detected_def no_global_presence_def presence_keep_alive_def ir_process_poll_def Let_def
    device_ok_essence [OF quiet_steps(1)] device_ok_essence [OF quiet_steps(2)] device_ok_essence [OF quiet_steps(3)]
    device_ok_essence [OF quiet_steps(4)] device_ok_essence [OF quiet_steps(5)] device_ok_essence [OF quiet_steps(6)]
    device_ok_essence [OF quiet_steps(7)] device_ok_essence [OF quiet_steps(8)] device_ok_essence [OF quiet_steps(9)]
    device_ok_essence [OF quiet_setup])

section \<open>Properties\<close>

text \<open>C6: Whatever happens to the device, in any order (datagrams, timers, pulses, buttons, remote control, presence,
  the shutter's encoder, a default route that comes and goes), the relay coil agrees with the variable that remembers it,
  everything sent is a well-formed datagram and nothing sent is taken back, the health bit for a missing connection is
  set exactly while the handler's state is DOWN, and the recursion of broadcasts has never been cut off.\<close>

theorem device_safe:
  assumes "device_reachable s t" "wf_packet (stack_bytes s)" "relay_ok s" "\<not> out_of_fuel s"
    and "bit (health s) 0 = (udp_state s = UDP_HANDLER_DOWN)" "udp_state s = UDP_HANDLER_UP"
  shows "relay_ok t \<and> (\<exists>ds. sent t = sent s @ ds \<and> (\<forall>d \<in> set ds. well_formed_datagram d)) \<and>
    bit (health t) 0 = (udp_state t = UDP_HANDLER_DOWN) \<and> \<not> out_of_fuel t"
proof -
  have "device_step\<^sup>*\<^sup>* s t" using assms(1) by (simp add: device_reachable_def)
  moreover have "device_ok (sent s) s" using assms(2-6) by (simp add: device_ok_def outgoing_def)
  ultimately have "device_ok (sent s) t" by (induction rule: rtranclp_induct) (auto intro: device_ok_step)
  then show ?thesis by (simp add: device_ok_def outgoing_def)
qed

theorem device_safe_witness:
  "relay_ok (metering_isr broadcast_value (udp_thread (Ev_Tcpip (Some (query_datagram 1))) (udp_thread Ev_Timer fresh_fws)))"
proof -
  let ?a = "udp_thread Ev_Timer fresh_fws" and ?q = "Ev_Tcpip (Some (query_datagram 1))"
  have "device_step fresh_fws ?a" "device_step ?a (udp_thread ?q ?a)" by (rule device_step.udp_event)+
  moreover have "device_step (udp_thread ?q ?a) (metering_isr broadcast_value (udp_thread ?q ?a))" by (rule device_step.meter_pulse)
  ultimately have "device_reachable fresh_fws (metering_isr broadcast_value (udp_thread ?q ?a))"
    unfolding device_reachable_def by (meson rtranclp.rtrancl_into_rtrancl rtranclp.rtrancl_refl)
  from device_safe [OF this] show ?thesis by (simp add: wf_packet_def relay_ok_def offset_simps)
qed

end
