(* ===== verification/Contiki_List.thy ===== *)
theory Contiki_List
  imports Prelude "HOL-Library.Monad_Syntax"
begin

text \<open>
  Contiki's linked lists (\<^verbatim>\<open>core/lib/list.c\<close>) over an explicit memory: an item is an address, its
  first word is the pointer to the next item. A walk along the pointers does not end on a cyclic
  list, so the loops are partial functions with \<open>None\<close> for not returning; on a list that represents a
  sequence of items every operation returns, and it does to the memory what the operation on the
  sequence does.
\<close>

record 'p linked =
  head :: "'p option"         \<comment> \<open>what the \<open>list_t\<close> points at; \<open>None\<close> is \<open>NULL\<close>\<close>
  link :: "'p \<Rightarrow> 'p option"   \<comment> \<open>the member \<open>next\<close> of every item\<close>

section \<open>Operations\<close>

definition list_init :: "('p, 'z) linked_scheme \<Rightarrow> ('p, 'z) linked_scheme" where
  "list_init s = s\<lparr>head := None\<rparr>"

definition list_head :: "('p, 'z) linked_scheme \<Rightarrow> 'p option" where
  "list_head s = head s"

definition list_copy :: "('p, 'y) linked_scheme \<Rightarrow> ('p, 'z) linked_scheme \<Rightarrow> ('p, 'z) linked_scheme" where
  "list_copy src dest = dest\<lparr>head := head src\<rparr>"

partial_function (option) tail_from :: "('p \<Rightarrow> 'p option) \<Rightarrow> 'p \<Rightarrow> 'p option" where
  "tail_from nx l = (case nx l of None \<Rightarrow> Some l | Some m \<Rightarrow> tail_from nx m)"

definition list_tail :: "('p, 'z) linked_scheme \<Rightarrow> 'p option option" where
  "list_tail s = (case head s of None \<Rightarrow> Some None | Some l \<Rightarrow> map_option Some (tail_from (link s) l))"

text \<open>The loop of \<open>list_remove\<close>; \<open>r\<close> is the item before \<open>l\<close>.\<close>

partial_function (option) remove_from ::
    "'p \<Rightarrow> 'p option \<Rightarrow> 'p option \<Rightarrow> ('p, 'z) linked_scheme \<Rightarrow> ('p, 'z) linked_scheme option" where
  "remove_from item r l s =
     (case l of
        None \<Rightarrow> Some s
      | Some p \<Rightarrow>
          (if p = item then
             (let s = (case r of
                         None \<Rightarrow> s\<lparr>head := link s p\<rparr>
                       | Some q \<Rightarrow> s\<lparr>link := (link s)(q := link s p)\<rparr>)
              in Some (s\<lparr>link := (link s)(p := None)\<rparr>))
           else remove_from item (Some p) (link s p) s))"

definition list_remove :: "'p \<Rightarrow> ('p, 'z) linked_scheme \<Rightarrow> ('p, 'z) linked_scheme option" where
  "list_remove item s = (case head s of None \<Rightarrow> Some s | Some l \<Rightarrow> remove_from item None (Some l) s)"

definition list_add :: "'p \<Rightarrow> ('p, 'z) linked_scheme \<Rightarrow> ('p, 'z) linked_scheme option" where
  "list_add item s =
     do { s \<leftarrow> list_remove item s;
          let s = s\<lparr>link := (link s)(item := None)\<rparr>;
          l \<leftarrow> list_tail s;
          Some (case l of
                  None \<Rightarrow> s\<lparr>head := Some item\<rparr>
                | Some q \<Rightarrow> s\<lparr>link := (link s)(q := Some item)\<rparr>) }"

definition list_push :: "'p \<Rightarrow> ('p, 'z) linked_scheme \<Rightarrow> ('p, 'z) linked_scheme option" where
  "list_push item s =
     do { s \<leftarrow> list_remove item s;
          Some (s\<lparr>link := (link s)(item := head s), head := Some item\<rparr>) }"

text \<open>The loop of \<open>list_chop\<close>, from an item that has a successor.\<close>

partial_function (option) chop_from :: "'p \<Rightarrow> ('p, 'z) linked_scheme \<Rightarrow> ('p option \<times> ('p, 'z) linked_scheme) option" where
  "chop_from l s =
     (case link s l of
        None \<Rightarrow> Some (None, s)
      | Some m \<Rightarrow>
          (case link s m of
             None \<Rightarrow> Some (Some m, s\<lparr>link := (link s)(l := None)\<rparr>)
           | Some _ \<Rightarrow> chop_from m s))"

definition list_chop :: "('p, 'z) linked_scheme \<Rightarrow> ('p option \<times> ('p, 'z) linked_scheme) option" where
  "list_chop s =
     (case head s of
        None \<Rightarrow> Some (None, s)
      | Some l \<Rightarrow> (if link s l = None then Some (Some l, s\<lparr>head := None\<rparr>) else chop_from l s))"

definition list_pop :: "('p, 'z) linked_scheme \<Rightarrow> 'p option \<times> ('p, 'z) linked_scheme" where
  "list_pop s = (case head s of None \<Rightarrow> (None, s) | Some l \<Rightarrow> (Some l, s\<lparr>head := link s l\<rparr>))"

partial_function (option) length_from :: "('p \<Rightarrow> 'p option) \<Rightarrow> 'p option \<Rightarrow> nat \<Rightarrow> nat option" where
  "length_from nx l n = (case l of None \<Rightarrow> Some n | Some p \<Rightarrow> length_from nx (nx p) (n + 1))"

definition list_length :: "('p, 'z) linked_scheme \<Rightarrow> nat option" where
  "list_length s = length_from (link s) (head s) 0"

definition list_insert :: "'p option \<Rightarrow> 'p \<Rightarrow> ('p, 'z) linked_scheme \<Rightarrow> ('p, 'z) linked_scheme option" where
  "list_insert previtem newitem s =
     (case previtem of
        None \<Rightarrow> list_push newitem s
      | Some q \<Rightarrow> (let s = s\<lparr>link := (link s)(newitem := link s q)\<rparr>
                   in Some (s\<lparr>link := (link s)(q := Some newitem)\<rparr>)))"

definition list_item_next :: "'p option \<Rightarrow> ('p, 'z) linked_scheme \<Rightarrow> 'p option" where
  "list_item_next item s = (case item of None \<Rightarrow> None | Some p \<Rightarrow> link s p)"

section \<open>Lists in memory\<close>

text \<open>The pointers from \<open>x\<close> on run through the items \<open>ps\<close> and end in \<open>NULL\<close>.\<close>

fun lseg :: "('p \<Rightarrow> 'p option) \<Rightarrow> 'p option \<Rightarrow> 'p list \<Rightarrow> bool" where
  "lseg nx x [] = (x = None)"
| "lseg nx x (p # ps) = (x = Some p \<and> lseg nx (nx p) ps)"

definition represents :: "('p, 'z) linked_scheme \<Rightarrow> 'p list \<Rightarrow> bool" where
  "represents s ps = lseg (link s) (head s) ps"

lemma lseg_unique: "lseg nx x ps \<Longrightarrow> lseg nx x qs \<Longrightarrow> ps = qs"
  by (induction ps arbitrary: x qs) (case_tac qs; auto)+

lemma lseg_update [simp]: "p \<notin> set ps \<Longrightarrow> lseg (nx(p := y)) x ps = lseg nx x ps"
  by (induction ps arbitrary: x) auto

lemma lseg_None [simp]: "lseg nx None ps = (ps = [])"
  by (cases ps) auto

lemma lseg_Some: "lseg nx (Some p) ps = (\<exists>qs. ps = p # qs \<and> lseg nx (nx p) qs)"
  by (cases ps) auto

text \<open>A part of a list up to an item \<open>y\<close>.\<close>

fun path :: "('p \<Rightarrow> 'p option) \<Rightarrow> 'p option \<Rightarrow> 'p list \<Rightarrow> 'p option \<Rightarrow> bool" where
  "path nx x [] y = (x = y)"
| "path nx x (p # ps) y = (x = Some p \<and> path nx (nx p) ps y)"

lemma path_append: "path nx x (ps @ qs) y = (\<exists>z. path nx x ps z \<and> path nx z qs y)"
  by (induction ps arbitrary: x) auto

lemma lseg_path: "lseg nx x ps = path nx x ps None"
  by (induction ps arbitrary: x) auto

lemma lseg_append: "lseg nx x (ps @ qs) = (\<exists>z. path nx x ps z \<and> lseg nx z qs)"
  by (simp add: lseg_path path_append)

lemma path_update [simp]: "p \<notin> set ps \<Longrightarrow> path (nx(p := y)) x ps z = path nx x ps z"
  by (induction ps arbitrary: x) auto

lemma lseg_distinct: "lseg nx x ps \<Longrightarrow> distinct ps"
proof (induction ps arbitrary: x)
  case (Cons p ps)
  have "p \<notin> set ps"
  proof
    assume "p \<in> set ps"
    then obtain as bs where ps: "ps = as @ p # bs" by (auto simp: in_set_conv_decomp)
    with Cons.prems have "lseg nx (Some p) (p # bs)" "lseg nx (Some p) (p # as @ p # bs)" by (auto simp: lseg_append)
    then have "p # bs = p # as @ p # bs" by (rule lseg_unique)
    then show False by simp
  qed
  then show ?case using Cons by auto
qed simp

lemma represents_distinct: "represents s ps \<Longrightarrow> distinct ps"
  unfolding represents_def by (rule lseg_distinct)

section \<open>What the operations do to a represented list\<close>

definition unlink :: "'p option \<Rightarrow> 'p \<Rightarrow> ('p, 'z) linked_scheme \<Rightarrow> ('p, 'z) linked_scheme" where
  "unlink r p s =
     (let s = (case r of None \<Rightarrow> s\<lparr>head := link s p\<rparr> | Some q \<Rightarrow> s\<lparr>link := (link s)(q := link s p)\<rparr>)
      in s\<lparr>link := (link s)(p := None)\<rparr>)"

lemma remove_from_absent: "lseg (link s) l ps \<Longrightarrow> item \<notin> set ps \<Longrightarrow> remove_from item r l s = Some s"
proof (induction ps arbitrary: l r)
  case (Cons a ps)
  then have "remove_from item r l s = remove_from item (Some a) (link s a) s" by (auto simp: remove_from.simps [of item r])
  then show ?case using Cons by simp
qed (simp add: remove_from.simps)

lemma remove_from_present:
  "lseg (link s) l (as @ item # bs) \<Longrightarrow> item \<notin> set as \<Longrightarrow>
     remove_from item r l s = Some (unlink (if as = [] then r else Some (last as)) item s)"
proof (induction as arbitrary: l r)
  case Nil
  then show ?case by (simp add: remove_from.simps unlink_def Let_def)
next
  case (Cons a as)
  then have "remove_from item r l s = remove_from item (Some a) (link s a) s"
    by (auto simp: remove_from.simps [of item r])
  then show ?case using Cons by simp
qed

lemma path_last:
  assumes "path nx x (as @ [a]) y" "a \<notin> set as"
  shows "path (nx(a := z)) x (as @ [a]) z"
proof -
  from assms(1) obtain w where w: "path nx x as w" "w = Some a" by (auto simp: path_append)
  then show ?thesis using assms(2) by (auto simp: path_append)
qed

lemma unlink_represents:
  assumes "represents s (as @ item # bs)"
  shows "represents (unlink (if as = [] then None else Some (last as)) item s) (as @ bs)"
proof -
  let ?nx = "link s"
  have d: "distinct (as @ item # bs)" using assms unfolding represents_def by (rule lseg_distinct)
  obtain z where z: "path ?nx (head s) as z" "lseg ?nx z (item # bs)" using assms by (auto simp: represents_def lseg_append)
  show ?thesis
  proof (cases as rule: rev_cases)
    case Nil
    then show ?thesis using z d by (simp add: represents_def unlink_def)
  next
    case (snoc as' q)
    have "path (?nx(q := ?nx item)) (head s) (as' @ [q]) (?nx item)"
      using path_last [of ?nx "head s" as' q z] z(1) d by (simp add: snoc)
    then have "path (?nx(q := ?nx item, item := None)) (head s) (as' @ [q]) (?nx item)"
      using d snoc by (subst path_update) auto
    moreover have "lseg (?nx(q := ?nx item, item := None)) (?nx item) bs" using z(2) d snoc by simp
    ultimately show ?thesis by (auto simp: represents_def unlink_def snoc lseg_append path_append)
  qed
qed

lemma unlink_link: "link (unlink r p s) q = (if q = p then None else if r = Some q then link s p else link s q)"
  by (auto simp: unlink_def Let_def split: option.split)

lemma list_remove_represents:
  assumes "represents s ps"
  shows "\<exists>s'. list_remove item s = Some s' \<and> represents s' (remove1 item ps) \<and>
    (\<forall>q. q \<notin> set ps \<longrightarrow> link s' q = link s q)"
proof (cases "item \<in> set ps")
  case False
  then show ?thesis using assms remove_from_absent [of s "head s" ps item None]
    by (auto simp: list_remove_def represents_def remove1_idem split: option.split)
next
  case True
  then obtain as bs where ps: "ps = as @ item # bs" "item \<notin> set as" by (meson split_list_first)
  let ?r = "if as = [] then None else Some (last as)"
  have "head s \<noteq> None" using assms ps(1) by (cases as) (auto simp: represents_def)
  then have "list_remove item s = Some (unlink ?r item s)"
    using remove_from_present [of s "head s" as item bs None] assms ps by (auto simp: list_remove_def represents_def)
  moreover have "represents (unlink ?r item s) (remove1 item ps)"
    using unlink_represents [of s as item bs] assms ps by (simp add: remove1_append)
  moreover have "\<forall>q. q \<notin> set ps \<longrightarrow> link (unlink ?r item s) q = link s q" using ps by (auto simp: unlink_link)
  ultimately show ?thesis by blast
qed

lemma tail_from_last: "lseg nx (Some p) (p # ps) \<Longrightarrow> tail_from nx p = Some (last (p # ps))"
  by (induction ps arbitrary: p) (auto simp: tail_from.simps)

lemma list_tail_represents: "represents s ps \<Longrightarrow> list_tail s = Some (if ps = [] then None else Some (last ps))"
  using tail_from_last [of "link s"] by (cases ps) (auto simp: list_tail_def represents_def)

lemma list_add_represents:
  assumes "represents s ps"
  shows "\<exists>s'. list_add item s = Some s' \<and> represents s' (remove1 item ps @ [item]) \<and>
    (\<forall>q. q \<notin> set ps \<and> q \<noteq> item \<longrightarrow> link s' q = link s q)"
proof -
  let ?qs = "remove1 item ps"
  obtain t where t: "list_remove item s = Some t" "represents t ?qs" "\<forall>q. q \<notin> set ps \<longrightarrow> link t q = link s q"
    using list_remove_represents [OF assms] by blast
  have d: "item \<notin> set ?qs" using lseg_distinct assms by (force simp: represents_def)
  let ?t = "t\<lparr>link := (link t)(item := None)\<rparr>"
  have rt: "represents ?t ?qs" using t(2) d by (simp add: represents_def)
  show ?thesis
  proof (cases ?qs rule: rev_cases)
    case Nil
    then have "list_add item s = Some (?t\<lparr>head := Some item\<rparr>)"
      using t(1) list_tail_represents [OF rt] by (simp add: list_add_def)
    moreover have "represents (?t\<lparr>head := Some item\<rparr>) (?qs @ [item])" by (simp add: Nil represents_def)
    ultimately show ?thesis using t(3) by auto
  next
    case (snoc as q)
    let ?u = "?t\<lparr>link := (link ?t)(q := Some item)\<rparr>"
    have "list_add item s = Some ?u" using t(1) list_tail_represents [OF rt] by (simp add: list_add_def snoc)
    moreover have "q \<notin> set as" "q \<noteq> item" "q \<in> set ps"
      using lseg_distinct [OF rt [unfolded represents_def]] d snoc set_remove1_subset [of item ps] by auto
    moreover have "path (link ?t) (head ?t) (as @ [q]) None" using rt unfolding represents_def lseg_path snoc .
    then have "path (link ?u) (head ?u) (as @ [q]) (Some item)" using path_last \<open>q \<notin> set as\<close> by fastforce
    then have "represents ?u (?qs @ [item])" using \<open>q \<noteq> item\<close> by (simp add: represents_def snoc lseg_append path_append)
    ultimately show ?thesis using t(3) by (intro exI [of _ ?u]) auto
  qed
qed

lemma list_push_represents:
  assumes "represents s ps"
  shows "\<exists>s'. list_push item s = Some s' \<and> represents s' (item # remove1 item ps) \<and>
    (\<forall>q. q \<notin> set ps \<and> q \<noteq> item \<longrightarrow> link s' q = link s q)"
proof -
  obtain t where t: "list_remove item s = Some t" "represents t (remove1 item ps)" "\<forall>q. q \<notin> set ps \<longrightarrow> link t q = link s q"
    using list_remove_represents [OF assms] by blast
  have "item \<notin> set (remove1 item ps)" using lseg_distinct assms by (force simp: represents_def)
  then show ?thesis using t by (auto simp: list_push_def represents_def)
qed

lemma chop_from_last:
  "lseg (link s) (Some l) (l # as @ [z]) \<Longrightarrow>
     chop_from l s = Some (Some z, s\<lparr>link := (link s)(last (l # as) := None)\<rparr>)"
proof (induction as arbitrary: l)
  case Nil
  then have "link s l = Some z" "link s z = None" by simp_all
  then show ?case by (subst chop_from.simps) simp
next
  case (Cons a as)
  then have l: "link s l = Some a" "link s a \<noteq> None" by (cases as; auto)+
  then have "chop_from l s = chop_from a s" by (auto simp: chop_from.simps [of l])
  then show ?case using Cons l by simp
qed

lemma list_chop_represents:
  assumes "represents s ps"
  shows "\<exists>s'. list_chop s = Some (if ps = [] then None else Some (last ps), s') \<and> represents s' (butlast ps)"
proof (cases ps rule: rev_cases)
  case Nil
  then show ?thesis using assms by (simp add: list_chop_def represents_def)
next
  case (snoc qs z)
  have d: "distinct ps" using assms unfolding represents_def by (rule lseg_distinct)
  show ?thesis
  proof (cases qs)
    case Nil
    then show ?thesis using assms snoc by (auto simp: list_chop_def represents_def)
  next
    case (Cons l as)
    let ?s = "s\<lparr>link := (link s)(last qs := None)\<rparr>"
    have h: "head s = Some l" "lseg (link s) (Some l) (l # as @ [z])" "link s l \<noteq> None"
      using assms snoc Cons by (cases as; auto simp: represents_def)+
    from h(1,3) have "list_chop s = chop_from l s" by (auto simp: list_chop_def)
    then have "list_chop s = Some (Some z, ?s)" using chop_from_last [OF h(2)] by (simp add: Cons)
    moreover have "represents ?s qs"
    proof -
      have "qs = butlast qs @ [last qs]" using Cons by simp
      moreover obtain y where "path (link s) (head s) qs y" using assms by (auto simp: represents_def snoc lseg_append)
      moreover have "last qs \<notin> set (butlast qs)" using d snoc calculation(1) by (metis distinct_append not_distinct_conv_prefix)
      ultimately show ?thesis unfolding represents_def lseg_path by (metis linked.select_convs(1,2) linked.surjective linked.update_convs(2) path_last)
    qed
    ultimately show ?thesis by (auto simp: snoc)
  qed
qed

lemma list_pop_represents:
  assumes "represents s ps"
  shows "fst (list_pop s) = (if ps = [] then None else Some (hd ps)) \<and> represents (snd (list_pop s)) (tl ps)"
  using assms by (cases ps) (auto simp: list_pop_def represents_def)

lemma length_from_eq: "lseg nx l ps \<Longrightarrow> length_from nx l n = Some (n + length ps)"
  by (induction ps arbitrary: l n) (simp_all add: length_from.simps)

lemma list_length_represents: "represents s ps \<Longrightarrow> list_length s = Some (length ps)"
  by (simp add: list_length_def represents_def length_from_eq)

lemma list_insert_represents:
  assumes "represents s (as @ q # bs)" "new \<notin> set (as @ q # bs)"
  shows "\<exists>s'. list_insert (Some q) new s = Some s' \<and> represents s' (as @ q # new # bs)"
proof -
  let ?l = "(link s)(new := link s q, q := Some new)"
  have d: "distinct (as @ q # bs)" using assms(1) unfolding represents_def by (rule lseg_distinct)
  obtain z where z: "path (link s) (head s) as z" "z = Some q" "lseg (link s) (link s q) bs"
    using assms(1) by (auto simp: represents_def lseg_append)
  have "path ?l (head s) as z" using z(1) assms(2) d by (subst path_update; auto)
  moreover have "lseg ?l (link s q) bs" using z(3) assms(2) d by (subst lseg_update; auto)
  moreover have "q \<noteq> new" using assms(2) by auto
  ultimately have "represents (s\<lparr>link := ?l\<rparr>) (as @ q # new # bs)" using z(2) by (auto simp: represents_def lseg_append)
  then show ?thesis by (simp add: list_insert_def)
qed

section \<open>The interface\<close>

text \<open>What the users of a list rely on, whatever the memory looks like: \<open>holds s ps\<close> says which items, in which
  order; \<open>succ\<close> is the next item of a walk.\<close>

locale item_list =
  fixes holds :: "'s \<Rightarrow> 'p list \<Rightarrow> bool"
    and first :: "'s \<Rightarrow> 'p option" and succ :: "'s \<Rightarrow> 'p \<Rightarrow> 'p option"
    and add :: "'p \<Rightarrow> 's \<Rightarrow> 's option" and remove :: "'p \<Rightarrow> 's \<Rightarrow> 's option"
  assumes holds_distinct: "holds s ps \<Longrightarrow> distinct ps"
    and first_item: "holds s ps \<Longrightarrow> first s = (case ps of [] \<Rightarrow> None | p # _ \<Rightarrow> Some p)"
    and next_item: "holds s (as @ p # bs) \<Longrightarrow> succ s p = (case bs of [] \<Rightarrow> None | q # _ \<Rightarrow> Some q)"
    and add_item: "holds s ps \<Longrightarrow> \<exists>s'. add p s = Some s' \<and> holds s' (remove1 p ps @ [p])"
    and remove_item: "holds s ps \<Longrightarrow> \<exists>s'. remove p s = Some s' \<and> holds s' (remove1 p ps)"
begin

text \<open>Removing an item and adding it again, as timers do, puts it at the end.\<close>

lemma move_to_end:
  assumes "holds s ps"
  shows "\<exists>s1 s2. remove p s = Some s1 \<and> add p s1 = Some s2 \<and> holds s2 (remove1 p ps @ [p])"
proof -
  obtain s1 where s1: "remove p s = Some s1" "holds s1 (remove1 p ps)" using remove_item [OF assms] by blast
  have "p \<notin> set (remove1 p ps)" using holds_distinct [OF assms] by auto
  then have "remove1 p (remove1 p ps) = remove1 p ps" by (simp add: remove1_idem)
  with add_item [OF s1(2), of p] s1(1) show ?thesis by auto
qed

text \<open>Adding a sequence of items keeps every item at the place of its last addition.\<close>

lemma add_all:
  "holds s ps \<Longrightarrow> \<exists>s'. fold (\<lambda>p so. Option.bind so (add p)) xs (Some s) = Some s' \<and>
     holds s' (fold (\<lambda>p ps. remove1 p ps @ [p]) xs ps)"
proof (induction xs arbitrary: s ps)
  case (Cons x xs)
  then obtain t where "add x s = Some t" "holds t (remove1 x ps @ [x])" using add_item by blast
  with Cons.IH [OF this(2)] show ?case by simp
qed auto

end

lemma represents_walk:
  "represents s ps \<Longrightarrow> list_head s = (case ps of [] \<Rightarrow> None | p # _ \<Rightarrow> Some p)"
  "represents s (as @ p # bs) \<Longrightarrow> link s p = (case bs of [] \<Rightarrow> None | q # _ \<Rightarrow> Some q)"
  by (cases ps; simp add: list_head_def represents_def) (cases bs; auto simp: represents_def lseg_append)

lemma represents_changes:
  "represents s ps \<Longrightarrow> \<exists>t. list_add p s = Some t \<and> represents t (remove1 p ps @ [p])"
  "represents s ps \<Longrightarrow> \<exists>t. list_remove p s = Some t \<and> represents t (remove1 p ps)"
  using list_add_represents [of s ps p] list_remove_represents [of s ps p] by auto

interpretation clist: item_list represents list_head link list_add list_remove
  by unfold_locales (rule represents_walk represents_changes represents_distinct, assumption)+

section \<open>Properties\<close>



end
