(* ===== verification/Contiki_Process.thy ===== *)
theory Contiki_Process
  imports Contiki_List
begin

text \<open>
  The process kernel of Contiki (\<^verbatim>\<open>core/sys/process.c\<close>): the list of processes, the ring of queued
  events, and the calls of process threads, which call the kernel back. A thread is a script: it
  computes on its own state and stops for every kernel call, whose result it gets. Threads are the
  applications' code, an argument of the kernel here.

  Threads may start, stop and call one another without end, and the kernel walks along pointers that
  a thread may change meanwhile. All functions that can run a thread take fuel; \<open>None\<close> is a run that
  was not over when the fuel was spent, and more fuel never changes another result.
\<close>

definition PROCESS_CONF_NUMEVENTS :: nat where "PROCESS_CONF_NUMEVENTS = 32"
definition EVENT_INIT :: u8 where "EVENT_INIT = 0x81"
definition EVENT_POLL :: u8 where "EVENT_POLL = 0x82"
definition EVENT_EXIT :: u8 where "EVENT_EXIT = 0x83"
definition EVENT_EXITED :: u8 where "EVENT_EXITED = 0x87"
definition EVENT_TIMER :: u8 where "EVENT_TIMER = 0x88"
definition EVENT_MAX :: u8 where "EVENT_MAX = 0x8a"
definition STATE_NONE :: u8 where "STATE_NONE = 0"
definition STATE_RUNNING :: u8 where "STATE_RUNNING = 1"
definition STATE_CALLED :: u8 where "STATE_CALLED = 2"

text \<open>Event data is a pointer: \<open>NULL\<close>, a process, a timer, or data of the application.\<close>

datatype 'a pdata = No_Data | Process nat | Etimer nat | Data 'a

record 'a event =
  ev :: u8
  data :: "'a pdata"
  receiver :: "nat option"   \<comment> \<open>\<open>None\<close> is \<open>PROCESS_BROADCAST\<close>\<close>

record ('a, 'u) kern =
  process_list :: "nat option"
  pnext :: "nat \<Rightarrow> nat option"
  state :: "nat \<Rightarrow> u8"
  needspoll :: "nat \<Rightarrow> bool"
  process_current :: "nat option"
  last_event :: u8
  events :: "'a event list"
  nevents :: u8
  fevent :: u8
  poll_requested :: bool
  user :: 'u                  \<comment> \<open>the state of the applications and their threads\<close>

section \<open>The event queue\<close>

text \<open>\<open>PROCESS_ERR_OK\<close> is \<open>True\<close>, \<open>PROCESS_ERR_FULL\<close> is \<open>False\<close>.\<close>

definition process_post :: "nat option \<Rightarrow> u8 \<Rightarrow> 'a pdata \<Rightarrow> ('a, 'u, 'z) kern_scheme \<Rightarrow> bool \<times> ('a, 'u, 'z) kern_scheme" where
  "process_post p e d s =
     (if unat (nevents s) = PROCESS_CONF_NUMEVENTS then (False, s)
      else (let snum = unat (fevent s + nevents s) mod PROCESS_CONF_NUMEVENTS
            in (True, s\<lparr>events := (events s)[snum := \<lparr>ev = e, data = d, receiver = p\<rparr>], nevents := nevents s + 1\<rparr>)))"

text \<open>The first part of \<open>do_event\<close>: take the first event off the queue.\<close>

definition take_event :: "('a, 'u, 'z) kern_scheme \<Rightarrow> ('a event \<times> ('a, 'u, 'z) kern_scheme) option" where
  "take_event s =
     (if nevents s > 0 then
        Some (events s ! unat (fevent s),
              s\<lparr>fevent := of_nat ((unat (fevent s) + 1) mod PROCESS_CONF_NUMEVENTS), nevents := nevents s - 1\<rparr>)
      else None)"

definition process_nevents :: "('a, 'u, 'z) kern_scheme \<Rightarrow> nat" where
  "process_nevents s = unat (nevents s) + (if poll_requested s then 1 else 0)"

definition process_poll :: "nat option \<Rightarrow> ('a, 'u, 'z) kern_scheme \<Rightarrow> ('a, 'u, 'z) kern_scheme" where
  "process_poll p s =
     (case p of
        None \<Rightarrow> s
      | Some q \<Rightarrow> (if state s q = STATE_RUNNING \<or> state s q = STATE_CALLED
                   then s\<lparr>needspoll := (needspoll s)(q := True), poll_requested := True\<rparr> else s))"

definition process_is_running :: "nat \<Rightarrow> ('a, 'u, 'z) kern_scheme \<Rightarrow> bool" where
  "process_is_running p s = (state s p \<noteq> STATE_NONE)"

definition alloc_event :: "('a, 'u, 'z) kern_scheme \<Rightarrow> u8 \<times> ('a, 'u, 'z) kern_scheme" where
  "alloc_event s = (last_event s, s\<lparr>last_event := last_event s + 1\<rparr>)"

definition process_init :: "('a, 'u, 'z) kern_scheme \<Rightarrow> ('a, 'u, 'z) kern_scheme" where
  "process_init s = s\<lparr>last_event := EVENT_MAX, nevents := 0, fevent := 0, process_current := None, process_list := None\<rparr>"

section \<open>Threads\<close>

text \<open>The values of \<open>PT_WAITING\<close>, \<open>PT_YIELDED\<close>, \<open>PT_EXITED\<close>, \<open>PT_ENDED\<close>.\<close>

definition PT_WAITING :: nat where "PT_WAITING = 0"
definition PT_YIELDED :: nat where "PT_YIELDED = 1"
definition PT_EXITED :: nat where "PT_EXITED = 2"
definition PT_ENDED :: nat where "PT_ENDED = 3"

datatype 'a kcall =
  K_post "nat option" u8 "'a pdata"
| K_post_synch nat u8 "'a pdata"
| K_start nat "'a pdata"
| K_exit nat
| K_poll nat
| K_alloc_event
| K_is_running nat

text \<open>A thread stops for a call with its state so far and goes on with the state and the result after it.\<close>

datatype ('a, 'u) script =
  Return nat 'u
| Call "'a kcall" 'u "'u \<Rightarrow> nat \<Rightarrow> ('a, 'u) script"

record ('a, 'u) program =
  thread :: "nat \<Rightarrow> (u8 \<Rightarrow> 'a pdata \<Rightarrow> 'u \<Rightarrow> ('a, 'u) script) option"   \<comment> \<open>\<open>None\<close> is a null pointer\<close>
  pt_init :: "nat \<Rightarrow> 'u \<Rightarrow> 'u"

section \<open>Walks along the process list\<close>

partial_function (option) on_list :: "(nat \<Rightarrow> nat option) \<Rightarrow> nat option \<Rightarrow> nat \<Rightarrow> bool option" where
  "on_list nx q p =
     (case q of None \<Rightarrow> Some False | Some x \<Rightarrow> (if x = p then Some True else on_list nx (nx x) p))"

partial_function (option) unlink_after :: "(nat \<Rightarrow> nat option) \<Rightarrow> nat option \<Rightarrow> nat \<Rightarrow> (nat \<Rightarrow> nat option) option" where
  "unlink_after nx q p =
     (case q of
        None \<Rightarrow> Some nx
      | Some x \<Rightarrow> (if nx x = Some p then Some (nx(x := nx p)) else unlink_after nx (nx x) p))"

definition unlink_process :: "nat \<Rightarrow> ('a, 'u, 'z) kern_scheme \<Rightarrow> ('a, 'u, 'z) kern_scheme option" where
  "unlink_process p s =
     (if process_list s = Some p then Some (s\<lparr>process_list := pnext s p\<rparr>)
      else map_option (\<lambda>nx. s\<lparr>pnext := nx\<rparr>) (unlink_after (pnext s) (process_list s) p))"

section \<open>Calling threads\<close>

text \<open>
  The functions of the kernel that may run a thread, and so each other: a task is a call of one of
  them. Each body gets the function \<open>go\<close> that runs further tasks, with less fuel; the number in the
  result is the C result where there is one.
\<close>

datatype ('a, 'u) task =
  Call_Process nat u8 "'a pdata"
| Exit_Process nat "nat option"
| Tell_Exited nat "nat option"
| Run_Script "('a, 'u) script"
| Kernel_Call "'a kcall"

type_synonym ('a, 'u, 's) runner = "('a, 'u) task \<Rightarrow> 's \<Rightarrow> (nat \<times> 's) option"

definition call_process ::
    "('a, 'u, ('a, 'u, 'z) kern_scheme) runner \<Rightarrow> ('a, 'u) program \<Rightarrow> nat \<Rightarrow> u8 \<Rightarrow> 'a pdata \<Rightarrow>
     ('a, 'u, 'z) kern_scheme \<Rightarrow> (nat \<times> ('a, 'u, 'z) kern_scheme) option" where
  "call_process go P p e d s =
     (case thread P p of
        None \<Rightarrow> Some (0, s)
      | Some th \<Rightarrow>
          (if state s p AND STATE_RUNNING \<noteq> 0 then
             do { (ret, s) \<leftarrow> go (Run_Script (th e d (user s)))
                    (s\<lparr>process_current := Some p, state := (state s)(p := STATE_CALLED)\<rparr>);
                  if ret = PT_EXITED \<or> ret = PT_ENDED \<or> e = EVENT_EXIT then go (Exit_Process p (Some p)) s
                  else Some (0, s\<lparr>state := (state s)(p := STATE_RUNNING)\<rparr>) }
           else Some (0, s)))"

definition exit_process ::
    "('a, 'u, ('a, 'u, 'z) kern_scheme) runner \<Rightarrow> ('a, 'u) program \<Rightarrow> nat \<Rightarrow> nat option \<Rightarrow>
     ('a, 'u, 'z) kern_scheme \<Rightarrow> (nat \<times> ('a, 'u, 'z) kern_scheme) option" where
  "exit_process go P p from s =
     do { found \<leftarrow> on_list (pnext s) (process_list s) p;
          if \<not> found then Some (0, s)
          else do {
            let old = process_current s;
            s \<leftarrow> (if process_is_running p s then
                    do { (_, s) \<leftarrow> go (Tell_Exited p (process_list s)) (s\<lparr>state := (state s)(p := STATE_NONE)\<rparr>);
                         (case thread P p of
                            Some th \<Rightarrow>
                              (if Some p \<noteq> from
                               then map_option snd (go (Run_Script (th EVENT_EXIT No_Data (user s))) (s\<lparr>process_current := Some p\<rparr>))
                               else Some s)
                          | None \<Rightarrow> Some s) }
                  else Some s);
            s \<leftarrow> unlink_process p s;
            Some (0, s\<lparr>process_current := old\<rparr>) } }"

text \<open>The loop that informs the other processes.\<close>

definition tell_exited ::
    "('a, 'u, ('a, 'u, 'z) kern_scheme) runner \<Rightarrow> nat \<Rightarrow> nat option \<Rightarrow>
     ('a, 'u, 'z) kern_scheme \<Rightarrow> (nat \<times> ('a, 'u, 'z) kern_scheme) option" where
  "tell_exited go p q s =
     (case q of
        None \<Rightarrow> Some (0, s)
      | Some x \<Rightarrow>
          do { (_, s) \<leftarrow> (if p \<noteq> x then go (Call_Process x EVENT_EXITED (Process p)) s else Some (0, s));
               go (Tell_Exited p (pnext s x)) s })"

definition process_post_synch ::
    "('a, 'u, ('a, 'u, 'z) kern_scheme) runner \<Rightarrow> nat \<Rightarrow> u8 \<Rightarrow> 'a pdata \<Rightarrow>
     ('a, 'u, 'z) kern_scheme \<Rightarrow> (nat \<times> ('a, 'u, 'z) kern_scheme) option" where
  "process_post_synch go p e d s =
     (let caller = process_current s
      in map_option (\<lambda>(_, s). (0, s\<lparr>process_current := caller\<rparr>)) (go (Call_Process p e d) s))"

definition process_start ::
    "('a, 'u, ('a, 'u, 'z) kern_scheme) runner \<Rightarrow> ('a, 'u) program \<Rightarrow> nat \<Rightarrow> 'a pdata \<Rightarrow>
     ('a, 'u, 'z) kern_scheme \<Rightarrow> (nat \<times> ('a, 'u, 'z) kern_scheme) option" where
  "process_start go P p arg s =
     do { found \<leftarrow> on_list (pnext s) (process_list s) p;
          if found then Some (0, s)
          else (let s = s\<lparr>pnext := (pnext s)(p := process_list s)\<rparr>;
                    s = s\<lparr>process_list := Some p, state := (state s)(p := STATE_RUNNING), user := pt_init P p (user s)\<rparr>
                in process_post_synch go p EVENT_INIT arg s) }"

definition process_exit ::
    "('a, 'u, ('a, 'u, 'z) kern_scheme) runner \<Rightarrow> nat \<Rightarrow>
     ('a, 'u, 'z) kern_scheme \<Rightarrow> (nat \<times> ('a, 'u, 'z) kern_scheme) option" where
  "process_exit go p s = go (Exit_Process p (process_current s)) s"

definition kernel_call ::
    "('a, 'u, ('a, 'u, 'z) kern_scheme) runner \<Rightarrow> ('a, 'u) program \<Rightarrow> 'a kcall \<Rightarrow>
     ('a, 'u, 'z) kern_scheme \<Rightarrow> (nat \<times> ('a, 'u, 'z) kern_scheme) option" where
  "kernel_call go P c s =
     (case c of
        K_post p e d \<Rightarrow> (let (ok, s) = process_post p e d s in Some (if ok then 0 else 1, s))
      | K_post_synch p e d \<Rightarrow> process_post_synch go p e d s
      | K_start p arg \<Rightarrow> process_start go P p arg s
      | K_exit p \<Rightarrow> process_exit go p s
      | K_poll p \<Rightarrow> Some (0, process_poll (Some p) s)
      | K_alloc_event \<Rightarrow> (let (e, s) = alloc_event s in Some (unat e, s))
      | K_is_running p \<Rightarrow> Some (if process_is_running p s then 1 else 0, s))"

text \<open>A thread runs from kernel call to kernel call until it returns.\<close>

definition run_script ::
    "('a, 'u, ('a, 'u, 'z) kern_scheme) runner \<Rightarrow> ('a, 'u) script \<Rightarrow>
     ('a, 'u, 'z) kern_scheme \<Rightarrow> (nat \<times> ('a, 'u, 'z) kern_scheme) option" where
  "run_script go scr s =
     (case scr of
        Return r u \<Rightarrow> Some (r, s\<lparr>user := u\<rparr>)
      | Call c u k \<Rightarrow>
          do { (r, s) \<leftarrow> go (Kernel_Call c) (s\<lparr>user := u\<rparr>);
               go (Run_Script (k (user s) r)) s })"

definition run_task ::
    "('a, 'u, ('a, 'u, 'z) kern_scheme) runner \<Rightarrow> ('a, 'u) program \<Rightarrow> ('a, 'u, ('a, 'u, 'z) kern_scheme) runner" where
  "run_task go P t s =
     (case t of
        Call_Process p e d \<Rightarrow> call_process go P p e d s
      | Exit_Process p from \<Rightarrow> exit_process go P p from s
      | Tell_Exited p q \<Rightarrow> tell_exited go p q s
      | Run_Script scr \<Rightarrow> run_script go scr s
      | Kernel_Call c \<Rightarrow> kernel_call go P c s)"

primrec exec :: "nat \<Rightarrow> ('a, 'u) program \<Rightarrow> ('a, 'u, ('a, 'u, 'z) kern_scheme) runner" where
  "exec 0 P t s = None"
| "exec (Suc n) P t s = run_task (exec n P) P t s"

section \<open>The scheduler\<close>

fun poll_from :: "nat \<Rightarrow> ('a, 'u) program \<Rightarrow> nat option \<Rightarrow> ('a, 'u, 'z) kern_scheme \<Rightarrow> ('a, 'u, 'z) kern_scheme option" where
  "poll_from 0 P q s = None"
| "poll_from (Suc n) P q s =
     (case q of
        None \<Rightarrow> Some s
      | Some p \<Rightarrow>
          do { (_, s) \<leftarrow> (if needspoll s p
                     then exec n P (Call_Process p EVENT_POLL No_Data)
                            (s\<lparr>state := (state s)(p := STATE_RUNNING), needspoll := (needspoll s)(p := False)\<rparr>)
                     else Some (0, s));
               poll_from n P (pnext s p) s })"

definition do_poll :: "nat \<Rightarrow> ('a, 'u) program \<Rightarrow> ('a, 'u, 'z) kern_scheme \<Rightarrow> ('a, 'u, 'z) kern_scheme option" where
  "do_poll n P s = poll_from n P (process_list s) (s\<lparr>poll_requested := False\<rparr>)"

text \<open>The loop over all processes for a broadcast event, polling in between.\<close>

fun deliver_from :: "nat \<Rightarrow> ('a, 'u) program \<Rightarrow> nat option \<Rightarrow> u8 \<Rightarrow> 'a pdata \<Rightarrow> ('a, 'u, 'z) kern_scheme \<Rightarrow> ('a, 'u, 'z) kern_scheme option" where
  "deliver_from 0 P q e d s = None"
| "deliver_from (Suc n) P q e d s =
     (case q of
        None \<Rightarrow> Some s
      | Some p \<Rightarrow>
          do { s \<leftarrow> (if poll_requested s then do_poll n P s else Some s);
               (_, s) \<leftarrow> exec n P (Call_Process p e d) s;
               deliver_from n P (pnext s p) e d s })"

definition do_event :: "nat \<Rightarrow> ('a, 'u) program \<Rightarrow> ('a, 'u, 'z) kern_scheme \<Rightarrow> ('a, 'u, 'z) kern_scheme option" where
  "do_event n P s =
     (case take_event s of
        None \<Rightarrow> Some s
      | Some (x, s) \<Rightarrow>
          (case receiver x of
             None \<Rightarrow> deliver_from n P (process_list s) (ev x) (data x) s
           | Some p \<Rightarrow> map_option snd (exec n P (Call_Process p (ev x) (data x))
               (if ev x = EVENT_INIT then s\<lparr>state := (state s)(p := STATE_RUNNING)\<rparr> else s))))"

definition process_run :: "nat \<Rightarrow> ('a, 'u) program \<Rightarrow> ('a, 'u, 'z) kern_scheme \<Rightarrow> (nat \<times> ('a, 'u, 'z) kern_scheme) option" where
  "process_run n P s =
     do { s \<leftarrow> (if poll_requested s then do_poll n P s else Some s);
          s \<leftarrow> do_event n P s;
          Some (process_nevents s, s) }"

section \<open>More fuel does not change a result\<close>

text \<open>A result that may still be missing is less defined than any other.\<close>

definition leo :: "'x option \<Rightarrow> 'x option \<Rightarrow> bool" where
  "leo m m' = (m = None \<or> m' = m)"

lemma leo_refl: "leo m m"
  by (simp add: leo_def)

lemma leo_map: "leo m m' \<Longrightarrow> leo (map_option f m) (map_option f m')"
  by (auto simp: leo_def)

lemma leo_bind: "leo m m' \<Longrightarrow> (\<And>x. leo (f x) (f' x)) \<Longrightarrow> leo (Option.bind m f) (Option.bind m' f')"
  by (cases m) (auto simp: leo_def)

lemma leo_if: "leo m m' \<Longrightarrow> leo n n' \<Longrightarrow> leo (if b then m else n) (if b then m' else n')"
  by simp

lemma leo_pair: "(\<And>x y. leo (f x y) (f' x y)) \<Longrightarrow> leo (case z of (x, y) \<Rightarrow> f x y) (case z of (x, y) \<Rightarrow> f' x y)"
  by (cases z) simp

lemma leo_option:
  "leo m m' \<Longrightarrow> (\<And>x. leo (f x) (f' x)) \<Longrightarrow> leo (case q of None \<Rightarrow> m | Some x \<Rightarrow> f x) (case q of None \<Rightarrow> m' | Some x \<Rightarrow> f' x)"
  by (cases q) simp_all

lemmas leo_intros = leo_refl leo_map leo_bind leo_if leo_pair leo_option

lemma run_task_leo:
  assumes go: "\<And>t s. leo (go t s) (go' t s)"
  shows "leo (run_task go P t s) (run_task go' P t s)"
proof (cases t)
  case (Call_Process p e d)
  show ?thesis unfolding run_task_def Call_Process task.case call_process_def by (intro leo_intros go)
next
  case (Exit_Process p fp)
  show ?thesis unfolding run_task_def Exit_Process task.case exit_process_def Let_def by (intro leo_intros go)
next
  case (Tell_Exited p q)
  show ?thesis unfolding run_task_def Tell_Exited task.case tell_exited_def by (intro leo_intros go)
next
  case (Run_Script scr)
  have "leo (run_script go scr s) (run_script go' scr s)"
    by (cases scr) (simp_all add: run_script_def leo_intros go)
  then show ?thesis by (simp add: run_task_def Run_Script)
next
  case (Kernel_Call c)
  have "leo (kernel_call go P c s) (kernel_call go' P c s)"
    by (cases c) (simp_all add: kernel_call_def process_post_synch_def process_start_def process_exit_def Let_def leo_intros go)
  then show ?thesis by (simp add: run_task_def Kernel_Call)
qed

lemma exec_leo: "leo (exec n P t s) (exec (Suc n) P t s)"
proof (induction n arbitrary: t s)
  case (Suc n)
  show ?case using run_task_leo [of "exec n P" "exec (Suc n) P" P t s] Suc.IH by (simp only: exec.simps(2))
qed (simp add: leo_def)

lemma exec_more: "exec n P t s = Some x \<Longrightarrow> exec (n + k) P t s = Some x"
proof (induction k)
  case (Suc k)
  then show ?case using exec_leo [of "n + k" P t s] by (simp add: leo_def)
qed simp

section \<open>The queue is a bounded first-in first-out buffer\<close>

definition queue_ok :: "('a, 'u, 'z) kern_scheme \<Rightarrow> bool" where
  "queue_ok s = (length (events s) = PROCESS_CONF_NUMEVENTS \<and> unat (nevents s) \<le> PROCESS_CONF_NUMEVENTS \<and>
     unat (fevent s) < PROCESS_CONF_NUMEVENTS)"

definition queue :: "('a, 'u, 'z) kern_scheme \<Rightarrow> 'a event list" where
  "queue s = map (\<lambda>i. events s ! ((unat (fevent s) + i) mod PROCESS_CONF_NUMEVENTS)) [0..<unat (nevents s)]"

lemma length_queue [simp]: "length (queue s) = unat (nevents s)"
  by (simp add: queue_def)

lemma unat_add_small: "unat (a :: u8) < 32 \<Longrightarrow> unat b \<le> 32 \<Longrightarrow> unat (a + b) = unat a + unat b"
  by (subst unat_add_lem [THEN iffD1]) simp_all

lemma post_full: "queue_ok s \<Longrightarrow> length (queue s) = PROCESS_CONF_NUMEVENTS \<Longrightarrow> process_post p e d s = (False, s)"
  by (simp add: process_post_def)

lemma post_room:
  assumes "queue_ok s" "length (queue s) < PROCESS_CONF_NUMEVENTS"
  shows "\<exists>t. process_post p e d s = (True, t) \<and> queue t = queue s @ [\<lparr>ev = e, data = d, receiver = p\<rparr>] \<and> queue_ok t"
proof -
  let ?f = "unat (fevent s)" and ?n = "unat (nevents s)"
  have n: "?n < 32" "?f < 32" "length (events s) = 32"
    using assms by (simp_all add: queue_ok_def PROCESS_CONF_NUMEVENTS_def)
  have snum: "unat (fevent s + nevents s) = ?f + ?n" using n by (simp add: unat_add_small)
  have n1: "unat (nevents s + 1) = Suc ?n" using n(1) unat_add_lem [of "nevents s" 1] by simp
  let ?t = "s\<lparr>events := (events s)[(?f + ?n) mod 32 := \<lparr>ev = e, data = d, receiver = p\<rparr>], nevents := nevents s + 1\<rparr>"
  have "(?f + ?n) mod 32 \<noteq> (?f + i) mod 32" if "i < ?n" for i
  proof
    assume "(?f + ?n) mod 32 = (?f + i) mod 32"
    then have "(?f + ?n - (?f + i)) mod 32 = 0" using that by (simp add: mod_eq_dvd_iff_nat)
    with that n(1) show False by simp
  qed
  then have "queue ?t = queue s @ [\<lparr>ev = e, data = d, receiver = p\<rparr>]"
    using n by (auto simp: queue_def n1 PROCESS_CONF_NUMEVENTS_def nth_list_update)
  moreover have "queue_ok ?t" using n n1 by (simp add: queue_ok_def PROCESS_CONF_NUMEVENTS_def)
  moreover have "process_post p e d s = (True, ?t)"
    using n by (simp add: process_post_def snum PROCESS_CONF_NUMEVENTS_def)
  ultimately show ?thesis by blast
qed

lemma take_empty: "queue s = [] \<Longrightarrow> take_event s = None"
proof -
  assume "queue s = []"
  then have "length (queue s) = 0" by simp
  then have "nevents s = 0" by (simp add: unat_eq_0)
  then show ?thesis by (simp add: take_event_def)
qed

lemma take_first:
  assumes "queue_ok s" "queue s \<noteq> []"
  shows "\<exists>t. take_event s = Some (hd (queue s), t) \<and> queue t = tl (queue s) \<and> queue_ok t"
proof -
  let ?f = "unat (fevent s)"
  have "unat (nevents s) \<noteq> 0" using assms(2) length_queue [of s] by (metis length_0_conv)
  then obtain k where k: "unat (nevents s) = Suc k" by (cases "unat (nevents s)") auto
  then have pos: "nevents s > 0" by (metis old.nat.distinct(2) unat_0 word_gt_0)
  have k1: "unat (nevents s - 1) = k" using k pos by (simp add: unat_minus_one word_gt_0)
  have f: "?f < 32" "length (events s) = 32" using assms(1) by (simp_all add: queue_ok_def PROCESS_CONF_NUMEVENTS_def)
  have "Suc ?f mod 32 < 32" by simp
  then have f1: "unat (of_nat (Suc ?f mod 32) :: u8) = Suc ?f mod 32" by (simp add: unat_of_nat)
  let ?t = "s\<lparr>fevent := of_nat (Suc ?f mod 32), nevents := nevents s - 1\<rparr>"
  have q: "queue s = events s ! ?f # map (\<lambda>i. events s ! ((Suc ?f + i) mod 32)) [0..<k]"
    using f by (simp add: queue_def k PROCESS_CONF_NUMEVENTS_def upt_conv_Cons map_Suc_upt [symmetric] comp_def del: upt_Suc)
  have "queue ?t = tl (queue s)" using q by (simp add: queue_def k1 f1 PROCESS_CONF_NUMEVENTS_def mod_simps)
  moreover have "queue_ok ?t"
    using f k f1 k1 assms(1) by (simp add: queue_ok_def PROCESS_CONF_NUMEVENTS_def)
  moreover have "take_event s = Some (hd (queue s), ?t)" using pos q by (simp add: take_event_def PROCESS_CONF_NUMEVENTS_def)
  ultimately show ?thesis by blast
qed

text \<open>What those who post events rely on.\<close>

datatype 'e queue_op = Post 'e | Take

text \<open>A run of operations: the accepted posts, the events taken, and the end state.\<close>

fun queue_run ::
    "('e \<Rightarrow> 's \<Rightarrow> bool \<times> 's) \<Rightarrow> ('s \<Rightarrow> ('e \<times> 's) option) \<Rightarrow> 'e queue_op list \<Rightarrow> 's \<Rightarrow> 'e list \<times> 'e list \<times> 's" where
  "queue_run put get [] s = ([], [], s)"
| "queue_run put get (Post e # ops) s =
     (let (ok, s) = put e s; (acc, tak, s) = queue_run put get ops s in (if ok then e # acc else acc, tak, s))"
| "queue_run put get (Take # ops) s =
     (case get s of
        None \<Rightarrow> queue_run put get ops s
      | Some (e, s) \<Rightarrow> (let (acc, tak, s) = queue_run put get ops s in (acc, e # tak, s)))"

locale bounded_queue =
  fixes ok :: "'s \<Rightarrow> bool" and contents :: "'s \<Rightarrow> 'e list" and cap :: nat
    and put :: "'e \<Rightarrow> 's \<Rightarrow> bool \<times> 's" and get :: "'s \<Rightarrow> ('e \<times> 's) option"
  assumes put_full: "ok s \<Longrightarrow> length (contents s) = cap \<Longrightarrow> put e s = (False, s)"
    and put_room: "ok s \<Longrightarrow> length (contents s) < cap \<Longrightarrow>
      \<exists>t. put e s = (True, t) \<and> contents t = contents s @ [e] \<and> ok t"
    and take_none: "contents s = [] \<Longrightarrow> get s = None"
    and take_some: "ok s \<Longrightarrow> contents s \<noteq> [] \<Longrightarrow> \<exists>t. get s = Some (hd (contents s), t) \<and> contents t = tl (contents s) \<and> ok t"
    and bounded: "ok s \<Longrightarrow> length (contents s) \<le> cap"
begin

lemma put_cases:
  assumes "ok s"
  obtains (full) "length (contents s) = cap" "put e s = (False, s)"
    | (room) t where "length (contents s) < cap" "put e s = (True, t)" "contents t = contents s @ [e]" "ok t"
  using put_full [OF assms, of e] put_room [OF assms, of e] bounded [OF assms] by (cases "length (contents s) = cap") auto

lemma run_fifo:
  "ok s \<Longrightarrow> queue_run put get ops s = (acc, tak, t) \<Longrightarrow> tak @ contents t = contents s @ acc \<and> ok t"
proof (induction ops arbitrary: s acc tak)
  case (Cons x ops)
  show ?case
  proof (cases x)
    case (Post e)
    from \<open>ok s\<close> show ?thesis
    proof (cases rule: put_cases [of s e])
      case full
      then show ?thesis using Cons Post by (auto split: prod.splits)
    next
      case (room u)
      obtain acc' where "queue_run put get ops u = (acc', tak, t)" "acc = e # acc'"
        using Cons.prems(2) room(2) Post by (auto split: prod.splits)
      with Cons.IH [OF room(4)] room(3) show ?thesis by simp
    qed
  next
    case Take
    show ?thesis
    proof (cases "contents s = []")
      case True
      then show ?thesis using Cons Take take_none [OF True] by simp
    next
      case False
      then obtain u where u: "get s = Some (hd (contents s), u)" "contents u = tl (contents s)" "ok u"
        using take_some [OF Cons.prems(1)] by blast
      obtain tak' where "queue_run put get ops u = (acc, tak', t)" "tak = hd (contents s) # tak'"
        using Cons.prems(2) u(1) Take by (auto split: prod.splits)
      with Cons.IH [OF u(3)] u(2) False show ?thesis by (metis append_Cons hd_Cons_tl)
    qed
  qed
qed simp

text \<open>Posting a list of events with enough room queues all of them.\<close>

lemma put_all:
  "ok s \<Longrightarrow> length (contents s) + length es \<le> cap \<Longrightarrow>
     contents (fold (\<lambda>e s. snd (put e s)) es s) = contents s @ es \<and> ok (fold (\<lambda>e s. snd (put e s)) es s)"
proof (induction es arbitrary: s)
  case (Cons e es)
  from \<open>ok s\<close> show ?case
  proof (cases rule: put_cases [of s e])
    case full
    then show ?thesis using Cons.prems by simp
  next
    case (room t)
    then show ?thesis using Cons.IH [OF room(4)] Cons.prems by simp
  qed
qed simp

end

definition post_event :: "'a event \<Rightarrow> ('a, 'u, 'z) kern_scheme \<Rightarrow> bool \<times> ('a, 'u, 'z) kern_scheme" where
  "post_event e s = process_post (receiver e) (ev e) (data e) s"

lemma post_event_full: "queue_ok s \<Longrightarrow> length (queue s) = PROCESS_CONF_NUMEVENTS \<Longrightarrow> post_event e s = (False, s)"
  by (simp add: post_event_def post_full)

lemma post_event_room:
  "queue_ok s \<Longrightarrow> length (queue s) < PROCESS_CONF_NUMEVENTS \<Longrightarrow>
     \<exists>t. post_event e s = (True, t) \<and> queue t = queue s @ [e] \<and> queue_ok t"
  using post_room [of s "receiver e" "ev e" "data e"] by (cases e) (simp add: post_event_def)

lemma queue_bounded: "queue_ok s \<Longrightarrow> length (queue s) \<le> PROCESS_CONF_NUMEVENTS"
  by (simp add: queue_ok_def)

interpretation kq: bounded_queue queue_ok queue PROCESS_CONF_NUMEVENTS post_event take_event
  by unfold_locales (rule post_event_full post_event_room take_empty take_first queue_bounded, assumption+)+

section \<open>The process list stays a list\<close>

definition kernel_ok :: "('a, 'u, 'z) kern_scheme \<Rightarrow> bool" where
  "kernel_ok s = ((\<exists>ps. lseg (pnext s) (process_list s) ps) \<and> queue_ok s)"

lemma kernel_ok_update [simp]:
  "kernel_ok (s\<lparr>process_current := c\<rparr>) = kernel_ok s" "kernel_ok (s\<lparr>state := st\<rparr>) = kernel_ok s"
  "kernel_ok (s\<lparr>process_current := c, state := st\<rparr>) = kernel_ok s" "kernel_ok (s\<lparr>user := u\<rparr>) = kernel_ok s"
  "kernel_ok (s\<lparr>needspoll := np\<rparr>) = kernel_ok s" "kernel_ok (s\<lparr>poll_requested := b\<rparr>) = kernel_ok s"
  "kernel_ok (s\<lparr>state := st, needspoll := np\<rparr>) = kernel_ok s" "kernel_ok (s\<lparr>last_event := e\<rparr>) = kernel_ok s"
  "kernel_ok (s\<lparr>needspoll := np, poll_requested := b\<rparr>) = kernel_ok s"
  by (simp_all add: kernel_ok_def queue_ok_def)

lemma kernel_ok_post: "kernel_ok s \<Longrightarrow> process_post p e d s = (ok, t) \<Longrightarrow> kernel_ok t"
proof -
  assume "kernel_ok s" and p: "process_post p e d s = (ok, t)"
  then have q: "queue_ok s" and l: "\<exists>ps. lseg (pnext s) (process_list s) ps" by (auto simp: kernel_ok_def)
  have "pnext t = pnext s" "process_list t = process_list s" using p by (auto simp: process_post_def Let_def split: if_splits)
  moreover have "queue_ok t" using kq.put_cases [OF q, of "\<lparr>ev = e, data = d, receiver = p\<rparr>"] p q
    by (auto simp: post_event_def)
  ultimately show ?thesis using l by (simp add: kernel_ok_def)
qed

lemma kernel_ok_take: "kernel_ok s \<Longrightarrow> take_event s = Some (x, t) \<Longrightarrow> kernel_ok t"
proof -
  assume k: "kernel_ok s" and t: "take_event s = Some (x, t)"
  then have "queue s \<noteq> []" using take_empty [of s] by auto
  with k t have "queue_ok t" using take_first [of s] by (auto simp: kernel_ok_def)
  moreover have "pnext t = pnext s" "process_list t = process_list s" using t by (auto simp: take_event_def split: if_splits)
  ultimately show ?thesis using k by (simp add: kernel_ok_def)
qed

lemma on_list_eq: "lseg nx q ps \<Longrightarrow> on_list nx q p = Some (p \<in> set ps)"
  by (induction ps arbitrary: q) (auto simp: on_list.simps)

lemma unlink_after_eq:
  "lseg nx (Some x) (x # as @ p # bs) \<Longrightarrow> p \<notin> set (x # as) \<Longrightarrow>
     unlink_after nx (Some x) p = Some (nx(last (x # as) := nx p))"
proof (induction as arbitrary: x)
  case Nil
  then have "nx x = Some p" by simp
  then show ?case by (subst unlink_after.simps) simp
next
  case (Cons a as)
  then have "nx x = Some a" "a \<noteq> p" by auto
  then have "unlink_after nx (Some x) p = unlink_after nx (Some a) p" by (subst unlink_after.simps) simp
  then show ?case using Cons by simp
qed

lemma unlink_after_absent: "lseg nx q ps \<Longrightarrow> p \<notin> set (tl ps) \<Longrightarrow> unlink_after nx q p = Some nx"
proof (induction ps arbitrary: q)
  case (Cons x ps)
  then have "nx x \<noteq> Some p" by (cases ps) auto
  then have "unlink_after nx q p = unlink_after nx (nx x) p" using Cons.prems by (subst unlink_after.simps) simp
  moreover have "p \<notin> set (tl ps)" using Cons.prems(2) by (cases ps) auto
  ultimately show ?case using Cons by simp
qed (simp add: unlink_after.simps)

text \<open>Unlinking takes exactly the one process off the list.\<close>

definition same_but_list :: "('a, 'u, 'z) kern_scheme \<Rightarrow> ('a, 'u, 'z) kern_scheme \<Rightarrow> bool" where
  "same_but_list s t = (queue_ok t = queue_ok s \<and> queue t = queue s \<and> state t = state s \<and> user t = user s)"

lemma same_but_list_update [simp]:
  "same_but_list s s" "same_but_list s (s\<lparr>process_list := l\<rparr>)" "same_but_list s (s\<lparr>pnext := nx\<rparr>)"
  by (simp_all add: same_but_list_def queue_ok_def queue_def)

lemma unlink_process_list:
  assumes "lseg (pnext s) (process_list s) ps"
  shows "\<exists>t. unlink_process p s = Some t \<and> lseg (pnext t) (process_list t) (remove1 p ps) \<and> same_but_list s t"
proof (cases "p \<in> set ps")
  case False
  then have "process_list s \<noteq> Some p" using assms by (cases ps) auto
  moreover have "p \<notin> set (tl ps)" using False by (cases ps) auto
  ultimately have "unlink_process p s = Some (s\<lparr>pnext := pnext s\<rparr>)"
    using unlink_after_absent [OF assms, of p] by (simp add: unlink_process_def)
  moreover have "lseg (pnext s) (process_list s) (remove1 p ps)" using assms False by (simp add: remove1_idem)
  ultimately show ?thesis by (intro exI [of _ "s\<lparr>pnext := pnext s\<rparr>"] conjI) simp_all
next
  case True
  then obtain as bs where ps: "ps = as @ p # bs" "p \<notin> set as" by (meson split_list_first)
  then have r: "remove1 p ps = as @ bs" by (simp add: remove1_append)
  show ?thesis
  proof (cases as)
    case Nil
    have "process_list s = Some p" "lseg (pnext s) (pnext s p) bs" using assms ps(1) Nil by simp_all
    then show ?thesis using r Nil by (intro exI [of _ "s\<lparr>process_list := pnext s p\<rparr>"]) (simp add: unlink_process_def)
  next
    case (Cons x xs)
    let ?nx = "(pnext s)(last as := pnext s p)"
    have h: "process_list s = Some x" "x \<noteq> p" using assms ps Cons by auto
    have "unlink_after (pnext s) (process_list s) p = Some ?nx"
      using unlink_after_eq [of "pnext s" x xs p bs] assms ps Cons h by simp
    then have u: "unlink_process p s = Some (s\<lparr>pnext := ?nx\<rparr>)" using h by (simp add: unlink_process_def)
    obtain cs q where cs: "as = cs @ [q]" using Cons rev_exhaust [of as] by blast
    have d: "q \<notin> set cs" "q \<notin> set bs" using lseg_distinct [OF assms] ps(1) cs by auto
    obtain z where z: "path (pnext s) (process_list s) (cs @ [q]) z" "lseg (pnext s) z (p # bs)"
      using assms ps(1) cs by (auto simp: lseg_append path_append)
    have "path ?nx (process_list s) as (pnext s p)" using path_last [OF z(1) d(1)] cs by simp
    moreover have "lseg ?nx (pnext s p) bs" using z(2) d(2) cs by simp
    ultimately have "lseg ?nx (process_list s) (as @ bs)" by (auto simp: lseg_append)
    then show ?thesis using u r by (intro exI [of _ "s\<lparr>pnext := ?nx\<rparr>"]) simp
  qed
qed

text \<open>Every task keeps the list of processes acyclic and the queue in bounds, whatever the threads do.\<close>

definition keeps_kernel :: "('a, 'u, ('a, 'u, 'z) kern_scheme) runner \<Rightarrow> bool" where
  "keeps_kernel go = (\<forall>t s r s'. go t s = Some (r, s') \<longrightarrow> kernel_ok s \<longrightarrow> kernel_ok s')"

lemma keepsD: "keeps_kernel go \<Longrightarrow> go t s = Some (r, s') \<Longrightarrow> kernel_ok s \<Longrightarrow> kernel_ok s'"
  by (auto simp: keeps_kernel_def)

lemma keeps_unlink: "kernel_ok s \<Longrightarrow> unlink_process p s = Some t \<Longrightarrow> kernel_ok t"
  using unlink_process_list [of s _ p] by (fastforce simp: kernel_ok_def same_but_list_def)

lemma keeps_front:
  assumes "kernel_ok s" "on_list (pnext s) (process_list s) p = Some False"
  shows "kernel_ok (s\<lparr>pnext := (pnext s)(p := process_list s), process_list := Some p\<rparr>)"
proof -
  obtain ps where ps: "lseg (pnext s) (process_list s) ps" using assms(1) by (auto simp: kernel_ok_def)
  then have "p \<notin> set ps" using on_list_eq assms(2) by fastforce
  then have "lseg ((pnext s)(p := process_list s)) (Some p) (p # ps)" using ps by simp
  then show ?thesis using assms(1) unfolding kernel_ok_def by (intro conjI exI [of _ "p # ps"]) (simp_all add: queue_ok_def)
qed

lemma keeps_call:
  assumes go: "keeps_kernel go" and r: "call_process go P p e d s = Some (x, t)" and s: "kernel_ok s"
  shows "kernel_ok t"
  using r s by (auto simp: call_process_def bind_eq_Some_conv split: option.splits if_splits dest: keepsD [OF go])

lemma keeps_start:
  assumes go: "keeps_kernel go" and r: "process_start go P p arg s = Some (x, t)" and s: "kernel_ok s"
  shows "kernel_ok t"
  using r s by (auto simp: process_start_def process_post_synch_def bind_eq_Some_conv Let_def keeps_front split: if_splits
      dest!: keepsD [OF go])

lemma keeps_exit:
  assumes go: "keeps_kernel go" and r: "exit_process go P p fp s = Some (x, t)" and s: "kernel_ok s"
  shows "kernel_ok t"
proof -
  have "kernel_ok v" if "(if process_is_running p s then
                    do { (_, s) \<leftarrow> go (Tell_Exited p (process_list s)) (s\<lparr>state := (state s)(p := STATE_NONE)\<rparr>);
                         (case thread P p of
                            Some th \<Rightarrow>
                              (if Some p \<noteq> fp
                               then map_option snd (go (Run_Script (th EVENT_EXIT No_Data (user s))) (s\<lparr>process_current := Some p\<rparr>))
                               else Some s)
                          | None \<Rightarrow> Some s) }
                  else Some s) = Some v" for v
    using that s by (auto simp: bind_eq_Some_conv split: option.splits if_splits dest!: keepsD [OF go])
  then show ?thesis using r s by (auto simp: exit_process_def bind_eq_Some_conv Let_def split: if_splits dest: keeps_unlink)
qed

lemma keeps_task: "keeps_kernel go \<Longrightarrow> keeps_kernel (run_task go P)"
  unfolding keeps_kernel_def [of "run_task go P"]
proof (intro allI impI)
  fix t s r s' assume go: "keeps_kernel go" and r: "run_task go P t s = Some (r, s')" and s: "kernel_ok s"
  show "kernel_ok s'"
  proof (cases t)
    case (Call_Process p e d)
    then show ?thesis using r keeps_call [OF go _ s] by (auto simp: run_task_def)
  next
    case (Exit_Process p fp)
    then show ?thesis using r keeps_exit [OF go _ s] by (auto simp: run_task_def)
  next
    case (Tell_Exited p q)
    then show ?thesis using r s
      by (auto simp: run_task_def tell_exited_def bind_eq_Some_conv split: option.splits if_splits dest: keepsD [OF go])
  next
    case (Run_Script scr)
    then show ?thesis using r s
      by (auto simp: run_task_def run_script_def bind_eq_Some_conv split: script.splits dest: keepsD [OF go])
  next
    case (Kernel_Call c)
    then have k: "kernel_call go P c s = Some (r, s')" using r by (simp add: run_task_def)
    show ?thesis
    proof (cases c)
      case (K_post p e d)
      then show ?thesis using k kernel_ok_post [OF s] by (auto simp: kernel_call_def split: prod.splits)
    next
      case (K_start p arg)
      then show ?thesis using k keeps_start [OF go _ s] by (auto simp: kernel_call_def)
    qed (use k s in \<open>auto simp: kernel_call_def process_post_synch_def process_exit_def process_poll_def alloc_event_def
      Let_def dest: keepsD [OF go]\<close>)
  qed
qed

lemma keeps_exec: "keeps_kernel (exec n P)"
proof (induction n)
  case (Suc n)
  have "exec (Suc n) P = run_task (exec n P) P" by (rule ext)+ simp
  then show ?case using keeps_task [OF Suc.IH] by simp
qed (simp add: keeps_kernel_def)

lemma keeps_poll_from: "kernel_ok s \<Longrightarrow> poll_from n P q s = Some t \<Longrightarrow> kernel_ok t"
proof (induction n arbitrary: q s)
  case (Suc n)
  show ?case
  proof (cases q)
    case (Some p)
    then obtain x u where "poll_from n P (pnext u p) u = Some t"
      and "(if needspoll s p then exec n P (Call_Process p EVENT_POLL No_Data)
          (s\<lparr>state := (state s)(p := STATE_RUNNING), needspoll := (needspoll s)(p := False)\<rparr>) else Some (0, s)) = Some (x, u)"
      using Suc.prems(2) by (auto simp: bind_eq_Some_conv)
    moreover from this(2) have "kernel_ok u" using Suc.prems(1) by (auto split: if_splits dest: keepsD [OF keeps_exec])
    ultimately show ?thesis using Suc.IH by blast
  qed (use Suc.prems in simp)
qed simp

lemma keeps_do_poll: "kernel_ok s \<Longrightarrow> do_poll n P s = Some t \<Longrightarrow> kernel_ok t"
  using keeps_poll_from [of "s\<lparr>poll_requested := False\<rparr>"] by (simp add: do_poll_def)

lemma keeps_deliver: "kernel_ok s \<Longrightarrow> deliver_from n P q e d s = Some t \<Longrightarrow> kernel_ok t"
proof (induction n arbitrary: q s)
  case (Suc n)
  show ?case
  proof (cases q)
    case (Some p)
    then obtain u x v where u: "(if poll_requested s then do_poll n P s else Some s) = Some u"
      and v: "exec n P (Call_Process p e d) u = Some (x, v)" and t: "deliver_from n P (pnext v p) e d v = Some t"
      using Suc.prems(2) by (auto simp: bind_eq_Some_conv)
    have "kernel_ok u" using u Suc.prems(1) keeps_do_poll by (auto split: if_splits)
    then have "kernel_ok v" using keepsD [OF keeps_exec v] by blast
    then show ?thesis using Suc.IH t by blast
  qed (use Suc.prems in simp)
qed simp

lemma keeps_event: "kernel_ok s \<Longrightarrow> do_event n P s = Some t \<Longrightarrow> kernel_ok t"
proof -
  assume s: "kernel_ok s" and r: "do_event n P s = Some t"
  show "kernel_ok t"
  proof (cases "take_event s")
    case None
    then show ?thesis using r s by (simp add: do_event_def)
  next
    case (Some a)
    then obtain x u where a: "take_event s = Some (x, u)" by (cases a) simp
    then have u: "kernel_ok u" using kernel_ok_take [OF s] by blast
    show ?thesis
    proof (cases "receiver x")
      case None
      then show ?thesis using r a keeps_deliver [OF u] by (simp add: do_event_def)
    next
      case (Some p)
      then show ?thesis using r a u by (auto simp: do_event_def split: if_splits dest!: keepsD [OF keeps_exec])
    qed
  qed
qed

section \<open>Delivery to threads that only compute\<close>

text \<open>Threads that make no kernel call and do not end.\<close>

definition quiet :: "('a, 'u) program \<Rightarrow> bool" where
  "quiet P = (\<forall>p th e d u. thread P p = Some th \<longrightarrow> (\<exists>r u'. th e d u = Return r u' \<and> r \<noteq> PT_EXITED \<and> r \<noteq> PT_ENDED))"

definition handled :: "('a, 'u) program \<Rightarrow> u8 \<Rightarrow> 'a pdata \<Rightarrow> nat \<Rightarrow> 'u \<Rightarrow> 'u" where
  "handled P e d p u = (case thread P p of None \<Rightarrow> u | Some th \<Rightarrow> (case th e d u of Return _ u' \<Rightarrow> u' | Call _ _ _ \<Rightarrow> u))"

definition callable :: "('a, 'u, 'z) kern_scheme \<Rightarrow> nat \<Rightarrow> bool" where
  "callable s p = (state s p AND STATE_RUNNING \<noteq> 0)"

lemma running_bit [simp]: "STATE_RUNNING \<noteq> 0"
  by (simp add: STATE_RUNNING_def)

lemma call_quiet:
  assumes "quiet P" "e \<noteq> EVENT_EXIT"
  shows "\<exists>t. exec (Suc (Suc n)) P (Call_Process p e d) s = Some (0, t) \<and>
    user t = (if callable s p then handled P e d p (user s) else user s) \<and> callable t = callable s \<and>
    pnext t = pnext s \<and> poll_requested t = poll_requested s \<and> queue t = queue s"
proof (cases "thread P p")
  case None
  then show ?thesis by (auto simp: run_task_def call_process_def handled_def)
next
  case (Some th)
  obtain r u' where r: "th e d (user s) = Return r u'" "r \<noteq> PT_EXITED" "r \<noteq> PT_ENDED"
    using assms(1) Some unfolding quiet_def by blast
  show ?thesis
  proof (cases "callable s p")
    case True
    let ?t = "s\<lparr>process_current := Some p, user := u', state := (state s)(p := STATE_RUNNING)\<rparr>"
    have "exec (Suc (Suc n)) P (Call_Process p e d) s = Some (0, ?t)"
      using True r assms(2) by (simp add: run_task_def call_process_def run_script_def Some callable_def)
    moreover have "callable ?t = callable s" using True by (intro ext) (simp add: callable_def)
    ultimately show ?thesis using True r by (intro exI [of _ ?t]) (simp add: handled_def Some queue_def)
  next
    case False
    then show ?thesis by (auto simp: run_task_def call_process_def Some callable_def)
  qed
qed

lemma deliver_quiet:
  assumes "quiet P" "e \<noteq> EVENT_EXIT"
  shows "lseg (pnext s) q ps \<Longrightarrow> \<not> poll_requested s \<Longrightarrow>
    \<exists>t. deliver_from (length ps + 3) P q e d s = Some t \<and>
      user t = fold (handled P e d) (filter (callable s) ps) (user s) \<and> queue t = queue s \<and> \<not> poll_requested t"
proof (induction ps arbitrary: q s)
  case Nil
  then show ?case by (simp add: numeral_3_eq_3)
next
  case (Cons p ps)
  obtain t where t: "exec (length ps + 3) P (Call_Process p e d) s = Some (0, t)"
    "user t = (if callable s p then handled P e d p (user s) else user s)" "callable t = callable s"
    "pnext t = pnext s" "poll_requested t = poll_requested s" "queue t = queue s"
    using call_quiet [OF assms, of "length ps + 1" p d s] by (auto simp: numeral_3_eq_3 simp del: exec.simps)
  have "lseg (pnext t) (pnext t p) ps" "\<not> poll_requested t" using Cons.prems t(4,5) by simp_all
  from Cons.IH [OF this] obtain v where v: "deliver_from (length ps + 3) P (pnext t p) e d t = Some v"
    "user v = fold (handled P e d) (filter (callable s) ps) (user t)" "queue v = queue s" "\<not> poll_requested v" using t(3,6) by auto
  have "q = Some p" using Cons.prems by simp
  moreover have "length (p # ps) + 3 = Suc (length ps + 3)" by simp
  ultimately have "deliver_from (length (p # ps) + 3) P q e d s = Some v"
    using Cons.prems(2) t(1) v(1) by (simp only: deliver_from.simps) simp
  then show ?case using v t(2) by auto
qed

lemma broadcast_run:
  assumes "quiet P" "kernel_ok s" "queue s = x # es" "receiver x = None" "ev x \<noteq> EVENT_EXIT" "\<not> poll_requested s"
    and "lseg (pnext s) (process_list s) ps"
  shows "\<exists>t. process_run (length ps + 3) P s = Some (length es, t) \<and> queue t = es \<and>
    user t = fold (handled P (ev x) (data x)) (filter (callable s) ps) (user s)"
proof -
  obtain u where u: "take_event s = Some (x, u)" "queue u = es"
    using take_first [of s] assms(2,3) by (auto simp: kernel_ok_def)
  have same: "pnext u = pnext s" "process_list u = process_list s" "user u = user s" "callable u = callable s"
    "\<not> poll_requested u"
    using u(1) assms(6) by (auto simp: take_event_def callable_def fun_eq_iff split: if_splits)
  obtain t where t: "deliver_from (length ps + 3) P (process_list u) (ev x) (data x) u = Some t"
    "user t = fold (handled P (ev x) (data x)) (filter (callable s) ps) (user s)" "queue t = es" "\<not> poll_requested t"
    using deliver_quiet [OF assms(1,5), of u "process_list u" ps "data x"] assms(7) same u(2) by auto
  have "do_event (length ps + 3) P s = Some t" using t(1) u(1) assms(4) by (simp add: do_event_def)
  moreover have "process_nevents t = length es" using t(3,4) length_queue [of t] by (simp add: process_nevents_def)
  ultimately show ?thesis using assms(6) t by (simp add: process_run_def)
qed

section \<open>A small system\<close>

definition fresh_kern :: "(nat, nat list) kern" where
  "fresh_kern = process_init \<lparr>process_list = None, pnext = (\<lambda>_. None), state = (\<lambda>_. 0), needspoll = (\<lambda>_. False),
     process_current = None, last_event = 0, events = replicate 32 \<lparr>ev = 0, data = No_Data, receiver = None\<rparr>,
     nevents = 0, fevent = 0, poll_requested = False, user = []\<rparr>"

lemma fresh_kern_ok: "kernel_ok fresh_kern" "queue fresh_kern = []" "queue_ok fresh_kern"
  by (simp_all add: kernel_ok_def queue_ok_def fresh_kern_def process_init_def queue_def PROCESS_CONF_NUMEVENTS_def
      exI [of _ "[]"])

text \<open>Two processes that log the events they get.\<close>

definition log_program :: "(nat, nat list) program" where
  "log_program = \<lparr>thread = (\<lambda>p. Some (\<lambda>e d u. Return PT_YIELDED (u @ [p, unat e]))), pt_init = (\<lambda>p u. u)\<rparr>"

definition two_processes :: "(nat, nat list) kern" where
  "two_processes = fresh_kern\<lparr>process_list := Some 1, pnext := (\<lambda>_. None)(1 := Some 2), state := (\<lambda>_. STATE_RUNNING)\<rparr>"

definition waiting_broadcast :: "(nat, nat list) kern" where
  "waiting_broadcast = snd (process_post None 0x90 No_Data two_processes)"

lemma two_processes_ok: "kernel_ok two_processes" "lseg (pnext two_processes) (process_list two_processes) [1, 2]"
  "queue two_processes = []" "queue_ok two_processes"
proof -
  show l: "lseg (pnext two_processes) (process_list two_processes) [1, 2]" by (simp add: two_processes_def)
  show q: "queue_ok two_processes" "queue two_processes = []"
    using fresh_kern_ok by (simp_all add: two_processes_def queue_ok_def queue_def)
  show "kernel_ok two_processes" using l q unfolding kernel_ok_def by (intro conjI exI [of _ "[1, 2]"]) simp_all
qed

lemma waiting_broadcast_ok: "kernel_ok waiting_broadcast"
  "queue waiting_broadcast = [\<lparr>ev = 0x90, data = No_Data, receiver = None\<rparr>]"
  "\<not> poll_requested waiting_broadcast" "pnext waiting_broadcast = pnext two_processes"
  "process_list waiting_broadcast = process_list two_processes" "callable waiting_broadcast = (\<lambda>_. True)"
  "user waiting_broadcast = []"
proof -
  obtain t where t: "process_post None 0x90 No_Data two_processes = (True, t)"
    "queue t = [\<lparr>ev = 0x90, data = No_Data, receiver = None\<rparr>]"
    using post_room [of two_processes None "0x90" No_Data] two_processes_ok
    by (auto simp: PROCESS_CONF_NUMEVENTS_def simp del: length_queue)
  then have w: "waiting_broadcast = t" by (simp add: waiting_broadcast_def)
  show "kernel_ok waiting_broadcast" using kernel_ok_post [OF two_processes_ok(1) t(1)] w by simp
  show "queue waiting_broadcast = [\<lparr>ev = 0x90, data = No_Data, receiver = None\<rparr>]" using t w by simp
qed (simp_all add: waiting_broadcast_def process_post_def two_processes_def fresh_kern_def process_init_def callable_def
  STATE_RUNNING_def Let_def fun_eq_iff)

lemma log_quiet: "quiet log_program"
  by (simp add: quiet_def log_program_def PT_YIELDED_def PT_EXITED_def PT_ENDED_def)

lemma waiting_broadcast_run:
  "\<exists>t. process_run 5 log_program waiting_broadcast = Some (0, t) \<and> user t = [1, 0x90, 2, 0x90]"
  using broadcast_run [OF log_quiet waiting_broadcast_ok(1,2), where ps = "[1, 2]"] two_processes_ok(2)
  by (auto simp: waiting_broadcast_ok EVENT_EXIT_def handled_def log_program_def)

section \<open>Properties\<close>

text \<open>C16: The ring of 32 events is a bounded first-in first-out queue: in any run of posts and removals, the events
  taken followed by those still queued are those queued at the start followed by the accepted posts, in order, none
  lost, repeated or changed; a post is refused exactly when 32 events are waiting, and changes nothing then.\<close>

theorem event_queue_is_fifo:
  assumes "queue_ok s" "queue_run post_event take_event ops s = (accepted, taken, t)"
  shows "taken @ queue t = queue s @ accepted \<and> queue_ok t \<and> length (queue t) \<le> PROCESS_CONF_NUMEVENTS \<and>
    fst (process_post p e d t) = (length (queue t) \<noteq> PROCESS_CONF_NUMEVENTS) \<and>
    (fst (process_post p e d t) \<or> snd (process_post p e d t) = t)"
proof -
  have r: "taken @ queue t = queue s @ accepted \<and> queue_ok t" by (rule kq.run_fifo [OF assms])
  then have "length (queue t) \<le> PROCESS_CONF_NUMEVENTS" by (simp add: queue_ok_def)
  with r show ?thesis by (simp add: process_post_def)
qed

theorem event_queue_is_fifo_witness:
  "fst (process_post None 0x90 No_Data (snd (snd (queue_run post_event take_event [Take] fresh_kern))))"
  using event_queue_is_fifo [OF fresh_kern_ok(3), of "[Take]" _ _ _ None "0x90" No_Data]
  by (simp add: take_empty fresh_kern_ok PROCESS_CONF_NUMEVENTS_def)





end
