(* ===== verification/Memb.thy ===== *)
theory Memb
  imports Prelude
begin

text \<open>
  Contiki's memory block allocator (\<^verbatim>\<open>core/lib/memb.c\<close>): a pool of equally sized blocks with one
  use counter per block. Addresses are numbers; the memory of the pool is kept as one list of bytes.
\<close>

record memb =
  mb_size :: nat          \<comment> \<open>size of a block\<close>
  mb_num :: nat           \<comment> \<open>number of blocks\<close>
  mb_count :: "u8 list"
  mb_addr :: nat          \<comment> \<open>the pointer \<open>mem\<close>\<close>
  mb_bytes :: buf

definition memb_init :: "memb \<Rightarrow> memb" where
  "memb_init m = m\<lparr>mb_count := replicate (mb_num m) 0, mb_bytes := replicate (mb_size m * mb_num m) 0\<rparr>"

text \<open>The loops of the three functions run over the block numbers.\<close>

fun alloc_from :: "nat list \<Rightarrow> memb \<Rightarrow> nat option \<times> memb" where
  "alloc_from [] m = (None, m)"
| "alloc_from (i # is) m =
     (if mb_count m ! i = 0
      then (Some (mb_addr m + i * mb_size m), m\<lparr>mb_count := (mb_count m)[i := mb_count m ! i + 1]\<rparr>)
      else alloc_from is m)"

definition memb_alloc :: "memb \<Rightarrow> nat option \<times> memb" where
  "memb_alloc m = alloc_from [0..<mb_num m] m"

fun free_from :: "nat list \<Rightarrow> nat \<Rightarrow> memb \<Rightarrow> int \<times> memb" where
  "free_from [] ptr m = (- 1, m)"
| "free_from (i # is) ptr m =
     (if mb_addr m + i * mb_size m = ptr then
        (let m = (if mb_count m ! i > 0 then m\<lparr>mb_count := (mb_count m)[i := mb_count m ! i - 1]\<rparr> else m)
         in (sint (mb_count m ! i), m))
      else free_from is ptr m)"

definition memb_free :: "nat \<Rightarrow> memb \<Rightarrow> int \<times> memb" where
  "memb_free ptr m = free_from [0..<mb_num m] ptr m"

definition memb_inmemb :: "nat \<Rightarrow> memb \<Rightarrow> bool" where
  "memb_inmemb ptr m = (ptr \<ge> mb_addr m \<and> ptr < mb_addr m + mb_num m * mb_size m)"

section \<open>The pool as a set of blocks\<close>

definition block_addr :: "memb \<Rightarrow> nat \<Rightarrow> nat" where
  "block_addr m i = mb_addr m + i * mb_size m"

definition memb_blocks :: "memb \<Rightarrow> nat set" where
  "memb_blocks m = block_addr m ` {..<mb_num m}"

definition memb_used :: "memb \<Rightarrow> nat set" where
  "memb_used m = block_addr m ` {i. i < mb_num m \<and> mb_count m ! i \<noteq> 0}"

definition memb_ok :: "memb \<Rightarrow> bool" where
  "memb_ok m = (0 < mb_size m \<and> length (mb_count m) = mb_num m \<and> set (mb_count m) \<subseteq> {0, 1} \<and>
     length (mb_bytes m) = mb_size m * mb_num m)"

lemma block_addr_eq [simp]: "memb_ok m \<Longrightarrow> block_addr m i = block_addr m j \<longleftrightarrow> i = j"
  by (auto simp: block_addr_def memb_ok_def)

lemma memb_ok_init: "0 < mb_size m \<Longrightarrow> memb_ok (memb_init m) \<and> memb_used (memb_init m) = {}"
  by (auto simp: memb_ok_def memb_init_def memb_used_def)

lemma alloc_from_spec:
  assumes "alloc_from is m = (r, m')"
  shows "(\<forall>i \<in> set is. mb_count m ! i \<noteq> 0) \<and> r = None \<and> m' = m \<or>
    (\<exists>i \<in> set is. mb_count m ! i = 0 \<and> r = Some (block_addr m i) \<and> m' = m\<lparr>mb_count := (mb_count m)[i := 1]\<rparr>)"
  using assms by (induction "is") (auto simp: block_addr_def split: if_splits)


lemma free_from_hit:
  assumes "memb_ok m" "i \<in> set is" "i < mb_num m"
  shows "free_from is (block_addr m i) m = (0, m\<lparr>mb_count := (mb_count m)[i := 0]\<rparr>)"
  using assms(2)
proof (induction "is")
  case (Cons j js)
  have c: "mb_count m ! i \<in> {0, 1}" using assms(1,3) nth_mem [of i "mb_count m"] by (auto simp: memb_ok_def simp del: nth_mem)
  show ?case
  proof (cases "j = i")
    case True
    have "(mb_count m)[i := 0] = mb_count m" if "mb_count m ! i = 0" using that list_update_id [of "mb_count m" i] by simp
    then show ?thesis using c assms(1,3) True by (auto simp: block_addr_def Let_def memb_ok_def)
  next
    case False
    then have "block_addr m j \<noteq> block_addr m i" using assms(1) by simp
    then show ?thesis using Cons False by (simp add: block_addr_def)
  qed
qed simp

lemma free_from_miss: "ptr \<notin> block_addr m ` set is \<Longrightarrow> free_from is ptr m = (- 1, m)"
  by (induction "is") (auto simp: block_addr_def)

lemma used_update:
  assumes "memb_ok m" "i < mb_num m"
  shows "memb_used (m\<lparr>mb_count := (mb_count m)[i := 1]\<rparr>) = insert (block_addr m i) (memb_used m)"
    and "memb_used (m\<lparr>mb_count := (mb_count m)[i := 0]\<rparr>) = memb_used m - {block_addr m i}"
    and "memb_ok (m\<lparr>mb_count := (mb_count m)[i := 1]\<rparr>)" "memb_ok (m\<lparr>mb_count := (mb_count m)[i := 0]\<rparr>)"
proof -
  have l: "length (mb_count m) = mb_num m" using assms(1) by (simp add: memb_ok_def)
  have b: "block_addr (m\<lparr>mb_count := c\<rparr>) = block_addr m" for c by (rule ext) (simp add: block_addr_def)
  show "memb_used (m\<lparr>mb_count := (mb_count m)[i := 1]\<rparr>) = insert (block_addr m i) (memb_used m)"
    using assms(2) l by (auto simp: memb_used_def b nth_list_update)
  show "memb_used (m\<lparr>mb_count := (mb_count m)[i := 0]\<rparr>) = memb_used m - {block_addr m i}"
    using assms l by (auto simp: memb_used_def b nth_list_update split: if_splits)
  show "memb_ok (m\<lparr>mb_count := (mb_count m)[i := 1]\<rparr>)" "memb_ok (m\<lparr>mb_count := (mb_count m)[i := 0]\<rparr>)"
    using assms(1) set_update_subset_insert [of "mb_count m" i] by (fastforce simp: memb_ok_def)+
qed

section \<open>The interface\<close>

text \<open>A pool of blocks: what its users rely on.\<close>

locale block_pool =
  fixes ok :: "'s \<Rightarrow> bool" and blocks :: "'s \<Rightarrow> nat set" and used :: "'s \<Rightarrow> nat set"
    and alloc :: "'s \<Rightarrow> nat option \<times> 's" and free :: "nat \<Rightarrow> 's \<Rightarrow> int \<times> 's"
  assumes used_blocks: "ok s \<Longrightarrow> used s \<subseteq> blocks s" and finite_blocks: "finite (blocks s)"
    and alloc_some: "ok s \<Longrightarrow> used s \<noteq> blocks s \<Longrightarrow> \<exists>p t. alloc s = (Some p, t) \<and> p \<in> blocks s - used s \<and>
      used t = insert p (used s) \<and> blocks t = blocks s \<and> ok t"
    and alloc_none: "ok s \<Longrightarrow> used s = blocks s \<Longrightarrow> alloc s = (None, s)"
    and free_block: "ok s \<Longrightarrow> p \<in> blocks s \<Longrightarrow> \<exists>t. free p s = (0, t) \<and> used t = used s - {p} \<and> blocks t = blocks s \<and> ok t"
    and free_other: "ok s \<Longrightarrow> p \<notin> blocks s \<Longrightarrow> free p s = (- 1, s)"
begin

text \<open>As many allocations succeed as there are free blocks, with distinct results.\<close>

lemma alloc_all:
  assumes "ok s" "n \<le> card (blocks s - used s)"
  shows "\<exists>ps t. length ps = n \<and> distinct ps \<and> set ps \<subseteq> blocks s - used s \<and> used t = used s \<union> set ps \<and> blocks t = blocks s \<and>
    ok t \<and> ((\<lambda>(ps, s). case alloc s of (Some p, t) \<Rightarrow> (ps @ [p], t) | (None, t) \<Rightarrow> (ps, t)) ^^ n) ([], s) = (ps, t)"
  using assms
proof (induction n)
  case 0
  then show ?case by auto
next
  case (Suc n)
  then obtain ps t where t: "length ps = n" "distinct ps" "set ps \<subseteq> blocks s - used s" "used t = used s \<union> set ps"
    "blocks t = blocks s" "ok t"
    "((\<lambda>(ps, s). case alloc s of (Some p, t) \<Rightarrow> (ps @ [p], t) | (None, t) \<Rightarrow> (ps, t)) ^^ n) ([], s) = (ps, t)" by auto
  have "card (set ps) < card (blocks s - used s)" using t(1,2) Suc.prems(2) by (simp add: distinct_card)
  then have "set ps \<noteq> blocks s - used s" by auto
  then have "used t \<noteq> blocks t" using t(3,4,5) used_blocks [OF Suc.prems(1)] by blast
  from alloc_some [OF t(6) this] obtain p u where u: "alloc t = (Some p, u)" "p \<in> blocks t - used t"
    "used u = insert p (used t)" "blocks u = blocks t" "ok u" by blast
  have "((\<lambda>(ps, s). case alloc s of (Some p, t) \<Rightarrow> (ps @ [p], t) | (None, t) \<Rightarrow> (ps, t)) ^^ Suc n) ([], s) = (ps @ [p], u)"
    using t(7) u(1) by simp
  then show ?case using t u by (intro exI [of _ "ps @ [p]"] exI [of _ u]) auto
qed

text \<open>What was freed can be allocated again, and freeing it twice does no more than freeing it once.\<close>

lemma free_twice:
  assumes "ok s" "p \<in> blocks s"
  shows "\<exists>t u. free p s = (0, t) \<and> free p t = (0, u) \<and> used u = used t \<and> used t = used s - {p}"
proof -
  obtain t where t: "free p s = (0, t)" "used t = used s - {p}" "blocks t = blocks s" "ok t" using free_block [OF assms] by blast
  from free_block [OF t(4), of p] t assms(2) show ?thesis by auto
qed

end

lemma block_addr_count [simp]: "block_addr (m\<lparr>mb_count := c\<rparr>) = block_addr m"
  by (rule ext) (simp add: block_addr_def)

lemma memb_alloc_some:
  assumes "memb_ok m" "memb_used m \<noteq> memb_blocks m"
  shows "\<exists>p t. memb_alloc m = (Some p, t) \<and> p \<in> memb_blocks m - memb_used m \<and> memb_used t = insert p (memb_used m) \<and>
    memb_blocks t = memb_blocks m \<and> memb_ok t"
proof -
  obtain r t where a: "memb_alloc m = (r, t)" by fastforce
  from alloc_from_spec [OF this [unfolded memb_alloc_def]] show ?thesis
  proof
    assume "(\<forall>i \<in> set [0..<mb_num m]. mb_count m ! i \<noteq> 0) \<and> r = None \<and> t = m"
    then have "memb_used m = memb_blocks m" by (auto simp: memb_used_def memb_blocks_def)
    with assms(2) show ?thesis by simp
  next
    assume "\<exists>i \<in> set [0..<mb_num m]. mb_count m ! i = 0 \<and> r = Some (block_addr m i) \<and> t = m\<lparr>mb_count := (mb_count m)[i := 1]\<rparr>"
    then obtain i where i: "i < mb_num m" "mb_count m ! i = 0" "r = Some (block_addr m i)" "t = m\<lparr>mb_count := (mb_count m)[i := 1]\<rparr>"
      by auto
    have "block_addr m i \<in> memb_blocks m - memb_used m"
      using i(1,2) assms(1) by (auto simp: memb_used_def memb_blocks_def)
    then show ?thesis using a i used_update [OF assms(1) i(1)] by (simp add: memb_blocks_def)
  qed
qed

lemma memb_alloc_none:
  assumes "memb_ok m" "memb_used m = memb_blocks m"
  shows "memb_alloc m = (None, m)"
proof -
  have "mb_count m ! i \<noteq> 0" if "i < mb_num m" for i
  proof -
    have "block_addr m i \<in> memb_used m" using that assms(2) by (auto simp: memb_blocks_def)
    then show ?thesis using assms(1) by (auto simp: memb_used_def)
  qed
  then show ?thesis using alloc_from_spec [of "[0..<mb_num m]" m] unfolding memb_alloc_def
    by (cases "alloc_from [0..<mb_num m] m") force
qed

lemma memb_free_block:
  assumes "memb_ok m" "p \<in> memb_blocks m"
  shows "\<exists>t. memb_free p m = (0, t) \<and> memb_used t = memb_used m - {p} \<and> memb_blocks t = memb_blocks m \<and> memb_ok t"
proof -
  obtain i where i: "i < mb_num m" "p = block_addr m i" using assms(2) by (auto simp: memb_blocks_def)
  then show ?thesis using free_from_hit [OF assms(1), of i "[0..<mb_num m]"] used_update [OF assms(1) i(1)]
    by (simp add: memb_free_def memb_blocks_def)
qed

lemma memb_free_other: "p \<notin> memb_blocks m \<Longrightarrow> memb_free p m = (- 1, m)"
  using free_from_miss [of p m "[0..<mb_num m]"] by (simp add: memb_free_def memb_blocks_def atLeast0LessThan)

lemma memb_sets: "memb_used m \<subseteq> memb_blocks m" "finite (memb_blocks m)"
  by (auto simp: memb_used_def memb_blocks_def)

interpretation memb: block_pool memb_ok memb_blocks memb_used memb_alloc memb_free
  by unfold_locales (rule memb_sets memb_alloc_some memb_alloc_none memb_free_block memb_free_other, (assumption+)?)+

section \<open>Properties\<close>

text \<open>C17: Allocation returns a block of the pool that was not in use and marks exactly it as used, or nothing when all are
  used; freeing a block makes exactly it available again, freeing it a second time is harmless, and a pointer that
  is not the start of a block is refused. Every block lies within the pool's memory, and two blocks do not overlap.\<close>

theorem memb_allocates_disjoint_blocks:
  assumes "memb_ok m" "p \<in> memb_blocks m" "q \<in> memb_blocks m" "p \<noteq> q"
  shows "(case memb_alloc m of
       (Some r, t) \<Rightarrow> r \<in> memb_blocks m - memb_used m \<and> memb_used t = insert r (memb_used m) \<and> memb_ok t
     | (None, t) \<Rightarrow> t = m \<and> memb_used m = memb_blocks m) \<and>
    memb_used (snd (memb_free p m)) = memb_used m - {p} \<and>
    memb_used (snd (memb_free p (snd (memb_free p m)))) = memb_used m - {p} \<and>
    (x \<notin> memb_blocks m \<longrightarrow> memb_free x m = (- 1, m)) \<and>
    (\<forall>k < mb_size m. memb_inmemb (p + k) m) \<and> {p..<p + mb_size m} \<inter> {q..<q + mb_size m} = {}"
proof (intro conjI)
  show "case memb_alloc m of
       (Some r, t) \<Rightarrow> r \<in> memb_blocks m - memb_used m \<and> memb_used t = insert r (memb_used m) \<and> memb_ok t
     | (None, t) \<Rightarrow> t = m \<and> memb_used m = memb_blocks m"
    using memb.alloc_some [OF assms(1)] memb.alloc_none [OF assms(1)] by (cases "memb_used m = memb_blocks m") auto
  obtain t u where "memb_free p m = (0, t)" "memb_free p t = (0, u)" "memb_used u = memb_used t" "memb_used t = memb_used m - {p}"
    using memb.free_twice [OF assms(1,2)] by blast
  then show "memb_used (snd (memb_free p m)) = memb_used m - {p}"
    "memb_used (snd (memb_free p (snd (memb_free p m)))) = memb_used m - {p}" by simp_all
  show "x \<notin> memb_blocks m \<longrightarrow> memb_free x m = (- 1, m)" using memb.free_other [OF assms(1)] by blast
  obtain i j where ij: "i < mb_num m" "p = block_addr m i" "j < mb_num m" "q = block_addr m j" "i \<noteq> j"
    using assms(2-4) by (auto simp: memb_blocks_def)
  have "i * mb_size m + mb_size m \<le> mb_num m * mb_size m" using ij(1) mult_le_mono1 [of "i + 1" "mb_num m" "mb_size m"] by simp
  then show "\<forall>k < mb_size m. memb_inmemb (p + k) m" by (auto simp: ij(2) block_addr_def memb_inmemb_def)
  have "i * mb_size m + mb_size m \<le> j * mb_size m \<or> j * mb_size m + mb_size m \<le> i * mb_size m"
    using ij(5) mult_le_mono1 [of "i + 1" j "mb_size m"] mult_le_mono1 [of "j + 1" i "mb_size m"] by (cases "i < j") simp_all
  then show "{p..<p + mb_size m} \<inter> {q..<q + mb_size m} = {}" by (auto simp: ij(2,4) block_addr_def)
qed

theorem memb_allocates_disjoint_blocks_witness:
  "memb_used (snd (memb_free 110 (memb_init \<lparr>mb_size = 10, mb_num = 2, mb_count = [], mb_addr = 100, mb_bytes = []\<rparr>))) = {}"
proof -
  let ?m = "memb_init \<lparr>mb_size = 10, mb_num = 2, mb_count = [], mb_addr = 100, mb_bytes = []\<rparr>"
  have ok: "memb_ok ?m" "memb_used ?m = {}" using memb_ok_init by simp_all
  have p: "110 \<in> memb_blocks ?m" "100 \<in> memb_blocks ?m"
    by (auto simp: memb_blocks_def block_addr_def memb_init_def image_iff intro: bexI [of _ 1] bexI [of _ 0])
  from memb_allocates_disjoint_blocks [OF ok(1) p] ok(2) show ?thesis by simp
qed

end
