(* ===== verification/Onewire.thy ===== *)
theory Onewire
  imports Prelude
begin

text \<open>
  The 1-Wire bus driver of the temperature sensors (\<^verbatim>\<open>apps/temperature/onewire.c\<close>): one port pin,
  its direction and output latch, timed pulses, bytes, commands, and the search that finds the
  64-bit ROM codes of the devices on the bus. The wire and the devices on it are hardware, the
  argument \<open>line\<close>: what its level is, and how its state goes on while the pin is held for some
  microseconds.
\<close>

section \<open>The pin\<close>

definition OW_MATCH_ROM :: u8 where "OW_MATCH_ROM = 0x55"
definition OW_SKIP_ROM :: u8 where "OW_SKIP_ROM = 0xCC"
definition OW_SEARCH_ROM :: u8 where "OW_SEARCH_ROM = 0xF0"
definition OW_SEARCH_FIRST :: u8 where "OW_SEARCH_FIRST = 0xFF"
definition OW_PRESENCE_ERR :: u8 where "OW_PRESENCE_ERR = 0xFF"
definition OW_DATA_ERR :: u8 where "OW_DATA_ERR = 0xFE"
definition OW_LAST_DEVICE :: u8 where "OW_LAST_DEVICE = 0"
definition OW_ROMCODE_SIZE :: nat where "OW_ROMCODE_SIZE = 8"
definition OW_RECOVERY_TIME :: nat where "OW_RECOVERY_TIME = 10"
definition OW_CONF_DELAYOFFSET :: nat where "OW_CONF_DELAYOFFSET = 0"

record 'w ow =
  ow_ddr :: bool    \<comment> \<open>the bit of the pin in \<open>DDRA\<close>: driven\<close>
  ow_port :: bool   \<comment> \<open>the bit in \<open>PORTA\<close>: the level, or the pull-up of an input\<close>
  wire :: 'w

record 'w line =
  level :: "bool \<Rightarrow> bool \<Rightarrow> 'w \<Rightarrow> bool"         \<comment> \<open>from direction and output: what the input reads\<close>
  pass :: "bool \<Rightarrow> bool \<Rightarrow> nat \<Rightarrow> 'w \<Rightarrow> 'w"    \<comment> \<open>the same, and for how many microseconds\<close>

definition OW_GET_IN :: "'w line \<Rightarrow> ('w, 'z) ow_scheme \<Rightarrow> u8" where
  "OW_GET_IN L s = (if level L (ow_ddr s) (ow_port s) (wire s) then 0x40 else 0)"

definition OW_OUT_LOW :: "('w, 'z) ow_scheme \<Rightarrow> ('w, 'z) ow_scheme" where
  "OW_OUT_LOW s = s\<lparr>ow_port := False\<rparr>"

definition OW_OUT_HIGH :: "('w, 'z) ow_scheme \<Rightarrow> ('w, 'z) ow_scheme" where
  "OW_OUT_HIGH s = s\<lparr>ow_port := True\<rparr>"

definition OW_DIR_IN :: "('w, 'z) ow_scheme \<Rightarrow> ('w, 'z) ow_scheme" where
  "OW_DIR_IN s = s\<lparr>ow_ddr := False\<rparr>"

definition OW_DIR_OUT :: "('w, 'z) ow_scheme \<Rightarrow> ('w, 'z) ow_scheme" where
  "OW_DIR_OUT s = s\<lparr>ow_ddr := True\<rparr>"

definition delay_us :: "'w line \<Rightarrow> nat \<Rightarrow> ('w, 'z) ow_scheme \<Rightarrow> ('w, 'z) ow_scheme" where
  "delay_us L n s = s\<lparr>wire := pass L (ow_ddr s) (ow_port s) n (wire s)\<rparr>"

definition ow_input_pin_state :: "'w line \<Rightarrow> ('w, 'z) ow_scheme \<Rightarrow> u8" where
  "ow_input_pin_state L s = OW_GET_IN L s"

definition ow_parasite_enable :: "('w, 'z) ow_scheme \<Rightarrow> ('w, 'z) ow_scheme" where
  "ow_parasite_enable s = OW_DIR_OUT (OW_OUT_HIGH s)"

text \<open>With the internal pull-up (\<open>OW_USE_INTERNAL_PULLUP\<close> is 1) the output stays high.\<close>

definition ow_parasite_disable :: "('w, 'z) ow_scheme \<Rightarrow> ('w, 'z) ow_scheme" where
  "ow_parasite_disable s = OW_DIR_IN s"

section \<open>Pulses, bytes and commands\<close>

definition ow_reset :: "'w line \<Rightarrow> ('w, 'z) ow_scheme \<Rightarrow> u8 \<times> ('w, 'z) ow_scheme" where
  "ow_reset L s =
     (let s = delay_us L 480 (OW_DIR_OUT (OW_OUT_LOW s));
          s = delay_us L 64 (OW_OUT_HIGH (OW_DIR_IN s));
          err = OW_GET_IN L s;
          s = delay_us L (480 - 64) s
      in (if OW_GET_IN L s = 0 then 1 else err, s))"

definition ow_bit_io_intern :: "'w line \<Rightarrow> u8 \<Rightarrow> bool \<Rightarrow> ('w, 'z) ow_scheme \<Rightarrow> u8 \<times> ('w, 'z) ow_scheme" where
  "ow_bit_io_intern L b with_parasite_enable s =
     (let s = delay_us L 2 (OW_DIR_OUT (OW_OUT_LOW s));
          s = (if b \<noteq> 0 then OW_OUT_HIGH (OW_DIR_IN s) else s);
          s = delay_us L (15 - 2 - OW_CONF_DELAYOFFSET) s;
          b = (if OW_GET_IN L s = 0 then 0 else b);
          s = delay_us L (60 - 15 - 2 + OW_CONF_DELAYOFFSET) s;
          s = OW_DIR_IN (OW_OUT_HIGH s);
          s = (if with_parasite_enable then ow_parasite_enable s else s)
      in (b, delay_us L OW_RECOVERY_TIME s))"

definition ow_bit_io :: "'w line \<Rightarrow> u8 \<Rightarrow> ('w, 'z) ow_scheme \<Rightarrow> u8 \<times> ('w, 'z) ow_scheme" where
  "ow_bit_io L b s = ow_bit_io_intern L (b AND 1) False s"

text \<open>The loop over the bits of a byte, the number still to be sent counted down.\<close>

primrec byte_loop :: "(nat \<Rightarrow> bool) \<Rightarrow> 'w line \<Rightarrow> nat \<Rightarrow> u8 \<Rightarrow> ('w, 'z) ow_scheme \<Rightarrow> u8 \<times> ('w, 'z) ow_scheme" where
  "byte_loop enable L 0 b s = (b, s)"
| "byte_loop enable L (Suc i) b s =
     (let (j, s) = ow_bit_io_intern L (b AND 1) (enable (Suc i)) s;
          b = drop_bit 1 b
      in byte_loop enable L i (if j \<noteq> 0 then b OR 0x80 else b) s)"

definition ow_byte_wr :: "'w line \<Rightarrow> u8 \<Rightarrow> ('w, 'z) ow_scheme \<Rightarrow> u8 \<times> ('w, 'z) ow_scheme" where
  "ow_byte_wr L b s = byte_loop (\<lambda>_. False) L 8 b s"

definition ow_byte_wr_with_parasite_enable :: "'w line \<Rightarrow> u8 \<Rightarrow> ('w, 'z) ow_scheme \<Rightarrow> u8 \<times> ('w, 'z) ow_scheme" where
  "ow_byte_wr_with_parasite_enable L b s = byte_loop (\<lambda>i. i = 1) L 8 b s"

definition ow_byte_rd :: "'w line \<Rightarrow> ('w, 'z) ow_scheme \<Rightarrow> u8 \<times> ('w, 'z) ow_scheme" where
  "ow_byte_rd L s = ow_byte_wr L 0xFF s"

definition ow_command_intern :: "'w line \<Rightarrow> u8 \<Rightarrow> u8 list option \<Rightarrow> bool \<Rightarrow> ('w, 'z) ow_scheme \<Rightarrow> ('w, 'z) ow_scheme" where
  "ow_command_intern L command rom with_parasite_enable s =
     (let s = snd (ow_reset L s);
          s = (case rom of
                 Some code \<Rightarrow> fold (\<lambda>b s. snd (ow_byte_wr L b s)) (take OW_ROMCODE_SIZE code) (snd (ow_byte_wr L OW_MATCH_ROM s))
               | None \<Rightarrow> snd (ow_byte_wr L OW_SKIP_ROM s))
      in if with_parasite_enable then snd (ow_byte_wr_with_parasite_enable L command s)
         else snd (ow_byte_wr L command s))"

definition ow_command :: "'w line \<Rightarrow> u8 \<Rightarrow> u8 list option \<Rightarrow> ('w, 'z) ow_scheme \<Rightarrow> ('w, 'z) ow_scheme" where
  "ow_command L command rom s = ow_command_intern L command rom False s"

definition ow_command_with_parasite_enable :: "'w line \<Rightarrow> u8 \<Rightarrow> u8 list option \<Rightarrow> ('w, 'z) ow_scheme \<Rightarrow> ('w, 'z) ow_scheme" where
  "ow_command_with_parasite_enable L command rom s = ow_command_intern L command rom True s"

section \<open>The search\<close>

text \<open>The choice at one bit: the bit and its complement as the devices sent them.\<close>

definition search_choice :: "u8 \<Rightarrow> u8 \<Rightarrow> u8 \<Rightarrow> u8 \<Rightarrow> u8 \<Rightarrow> u8 \<Rightarrow> (u8 \<times> u8) option" where
  "search_choice diff i next_diff byte b b' =
     (if b' \<noteq> 0 then (if b \<noteq> 0 then None else Some (b, next_diff))
      else if b = 0 \<and> (diff > i \<or> (byte AND 1 \<noteq> 0 \<and> diff \<noteq> i)) then Some (1, i)
      else Some (b, next_diff))"

text \<open>The loop over the bits of one byte of the code; \<open>None\<close> in the first component is the data error.\<close>

primrec search_bits :: "'w line \<Rightarrow> u8 \<Rightarrow> nat \<Rightarrow> u8 \<Rightarrow> u8 \<Rightarrow> u8 \<Rightarrow> ('w, 'z) ow_scheme \<Rightarrow>
    (u8 \<times> u8) option \<times> u8 \<times> ('w, 'z) ow_scheme" where
  "search_bits L diff 0 i next_diff byte s = (Some (i, next_diff), byte, s)"
| "search_bits L diff (Suc j) i next_diff byte s =
     (let (b, s) = ow_bit_io L 1 s;
          (b', s) = ow_bit_io L 1 s
      in case search_choice diff i next_diff byte b b' of
           None \<Rightarrow> (None, byte, s)
         | Some (b, next_diff) \<Rightarrow>
             (let (_, s) = ow_bit_io L b s;
                  byte = drop_bit 1 byte
              in search_bits L diff j (i - 1) next_diff (if b \<noteq> 0 then byte OR 0x80 else byte) s))"

text \<open>The loop over the bytes.\<close>

fun search_bytes :: "'w line \<Rightarrow> u8 \<Rightarrow> u8 \<Rightarrow> u8 \<Rightarrow> u8 list \<Rightarrow> ('w, 'z) ow_scheme \<Rightarrow> u8 \<times> u8 list \<times> ('w, 'z) ow_scheme" where
  "search_bytes L diff i next_diff [] s = (next_diff, [], s)"
| "search_bytes L diff i next_diff (byte # rom) s =
     (case search_bits L diff 8 i next_diff byte s of
        (None, byte, s) \<Rightarrow> (OW_DATA_ERR, byte # rom, s)
      | (Some (i, next_diff), byte, s) \<Rightarrow>
          (if i = 0 then (next_diff, byte # rom, s)
           else (let (r, rom, s) = search_bytes L diff i next_diff rom s in (r, byte # rom, s))))"

definition ow_rom_search :: "'w line \<Rightarrow> u8 \<Rightarrow> u8 list \<Rightarrow> ('w, 'z) ow_scheme \<Rightarrow> u8 \<times> u8 list \<times> ('w, 'z) ow_scheme" where
  "ow_rom_search L diff rom s =
     (let (err, s) = ow_reset L s
      in if err \<noteq> 0 then (OW_PRESENCE_ERR, rom, s)
         else (let (_, s) = ow_byte_wr L OW_SEARCH_ROM s
               in search_bytes L diff (of_nat (OW_ROMCODE_SIZE * 8)) OW_LAST_DEVICE rom s))"

end
