(* ===== verification/Rom_Search.thy ===== *)
theory Rom_Search
  imports Onewire
begin

text \<open>
  Why the search of the 1-Wire bus (\<^verbatim>\<open>ow_rom_search\<close> in \<^verbatim>\<open>apps/temperature/onewire.c\<close>) finds every device once.
  The search is first followed on sets of bit strings: each pass walks down the binary tree of the codes
  and finds the code next below the last one, in the order in which the bit sent first counts most. Then it is
  shown that the code does that on every bus whose devices follow the search protocol of the 1-Wire standard.
\<close>

section \<open>The search on bit strings\<close>

definition branch :: "bool \<Rightarrow> bool list set \<Rightarrow> bool list set" where
  "branch b D = {xs. b # xs \<in> D}"

definition conflict :: "bool list set \<Rightarrow> bool" where
  "conflict D = (branch True D \<noteq> {} \<and> branch False D \<noteq> {})"

fun descend :: "bool list set \<Rightarrow> nat \<Rightarrow> bool list \<Rightarrow> nat \<Rightarrow> bool list \<times> nat" where
  "descend D diff [] nd = ([], nd)"
| "descend D diff (p # ps) nd =
     (let i = Suc (length ps);
          b = (if conflict D then diff > i \<or> (p \<and> diff \<noteq> i) else branch True D \<noteq> {});
          (r, nd) = descend (branch b D) diff ps (if conflict D \<and> b then i else nd)
      in (b # r, nd))"

text \<open>The last position at which a code chose the larger of two branches.\<close>

fun last_one :: "bool list set \<Rightarrow> bool list \<Rightarrow> nat" where
  "last_one D [] = 0"
| "last_one D (p # ps) =
     (let d = last_one (branch p D) ps
      in if d \<noteq> 0 then d else if p \<and> branch False D \<noteq> {} then Suc (length ps) else 0)"

fun code :: "bool list \<Rightarrow> nat" where
  "code [] = 0"
| "code (b # bs) = (if b then 2 ^ length bs else 0) + code bs"

lemma code_less: "code xs < 2 ^ length xs"
  by (induction xs) auto

lemma code_inj: "length xs = length ys \<Longrightarrow> code xs = code ys \<Longrightarrow> xs = ys"
proof (induction xs ys rule: list_induct2)
  case (Cons x xs y ys)
  then show ?case using code_less [of xs] code_less [of ys] by (cases x; cases y) auto
qed simp

lemma code_Cons_less:
  "length xs = length ys \<Longrightarrow> (code (x # xs) < code (y # ys)) = ((\<not> x \<and> y) \<or> (x = y \<and> code xs < code ys))"
  using code_less [of xs] code_less [of ys] by (cases x; cases y) auto

lemma code_Cons_le:
  "length xs = length ys \<Longrightarrow> (code (x # xs) \<le> code (y # ys)) = ((\<not> x \<and> y) \<or> (x = y \<and> code xs \<le> code ys))"
  using code_less [of xs] code_less [of ys] by (cases x; cases y) auto

definition codes :: "nat \<Rightarrow> bool list set \<Rightarrow> bool" where
  "codes n D = (\<forall>x \<in> D. length x = n)"

lemma codes_branch: "codes (Suc n) D \<Longrightarrow> codes n (branch b D)"
  by (auto simp: codes_def branch_def)

lemma codes_cases: "codes (Suc n) D \<Longrightarrow> x \<in> D \<Longrightarrow> \<exists>b y. x = b # y \<and> y \<in> branch b D \<and> length y = n"
  by (cases x) (auto simp: codes_def branch_def)

lemma last_one_le: "last_one D ps \<le> length ps"
proof (induction D ps rule: last_one.induct)
  case (2 D p ps)
  then show ?case by (simp add: Let_def)
qed simp

text \<open>A code that never chose the larger branch is the smallest.\<close>

lemma last_one_zero:
  "codes (length r) D \<Longrightarrow> r \<in> D \<Longrightarrow> last_one D r = 0 \<Longrightarrow> x \<in> D \<Longrightarrow> code r \<le> code x"
proof (induction r arbitrary: D x)
  case (Cons b r)
  have c: "codes (Suc (length r)) D" using Cons.prems(1) by simp
  obtain a y where x: "x = a # y" "y \<in> branch a D" "length y = length r" using codes_cases [OF c Cons.prems(4)] by blast
  have r: "r \<in> branch b D" using Cons.prems(2) by (simp add: branch_def)
  have l: "last_one (branch b D) r = 0" "\<not> (b \<and> branch False D \<noteq> {})"
    using Cons.prems(3) by (simp_all add: Let_def split: if_splits)
  show ?case
  proof (cases "a = b")
    case True
    then show ?thesis using Cons.IH [OF codes_branch [OF c] r l(1)] x by simp
  next
    case False
    then show ?thesis using x l(2) by (cases a; cases b) (auto simp: code_Cons_le simp del: code.simps)
  qed
qed simp

text \<open>With \<open>diff\<close> above all positions, the search takes the larger branch everywhere.\<close>

lemma descend_first:
  "codes (length ps) D \<Longrightarrow> D \<noteq> {} \<Longrightarrow> length ps < diff \<Longrightarrow>
   \<exists>r. descend D diff ps nd = (r, if last_one D r = 0 then nd else last_one D r) \<and> r \<in> D \<and> (\<forall>x \<in> D. code x \<le> code r)"
proof (induction ps arbitrary: D nd)
  case Nil
  then have "D = {[]}" by (auto simp: codes_def)
  then show ?case by simp
next
  case (Cons p ps)
  have c: "codes (Suc (length ps)) D" using Cons.prems(1) by simp
  let ?b = "branch True D \<noteq> {}" and ?nd = "if conflict D then Suc (length ps) else nd"
  have "branch True D \<noteq> {} \<or> branch False D \<noteq> {}"
    using Cons.prems(2) codes_cases [OF c] by (metis (full_types) empty_iff equals0I)
  then have ne: "branch ?b D \<noteq> {}" by (cases ?b) auto
  obtain r where r: "descend (branch ?b D) diff ps ?nd =
      (r, if last_one (branch ?b D) r = 0 then ?nd else last_one (branch ?b D) r)"
    "r \<in> branch ?b D" "\<forall>x \<in> branch ?b D. code x \<le> code r"
    using Cons.IH [OF codes_branch [OF c] ne, of ?nd] Cons.prems(3) by auto
  have "code x \<le> code (?b # r)" if m: "x \<in> D" for x
  proof -
    obtain a y where x: "x = a # y" "y \<in> branch a D" "length y = length ps" using codes_cases [OF c m] by blast
    have "length r = length ps" using r(2) c by (auto simp: branch_def codes_def)
    then show ?thesis using x r(3) by (cases a; cases ?b) (auto simp: code_Cons_le simp del: code.simps)
  qed
  moreover have "?b # r \<in> D" using r(2) by (simp add: branch_def)
  moreover have "length r = length ps" using r(2) c by (auto simp: branch_def codes_def)
  then have "descend D diff (p # ps) nd = (?b # r, if last_one D (?b # r) = 0 then nd else last_one D (?b # r))"
    using r(1) Cons.prems(3) ne by (auto simp: Let_def conflict_def split: prod.splits if_splits)
  ultimately show ?case by blast
qed

text \<open>With \<open>diff\<close> the last choice of a code, it finds the next smaller one.\<close>

lemma descend_next:
  "codes (length ps) D \<Longrightarrow> ps \<in> D \<Longrightarrow> last_one D ps = diff \<Longrightarrow> diff \<noteq> 0 \<Longrightarrow>
   \<exists>r. descend D diff ps nd = (r, if last_one D r = 0 then nd else last_one D r) \<and> r \<in> D \<and> code r < code ps \<and>
     (\<forall>x \<in> D. code x < code ps \<longrightarrow> code x \<le> code r)"
proof (induction ps arbitrary: D nd)
  case (Cons p ps)
  have c: "codes (Suc (length ps)) D" using Cons.prems(1) by simp
  have p: "ps \<in> branch p D" using Cons.prems(2) by (simp add: branch_def)
  have len: "length r = length ps" if "r \<in> branch b D" for r b using that c by (auto simp: branch_def codes_def)
  show ?case
  proof (cases "last_one (branch p D) ps = 0")
    case True
    then have d: "p" "branch False D \<noteq> {}" "diff = Suc (length ps)" using Cons.prems(3,4) by (auto simp: Let_def split: if_splits)
    obtain r where r: "descend (branch False D) diff ps nd =
        (r, if last_one (branch False D) r = 0 then nd else last_one (branch False D) r)"
      "r \<in> branch False D" "\<forall>x \<in> branch False D. code x \<le> code r"
      using descend_first [OF codes_branch [OF c] d(2), of diff nd] d(3) by auto
    have conf: "conflict D" using d p by (auto simp: conflict_def)
    have "code x \<le> code (False # r)" if m: "x \<in> D" "code x < code (p # ps)" for x
    proof -
      obtain a y where x: "x = a # y" "y \<in> branch a D" "length y = length ps" using codes_cases [OF c m(1)] by blast
      have "\<not> a"
      proof
        assume "a"
        then have "code ps \<le> code y" using last_one_zero [OF codes_branch [OF c] p True] x(2) d(1) by simp
        then show False using m(2) x \<open>a\<close> d(1) by (auto simp: code_Cons_less simp del: code.simps)
      qed
      then show ?thesis using x r(3) len [OF r(2)] by (simp add: code_Cons_le del: code.simps)
    qed
    moreover have "False # r \<in> D" using r(2) by (simp add: branch_def)
    moreover have "code (False # r) < code (p # ps)" using d(1) len [OF r(2)] by (subst code_Cons_less) simp_all
    moreover have "descend D diff (p # ps) nd = (False # r, if last_one D (False # r) = 0 then nd else last_one D (False # r))"
      using r(1) d conf by (simp add: Let_def)
    ultimately show ?thesis by blast
  next
    case False
    then have d: "last_one (branch p D) ps = diff" using Cons.prems(3) by (simp add: Let_def)
    then have le: "diff \<le> length ps" using last_one_le [of "branch p D" ps] by simp
    let ?nd = "if conflict D \<and> p then Suc (length ps) else nd"
    obtain r where r: "descend (branch p D) diff ps ?nd =
        (r, if last_one (branch p D) r = 0 then ?nd else last_one (branch p D) r)"
      "r \<in> branch p D" "code r < code ps" "\<forall>x \<in> branch p D. code x < code ps \<longrightarrow> code x \<le> code r"
      using Cons.IH [OF codes_branch [OF c] p d Cons.prems(4), of ?nd] by blast
    have b: "(if conflict D then diff > Suc (length ps) \<or> (p \<and> diff \<noteq> Suc (length ps)) else branch True D \<noteq> {}) = p"
      using le p by (auto simp: conflict_def)
    have "code x \<le> code (p # r)" if m: "x \<in> D" "code x < code (p # ps)" for x
    proof -
      obtain a y where x: "x = a # y" "y \<in> branch a D" "length y = length ps" using codes_cases [OF c m(1)] by blast
      show ?thesis using x m(2) r(4) len [OF r(2)] by (auto simp: code_Cons_le code_Cons_less simp del: code.simps)
    qed
    moreover have "p # r \<in> D" using r(2) by (simp add: branch_def)
    moreover have "code (p # r) < code (p # ps)" using r(3) len [OF r(2)] by (subst code_Cons_less) simp_all
    moreover have "branch p D \<noteq> {}" using p by blast
    then have "descend D diff (p # ps) nd = (p # r, if last_one D (p # r) = 0 then nd else last_one D (p # r))"
      using r(1) b len [OF r(2)] by (auto simp: Let_def conflict_def split: prod.splits if_splits)
    ultimately show ?thesis by blast
  qed
qed simp

section \<open>Devices that follow the protocol\<close>

text \<open>
  What the standard says of the devices, as a relation between the phases of a search and the states of the bus:
  a reset makes all devices ready, and one of them answers; after the search command the devices in the
  search send the next bit of their codes and then its complement, and a low bit wins; and those whose bit
  is not the one the master then writes leave the search.
\<close>

datatype phase = Ready | Send "bool list set" | Complement "bool list set" | Choose "bool list set"

definition follows_search :: "'w line \<Rightarrow> bool list set \<Rightarrow> (phase \<Rightarrow> ('w, 'z) ow_scheme \<Rightarrow> bool) \<Rightarrow> bool" where
  "follows_search L D R =
     ((\<forall>s. if D = {} then fst (ow_reset L s) \<noteq> 0 else fst (ow_reset L s) = 0 \<and> R Ready (snd (ow_reset L s))) \<and>
      (\<forall>s. R Ready s \<longrightarrow> R (Send D) (snd (ow_byte_wr L OW_SEARCH_ROM s))) \<and>
      (\<forall>S s. S \<noteq> {} \<longrightarrow> R (Send S) s \<longrightarrow>
         (fst (ow_bit_io L 1 s) \<noteq> 0) = (branch False S = {}) \<and> R (Complement S) (snd (ow_bit_io L 1 s))) \<and>
      (\<forall>S s. S \<noteq> {} \<longrightarrow> R (Complement S) s \<longrightarrow>
         (fst (ow_bit_io L 1 s) \<noteq> 0) = (branch True S = {}) \<and> R (Choose S) (snd (ow_bit_io L 1 s))) \<and>
      (\<forall>S s b. R (Choose S) s \<longrightarrow> R (Send (branch b S)) (snd (ow_bit_io L (of_bool b) s))))"

lemma follows_searchD:
  assumes "follows_search L D R"
  shows "D = {} \<Longrightarrow> fst (ow_reset L s) \<noteq> 0"
    and "D \<noteq> {} \<Longrightarrow> fst (ow_reset L s) = 0 \<and> R Ready (snd (ow_reset L s))"
    and "R Ready s \<Longrightarrow> R (Send D) (snd (ow_byte_wr L OW_SEARCH_ROM s))"
    and "S \<noteq> {} \<Longrightarrow> R (Send S) s \<Longrightarrow> (fst (ow_bit_io L 1 s) \<noteq> 0) = (branch False S = {}) \<and> R (Complement S) (snd (ow_bit_io L 1 s))"
    and "S \<noteq> {} \<Longrightarrow> R (Complement S) s \<Longrightarrow> (fst (ow_bit_io L 1 s) \<noteq> 0) = (branch True S = {}) \<and> R (Choose S) (snd (ow_bit_io L 1 s))"
    and "R (Choose S) s \<Longrightarrow> R (Send (branch b S)) (snd (ow_bit_io L (of_bool b) s))"
  using assms unfolding follows_search_def by (meson)+

lemma bit_io_1: "fst (ow_bit_io L 1 s) = (if fst (ow_bit_io L 1 s) \<noteq> 0 then 1 else 0)"
  by (simp add: ow_bit_io_def ow_bit_io_intern_def Let_def)

text \<open>The choice of the code is the choice of the search on bit strings.\<close>

lemma choice_eq:
  assumes "S \<noteq> {}" "codes (Suc n) S" "(b \<noteq> 0) = (branch False S = {})" "b = (if b \<noteq> 0 then 1 else 0)"
    and "(b' \<noteq> 0) = (branch True S = {})"
    and "c = (if conflict S then diff > i \<or> (bit byte 0 \<and> diff \<noteq> i) else branch True S \<noteq> {})"
  shows "search_choice diff i nd byte b b' = Some (of_bool c, if conflict S \<and> c then i else nd)"
proof -
  have "branch True S \<noteq> {} \<or> branch False S \<noteq> {}"
    using assms(1) codes_cases [OF assms(2)] by (metis (full_types) empty_iff equals0I)
  moreover have "(byte AND 1 \<noteq> 0) = bit byte 0" by (simp add: bit_simps and_one_eq odd_iff_mod_2_eq_one bit_0)
  ultimately show ?thesis using assms(3-6) by (auto simp: search_choice_def conflict_def split: if_splits)
qed

lemma branch_nonempty:
  "S \<noteq> {} \<Longrightarrow> codes (Suc n) S \<Longrightarrow>
   branch (if conflict S then x else branch True S \<noteq> {}) S \<noteq> {}"
  using codes_cases [of n S] by (auto simp: conflict_def) (metis (full_types) empty_iff equals0I)+

definition byte_bits :: "u8 \<Rightarrow> bool list" where
  "byte_bits x = map (bit x) [0..<8]"

definition rom_bits :: "u8 list \<Rightarrow> bool list" where
  "rom_bits rom = concat (map byte_bits rom)"

lemma byte_bits_eval: "byte_bits x = [bit x 0, bit x 1, bit x 2, bit x 3, bit x 4, bit x 5, bit x 6, bit x 7]"
  by (simp add: byte_bits_def upt_rec eval_nat_numeral)

lemma length_byte_bits [simp]: "length (byte_bits x) = 8"
  by (simp add: byte_bits_def)

lemma length_rom_bits [simp]: "length (rom_bits rom) = 8 * length rom"
  by (induction rom) (simp_all add: rom_bits_def)

lemma rom_bits_Cons: "rom_bits (x # rom) = byte_bits x @ rom_bits rom"
  by (simp add: rom_bits_def)

lemma byte_bits_inj: "byte_bits x = byte_bits y \<Longrightarrow> x = y"
  by (rule bit_word_eqI) (simp add: byte_bits_def)

lemma rom_bits_inj: "length a = length b \<Longrightarrow> rom_bits a = rom_bits b \<Longrightarrow> a = b"
  by (induction a b rule: list_induct2) (auto simp: rom_bits_Cons dest: byte_bits_inj)

section \<open>The code follows the search on bit strings\<close>

lemma of_nat_8_less: "k \<le> 64 \<Longrightarrow> (of_nat k < (d :: u8)) = (k < unat d)"
  by (simp add: word_less_nat_alt unat_of_nat)

lemma of_nat_8_eq: "k \<le> 64 \<Longrightarrow> (d = (of_nat k :: u8)) = (unat d = k)"
  by (auto simp: word_unat_eq_iff unat_of_nat)

lemma descend_Cons:
  "c = (if conflict D then diff > Suc (length ps) \<or> (p \<and> diff \<noteq> Suc (length ps)) else branch True D \<noteq> {}) \<Longrightarrow>
   descend D diff (p # ps) nd =
     (let (r, nd) = descend (branch c D) diff ps (if conflict D \<and> c then Suc (length ps) else nd) in (c # r, nd))"
  by (simp add: Let_def)

text \<open>One turn of the inner loop.\<close>

lemma search_bit:
  assumes f: "follows_search L D R" and S: "S \<noteq> {}" "codes (Suc n) S" and s: "R (Send S) s" and n: "Suc n \<le> 64"
    and c: "c = (if conflict S then unat diff > Suc n \<or> (bit x 0 \<and> unat diff \<noteq> Suc n) else branch True S \<noteq> {})"
  shows "\<exists>t. R (Send (branch c S)) t \<and> branch c S \<noteq> {} \<and> codes n (branch c S) \<and>
    search_bits L diff (Suc j) (of_nat (Suc n)) (of_nat nd) x s =
      search_bits L diff j (of_nat n) (of_nat (if conflict S \<and> c then Suc n else nd))
        (if c then drop_bit 1 x OR 0x80 else drop_bit 1 x) t"
proof -
  obtain b u where b: "ow_bit_io L 1 s = (b, u)" by (cases "ow_bit_io L 1 s")
  have b1: "(b \<noteq> 0) = (branch False S = {})" "R (Complement S) u" "b = (if b \<noteq> 0 then 1 else 0)"
    using follows_searchD(4) [OF f S(1) s] bit_io_1 [of L s] b by simp_all
  obtain b' v where b': "ow_bit_io L 1 u = (b', v)" by (cases "ow_bit_io L 1 u")
  have b2: "(b' \<noteq> 0) = (branch True S = {})" "R (Choose S) v"
    using follows_searchD(5) [OF f S(1) b1(2)] b' by simp_all
  have "c = (if conflict S then diff > of_nat (Suc n) \<or> (bit x 0 \<and> diff \<noteq> of_nat (Suc n)) else branch True S \<noteq> {})"
    using c of_nat_8_less [OF n, of diff] of_nat_8_eq [OF n, of diff] by simp
  from choice_eq [OF S b1(1,3) b2(1) this]
  have "search_choice diff (of_nat (Suc n)) (of_nat nd) x b b' =
      Some (of_bool c, if conflict S \<and> c then of_nat (Suc n) else of_nat nd)" .
  moreover have "R (Send (branch c S)) (snd (ow_bit_io L (of_bool c) v))" by (rule follows_searchD(6) [OF f b2(2)])
  moreover have "(of_nat (Suc n) :: u8) - 1 = of_nat n" by simp
  moreover have "branch c S \<noteq> {}" unfolding c by (rule branch_nonempty [OF S])
  ultimately show ?thesis using codes_branch [OF S(2), of c]
    by (auto simp: b b' Let_def split_beta split: if_splits)
qed

lemma bit_shifted_in:
  assumes "n < 8"
  shows "bit (if c then drop_bit 1 (x :: u8) OR 0x80 else drop_bit 1 x) n = (if n = 7 then c else bit x (Suc n))"
proof -
  have "bit (0x80 :: u8) n = (n = 7)" using less_8_cases [OF assms] by (elim insertE emptyE) (simp_all add: bit_numeral_rec)
  moreover have "\<not> bit x 8" by (rule no_bit_beyond) simp
  ultimately show ?thesis by (auto simp: bit_simps)
qed

lemma search_bits_descend:
  assumes f: "follows_search L D R"
  shows "S \<noteq> {} \<Longrightarrow> codes (j + length qs) S \<Longrightarrow> R (Send S) s \<Longrightarrow> j \<le> 8 \<Longrightarrow> j + length qs \<le> 64 \<Longrightarrow> nd \<le> 64 \<Longrightarrow>
    \<exists>r nd' y t. search_bits L diff j (of_nat (j + length qs)) (of_nat nd) x s = (Some (of_nat (length qs), of_nat nd'), y, t) \<and>
      length r = j \<and> fold branch r S \<noteq> {} \<and> codes (length qs) (fold branch r S) \<and> R (Send (fold branch r S)) t \<and> nd' \<le> 64 \<and>
      (\<forall>n < 8. bit y n = (if n < 8 - j then bit x (n + j) else r ! (n - (8 - j)))) \<and>
      descend S (unat diff) (map (bit x) [0..<j] @ qs) nd =
        (let (r', nd'') = descend (fold branch r S) (unat diff) qs nd' in (r @ r', nd''))"
proof (induction j arbitrary: S s nd x)
  case 0
  then show ?case by (intro exI [of _ "[]"] exI [of _ nd] exI [of _ x] exI [of _ s]) simp
next
  case (Suc j)
  let ?n = "j + length qs"
  define c where "c = (if conflict S then unat diff > Suc ?n \<or> (bit x 0 \<and> unat diff \<noteq> Suc ?n) else branch True S \<noteq> {})"
  define y0 where "y0 = (if c then drop_bit 1 x OR 0x80 else drop_bit 1 x)"
  let ?nd = "if conflict S \<and> c then Suc ?n else nd"
  obtain u where u: "R (Send (branch c S)) u" "branch c S \<noteq> {}" "codes ?n (branch c S)"
    "search_bits L diff (Suc j) (of_nat (Suc ?n)) (of_nat nd) x s =
       search_bits L diff j (of_nat ?n) (of_nat ?nd) y0 u"
    using search_bit [OF f Suc.prems(1) _ Suc.prems(3) _ c_def, of j nd] Suc.prems(2,5) unfolding y0_def by auto
  have "?nd \<le> 64" using Suc.prems(5,6) by simp
  moreover have "j \<le> 8" "?n \<le> 64" using Suc.prems(4,5) by simp_all
  ultimately obtain r nd' y t where r: "search_bits L diff j (of_nat ?n) (of_nat ?nd) y0 u = (Some (of_nat (length qs), of_nat nd'), y, t)"
    "length r = j" "fold branch r (branch c S) \<noteq> {}" "codes (length qs) (fold branch r (branch c S))"
    "R (Send (fold branch r (branch c S))) t" "nd' \<le> 64"
    "\<forall>n < 8. bit y n = (if n < 8 - j then bit y0 (n + j) else r ! (n - (8 - j)))"
    "descend (branch c S) (unat diff) (map (bit y0) [0..<j] @ qs) ?nd =
        (let (r', nd'') = descend (fold branch r (branch c S)) (unat diff) qs nd' in (r @ r', nd''))"
    using Suc.IH [OF u(2,3,1), of ?nd y0] by blast
  have y0: "bit y0 n = (if n = 7 then c else bit x (Suc n))" if "n < 8" for n using bit_shifted_in [OF that] by (simp add: y0_def)
  have m: "map (bit x) [0..<Suc j] = bit x 0 # map (bit y0) [0..<j]"
  proof -
    have "map (bit y0) [0..<j] = map (\<lambda>n. bit x (Suc n)) [0..<j]" using y0 Suc.prems(4) by (intro map_cong) auto
    then show ?thesis by (simp add: upt_conv_Cons map_Suc_upt [symmetric] comp_def del: upt_Suc)
  qed
  have len: "length (map (bit y0) [0..<j] @ qs) = ?n" by simp
  have "descend S (unat diff) (map (bit x) [0..<Suc j] @ qs) nd =
      (let (r', nd'') = descend (fold branch (c # r) S) (unat diff) qs nd' in ((c # r) @ r', nd''))"
    using descend_Cons [of c S "map (bit y0) [0..<j] @ qs" "unat diff" "bit x 0" nd, unfolded len, OF c_def] r(8)
    by (simp add: m split_beta del: descend.simps upt_Suc)
  moreover have "bit y n = (if n < 8 - Suc j then bit x (n + Suc j) else (c # r) ! (n - (8 - Suc j)))" if "n < 8" for n
  proof -
    consider "n < 8 - Suc j" | "n = 8 - Suc j" | "n \<ge> 8 - j" by linarith
    then show ?thesis
    proof cases
      case 1
      then show ?thesis using r(7) y0 [of "n + j"] that by auto
    next
      case 2
      then have "n + j = 7" "n < 8 - j" using Suc.prems(4) by linarith+
      then show ?thesis using r(7) y0 [of 7] that 2 by auto
    next
      case 3
      then have "n - (8 - Suc j) = Suc (n - (8 - j))" using Suc.prems(4) by linarith
      then show ?thesis using r(7) that 3 by auto
    qed
  qed
  ultimately show ?case using u(4) r(1-6)
    by (intro exI [of _ "c # r"] exI [of _ nd'] exI [of _ y] exI [of _ t]) simp
qed

lemma search_bytes_descend:
  assumes f: "follows_search L D R"
  shows "S \<noteq> {} \<Longrightarrow> codes (8 * length rom) S \<Longrightarrow> R (Send S) s \<Longrightarrow> length rom \<le> 8 \<Longrightarrow> nd \<le> 64 \<Longrightarrow>
    \<exists>rom' nd' t. search_bytes L diff (of_nat (8 * length rom)) (of_nat nd) rom s = (of_nat nd', rom', t) \<and> nd' \<le> 64 \<and>
      length rom' = length rom \<and> descend S (unat diff) (rom_bits rom) nd = (rom_bits rom', nd')"
proof (induction rom arbitrary: S s nd)
  case Nil
  then show ?case by (simp add: rom_bits_def)
next
  case (Cons x rom)
  have len: "8 * length (x # rom) = 8 + length (rom_bits rom)" by simp
  obtain r nd' y t where r: "search_bits L diff 8 (of_nat (8 + length (rom_bits rom))) (of_nat nd) x s =
      (Some (of_nat (length (rom_bits rom)), of_nat nd'), y, t)"
    "length r = 8" "fold branch r S \<noteq> {}" "codes (length (rom_bits rom)) (fold branch r S)" "R (Send (fold branch r S)) t" "nd' \<le> 64"
    "\<forall>n < 8. bit y n = (if n < 8 - 8 then bit x (n + 8) else r ! (n - (8 - 8)))"
    "descend S (unat diff) (map (bit x) [0..<8] @ rom_bits rom) nd =
        (let (r', nd'') = descend (fold branch r S) (unat diff) (rom_bits rom) nd' in (r @ r', nd''))"
    using search_bits_descend [OF f Cons.prems(1) _ Cons.prems(3) order_refl _ Cons.prems(5), of "rom_bits rom" diff x]
      Cons.prems(2,4) len by fastforce
  have y: "byte_bits y = r" using r(2,7) by (intro nth_equalityI) (simp_all add: byte_bits_def)
  obtain rom' nd'' u where u: "search_bytes L diff (of_nat (8 * length rom)) (of_nat nd') rom t = (of_nat nd'', rom', u)"
    "nd'' \<le> 64" "length rom' = length rom" "descend (fold branch r S) (unat diff) (rom_bits rom) nd' = (rom_bits rom', nd'')"
    using Cons.IH [OF r(3) _ r(5) _ r(6)] r(4) Cons.prems(4) by auto
  have "descend S (unat diff) (rom_bits (x # rom)) nd = (rom_bits (y # rom'), nd'')"
    using r(8) u(4) y by (simp add: rom_bits_Cons byte_bits_def)
  moreover have "search_bytes L diff (of_nat (8 * length (x # rom))) (of_nat nd) (x # rom) s = (of_nat nd'', y # rom', u)"
  proof (cases "rom = []")
    case True
    then show ?thesis using r(1) u by (simp add: len del: of_nat_add)
  next
    case False
    then have "(of_nat (length (rom_bits rom)) :: u8) \<noteq> 0" using Cons.prems(4) by (simp add: word_unat_eq_iff unat_of_nat del: of_nat_mult)
    then show ?thesis using r(1) u(1) by (simp add: len Let_def del: of_nat_add of_nat_mult)
  qed
  ultimately show ?case using u(2,3) by (intro exI [of _ "y # rom'"] exI [of _ nd''] exI [of _ u]) simp
qed

lemma rom_search_descend:
  assumes f: "follows_search L D (R :: phase \<Rightarrow> ('w, 'z) ow_scheme \<Rightarrow> bool)"
    and D: "D \<noteq> {}" "codes 64 D" and "length rom = 8"
  shows "\<exists>rom' nd t. ow_rom_search L diff rom (s :: ('w, 'z) ow_scheme) = (of_nat nd, rom', t) \<and> nd \<le> 64 \<and> length rom' = 8 \<and>
    descend D (unat diff) (rom_bits rom) 0 = (rom_bits rom', nd)"
proof -
  have r: "fst (ow_reset L s) = 0" "R Ready (snd (ow_reset L s))" using follows_searchD(2) [OF f D(1)] by simp_all
  then have "R (Send D) (snd (ow_byte_wr L OW_SEARCH_ROM (snd (ow_reset L s))))" using follows_searchD(3) [OF f] by blast
  from search_bytes_descend [OF f D(1) _ this, of rom 0 diff] D(2) assms(4)
  show ?thesis using r(1) by (auto simp: ow_rom_search_def split_beta Let_def OW_ROMCODE_SIZE_def OW_LAST_DEVICE_def)
qed

section \<open>All devices in turn\<close>

text \<open>The codes on the bus in the order of the search: the bit sent first counts most, and ones come first.\<close>

definition rom_code :: "u8 list \<Rightarrow> nat" where
  "rom_code rom = code (rom_bits rom)"

definition search_order :: "u8 list list \<Rightarrow> bool" where
  "search_order xs = (sorted_wrt (\<lambda>x y. rom_code y < rom_code x) xs \<and> (\<forall>x \<in> set xs. length x = 8))"

abbreviation on_bus :: "u8 list list \<Rightarrow> bool list set" where
  "on_bus xs \<equiv> rom_bits ` set xs"

definition mark :: "u8 list list \<Rightarrow> nat \<Rightarrow> nat" where
  "mark xs k = last_one (on_bus xs) (rom_bits (xs ! k))"

lemma codes_on_bus: "search_order xs \<Longrightarrow> codes 64 (on_bus xs)"
  by (auto simp: codes_def search_order_def)

lemma mark_le: "search_order xs \<Longrightarrow> k < length xs \<Longrightarrow> mark xs k \<le> 64"
  using last_one_le [of "on_bus xs" "rom_bits (xs ! k)"] by (simp add: mark_def search_order_def)

lemma order_nth:
  assumes "search_order xs" "i < length xs" "j < length xs"
  shows "(rom_code (xs ! i) < rom_code (xs ! j)) = (j < i)"
proof -
  have so: "sorted_wrt (\<lambda>x y. rom_code y < rom_code x) xs" using assms(1) unfolding search_order_def by blast
  show ?thesis
  proof (cases i j rule: linorder_cases)
    case less
    then show ?thesis using sorted_wrt_nth_less [OF so less assms(3)] less by simp
  next
    case greater
    then show ?thesis using sorted_wrt_nth_less [OF so greater assms(2)] greater by simp
  qed simp
qed

lemma found_nth:
  assumes "search_order xs" "rom_bits r \<in> on_bus xs" "length r = 8"
  shows "\<exists>j < length xs. r = xs ! j"
proof -
  obtain x where x: "x \<in> set xs" "rom_bits r = rom_bits x" using assms(2) by blast
  then have "r = x" using assms(1,3) by (intro rom_bits_inj) (simp_all add: search_order_def)
  then show ?thesis using x(1) by (metis in_set_conv_nth)
qed

lemma on_bus_nth: "x \<in> on_bus xs \<Longrightarrow> \<exists>j < length xs. x = rom_bits (xs ! j)"
  by (auto simp: in_set_conv_nth)

lemma first_pass:
  assumes "follows_search L (on_bus xs) (R :: phase \<Rightarrow> ('w, 'z) ow_scheme \<Rightarrow> bool)" "search_order xs" "xs \<noteq> []" "length rom = 8"
  shows "\<exists>t. ow_rom_search L OW_SEARCH_FIRST rom (s :: ('w, 'z) ow_scheme) = (of_nat (mark xs 0), xs ! 0, t)"
proof -
  let ?D = "on_bus xs"
  have c: "codes 64 ?D" and ne: "?D \<noteq> {}" using codes_on_bus assms(2,3) by auto
  obtain rom' nd t where r: "ow_rom_search L OW_SEARCH_FIRST rom s = (of_nat nd, rom', t)" "length rom' = 8"
    "descend ?D 255 (rom_bits rom) 0 = (rom_bits rom', nd)"
    using rom_search_descend [OF assms(1) ne c assms(4), of OW_SEARCH_FIRST s] by (auto simp: OW_SEARCH_FIRST_def)
  have m: "rom_bits rom' \<in> ?D" "nd = last_one ?D (rom_bits rom')" "\<forall>x \<in> ?D. code x \<le> code (rom_bits rom')"
    using descend_first [of "rom_bits rom" ?D 255 0] c ne assms(4) r(3) by (auto split: if_splits)
  obtain j where j: "j < length xs" "rom' = xs ! j" using found_nth [OF assms(2) m(1) r(2)] by blast
  have "rom_code (xs ! 0) \<le> rom_code (xs ! j)" using m(3) j assms(3) by (simp add: rom_code_def)
  then have "j = 0" using order_nth [OF assms(2) j(1), of 0] assms(3) by auto
  then show ?thesis using r(1) j(2) m(2) by (simp add: mark_def)
qed

lemma next_pass:
  assumes "follows_search L (on_bus xs) (R :: phase \<Rightarrow> ('w, 'z) ow_scheme \<Rightarrow> bool)" "search_order xs" "Suc k < length xs"
  shows "\<exists>t. ow_rom_search L (of_nat (mark xs k)) (xs ! k) (s :: ('w, 'z) ow_scheme) = (of_nat (mark xs (Suc k)), xs ! Suc k, t)"
    and "mark xs k \<noteq> 0"
proof -
  let ?D = "on_bus xs" and ?ps = "rom_bits (xs ! k)"
  have c: "codes 64 ?D" and ne: "?D \<noteq> {}" using codes_on_bus assms(2,3) by auto
  have k: "?ps \<in> ?D" "length (xs ! k) = 8" using assms(2,3) by (auto simp: search_order_def)
  show nz: "mark xs k \<noteq> 0"
  proof
    assume "mark xs k = 0"
    then have "code ?ps \<le> code (rom_bits (xs ! Suc k))"
      using last_one_zero [of ?ps ?D "rom_bits (xs ! Suc k)"] c k assms(3) by (auto simp: mark_def)
    then show False using order_nth [OF assms(2,3), of k] assms(3) by (simp add: rom_code_def)
  qed
  have u: "unat (of_nat (mark xs k) :: u8) = mark xs k" using mark_le [OF assms(2), of k] assms(3) by (simp add: unat_of_nat)
  obtain rom' nd t where r: "ow_rom_search L (of_nat (mark xs k)) (xs ! k) s = (of_nat nd, rom', t)" "length rom' = 8"
    "descend ?D (mark xs k) ?ps 0 = (rom_bits rom', nd)"
    using rom_search_descend [OF assms(1) ne c k(2), of "of_nat (mark xs k)" s] u by auto
  have m: "rom_bits rom' \<in> ?D" "nd = last_one ?D (rom_bits rom')" "code (rom_bits rom') < code ?ps"
    "\<forall>x \<in> ?D. code x < code ?ps \<longrightarrow> code x \<le> code (rom_bits rom')"
    using descend_next [of ?ps ?D "mark xs k" 0] c k r(3) nz by (auto simp: mark_def split: if_splits)
  obtain j where j: "j < length xs" "rom' = xs ! j" using found_nth [OF assms(2) m(1) r(2)] by blast
  have "rom_code (xs ! Suc k) \<le> rom_code (xs ! j)"
    using m(4) j order_nth [OF assms(2,3), of k] assms(3) by (auto simp: rom_code_def)
  moreover have "k < j" using m(3) j order_nth [OF assms(2) j(1), of k] assms(3) by (simp add: rom_code_def)
  ultimately have "j = Suc k" using order_nth [OF assms(2) j(1) assms(3)] by (metis Suc_lessI linorder_not_less)
  then show "\<exists>t. ow_rom_search L (of_nat (mark xs k)) (xs ! k) s = (of_nat (mark xs (Suc k)), xs ! Suc k, t)"
    using r(1) j(2) m(2) by (simp add: mark_def)
qed

lemma mark_last: "search_order xs \<Longrightarrow> Suc k = length xs \<Longrightarrow> mark xs k = 0"
proof (rule ccontr)
  assume xs: "search_order xs" and k: "Suc k = length xs" and nz: "mark xs k \<noteq> 0"
  let ?D = "on_bus xs" and ?ps = "rom_bits (xs ! k)"
  have "?ps \<in> ?D" "codes (length ?ps) ?D" using xs k codes_on_bus [OF xs] by (auto simp: search_order_def)
  from descend_next [OF this(2,1) _ nz, of 0] obtain r where r: "r \<in> ?D" "code r < code ?ps" by (auto simp: mark_def)
  obtain j where j: "j < length xs" "r = rom_bits (xs ! j)" using on_bus_nth [OF r(1)] by blast
  then have "k < j" using r(2) order_nth [OF xs j(1), of k] k by (simp add: rom_code_def)
  then show False using j k by simp
qed

lemma mark_zero: "search_order xs \<Longrightarrow> follows_search L (on_bus xs) R \<Longrightarrow> k < length xs \<Longrightarrow> (mark xs k = 0) = (Suc k = length xs)"
  using mark_last next_pass(2) by (metis Suc_lessI)

section \<open>A bus\<close>

text \<open>
  Devices with given codes, as a machine on the level of the wire: when the line is released after it was held low,
  the devices know from the time what the master meant, and hold the line themselves if they have to.
\<close>

datatype device_state = Idle | Command "bool list" | Searching phase

record rom_wire =
  devices :: device_state
  low_for :: nat
  held :: bool

definition hear_bit :: "bool list set \<Rightarrow> bool \<Rightarrow> device_state \<Rightarrow> device_state \<times> bool" where
  "hear_bit D b st =
     (case st of
        Idle \<Rightarrow> (Idle, False)
      | Command bs \<Rightarrow> (if length bs < 7 then Command (bs @ [b])
                       else if bs @ [b] = byte_bits OW_SEARCH_ROM then Searching (Send D) else Idle, False)
      | Searching Ready \<Rightarrow> (Idle, False)
      | Searching (Send S) \<Rightarrow> (Searching (Complement S), b \<and> branch False S \<noteq> {})
      | Searching (Complement S) \<Rightarrow> (Searching (Choose S), b \<and> branch True S \<noteq> {})
      | Searching (Choose S) \<Rightarrow> (Searching (Send (branch b S)), False))"

definition hear :: "bool list set \<Rightarrow> rom_wire \<Rightarrow> rom_wire" where
  "hear D w =
     (let (st, h) = (if low_for w \<ge> 480 then (if D = {} then Idle else Command [], D \<noteq> {})
                     else hear_bit D (low_for w < 15) (devices w))
      in \<lparr>devices = st, low_for = 0, held = h\<rparr>)"

definition rom_line :: "bool list set \<Rightarrow> rom_wire line" where
  "rom_line D =
     \<lparr>level = (\<lambda>ddr port w. if ddr then port else \<not> held w),
      pass = (\<lambda>ddr port n w. if ddr \<and> \<not> port then w\<lparr>low_for := low_for w + n\<rparr>
                             else if low_for w = 0 then w\<lparr>held := False\<rparr> else hear D w)\<rparr>"

definition bus_in :: "phase \<Rightarrow> (rom_wire, 'z) ow_scheme \<Rightarrow> bool" where
  "bus_in p s = (wire s = \<lparr>devices = (if p = Ready then Command [] else Searching p), low_for = 0, held = False\<rparr>)"

lemmas pin_defs = ow_bit_io_def ow_bit_io_intern_def delay_us_def OW_OUT_LOW_def OW_OUT_HIGH_def OW_DIR_IN_def OW_DIR_OUT_def
  OW_GET_IN_def OW_CONF_DELAYOFFSET_def OW_RECOVERY_TIME_def

text \<open>A time slot on this bus.\<close>

lemma rom_line_slot:
  assumes "wire s = \<lparr>devices = st, low_for = 0, held = False\<rparr>"
  shows "fst (ow_bit_io (rom_line D) 1 s) = (if snd (hear_bit D True st) then 0 else 1)"
    and "wire (snd (ow_bit_io (rom_line D) 1 s)) = \<lparr>devices = fst (hear_bit D True st), low_for = 0, held = False\<rparr>"
    and "\<not> snd (hear_bit D False st)"
    and "wire (snd (ow_bit_io (rom_line D) 0 s)) = \<lparr>devices = fst (hear_bit D False st), low_for = 0, held = False\<rparr>"
proof -
  show h: "\<not> snd (hear_bit D False st)" by (auto simp: hear_bit_def split: device_state.split phase.split)
  show "fst (ow_bit_io (rom_line D) 1 s) = (if snd (hear_bit D True st) then 0 else 1)"
    "wire (snd (ow_bit_io (rom_line D) 1 s)) = \<lparr>devices = fst (hear_bit D True st), low_for = 0, held = False\<rparr>"
    using assms by (simp_all add: pin_defs rom_line_def Let_def hear_def split_beta)
  show "wire (snd (ow_bit_io (rom_line D) 0 s)) = \<lparr>devices = fst (hear_bit D False st), low_for = 0, held = False\<rparr>"
    using assms h by (simp add: pin_defs rom_line_def Let_def hear_def split_beta)
qed

lemma rom_line_reset:
  "fst (ow_reset (rom_line D) s) = (if D = {} then 0x40 else 0)"
  "D \<noteq> {} \<Longrightarrow> bus_in Ready (snd (ow_reset (rom_line D) s))"
  by (simp_all add: ow_reset_def pin_defs rom_line_def Let_def hear_def bus_in_def)

text \<open>The byte after a reset is the command.\<close>

lemma rom_line_byte:
  "wire s = \<lparr>devices = Command bs, low_for = 0, held = False\<rparr> \<Longrightarrow> length bs + Suc j = 8 \<Longrightarrow>
   wire (snd (byte_loop (\<lambda>_. False) (rom_line D) (Suc j) b s)) =
     \<lparr>devices = (if bs @ map (bit b) [0..<Suc j] = byte_bits OW_SEARCH_ROM then Searching (Send D) else Idle),
      low_for = 0, held = False\<rparr>"
proof (induction j arbitrary: s bs b)
  case 0
  have "b AND 1 = of_bool (bit b 0)" by (simp add: and_one_eq bit_0 odd_iff_mod_2_eq_one)
  then show ?case
    using 0 rom_line_slot(2,4) [OF 0(1), of D] by (simp add: split_beta ow_bit_io_def hear_bit_def Let_def)
next
  case (Suc j)
  have b: "b AND 1 = of_bool (bit b 0)" by (simp add: and_one_eq bit_0 odd_iff_mod_2_eq_one)
  obtain r t where rt: "ow_bit_io_intern (rom_line D) (b AND 1) False s = (r, t)"
    by (cases "ow_bit_io_intern (rom_line D) (b AND 1) False s")
  let ?b = "if r \<noteq> 0 then drop_bit 1 b OR 0x80 else drop_bit 1 b"
  have "wire t = \<lparr>devices = Command (bs @ [bit b 0]), low_for = 0, held = False\<rparr>"
    using rom_line_slot(2,4) [OF Suc.prems(1), of D] Suc.prems(2) rt
    by (cases "bit b 0") (simp_all add: b ow_bit_io_def hear_bit_def)
  from Suc.IH [OF this, of ?b] Suc.prems(2)
  have "wire (snd (byte_loop (\<lambda>_. False) (rom_line D) (Suc j) ?b t)) =
     \<lparr>devices = (if (bs @ [bit b 0]) @ map (bit ?b) [0..<Suc j] = byte_bits OW_SEARCH_ROM then Searching (Send D) else Idle),
      low_for = 0, held = False\<rparr>" by simp
  moreover have "map (bit ?b) [0..<Suc j] = map (\<lambda>n. bit b (Suc n)) [0..<Suc j]"
    using Suc.prems(2) bit_shifted_in [of _ "r \<noteq> 0" b] by (intro map_cong) auto
  moreover have "[0..<Suc (Suc j)] = 0 # map Suc [0..<Suc j]" by (simp add: upt_conv_Cons map_Suc_upt del: upt_Suc)
  moreover have "byte_loop (\<lambda>_. False) (rom_line D) (Suc (Suc j)) b s = byte_loop (\<lambda>_. False) (rom_line D) (Suc j) ?b t"
    using rt by (subst byte_loop.simps(2)) (simp add: Let_def del: byte_loop.simps)
  ultimately show ?case by (simp add: comp_def del: upt_Suc byte_loop.simps)
qed

lemma rom_line_follows: "follows_search (rom_line D) D bus_in"
proof -
  have "bus_in (Send D) (snd (ow_byte_wr (rom_line D) OW_SEARCH_ROM s))" if "bus_in Ready s" for s :: "(rom_wire, 'z) ow_scheme"
    using rom_line_byte [of s "[]" 7 D OW_SEARCH_ROM] that
    by (simp add: bus_in_def ow_byte_wr_def byte_bits_def eval_nat_numeral del: byte_loop.simps upt_Suc)
  then show ?thesis
    unfolding follows_search_def
    by (auto simp: rom_line_reset(1) rom_line_reset(2) [unfolded bus_in_def, simplified] bus_in_def rom_line_slot hear_bit_def)
qed

text \<open>A bus with three devices.\<close>

definition three_roms :: "u8 list list" where
  "three_roms = [[0x28, 1, 0, 0, 0, 0, 0, 7], [0x10, 3, 0, 0, 0, 0, 0, 9], [0x10, 2, 0, 0, 0, 0, 0, 9]]"

definition fresh_bus :: "rom_wire ow" where
  "fresh_bus = \<lparr>ow_ddr = False, ow_port = True, wire = \<lparr>devices = Idle, low_for = 0, held = False\<rparr>\<rparr>"

lemma three_roms_order: "search_order three_roms"
  by (simp add: search_order_def three_roms_def rom_code_def rom_bits_def byte_bits_eval bit_numeral_rec)

section \<open>Properties\<close>

text \<open>C8: A pass of the search over a bus whose devices follow the protocol finds the device next in the order of
  the codes: the first pass the first device, and each later one, told the device found before and where it made its
  last choice, the next device. The returned position is \<open>OW_LAST_DEVICE\<close> exactly when the last device was found, so
  the passes find each device once and end; on a bus without devices the first pass says so.\<close>

theorem search_finds_next_device:
  assumes "follows_search L (rom_bits ` set xs) (R :: phase \<Rightarrow> ('w, 'z) ow_scheme \<Rightarrow> bool)" "search_order xs" "length rom = 8"
  shows "(xs = [] \<longrightarrow> fst (ow_rom_search L OW_SEARCH_FIRST rom (s :: ('w, 'z) ow_scheme)) = OW_PRESENCE_ERR) \<and>
    (\<exists>last_choice. (\<forall>k < length xs. (last_choice k = OW_LAST_DEVICE) = (Suc k = length xs)) \<and>
      (xs \<noteq> [] \<longrightarrow> (\<exists>t. ow_rom_search L OW_SEARCH_FIRST rom s = (last_choice 0, xs ! 0, t))) \<and>
      (\<forall>k (u :: ('w, 'z) ow_scheme). Suc k < length xs \<longrightarrow>
         (\<exists>t. ow_rom_search L (last_choice k) (xs ! k) u = (last_choice (Suc k), xs ! Suc k, t))))"
proof (intro conjI impI exI [of _ "\<lambda>k. of_nat (mark xs k)"] allI)
  assume "xs = []"
  then have "fst (ow_reset L s) \<noteq> 0" using follows_searchD(1) [OF assms(1)] by simp
  then show "fst (ow_rom_search L OW_SEARCH_FIRST rom s) = OW_PRESENCE_ERR"
    by (simp add: ow_rom_search_def split_beta Let_def)
next
  fix k assume "k < length xs"
  then show "((of_nat (mark xs k) :: u8) = OW_LAST_DEVICE) = (Suc k = length xs)"
    using mark_zero [OF assms(2,1), of k] mark_le [OF assms(2), of k]
    by (simp add: OW_LAST_DEVICE_def word_unat_eq_iff unat_of_nat mod_less)
qed (use first_pass [OF assms(1,2) _ assms(3)] next_pass(1) [OF assms(1,2)] in auto)

theorem search_finds_next_device_witness:
  "\<exists>d t. ow_rom_search (rom_line (rom_bits ` set three_roms)) OW_SEARCH_FIRST (replicate 8 0) fresh_bus =
     (d, [0x28, 1, 0, 0, 0, 0, 0, 7], t) \<and> d \<noteq> OW_LAST_DEVICE"
proof -
  have len: "length (replicate 8 0 :: u8 list) = 8" "length three_roms = 3" by (simp_all add: three_roms_def)
  have "three_roms \<noteq> []" using len(2) by auto
  then obtain last_choice where l: "\<forall>k < 3. (last_choice k = OW_LAST_DEVICE) = (Suc k = 3)"
    "\<exists>t. ow_rom_search (rom_line (rom_bits ` set three_roms)) OW_SEARCH_FIRST (replicate 8 0) fresh_bus =
      (last_choice 0, three_roms ! 0, t)"
    using search_finds_next_device [OF rom_line_follows three_roms_order len(1), of fresh_bus] unfolding len(2) by blast
  have "last_choice 0 \<noteq> OW_LAST_DEVICE" using l(1) by simp
  then show ?thesis using l(2) by (auto simp: three_roms_def)
qed

end
