(* ===== verification/Crc8.thy ===== *)
theory Crc8
  imports Crc16
begin

text \<open>
  The checksum of the 1-Wire devices (\<^verbatim>\<open>apps/temperature/crc8.c\<close>), in the scratchpad of the temperature sensors
  and in their ROM codes: the bit loop of the code, the shift register it implements (polynomial
  x^8 + x^5 + x^4 + 1, least significant bit first), and what a zero checksum over data and checksum means.
\<close>

definition CRC8INIT :: u8 where "CRC8INIT = 0"
definition CRC8POLY :: u8 where "CRC8POLY = 0x18"

text \<open>The loop over the bits of a byte, with the counter as the first argument.\<close>

primrec crc8_bits :: "nat \<Rightarrow> u8 \<Rightarrow> u8 \<Rightarrow> u8" where
  "crc8_bits 0 b crc = crc"
| "crc8_bits (Suc bit_counter) b crc =
     (let feedback_bit = (crc XOR b) AND 1;
          crc = (if feedback_bit = 1 then crc XOR CRC8POLY else crc);
          crc = drop_bit 1 crc AND 0x7F;
          crc = (if feedback_bit = 1 then crc OR 0x80 else crc)
      in crc8_bits bit_counter (drop_bit 1 b) crc)"

definition crc8 :: "u8 list \<Rightarrow> u8" where
  "crc8 data = fold (crc8_bits 8) data CRC8INIT"

section \<open>The shift register\<close>

definition lfsr8 :: "u8 \<Rightarrow> u8" where
  "lfsr8 x = (if bit x 0 then drop_bit 1 x XOR 0x8C else drop_bit 1 x)"

lemma bit_crc8_masks:
  "n < 8 \<Longrightarrow> bit (CRC8POLY :: u8) n = (n = 3 \<or> n = 4)" "n < 8 \<Longrightarrow> bit (0x7F :: u8) n = (n < 7)"
  "n < 8 \<Longrightarrow> bit (0x80 :: u8) n = (n = 7)" "n < 8 \<Longrightarrow> bit (0x8C :: u8) n = (n = 2 \<or> n = 3 \<or> n = 7)"
  by (drule less_8_cases, elim insertE emptyE, simp_all add: CRC8POLY_def bit_numeral_rec)+

lemma crc8_step:
  "crc8_bits (Suc k) b crc = crc8_bits k (drop_bit 1 b) (if bit (crc XOR b) 0 then drop_bit 1 crc XOR 0x8C else drop_bit 1 crc)"
proof -
  have fb: "((crc XOR b) AND 1 = 1) = bit (crc XOR b) 0"
    by (simp add: and_one_eq bit_0 odd_iff_mod_2_eq_one)
  have "drop_bit 1 (crc XOR CRC8POLY) AND 0x7F OR 0x80 = drop_bit 1 crc XOR 0x8C"
  proof (rule bit_word_eqI)
    fix n assume "n < LENGTH(8)"
    then have n: "n < 8" by simp
    from less_8_cases [OF this]
    show "bit (drop_bit 1 (crc XOR CRC8POLY) AND 0x7F OR 0x80) n = bit (drop_bit 1 crc XOR 0x8C) n"
      by (elim insertE emptyE) (simp_all add: bit_simps bit_crc8_masks no_bit_beyond)
  qed
  moreover have "drop_bit 1 crc AND 0x7F = drop_bit 1 crc"
  proof (rule bit_word_eqI)
    fix n assume "n < LENGTH(8)"
    then show "bit (drop_bit 1 crc AND 0x7F) n = bit (drop_bit 1 crc) n"
      using bit_crc8_masks(2) [of n] bit_imp_le_length [of crc "Suc n"] by (auto simp: bit_simps)
  qed
  ultimately show ?thesis by (simp add: Let_def fb)
qed

text \<open>The bits of the data may as well be added to the register first.\<close>

lemma crc8_bits_lfsr: "k \<le> 8 \<Longrightarrow> crc8_bits k b crc = (lfsr8 ^^ k) (crc XOR take_bit k b)"
proof (induction k arbitrary: b crc)
  case (Suc k)
  let ?c = "if bit (crc XOR b) 0 then drop_bit 1 crc XOR 0x8C else drop_bit 1 crc"
  have "?c XOR take_bit k (drop_bit 1 b) = lfsr8 (crc XOR take_bit (Suc k) b)"
    by (rule bit_word_eqI) (auto simp: lfsr8_def bit_simps)
  then show ?case using Suc crc8_step [of k b crc] by (simp add: funpow_Suc_right del: funpow.simps crc8_bits.simps)
qed simp

lemma crc8_byte: "crc8_bits 8 b crc = (lfsr8 ^^ 8) (crc XOR b)"
  using crc8_bits_lfsr [of 8 b crc] by (simp add: take_bit_word_eq_self)

lemma lfsr8_inj: "lfsr8 x = lfsr8 y \<Longrightarrow> x = y"
proof (rule bit_word_eqI)
  fix n assume eq: "lfsr8 x = lfsr8 y" and n: "n < LENGTH(8)"
  have b: "bit (lfsr8 z) i = (bit z (Suc i) \<noteq> (bit z 0 \<and> (i = 2 \<or> i = 3 \<or> i = 7)))" if "i < 8" for z i
    using bit_crc8_masks(4) [OF that] by (auto simp: lfsr8_def bit_simps)
  have b0: "bit x 0 = bit y 0" using b [of 7 x] b [of 7 y] eq by (simp add: no_bit_beyond)
  show "bit x n = bit y n"
  proof (cases n)
    case (Suc m)
    then show ?thesis using b [of m x] b [of m y] eq b0 n by auto
  qed (use b0 in simp)
qed

lemma lfsr8_zero: "(lfsr8 ^^ k) 0 = 0"
  by (induction k) (simp_all add: lfsr8_def)

lemma crc8_append: "crc8 (xs @ [c]) = (lfsr8 ^^ 8) (crc8 xs XOR c)"
  by (simp add: crc8_def crc8_byte)

lemma xor_cancel: "x XOR z = y XOR z \<Longrightarrow> x = y" for x y z :: u8
proof -
  assume eq: "x XOR z = y XOR z"
  have "x = (x XOR z) XOR z" by (simp add: xor.assoc)
  also have "\<dots> = y" unfolding eq by (simp add: xor.assoc)
  finally show "x = y" .
qed

lemma lfsr8_bits_inj: "(lfsr8 ^^ k) x = (lfsr8 ^^ k) y \<Longrightarrow> x = y"
  by (rule funpow_inj [where f = lfsr8 and k = k]) (auto dest: lfsr8_inj)

lemma crc8_bits_inj: "crc8_bits 8 b x = crc8_bits 8 b y \<Longrightarrow> x = y" "crc8_bits 8 a z = crc8_bits 8 b z \<Longrightarrow> a = b"
proof -
  show "x = y" if "crc8_bits 8 b x = crc8_bits 8 b y"
    by (rule xor_cancel [OF lfsr8_bits_inj [OF that [unfolded crc8_byte]]])
  show "a = b" if "crc8_bits 8 a z = crc8_bits 8 b z"
    by (rule xor_cancel [where z = z]) (use lfsr8_bits_inj [OF that [unfolded crc8_byte]] in \<open>simp add: xor.commute\<close>)
qed

lemma crc8_tail: "fold (crc8_bits 8) ys x = fold (crc8_bits 8) ys y \<Longrightarrow> x = y"
  by (induction ys arbitrary: x y) (auto dest: crc8_bits_inj simp del: crc8_bits.simps)

section \<open>Properties\<close>

text \<open>Data followed by a byte have checksum zero exactly if the byte is the checksum of the data; so a scratchpad
  with one byte changed is never accepted.\<close>

theorem crc8_zero_iff:
  "(crc8 (data @ [c]) = 0) = (c = crc8 data) \<and> (crc8 (xs @ a # ys) = crc8 (xs @ b # ys)) = (a = b)"
proof
  have "(crc8 (data @ [c]) = 0) = ((lfsr8 ^^ 8) (crc8 data XOR c) = (lfsr8 ^^ 8) (c XOR c))"
    by (simp add: crc8_append lfsr8_zero del: funpow.simps)
  also have "\<dots> = (c = crc8 data)"
    using lfsr8_bits_inj [of 8] xor_cancel [of "crc8 data" c c] by blast
  finally show "(crc8 (data @ [c]) = 0) = (c = crc8 data)" .
  show "(crc8 (xs @ a # ys) = crc8 (xs @ b # ys)) = (a = b)"
    using crc8_tail crc8_bits_inj(2) [of a "crc8 xs" b] by (auto simp: crc8_def simp del: crc8_bits.simps)
qed

end
