(* ===== verification/Ds18x20.thy ===== *)
theory Ds18x20
  imports Onewire Crc8
begin

text \<open>
  The temperature sensors of the DS18x20 family (\<^verbatim>\<open>apps/temperature/ds18x20.c\<close>): finding them on the bus,
  starting a conversion, reading their scratchpad, and turning its raw value into tenths and into ten-thousandths
  of a degree and into text.
\<close>

definition DS18X20_OK :: u8 where "DS18X20_OK = 0"
definition DS18X20_ERROR :: u8 where "DS18X20_ERROR = 1"
definition DS18X20_START_FAIL :: u8 where "DS18X20_START_FAIL = 2"
definition DS18X20_ERROR_CRC :: u8 where "DS18X20_ERROR_CRC = 3"
definition DS18X20_INVALID_DECICELSIUS :: i16 where "DS18X20_INVALID_DECICELSIUS = 2000"
definition DS18X20_POWER_PARASITE :: u8 where "DS18X20_POWER_PARASITE = 0"
definition DS18X20_POWER_EXTERN :: u8 where "DS18X20_POWER_EXTERN = 1"
definition DS18X20_CONVERSION_DONE :: u8 where "DS18X20_CONVERSION_DONE = 0"
definition DS18X20_CONVERTING :: u8 where "DS18X20_CONVERTING = 1"
definition DS18S20_FAMILY_CODE :: u8 where "DS18S20_FAMILY_CODE = 0x10"
definition DS18B20_FAMILY_CODE :: u8 where "DS18B20_FAMILY_CODE = 0x28"
definition DS1822_FAMILY_CODE :: u8 where "DS1822_FAMILY_CODE = 0x22"
definition DS18X20_CONVERT_T :: u8 where "DS18X20_CONVERT_T = 0x44"
definition DS18X20_READ :: u8 where "DS18X20_READ = 0xBE"
definition DS18X20_READ_POWER_SUPPLY :: u8 where "DS18X20_READ_POWER_SUPPLY = 0xB4"
definition DS18X20_WRITE_SCRATCHPAD :: u8 where "DS18X20_WRITE_SCRATCHPAD = 0x4E"
definition DS18X20_COPY_SCRATCHPAD :: u8 where "DS18X20_COPY_SCRATCHPAD = 0x48"
definition DS18X20_RECALL_E2 :: u8 where "DS18X20_RECALL_E2 = 0xB8"
definition DS18X20_COPYSP_DELAY :: nat where "DS18X20_COPYSP_DELAY = 10"
definition DS18B20_CONF_REG :: nat where "DS18B20_CONF_REG = 4"
definition DS18B20_9_BIT :: u8 where "DS18B20_9_BIT = 0"
definition DS18B20_10_BIT :: u8 where "DS18B20_10_BIT = 0x20"
definition DS18B20_11_BIT :: u8 where "DS18B20_11_BIT = 0x40"
definition DS18B20_12_BIT :: u8 where "DS18B20_12_BIT = 0x60"
definition DS18B20_RES_MASK :: u8 where "DS18B20_RES_MASK = 0x60"
definition DS18B20_9_BIT_UNDF :: u16 where "DS18B20_9_BIT_UNDF = 7"
definition DS18B20_10_BIT_UNDF :: u16 where "DS18B20_10_BIT_UNDF = 3"
definition DS18B20_11_BIT_UNDF :: u16 where "DS18B20_11_BIT_UNDF = 1"
definition DS18X20_FRACCONV :: u16 where "DS18X20_FRACCONV = 625"
definition DS18X20_SP_SIZE :: nat where "DS18X20_SP_SIZE = 9"

type_synonym rom = "u8 list"

definition is_sensor :: "rom \<Rightarrow> bool" where
  "is_sensor rom = (rom ! 0 = DS18B20_FAMILY_CODE \<or> rom ! 0 = DS18S20_FAMILY_CODE \<or> rom ! 0 = DS1822_FAMILY_CODE)"

section \<open>On the bus\<close>

text \<open>The result, the position for the next search and the code found. The search may go on for ever on a bus that
  does not follow the protocol, so it is a partial function.\<close>

partial_function (option) DS18X20_find_sensor ::
    "'w line \<Rightarrow> u8 \<Rightarrow> rom \<Rightarrow> ('w, 'z) ow_scheme \<Rightarrow> (u8 \<times> u8 \<times> rom \<times> ('w, 'z) ow_scheme) option" where
  "DS18X20_find_sensor L diff rom s =
     (let (diff, rom, s) = ow_rom_search L diff rom s
      in if diff = OW_PRESENCE_ERR \<or> diff = OW_DATA_ERR \<or> diff = OW_LAST_DEVICE then Some (DS18X20_ERROR, diff, rom, s)
         else if is_sensor rom then Some (DS18X20_OK, diff, rom, s)
         else DS18X20_find_sensor L diff rom s)"

definition DS18X20_get_power_status :: "'w line \<Rightarrow> rom option \<Rightarrow> ('w, 'z) ow_scheme \<Rightarrow> u8 \<times> ('w, 'z) ow_scheme" where
  "DS18X20_get_power_status L rom s =
     (let s = snd (ow_reset L s);
          (pstat, s) = ow_bit_io L 1 (ow_command L DS18X20_READ_POWER_SUPPLY rom s);
          s = snd (ow_reset L s)
      in (if pstat \<noteq> 0 then DS18X20_POWER_EXTERN else DS18X20_POWER_PARASITE, s))"

definition DS18X20_start_meas :: "'w line \<Rightarrow> u8 \<Rightarrow> rom option \<Rightarrow> ('w, 'z) ow_scheme \<Rightarrow> u8 \<times> ('w, 'z) ow_scheme" where
  "DS18X20_start_meas L with_power_extern rom s =
     (let s = snd (ow_reset L s)
      in if ow_input_pin_state L s \<noteq> 0 then
           (DS18X20_OK,
            if with_power_extern \<noteq> DS18X20_POWER_EXTERN then ow_command_with_parasite_enable L DS18X20_CONVERT_T rom s
            else ow_command L DS18X20_CONVERT_T rom s)
         else (DS18X20_START_FAIL, s))"

definition DS18X20_conversion_in_progress :: "'w line \<Rightarrow> ('w, 'z) ow_scheme \<Rightarrow> u8 \<times> ('w, 'z) ow_scheme" where
  "DS18X20_conversion_in_progress L s =
     (let (b, s) = ow_bit_io L 1 s in (if b \<noteq> 0 then DS18X20_CONVERSION_DONE else DS18X20_CONVERTING, s))"

primrec read_bytes :: "'w line \<Rightarrow> nat \<Rightarrow> ('w, 'z) ow_scheme \<Rightarrow> u8 list \<times> ('w, 'z) ow_scheme" where
  "read_bytes L 0 s = ([], s)"
| "read_bytes L (Suc n) s = (let (b, s) = ow_byte_rd L s; (bs, s) = read_bytes L n s in (b # bs, s))"

text \<open>The first \<open>n\<close> bytes of the buffer \<open>sp\<close> are read, but the checksum is taken of nine.\<close>

definition read_scratchpad :: "'w line \<Rightarrow> rom option \<Rightarrow> u8 list \<Rightarrow> nat \<Rightarrow> ('w, 'z) ow_scheme \<Rightarrow> u8 \<times> u8 list \<times> ('w, 'z) ow_scheme" where
  "read_scratchpad L rom sp n s =
     (let (bs, s) = read_bytes L n (ow_command L DS18X20_READ rom s);
          sp = bs @ drop n sp
      in (if crc8 (take DS18X20_SP_SIZE sp) \<noteq> 0 then DS18X20_ERROR_CRC else DS18X20_OK, sp, s))"

section \<open>Conversion\<close>

text \<open>The common first part of the conversions: the sign and the magnitude in sixteenths of a degree.\<close>

definition raw_measure :: "u8 \<Rightarrow> u8 list \<Rightarrow> u16" where
  "raw_measure familycode sp =
     (let measure = ucast (sp ! 0) OR push_bit 8 (ucast (sp ! 1))
      in if familycode = DS18S20_FAMILY_CODE
         then push_bit 3 (measure AND 0xfffe) + ((16 - ucast (sp ! 6)) - 4)
         else measure)"

definition undefined_bits :: "u8 \<Rightarrow> u8 list \<Rightarrow> u16" where
  "undefined_bits familycode sp =
     (if familycode = DS18B20_FAMILY_CODE \<or> familycode = DS1822_FAMILY_CODE then
        (let res = sp ! DS18B20_CONF_REG AND DS18B20_RES_MASK
         in if res = DS18B20_9_BIT then DS18B20_9_BIT_UNDF
            else if res = DS18B20_10_BIT then DS18B20_10_BIT_UNDF
            else if res = DS18B20_11_BIT then DS18B20_11_BIT_UNDF
            else 0)
      else 0)"

definition magnitude :: "u8 \<Rightarrow> u8 list \<Rightarrow> bool \<times> u16" where
  "magnitude familycode sp =
     (let measure = raw_measure familycode sp;
          negative = (measure AND 0x8000 \<noteq> 0);
          measure = (if negative then (measure XOR 0xffff) + 1 else measure)
      in (negative, measure AND NOT (undefined_bits familycode sp)))"

definition DS18X20_raw_to_decicelsius :: "u8 \<Rightarrow> u8 list \<Rightarrow> i16" where
  "DS18X20_raw_to_decicelsius familycode sp =
     (let (negative, measure) = magnitude familycode sp;
          decicelsius = drop_bit 4 measure * 10;
          fract = (measure AND 0x000F) * 640;
          fract = (if \<not> negative then fract + 512 else fract);
          decicelsius = decicelsius + fract div 1024;
          decicelsius = (if negative then - decicelsius else decicelsius)
      in if sint decicelsius < - 550 \<or> sint decicelsius > 1250 then DS18X20_INVALID_DECICELSIUS else decicelsius)"

definition DS18X20_raw_to_maxres :: "u8 \<Rightarrow> u8 list \<Rightarrow> u32" where
  "DS18X20_raw_to_maxres familycode sp =
     (let (negative, measure) = magnitude familycode sp;
          temperaturevalue = ucast (drop_bit 4 measure) * 10000 + ucast ((measure AND 0x000F) * DS18X20_FRACCONV)
      in if negative then - temperaturevalue else temperaturevalue)"

text \<open>The conversion of the verbose mode: sign, full degrees and sixteenths.\<close>

definition DS18X20_meas_to_cel :: "u8 \<Rightarrow> u8 list \<Rightarrow> bool \<times> u8 \<times> u8" where
  "DS18X20_meas_to_cel fc sp =
     (let meas = raw_measure fc sp;
          subzero = (meas AND 0x8000 \<noteq> 0);
          meas = (if subzero then (meas XOR 0xffff) + 1 else meas);
          i = sp ! DS18B20_CONF_REG;
          meas = (if fc = DS18B20_FAMILY_CODE \<or> fc = DS1822_FAMILY_CODE then
                    (if i AND DS18B20_12_BIT = DS18B20_12_BIT then meas
                     else if i AND DS18B20_11_BIT = DS18B20_11_BIT then meas AND NOT DS18B20_11_BIT_UNDF
                     else if i AND DS18B20_10_BIT = DS18B20_10_BIT then meas AND NOT DS18B20_10_BIT_UNDF
                     else meas AND NOT DS18B20_9_BIT_UNDF)
                  else meas)
      in (subzero, ucast (drop_bit 4 meas), ucast (meas AND 0x000F)))"

section \<open>Reading\<close>

text \<open>Where the value is written only on success, the old one is an argument.\<close>

definition DS18X20_read_decicelsius :: "'w line \<Rightarrow> rom \<Rightarrow> i16 \<Rightarrow> ('w, 'z) ow_scheme \<Rightarrow> u8 \<times> i16 \<times> ('w, 'z) ow_scheme" where
  "DS18X20_read_decicelsius L rom decicelsius s =
     (let (ret, sp, s) = read_scratchpad L (Some rom) [] DS18X20_SP_SIZE (snd (ow_reset L s))
      in (ret, if ret = DS18X20_OK then DS18X20_raw_to_decicelsius (rom ! 0) sp else decicelsius, s))"

definition DS18X20_read_decicelsius_single :: "'w line \<Rightarrow> u8 \<Rightarrow> i16 \<Rightarrow> ('w, 'z) ow_scheme \<Rightarrow> u8 \<times> i16 \<times> ('w, 'z) ow_scheme" where
  "DS18X20_read_decicelsius_single L familycode decicelsius s =
     (let (ret, sp, s) = read_scratchpad L None [] DS18X20_SP_SIZE s
      in (ret, if ret = DS18X20_OK then DS18X20_raw_to_decicelsius familycode sp else decicelsius, s))"

definition DS18X20_read_maxres :: "'w line \<Rightarrow> rom \<Rightarrow> u32 \<Rightarrow> ('w, 'z) ow_scheme \<Rightarrow> u8 \<times> u32 \<times> ('w, 'z) ow_scheme" where
  "DS18X20_read_maxres L rom temperaturevalue s =
     (let (ret, sp, s) = read_scratchpad L (Some rom) [] DS18X20_SP_SIZE (snd (ow_reset L s))
      in (ret, if ret = DS18X20_OK then DS18X20_raw_to_maxres (rom ! 0) sp else temperaturevalue, s))"

definition DS18X20_read_maxres_single :: "'w line \<Rightarrow> u8 \<Rightarrow> u32 \<Rightarrow> ('w, 'z) ow_scheme \<Rightarrow> u8 \<times> u32 \<times> ('w, 'z) ow_scheme" where
  "DS18X20_read_maxres_single L familycode temperaturevalue s =
     (let (ret, sp, s) = read_scratchpad L None [] DS18X20_SP_SIZE s
      in (ret, if ret = DS18X20_OK then DS18X20_raw_to_maxres familycode sp else temperaturevalue, s))"

section \<open>Scratchpad and EEPROM of a sensor\<close>

definition DS18X20_write_scratchpad :: "'w line \<Rightarrow> rom \<Rightarrow> u8 \<Rightarrow> u8 \<Rightarrow> u8 \<Rightarrow> ('w, 'z) ow_scheme \<Rightarrow> u8 \<times> ('w, 'z) ow_scheme" where
  "DS18X20_write_scratchpad L rom t_high t_low conf s =
     (let s = snd (ow_reset L s)
      in if ow_input_pin_state L s \<noteq> 0 then
           (let s = ow_command L DS18X20_WRITE_SCRATCHPAD (Some rom) s;
                s = snd (ow_byte_wr L t_high s);
                s = snd (ow_byte_wr L t_low s)
            in (DS18X20_OK,
                if rom ! 0 = DS18B20_FAMILY_CODE \<or> rom ! 0 = DS1822_FAMILY_CODE then snd (ow_byte_wr L conf s) else s))
         else (DS18X20_ERROR, s))"

definition DS18X20_read_scratchpad :: "'w line \<Rightarrow> rom option \<Rightarrow> u8 list \<Rightarrow> nat \<Rightarrow> ('w, 'z) ow_scheme \<Rightarrow> u8 \<times> u8 list \<times> ('w, 'z) ow_scheme" where
  "DS18X20_read_scratchpad L rom sp n s =
     (let s = snd (ow_reset L s)
      in if ow_input_pin_state L s \<noteq> 0 then read_scratchpad L rom sp n s else (DS18X20_ERROR, sp, s))"

definition DS18X20_scratchpad_to_eeprom :: "'w line \<Rightarrow> u8 \<Rightarrow> rom option \<Rightarrow> ('w, 'z) ow_scheme \<Rightarrow> u8 \<times> ('w, 'z) ow_scheme" where
  "DS18X20_scratchpad_to_eeprom L with_power_extern rom s =
     (let s = snd (ow_reset L s)
      in if ow_input_pin_state L s \<noteq> 0 then
           (let s = (if with_power_extern \<noteq> DS18X20_POWER_EXTERN then ow_command_with_parasite_enable L DS18X20_COPY_SCRATCHPAD rom s
                     else ow_command L DS18X20_COPY_SCRATCHPAD rom s);
                s = delay_us L (DS18X20_COPYSP_DELAY * 1000) s
            in (DS18X20_OK, if with_power_extern \<noteq> DS18X20_POWER_EXTERN then ow_parasite_disable s else s))
         else (DS18X20_START_FAIL, s))"

text \<open>The loop that polls the sensor; the counter is decremented before each poll and once more, from zero, at a timeout.\<close>

function await_recall :: "'w line \<Rightarrow> u8 \<Rightarrow> ('w, 'z) ow_scheme \<Rightarrow> u8 \<times> ('w, 'z) ow_scheme" where
  "await_recall L retry_count s =
     (if retry_count = 0 then (retry_count - 1, s)
      else (let (b, s) = ow_bit_io L 1 s
            in if b \<noteq> 0 then (retry_count - 1, s) else await_recall L (retry_count - 1) s))"
  by pat_completeness auto
termination
  by (relation "measure (\<lambda>(L, retry_count, s). unat retry_count)") (auto simp: measure_unat)

declare await_recall.simps [simp del]

definition DS18X20_eeprom_to_scratchpad :: "'w line \<Rightarrow> rom option \<Rightarrow> ('w, 'z) ow_scheme \<Rightarrow> u8 \<times> ('w, 'z) ow_scheme" where
  "DS18X20_eeprom_to_scratchpad L rom s =
     (let s = snd (ow_reset L s)
      in if ow_input_pin_state L s \<noteq> 0 then
           (let (retry_count, s) = await_recall L 255 (ow_command L DS18X20_RECALL_E2 rom s)
            in (if retry_count \<noteq> 0 then DS18X20_OK else DS18X20_ERROR, s))
         else (DS18X20_ERROR, s))"

section \<open>Text\<close>

text \<open>The digits from the last one on: the loop of the code divides at least once.\<close>

fun reversed_digits :: "nat \<Rightarrow> string" where
  "reversed_digits n = char_of (n mod 10 + 48) # (if n div 10 > 0 then reversed_digits (n div 10) else [])"

declare reversed_digits.simps [simp del]

text \<open>The loop that writes \<open>temp\<close> from \<open>temp_loc\<close> down to 0, with the decimal point before index \<open>point\<close>.\<close>

primrec reverse_out :: "nat \<Rightarrow> string \<Rightarrow> nat \<Rightarrow> string" where
  "reverse_out point temp 0 = [temp ! 0]"
| "reverse_out point temp (Suc temp_loc) =
     temp ! Suc temp_loc # (if temp_loc = point then ''.'' else []) @ reverse_out point temp temp_loc"

text \<open>\<open>None\<close> is \<open>DS18X20_ERROR\<close>, which leaves the string alone.\<close>

definition DS18X20_format_from_decicelsius :: "i16 \<Rightarrow> u8 \<Rightarrow> string option" where
  "DS18X20_format_from_decicelsius decicelsius n =
     (if n \<ge> 7 \<and> sint decicelsius > - 1000 \<and> sint decicelsius < 10000 then
        (let sign = sint decicelsius < 0;
             digits = reversed_digits (nat \<bar>sint decicelsius\<bar>);
             temp = digits @ (if sign then ''-'' else ''+'')
         in Some (reverse_out 0 temp (length digits)))
      else None)"

text \<open>Here the sign is no longer stored, and the loop starts at a character of \<open>temp\<close> that was never written.\<close>

definition DS18X20_format_from_maxres :: "char \<Rightarrow> u32 \<Rightarrow> u8 \<Rightarrow> string option" where
  "DS18X20_format_from_maxres unwritten temperaturevalue n =
     (if n \<ge> 10 \<and> sint temperaturevalue > - 1000000 \<and> sint temperaturevalue < 10000000 then
        (let digits = reversed_digits (nat \<bar>sint temperaturevalue\<bar>)
         in Some (reverse_out 3 (digits @ [unwritten]) (length digits)))
      else None)"

section \<open>The temperature as an integer\<close>

definition sixteenths :: "u8 \<Rightarrow> u8 list \<Rightarrow> int" where
  "sixteenths familycode sp =
     (let (negative, measure) = magnitude familycode sp in if negative then - int (unat measure) else int (unat measure))"

lemma negated_16: "(m XOR 0xffff) + 1 = - m" for m :: u16
proof -
  have "(0xffff :: u16) = - 1" by simp
  then have "m XOR 0xffff = NOT m" by (simp only: bit.xor_one_right)
  then show ?thesis by (simp add: minus_eq_not_plus_1)
qed

lemma sint_of_int_small: "- (2 ^ (LENGTH('a) - 1)) \<le> k \<Longrightarrow> k < 2 ^ (LENGTH('a) - 1) \<Longrightarrow> sint (of_int k :: 'a::len word) = k"
  by (simp add: signed_of_int signed_take_bit_int_eq_self)

lemma low_nibble: "m AND 0x000F = of_nat (unat m mod 16)" for m :: u16
proof -
  have "(0x000F :: u16) = mask 4" by (simp add: mask_eq_decr_exp)
  then have "m AND 0x000F = take_bit 4 m" by (simp add: take_bit_eq_mask)
  then have "unat (m AND 0x000F) = unat m mod 16" by (simp add: unat_mod take_bit_eq_mod)
  then show ?thesis by (simp add: word_unat_eq_iff unat_of_nat)
qed

lemma high_part: "drop_bit 4 m = of_nat (unat m div 16)" for m :: u16
proof -
  have "unat m < 2 ^ LENGTH(16)" by (rule unsigned_less)
  then have "unat m div 16 < 65536" by simp
  then show ?thesis by (simp add: word_unat_eq_iff unat_of_nat drop_bit_eq_div unat_div)
qed

lemma ucast_of_nat_small: "n < 65536 \<Longrightarrow> ucast (of_nat n :: u16) = (of_nat n :: u32)"
  by (simp add: unsigned_of_nat take_bit_nat_eq_self)

lemma maxres_magnitude:
  assumes "unat m \<le> 0x8000"
  shows "ucast (drop_bit 4 m) * 10000 + ucast ((m AND 0x000F) * DS18X20_FRACCONV) = (of_nat (625 * unat m) :: u32)"
proof -
  let ?q = "unat m div 16" and ?r = "unat m mod 16"
  have r: "(m AND 0x000F) * DS18X20_FRACCONV = of_nat (?r * 625)" by (simp add: low_nibble DS18X20_FRACCONV_def)
  have small: "?r * 625 < 65536" "?q < 65536" using assms by auto
  have "ucast (drop_bit 4 m) * 10000 + ucast ((m AND 0x000F) * DS18X20_FRACCONV) =
      (of_nat ?q * 10000 + of_nat (?r * 625) :: u32)"
    unfolding r high_part ucast_of_nat_small [OF small(1)] ucast_of_nat_small [OF small(2)] ..
  also have "\<dots> = of_nat (?q * 10000 + ?r * 625)" by simp
  also have "a * 10000 + b * 625 = 625 * (a * 16 + b)" for a b :: nat by simp
  also have "?q * 16 + ?r = unat m" by simp
  finally show ?thesis .
qed

lemma decicelsius_magnitude:
  assumes "unat m \<le> 0x8000" and "c = 0 \<or> c = 8"
  shows "drop_bit 4 m * 10 + ((m AND 0x000F) * 640 + of_nat (64 * c)) div 1024 = (of_nat ((10 * unat m + c) div 16) :: u16)"
proof -
  let ?q = "unat m div 16" and ?r = "unat m mod 16"
  have f: "(m AND 0x000F) * 640 + of_nat (64 * c) = (of_nat (64 * (10 * ?r + c)) :: u16)" by (simp add: low_nibble algebra_simps)
  have "unat (of_nat (64 * (10 * ?r + c)) div 1024 :: u16) = (10 * ?r + c) div 16"
  proof -
    have "64 * (10 * ?r + c) < 65536" using assms(2) by auto
    then have "unat (of_nat (64 * (10 * ?r + c)) :: u16) = 64 * (10 * ?r + c)" by (simp add: unat_of_nat del: of_nat_mult of_nat_add)
    then show ?thesis by (simp add: unat_div del: of_nat_mult of_nat_add)
  qed
  then have "of_nat (64 * (10 * ?r + c)) div 1024 = (of_nat ((10 * ?r + c) div 16) :: u16)"
    using assms(2) by (auto simp: word_unat_eq_iff unat_of_nat simp del: of_nat_mult of_nat_add)
  then have "drop_bit 4 m * 10 + ((m AND 0x000F) * 640 + of_nat (64 * c)) div 1024 = (of_nat (?q * 10 + (10 * ?r + c) div 16) :: u16)"
    unfolding f by (simp add: high_part)
  also have "?q * 10 + (10 * ?r + c) div 16 = (16 * (?q * 10) + (10 * ?r + c)) div 16" by simp
  also have "16 * (a * 10) + (10 * b + c) = 10 * (a * 16 + b) + c" for a b :: nat by simp
  also have "?q * 16 + ?r = unat m" by simp
  finally show ?thesis .
qed

lemma bit_15: "(m AND 0x8000 \<noteq> 0) = bit m 15" for m :: u16
  using bit_iff_and_push_bit_not_eq_0 [of m 15] by simp

lemma negative_16: "bit m 15 = (sint m < 0)" for m :: u16
  using bit_last_iff [of m] by simp

lemma sint_16: "sint m = (if bit m 15 then int (unat m) - 65536 else int (unat m))" for m :: u16
  using bit_uint_iff [of m 15]
  by (simp add: sint_uint signed_take_bit_eq_take_bit_minus take_bit_int_eq_self uint_lt2p [where 'a = 16, simplified])

text \<open>The magnitude is at most 2048 degrees, and without undefined bits it is the absolute value.\<close>

lemma magnitude_value:
  assumes "magnitude familycode sp = (negative, m)"
  shows "unat m \<le> 0x8000" and "negative = (sint (raw_measure familycode sp) < 0)"
    and "undefined_bits familycode sp = 0 \<Longrightarrow> int (unat m) = \<bar>sint (raw_measure familycode sp)\<bar>"
proof -
  let ?r = "raw_measure familycode sp"
  let ?m = "if negative then - ?r else ?r"
  have n: "negative = bit ?r 15" "m = ?m AND NOT (undefined_bits familycode sp)"
    using assms by (auto simp: magnitude_def Let_def bit_15 negated_16)
  show "negative = (sint ?r < 0)" using n(1) negative_16 by simp
  have v: "int (unat ?m) = \<bar>sint ?r\<bar>" "unat ?m \<le> 0x8000"
  proof -
    have range: "- 32768 \<le> sint ?r" "sint ?r < 32768" using sint_ge [of ?r] sint_lt [of ?r] by simp_all
    have "int (unat ?m) = \<bar>sint ?r\<bar>"
    proof (cases negative)
      case True
      have "- ?r = of_int (- sint ?r)" by simp
      then have "uint (- ?r) = (- sint ?r) mod 65536" using uint_word_of_int [of "- sint ?r", where 'a = 16] by simp
      then show ?thesis using True n(1) negative_16 [of ?r] range by simp
    next
      case False
      then show ?thesis using n(1) sint_16 [of ?r] by simp
    qed
    then show "int (unat ?m) = \<bar>sint ?r\<bar>" "unat ?m \<le> 0x8000" using range by linarith+
  qed
  have "m \<le> ?m" unfolding n(2) by (rule word_and_le2)
  then show "unat m \<le> 0x8000" using v(2) by (simp add: word_le_nat_alt)
  show "undefined_bits familycode sp = 0 \<Longrightarrow> int (unat m) = \<bar>sint ?r\<bar>" using v(1) n(2) by simp
qed

lemma sixteenths_cases:
  assumes "magnitude familycode sp = (negative, m)"
  shows "sixteenths familycode sp = (if negative then - int (unat m) else int (unat m))" "\<bar>sixteenths familycode sp\<bar> \<le> 32768"
  using magnitude_value(1) [OF assms] by (simp_all add: sixteenths_def assms del: of_nat_unat)

lemma maxres_value: "sint (DS18X20_raw_to_maxres familycode sp) = 625 * sixteenths familycode sp"
proof -
  obtain negative m where m: "magnitude familycode sp = (negative, m)" by fastforce
  let ?s = "sixteenths familycode sp"
  have "625 * ?s = (if negative then - int (625 * unat m) else int (625 * unat m))"
    by (simp add: sixteenths_cases(1) [OF m])
  then have "DS18X20_raw_to_maxres familycode sp = of_int (625 * ?s)"
    using maxres_magnitude [OF magnitude_value(1) [OF m]]
    by (simp add: DS18X20_raw_to_maxres_def m del: of_int_mult of_nat_mult of_nat_unat)
  moreover have "- (2 ^ 31) \<le> 625 * ?s" "625 * ?s < 2 ^ 31" using sixteenths_cases(2) [OF m] by auto
  ultimately show ?thesis using sint_of_int_small [of "625 * ?s", where 'a = 32] by simp
qed

definition rounded_tenths :: "int \<Rightarrow> int" where
  "rounded_tenths x = (if x \<ge> 0 then (10 * x + 8) div 16 else - (10 * (- x) div 16))"

lemma decicelsius_value:
  "sint (DS18X20_raw_to_decicelsius familycode sp) =
     (let t = rounded_tenths (sixteenths familycode sp) in if t < - 550 \<or> t > 1250 then 2000 else t)"
proof -
  obtain negative m where m: "magnitude familycode sp = (negative, m)" by fastforce
  let ?s = "sixteenths familycode sp" and ?k = "if negative then (10 * unat m) div 16 else (10 * unat m + 8) div 16"
  have le: "unat m \<le> 0x8000" by (rule magnitude_value(1) [OF m])
  have t: "rounded_tenths ?s = (if negative then - int ?k else int ?k)"
    by (simp add: rounded_tenths_def sixteenths_cases(1) [OF m] zdiv_int)
  have "(10 * unat m + 8) div 16 \<le> 20480" "(10 * unat m) div 16 \<le> 20480"
    using div_le_mono [of "10 * unat m + 8" "10 * 32768 + 8" 16] div_le_mono [of "10 * unat m" "10 * 32768" 16] le by simp_all
  then have small: "int ?k \<le> 20480" by simp
  define w :: u16 where "w = drop_bit 4 m * 10 + (if \<not> negative then (m AND 0x000F) * 640 + 512 else (m AND 0x000F) * 640) div 1024"
  have "w = of_nat ?k"
    using decicelsius_magnitude [OF le, of 0] decicelsius_magnitude [OF le, of 8] by (simp add: w_def)
  then have "(if negative then - w else w) = of_int (rounded_tenths ?s)" using t by simp
  moreover have "sint (of_int (rounded_tenths ?s) :: u16) = rounded_tenths ?s"
    using t small by (intro sint_of_int_small) auto
  ultimately have "sint (if negative then - w else w) = rounded_tenths ?s" by simp
  moreover have "sint (2000 :: i16) = 2000" by simp
  moreover have "DS18X20_raw_to_decicelsius familycode sp =
      (let d = (if negative then - w else w) in if sint d < - 550 \<or> sint d > 1250 then 2000 else d)"
    by (simp add: DS18X20_raw_to_decicelsius_def m w_def Let_def DS18X20_INVALID_DECICELSIUS_def)
  ultimately show ?thesis by (simp add: Let_def)
qed

lemma len8: "LENGTH(8) = 8"
  by simp

text \<open>The resolution is two bits; the verbose mode tests them one after the other.\<close>

lemma resolution_tests:
  "(if i AND DS18B20_12_BIT = DS18B20_12_BIT then x0
    else if i AND DS18B20_11_BIT = DS18B20_11_BIT then x1
    else if i AND DS18B20_10_BIT = DS18B20_10_BIT then x2 else x3) =
   (if i AND DS18B20_RES_MASK = DS18B20_9_BIT then x3
    else if i AND DS18B20_RES_MASK = DS18B20_10_BIT then x2
    else if i AND DS18B20_RES_MASK = DS18B20_11_BIT then x1 else x0)"
proof -
  have e: "i AND 0x60 = (if bit i 5 then 0x20 else 0) OR (if bit i 6 then 0x40 else 0)"
    "i AND 0x40 = (if bit i 6 then 0x40 else 0)" "i AND 0x20 = (if bit i 5 then 0x20 else 0)"
    by (rule bit_word_eqI; simp only: len8; drule less_8_cases; elim insertE emptyE; simp add: bit_simps bit_numeral_rec)+
  show ?thesis
    by (auto simp: DS18B20_12_BIT_def DS18B20_11_BIT_def DS18B20_10_BIT_def DS18B20_9_BIT_def DS18B20_RES_MASK_def e)
qed

lemma meas_to_cel_magnitude:
  "DS18X20_meas_to_cel fc sp = (case magnitude fc sp of (negative, m) \<Rightarrow> (negative, ucast (drop_bit 4 m), ucast (m AND 0x000F)))"
proof -
  let ?r = "sp ! DS18B20_CONF_REG AND DS18B20_RES_MASK"
  consider "fc \<noteq> DS18B20_FAMILY_CODE" "fc \<noteq> DS1822_FAMILY_CODE"
    | "fc = DS18B20_FAMILY_CODE \<or> fc = DS1822_FAMILY_CODE" by blast
  then show ?thesis
  proof cases
    case 1
    then have "undefined_bits fc sp = 0" by (simp add: undefined_bits_def)
    then show ?thesis using 1 by (simp add: DS18X20_meas_to_cel_def magnitude_def Let_def)
  next
    case 2
    then have "undefined_bits fc sp = (if ?r = DS18B20_9_BIT then DS18B20_9_BIT_UNDF else if ?r = DS18B20_10_BIT then DS18B20_10_BIT_UNDF
        else if ?r = DS18B20_11_BIT then DS18B20_11_BIT_UNDF else 0)" by (simp add: undefined_bits_def Let_def)
    with 2 show ?thesis
      unfolding DS18X20_meas_to_cel_def magnitude_def Let_def resolution_tests
      by (cases "?r = DS18B20_9_BIT"; cases "?r = DS18B20_10_BIT"; cases "?r = DS18B20_11_BIT") simp_all
  qed
qed

section \<open>The text as a number\<close>

definition digit_value :: "char \<Rightarrow> nat" where
  "digit_value c = of_char c - 48"

definition number_value :: "string \<Rightarrow> nat" where
  "number_value ds = fold (\<lambda>c v. 10 * v + digit_value c) ds 0"

text \<open>A sign, digits and a decimal point, read as a number of tenths.\<close>

definition text_value :: "string \<Rightarrow> int" where
  "text_value txt =
     (let n = int (number_value (filter (\<lambda>c. c \<noteq> CHR ''.'') (tl txt))) in if hd txt = CHR ''-'' then - n else n)"

lemma digit_value_char [simp]: "d < 10 \<Longrightarrow> digit_value (char_of (d + 48)) = d"
  by (simp add: digit_value_def)

lemma number_value_snoc: "number_value (ds @ [c]) = 10 * number_value ds + digit_value c"
  by (simp add: number_value_def)

lemma reversed_digits_value: "number_value (rev (reversed_digits n)) = n"
proof (induction n rule: reversed_digits.induct)
  case (1 n)
  then show ?case
    by (cases "n div 10 > 0") (simp_all add: reversed_digits.simps [of n] number_value_snoc number_value_def)
qed

lemma reversed_digits_length: "n < 10 ^ k \<Longrightarrow> 0 < k \<Longrightarrow> length (reversed_digits n) \<le> k"
proof (induction n arbitrary: k rule: reversed_digits.induct)
  case (1 n)
  show ?case
  proof (cases "n div 10 > 0")
    case True
    then have "1 < k" using 1(2,3) by (cases k; cases "k - 1") auto
    then obtain j where j: "k = Suc j" "0 < j" by (cases k) auto
    then have "n div 10 < 10 ^ j" using 1(2) by (simp add: less_mult_imp_div_less mult.commute)
    then show ?thesis using 1(1) [OF True _ j(2)] True j by (simp add: reversed_digits.simps [of n])
  qed (use 1(3) in \<open>simp add: reversed_digits.simps [of n]\<close>)
qed

lemma reversed_digits_no_point: "CHR ''.'' \<notin> set (reversed_digits n)"
proof (induction n rule: reversed_digits.induct)
  case (1 n)
  have "of_char (char_of (n mod 10 + 48)) \<noteq> (of_char (CHR ''.'') :: nat)" by simp
  then have "char_of (n mod 10 + 48) \<noteq> CHR ''.''" by metis
  then show ?case using 1 by (auto simp: reversed_digits.simps [of n])
qed

lemma reverse_out_eq:
  "k < length temp \<Longrightarrow>
   reverse_out point temp k =
     (if point < k then rev (take (k - point) (drop (Suc point) temp)) @ ''.'' @ rev (take (Suc point) temp)
      else rev (take (Suc k) temp))"
proof (induction k)
  case 0
  then show ?case by (cases temp) simp_all
next
  case (Suc k)
  consider "Suc k \<le> point" | "point = k" | "point < k" by linarith
  then show ?case
  proof cases
    case 3
    have "take (Suc k - point) (drop (Suc point) temp) = take (k - point) (drop (Suc point) temp) @ [temp ! Suc k]"
      using 3 Suc.prems take_Suc_conv_app_nth [of "k - point" "drop (Suc point) temp"] by (simp add: Suc_diff_le)
    then show ?thesis using 3 Suc by simp
  qed (use Suc take_Suc_conv_app_nth [of "Suc k" temp] in \<open>auto simp: take_Suc_conv_app_nth\<close>)
qed

text \<open>Both texts: the digits with a point before the last \<open>p + 1\<close>, and before them one character.\<close>

lemma printed_digits:
  assumes "p < length digits"
  shows "reverse_out p (digits @ [c]) (length digits) =
    c # rev (drop (Suc p) digits) @ ''.'' @ rev (take (Suc p) digits)"
  using assms by (subst reverse_out_eq) (simp_all add: Suc_diff_Suc)

lemma reversed_digits_nonempty: "0 < length (reversed_digits n)"
  by (simp add: reversed_digits.simps)

lemma printed_value:
  assumes "p < length (reversed_digits n)"
  shows "number_value (filter (\<lambda>c. c \<noteq> CHR ''.'') (tl (reverse_out p (reversed_digits n @ [c]) (length (reversed_digits n))))) = n"
proof -
  have "filter (\<lambda>c. c \<noteq> CHR ''.'') ds = ds" if "set ds \<subseteq> set (reversed_digits n)" for ds
    using that reversed_digits_no_point by (auto simp: filter_id_conv)
  from this [of "rev (drop (Suc p) (reversed_digits n))"] this [of "rev (take (Suc p) (reversed_digits n))"]
  have "filter (\<lambda>c. c \<noteq> CHR ''.'') (tl (reverse_out p (reversed_digits n @ [c]) (length (reversed_digits n)))) =
      rev (drop (Suc p) (reversed_digits n)) @ rev (take (Suc p) (reversed_digits n))"
    by (simp add: printed_digits [OF assms] set_drop_subset set_take_subset)
  also have "\<dots> = rev (reversed_digits n)" by (metis append_take_drop_id rev_append)
  finally show ?thesis using reversed_digits_value [of n] by simp
qed

section \<open>Polling a sensor that does not answer\<close>

lemma await_recall_silent:
  "\<forall>s :: ('w, 'z) ow_scheme. fst (ow_bit_io L 1 s) = 0 \<Longrightarrow> fst (await_recall L k (s :: ('w, 'z) ow_scheme)) = - 1"
proof (induction L k s rule: await_recall.induct)
  case (1 L k s)
  show ?case
  proof (cases "k = 0")
    case False
    obtain b u where b: "ow_bit_io L 1 s = (b, u)" by fastforce
    then have "b = 0" using 1(2) by (metis fst_conv)
    then have "await_recall L k s = await_recall L (k - 1) u" using False b by (simp add: await_recall.simps [of L k s])
    then show ?thesis using 1(1) [OF False b [symmetric] refl] \<open>b = 0\<close> 1(2) by simp
  qed (simp add: await_recall.simps [of L 0 s])
qed

text \<open>A line that follows the master to high only after a reset.\<close>

definition dead_line :: "bool line" where
  "dead_line = \<lparr>level = (\<lambda>ddr port w. w), pass = (\<lambda>ddr port n w. if ddr \<and> \<not> port then n \<ge> 480 else w)\<rparr>"

definition dead_bus :: "bool ow" where
  "dead_bus = \<lparr>ow_ddr = False, ow_port = True, wire = True\<rparr>"

section \<open>Properties\<close>



text \<open>The conversion of the verbose mode, written out a second time with other tests for the resolution, agrees with
  the fine one: full degrees (modulo 256) and sixteenths are the quotient and the remainder of its absolute value.\<close>

theorem verbose_conversion_agrees:
  "case DS18X20_meas_to_cel familycode sp of (subzero, cel, cel_frac_bits) \<Rightarrow>
     subzero = (sint (raw_measure familycode sp) < 0) \<and>
     int (unat cel) = \<bar>sint (DS18X20_raw_to_maxres familycode sp)\<bar> div 10000 mod 256 \<and>
     625 * int (unat cel_frac_bits) = \<bar>sint (DS18X20_raw_to_maxres familycode sp)\<bar> mod 10000"
proof -
  obtain negative m where m: "magnitude familycode sp = (negative, m)" by fastforce
  have v: "\<bar>sint (DS18X20_raw_to_maxres familycode sp)\<bar> = int (625 * unat m)"
    using maxres_value [of familycode sp] by (simp add: sixteenths_cases(1) [OF m] abs_mult del: of_nat_unat)
  have "unat m div 16 < 65536" using magnitude_value(1) [OF m] by simp
  then have "unat (ucast (drop_bit 4 m) :: u8) = (unat m div 16) mod 256"
    by (simp add: high_part unsigned_of_nat unsigned_ucast_eq take_bit_eq_mod) 
  moreover have "(625 * k) div 10000 = k div 16" "(625 * k) mod 10000 = 625 * (k mod 16)" for k :: int
    using div_mult_mult1 [of 625 k 16] mult_mod_right [of 625 k 16] by simp_all
  moreover have "unat (ucast (m AND 0x000F) :: u8) = unat m mod 16"
    by (simp add: low_nibble unsigned_of_nat unsigned_ucast_eq take_bit_eq_mod)
  ultimately show ?thesis
    using magnitude_value(2) [OF m] unfolding meas_to_cel_magnitude m v prod.case by (simp add: zdiv_int zmod_int del: of_nat_unat)
qed

text \<open>The text of a temperature in tenths is its sign, its digits and a point before the last one: read as a number it
  is the value again, and it fits the buffer of at least seven characters that is asked for.\<close>

theorem tenths_text_round_trip:
  assumes "n \<ge> 7" "sint d > - 1000" "sint d < 10000"
  shows "\<exists>txt. DS18X20_format_from_decicelsius d n = Some txt \<and> text_value txt = sint d \<and> length txt < 7 \<and>
    txt ! (length txt - 2) = CHR ''.''"
proof -
  let ?v = "nat \<bar>sint d\<bar>" and ?c = "if sint d < 0 then CHR ''-'' else CHR ''+''"
  let ?txt = "reverse_out 0 (reversed_digits ?v @ [?c]) (length (reversed_digits ?v))"
  have f: "DS18X20_format_from_decicelsius d n = Some ?txt"
    using assms by (simp add: DS18X20_format_from_decicelsius_def Let_def)
  have p: "?txt = ?c # rev (drop 1 (reversed_digits ?v)) @ ''.'' @ rev (take 1 (reversed_digits ?v))"
    using printed_digits [OF reversed_digits_nonempty, where c = ?c] by simp
  have l: "0 < length (reversed_digits ?v)" "length (reversed_digits ?v) \<le> 4"
    using reversed_digits_nonempty reversed_digits_length [of ?v 4] assms by auto
  have "hd ?txt = ?c" unfolding p by simp
  then have "text_value ?txt = sint d"
    using printed_value [OF reversed_digits_nonempty, where c = ?c] by (simp add: text_value_def Let_def)
  moreover have "length ?txt < 7" unfolding p using l by simp
  moreover have "?txt ! (length ?txt - 2) = CHR ''.''" unfolding p using l by (simp add: nth_append min_def)
  ultimately show ?thesis using f by blast
qed

theorem tenths_text_round_trip_witness:
  "\<exists>txt. DS18X20_format_from_decicelsius 215 10 = Some txt \<and> text_value txt = 215"
  using tenths_text_round_trip [of 10 215] by auto

text \<open>The text of a temperature in ten-thousandths has lost its sign, and its first character is one that the
  function never wrote: a temperature and its negative give the same text, which starts with the content of an
  uninitialised variable.\<close>

theorem fine_text_has_no_sign:
  assumes "n \<ge> 10" "\<bar>sint v\<bar> < 1000000"
  shows "\<exists>txt. DS18X20_format_from_maxres c v n = Some (c # txt) \<and> DS18X20_format_from_maxres c (- v) n = Some (c # txt)"
proof -
  let ?ds = "reversed_digits (nat \<bar>sint v\<bar>)"
  have "sint (- v) = - sint v" using assms(2) by (simp add: sint_word_minus signed_take_bit_int_eq_self)
  moreover have "\<exists>txt. reverse_out 3 (?ds @ [c]) (length ?ds) = c # txt"
    using reversed_digits_nonempty [of "nat \<bar>sint v\<bar>"] by (cases "length ?ds") (auto simp: nth_append)
  ultimately show ?thesis using assms by (auto simp: DS18X20_format_from_maxres_def Let_def)
qed

theorem fine_text_has_no_sign_witness:
  "\<exists>txt. DS18X20_format_from_maxres CHR ''?'' 215000 10 = Some (CHR ''?'' # txt) \<and>
     DS18X20_format_from_maxres CHR ''?'' (- 215000) 10 = Some (CHR ''?'' # txt)"
  using fine_text_has_no_sign [of 10 215000 "CHR ''?''"] by simp

text \<open>A sensor that never confirms the recall of its EEPROM is reported as a success: the counter of polls is decremented
  once more when it is used up, and what is compared with zero is 255.\<close>

theorem recall_timeout_is_success:
  assumes "\<forall>u :: ('w, 'z) ow_scheme. fst (ow_bit_io L 1 u) = 0"
    and "ow_input_pin_state L (snd (ow_reset L (s :: ('w, 'z) ow_scheme))) \<noteq> 0"
  shows "fst (DS18X20_eeprom_to_scratchpad L rom s) = DS18X20_OK"
proof -
  have "fst (await_recall L 255 (ow_command L DS18X20_RECALL_E2 rom (snd (ow_reset L s)))) \<noteq> 0"
    using await_recall_silent [OF assms(1)] by simp
  then show ?thesis using assms(2) by (simp add: DS18X20_eeprom_to_scratchpad_def Let_def split_beta)
qed

theorem recall_timeout_is_success_witness: "fst (DS18X20_eeprom_to_scratchpad dead_line None dead_bus) = DS18X20_OK"
  by (rule recall_timeout_is_success)
     (simp_all add: dead_line_def dead_bus_def ow_input_pin_state_def ow_reset_def ow_bit_io_def ow_bit_io_intern_def delay_us_def
        OW_GET_IN_def OW_OUT_LOW_def OW_OUT_HIGH_def OW_DIR_IN_def OW_DIR_OUT_def Let_def)

end
