(* ===== verification/Temp_Sensors.thy ===== *)
theory Temp_Sensors
  imports Rom_Search Ds18x20 Float32 Hexabus_Types "HOL-Library.Monad_Syntax"
begin

text \<open>
  The temperature sensors of the device: the list of the sensors found on the bus and the loop that reads them
  (\<^verbatim>\<open>apps/temperature/tempsensors.c\<close>), the listing of the verbose mode
  (\<^verbatim>\<open>DS18X20_read_meas_all_verbose\<close> in \<^verbatim>\<open>ds18x20.c\<close>), and the temperature endpoint for these sensors
  (\<^verbatim>\<open>apps/temperature/temperature.c\<close> with \<^verbatim>\<open>TEMPERATURE_SENSOR\<close> 0).
\<close>

definition MAXSENSORS :: nat where "MAXSENSORS = 5"

record 'w temps = "'w ow" +
  nSensors :: u8
  gSensorIDs :: "rom list"
  temp_eminus4 :: u32
  temperature_value :: f32

section \<open>Finding and reading the sensors\<close>

partial_function (option) search_loop ::
    "'w line \<Rightarrow> u8 \<Rightarrow> rom \<Rightarrow> nat \<Rightarrow> ('w, 'z) temps_scheme \<Rightarrow> (nat \<times> ('w, 'z) temps_scheme) option" where
  "search_loop L diff rom n s =
     (if diff \<noteq> OW_LAST_DEVICE \<and> n < MAXSENSORS then
        do { (_, diff, rom, s) \<leftarrow> DS18X20_find_sensor L diff rom s;
             if diff = OW_PRESENCE_ERR then Some (n, s)
             else if diff = OW_DATA_ERR then Some (n, s)
             else search_loop L diff rom (n + 1) (s\<lparr>gSensorIDs := (gSensorIDs s)[n := rom]\<rparr>) }
      else Some (n, s))"

text \<open>\<open>rom\<close> is the uninitialised buffer for the codes.\<close>

definition search_sensors :: "'w line \<Rightarrow> rom \<Rightarrow> ('w, 'z) temps_scheme \<Rightarrow> (u8 \<times> ('w, 'z) temps_scheme) option" where
  "search_sensors L rom s =
     map_option (\<lambda>(n, s). (of_nat n, s)) (search_loop L OW_SEARCH_FIRST rom 0 (snd (ow_reset L s)))"

definition initTempSensors :: "'w line \<Rightarrow> rom \<Rightarrow> ('w, 'z) temps_scheme \<Rightarrow> ('w, 'z) temps_scheme option" where
  "initTempSensors L rom s = map_option (\<lambda>(n, s). s\<lparr>nSensors := n\<rparr>) (search_sensors L rom s)"

text \<open>The loop over the sensors; the number of errors is the result.\<close>

fun read_sensors :: "'w line \<Rightarrow> nat list \<Rightarrow> u8 \<Rightarrow> ('w, 'z) temps_scheme \<Rightarrow> u8 \<times> ('w, 'z) temps_scheme" where
  "read_sensors L [] error s = (error, s)"
| "read_sensors L (i # is) error s =
     (let (ret, v, s) = DS18X20_read_maxres L (gSensorIDs s ! i) (temp_eminus4 s) s
      in read_sensors L is (if ret = DS18X20_OK then error else error + 1) (s\<lparr>temp_eminus4 := v\<rparr>))"

definition loopTempSensors :: "'w line \<Rightarrow> rom \<Rightarrow> ('w, 'z) temps_scheme \<Rightarrow> ('w, 'z) temps_scheme option" where
  "loopTempSensors L rom s =
     (let error = (if nSensors s = 0 then 1 else 0);
          (ret, s) = DS18X20_start_meas L DS18X20_POWER_PARASITE None s;
          (error, s) = (if ret = DS18X20_OK then read_sensors L [0..<unat (nSensors s)] error s else (error + 1, s))
      in if error \<noteq> 0 then map_option (\<lambda>(n, s). s\<lparr>nSensors := n\<rparr>) (search_sensors L rom s) else Some s)"

definition f32_of_i32 :: "u32 \<Rightarrow> f32" where
  "f32_of_i32 n = f32_signed (sint n < 0) (f32_of_nat (nat \<bar>sint n\<bar>))"

definition getTemperatureFloat :: "('w, 'z) temps_scheme \<Rightarrow> f32" where
  "getTemperatureFloat s = f32_div (f32_of_i32 (temp_eminus4 s)) (f32_of_nat 10000)"

section \<open>The temperature endpoint\<close>

definition temperature_get :: "'w line \<Rightarrow> rom \<Rightarrow> ('w, 'z) temps_scheme \<Rightarrow> (f32 \<times> ('w, 'z) temps_scheme) option" where
  "temperature_get L rom s =
     do { s \<leftarrow> loopTempSensors L rom s;
          let s = s\<lparr>temperature_value := getTemperatureFloat s\<rparr>;
          Some (temperature_value s, s) }"

definition read_temperature :: "'w line \<Rightarrow> rom \<Rightarrow> hxb_value \<Rightarrow> ('w, 'z) temps_scheme \<Rightarrow>
    (hxb_error_code \<times> hxb_value \<times> ('w, 'z) temps_scheme) option" where
  "read_temperature L rom value s =
     do { (v, s) \<leftarrow> temperature_get L rom s; Some (HXB_ERR_SUCCESS, set_float v value, s) }"

definition temperature_init :: "'w line \<Rightarrow> rom \<Rightarrow> ('w, 'z) temps_scheme \<Rightarrow> ('w, 'z) temps_scheme option" where
  "temperature_init L rom s =
     do { s \<leftarrow> initTempSensors L rom (s\<lparr>temperature_value := 0\<rparr>);
          s \<leftarrow> loopTempSensors L rom s;
          Some (s\<lparr>temperature_value := getTemperatureFloat s\<rparr>) }"

section \<open>The listing of all devices\<close>

text \<open>What is printed is a report per device: its code, and the scratchpad if it is a sensor.\<close>

partial_function (option) read_all ::
    "'w line \<Rightarrow> u8 \<Rightarrow> rom \<Rightarrow> (rom \<times> u8 list option) list \<Rightarrow> ('w, 'z) ow_scheme \<Rightarrow>
     (u8 \<times> (rom \<times> u8 list option) list \<times> ('w, 'z) ow_scheme) option" where
  "read_all L diff rom reports s =
     (if diff \<noteq> OW_LAST_DEVICE then
        (let (diff, rom, s) = ow_rom_search L diff rom s
         in if diff = OW_PRESENCE_ERR then Some (OW_PRESENCE_ERR, reports, s)
            else if diff = OW_DATA_ERR then Some (OW_DATA_ERR, reports, s)
            else if is_sensor rom then
              (let s = snd (ow_byte_wr L DS18X20_READ s);
                   (sp, s) = read_bytes L DS18X20_SP_SIZE s
               in read_all L diff rom (reports @ [(rom, Some sp)]) s)
            else read_all L diff rom (reports @ [(rom, None)]) s)
      else Some (DS18X20_OK, reports, s))"

definition DS18X20_read_meas_all_verbose ::
    "'w line \<Rightarrow> rom \<Rightarrow> ('w, 'z) ow_scheme \<Rightarrow> (u8 \<times> (rom \<times> u8 list option) list \<times> ('w, 'z) ow_scheme) option" where
  "DS18X20_read_meas_all_verbose L rom s = read_all L OW_SEARCH_FIRST rom [] s"

section \<open>The bus driver leaves the rest of the state alone\<close>

lemma more_pin [simp]:
  "ow.more (OW_OUT_LOW s) = ow.more s" "ow.more (OW_OUT_HIGH s) = ow.more s" "ow.more (OW_DIR_IN s) = ow.more s"
  "ow.more (OW_DIR_OUT s) = ow.more s" "ow.more (delay_us L n s) = ow.more s" "ow.more (ow_parasite_enable s) = ow.more s"
  by (simp_all add: OW_OUT_LOW_def OW_OUT_HIGH_def OW_DIR_IN_def OW_DIR_OUT_def delay_us_def ow_parasite_enable_def)

lemma more_reset [simp]: "ow.more (snd (ow_reset L s)) = ow.more s"
  by (simp add: ow_reset_def Let_def)

lemma more_bit [simp]: "ow.more (snd (ow_bit_io_intern L b w s)) = ow.more s" "ow.more (snd (ow_bit_io L b s)) = ow.more s"
  by (simp_all add: ow_bit_io_def ow_bit_io_intern_def Let_def)

lemma more_byte_loop [simp]: "ow.more (snd (byte_loop e L n b s)) = ow.more s"
  by (induction n arbitrary: b s) (simp_all add: split_beta Let_def)

lemma more_byte_wr [simp]: "ow.more (snd (ow_byte_wr L b s)) = ow.more s"
  by (simp add: ow_byte_wr_def)

lemma more_read [simp]: "ow.more (snd (read_bytes L n s)) = ow.more s"
  by (induction n arbitrary: s) (simp_all add: split_beta Let_def ow_byte_rd_def)

lemma more_search_bits [simp]: "ow.more (snd (snd (search_bits L diff j i nd x s))) = ow.more s"
  by (induction j arbitrary: i nd x s) (simp_all add: split_beta Let_def split: option.split)

lemma more_search_bytes [simp]: "ow.more (snd (snd (search_bytes L diff i nd rom s))) = ow.more s"
proof (induction rom arbitrary: i nd s)
  case (Cons x rom)
  then show ?case using more_search_bits [of L diff 8 i nd x s]
    by (cases "search_bits L diff 8 i nd x s") (auto simp: split_beta Let_def simp del: more_search_bits split: option.split)
qed simp

lemma more_search [simp]: "ow.more (snd (snd (ow_rom_search L diff rom s))) = ow.more s"
  by (simp add: ow_rom_search_def split_beta Let_def)

lemma more_command [simp]:
  "ow.more (ow_command_intern L c rom w (s :: ('w, 'z) ow_scheme)) = ow.more s"
proof -
  have "ow.more (fold (\<lambda>b s. snd (ow_byte_wr L b s)) bs u) = ow.more u" for bs and u :: "('w, 'z) ow_scheme"
    by (induction bs arbitrary: u) simp_all
  then show ?thesis
    by (simp add: ow_command_intern_def ow_byte_wr_with_parasite_enable_def Let_def split: option.split)
qed

lemma more_start [simp]: "ow.more (snd (DS18X20_start_meas L w rom s)) = ow.more s"
  by (simp add: DS18X20_start_meas_def ow_command_def ow_command_with_parasite_enable_def Let_def)

lemma gSensorIDs_more: "ow.more s = ow.more t \<Longrightarrow> gSensorIDs s = gSensorIDs t"
  by (cases s; cases t) simp

lemma temps_more:
  "ow.more s = ow.more t \<Longrightarrow> nSensors s = nSensors t" "ow.more s = ow.more t \<Longrightarrow> temp_eminus4 s = temp_eminus4 t"
  by (cases s; cases t; simp)+

section \<open>The sensors that are found\<close>

text \<open>On a bus with the codes \<open>xs\<close>, in the order of the search: every sensor, and whatever comes last.\<close>

fun found :: "rom list \<Rightarrow> rom list" where
  "found [] = []"
| "found [x] = [x]"
| "found (x # y # xs) = (if is_sensor x then x # found (y # xs) else found (y # xs))"

text \<open>What a search is told after \<open>p\<close> devices have been seen.\<close>

definition told :: "rom list \<Rightarrow> rom \<Rightarrow> nat \<Rightarrow> u8 \<times> rom" where
  "told xs junk p = (case p of 0 \<Rightarrow> (OW_SEARCH_FIRST, junk) | Suc k \<Rightarrow> (of_nat (mark xs k), xs ! k))"

lemma mark_codes:
  assumes "search_order xs" "k < length xs"
  shows "(of_nat (mark xs k) :: u8) \<noteq> OW_PRESENCE_ERR" "(of_nat (mark xs k) :: u8) \<noteq> OW_DATA_ERR"
    "((of_nat (mark xs k) :: u8) = OW_LAST_DEVICE) = (mark xs k = 0)"
  using mark_le [OF assms]
  by (simp_all add: OW_PRESENCE_ERR_def OW_DATA_ERR_def OW_LAST_DEVICE_def word_unat_eq_iff unat_of_nat)

lemma search_told:
  assumes "follows_search L (on_bus xs) (R :: phase \<Rightarrow> ('w, 'z) ow_scheme \<Rightarrow> bool)" "search_order xs" "length junk = 8" "p < length xs"
  shows "\<exists>t. ow_rom_search L (fst (told xs junk p)) (snd (told xs junk p)) (s :: ('w, 'z) ow_scheme) =
    (of_nat (mark xs p), xs ! p, t) \<and> ow.more t = ow.more s"
proof -
  have "\<exists>t. ow_rom_search L (fst (told xs junk p)) (snd (told xs junk p)) s = (of_nat (mark xs p), xs ! p, t)"
    using first_pass [OF assms(1,2) _ assms(3), of s] next_pass(1) [OF assms(1,2)] assms(4) by (cases p) (auto simp: told_def)
  then obtain t where t: "ow_rom_search L (fst (told xs junk p)) (snd (told xs junk p)) s = (of_nat (mark xs p), xs ! p, t)" by blast
  then have "ow.more t = ow.more s" by (metis more_search snd_conv)
  with t show ?thesis by blast
qed

lemma told_Suc: "told xs junk (Suc k) = (of_nat (mark xs k), xs ! k)"
  by (simp add: told_def)

lemma find_sensor_told:
  assumes f: "follows_search L (on_bus xs) (R :: phase \<Rightarrow> ('w, 'z) ow_scheme \<Rightarrow> bool)" and xs: "search_order xs" "length junk = 8"
  shows "p < length xs \<Longrightarrow> \<exists>ret j t. DS18X20_find_sensor L (fst (told xs junk p)) (snd (told xs junk p)) (s :: ('w, 'z) ow_scheme) =
      Some (ret, of_nat (mark xs j), xs ! j, t) \<and> p \<le> j \<and> j < length xs \<and> ow.more t = ow.more s \<and>
      found (drop p xs) = xs ! j # found (drop (Suc j) xs)"
proof (induction "length xs - p" arbitrary: p s rule: less_induct)
  case less
  obtain t where t: "ow_rom_search L (fst (told xs junk p)) (snd (told xs junk p)) s = (of_nat (mark xs p), xs ! p, t)" "ow.more t = ow.more s"
    using search_told [OF f xs less.prems] by blast
  have d: "drop p xs = xs ! p # drop (Suc p) xs" using less.prems by (simp add: Cons_nth_drop_Suc)
  show ?case
  proof (cases "Suc p = length xs")
    case True
    then have "mark xs p = 0" by (rule mark_last [OF xs(1)])
    then have "DS18X20_find_sensor L (fst (told xs junk p)) (snd (told xs junk p)) s =
        Some (DS18X20_ERROR, of_nat (mark xs p), xs ! p, t)"
      using t(1) by (subst DS18X20_find_sensor.simps) (simp add: OW_LAST_DEVICE_def)
    then show ?thesis using d True less.prems t(2) by auto
  next
    case False
    then have S: "Suc p < length xs" using less.prems by simp
    have m: "(of_nat (mark xs p) :: u8) \<noteq> OW_PRESENCE_ERR" "(of_nat (mark xs p) :: u8) \<noteq> OW_DATA_ERR" "(of_nat (mark xs p) :: u8) \<noteq> OW_LAST_DEVICE"
      using mark_codes [OF xs(1) less.prems] next_pass(2) [OF f xs(1) S] by simp_all
    have d2: "drop (Suc p) xs = xs ! Suc p # drop (Suc (Suc p)) xs" using S by (simp add: Cons_nth_drop_Suc)
    show ?thesis
    proof (cases "is_sensor (xs ! p)")
      case True
      then have "DS18X20_find_sensor L (fst (told xs junk p)) (snd (told xs junk p)) s =
          Some (DS18X20_OK, of_nat (mark xs p), xs ! p, t)"
        using t(1) m by (subst DS18X20_find_sensor.simps) simp
      moreover have "found (drop p xs) = xs ! p # found (drop (Suc p) xs)" using True by (simp add: d d2)
      ultimately show ?thesis using less.prems t(2) by blast
    next
      case F: False
      then have "DS18X20_find_sensor L (fst (told xs junk p)) (snd (told xs junk p)) s =
          DS18X20_find_sensor L (fst (told xs junk (Suc p))) (snd (told xs junk (Suc p))) t"
        using t(1) m by (subst DS18X20_find_sensor.simps) (simp add: told_Suc)
      moreover have "found (drop p xs) = found (drop (Suc p) xs)" using F by (simp add: d d2)
      moreover have "length xs - Suc p < length xs - p" using less.prems by simp
      ultimately show ?thesis using less.hyps [of "Suc p" t] S t(2) by (metis Suc_leD)
    qed
  qed
qed

lemma told_last:
  assumes f: "follows_search L (on_bus xs) (R :: phase \<Rightarrow> ('w, 'z) ow_scheme \<Rightarrow> bool)" and xs: "search_order xs" "length junk = 8"
    and "xs \<noteq> []" "p \<le> length xs"
  shows "(fst (told xs junk p) = OW_LAST_DEVICE) = (p = length xs)"
proof (cases p)
  case 0
  then show ?thesis using assms(4) by (simp add: told_def OW_SEARCH_FIRST_def OW_LAST_DEVICE_def)
next
  case (Suc k)
  then have "k < length xs" using assms(5) by simp
  then show ?thesis using mark_codes(3) [OF xs(1)] mark_zero [OF xs(1) f] Suc by (simp add: told_Suc)
qed

lemma search_loop_told:
  assumes f: "follows_search L (on_bus xs) (R :: phase \<Rightarrow> ('w, 'z) temps_scheme \<Rightarrow> bool)" and xs: "search_order xs" "length junk = 8"
    and ne: "xs \<noteq> []"
  shows "p \<le> length xs \<Longrightarrow> n \<le> 5 \<Longrightarrow> length (gSensorIDs s) = 5 \<Longrightarrow> fs = take (5 - n) (found (drop p xs)) \<Longrightarrow>
    \<exists>t. search_loop L (fst (told xs junk p)) (snd (told xs junk p)) n (s :: ('w, 'z) temps_scheme) = Some (n + length fs, t) \<and>
      length (gSensorIDs t) = 5 \<and> take (n + length fs) (gSensorIDs t) = take n (gSensorIDs s) @ fs"
proof (induction "length xs - p" arbitrary: p n s fs rule: less_induct)
  case less
  have last: "(fst (told xs junk p) = OW_LAST_DEVICE) = (p = length xs)"
    by (rule told_last [OF f xs ne less.prems(1)])
  show ?case
  proof (cases "p < length xs \<and> n < 5")
    case False
    then have "search_loop L (fst (told xs junk p)) (snd (told xs junk p)) n s = Some (n, s)"
      using last less.prems(1) by (subst search_loop.simps) (auto simp: MAXSENSORS_def)
    moreover have "fs = []" using False less.prems by auto
    ultimately show ?thesis using less.prems(3) by simp
  next
    case True
    obtain ret j t where t: "DS18X20_find_sensor L (fst (told xs junk p)) (snd (told xs junk p)) s =
        Some (ret, of_nat (mark xs j), xs ! j, t)" "p \<le> j" "j < length xs" "ow.more t = ow.more s"
      "found (drop p xs) = xs ! j # found (drop (Suc j) xs)"
      using find_sensor_told [OF f xs, of p s] True by blast
    let ?u = "t\<lparr>gSensorIDs := (gSensorIDs t)[n := xs ! j]\<rparr>"
    have g: "gSensorIDs t = gSensorIDs s" by (rule gSensorIDs_more [OF t(4)])
    have step: "search_loop L (fst (told xs junk p)) (snd (told xs junk p)) n s =
        search_loop L (fst (told xs junk (Suc j))) (snd (told xs junk (Suc j))) (n + 1) ?u"
      using t(1) True last mark_codes(1,2) [OF xs(1) t(3)]
      by (subst search_loop.simps) (simp add: MAXSENSORS_def told_Suc)
    define gs where "gs = take (5 - (n + 1)) (found (drop (Suc j) xs))"
    have "5 - n = Suc (5 - (n + 1))" using True by arith
    then have fs: "fs = xs ! j # gs" using less.prems(4) t(5) by (simp only: take_Suc_Cons gs_def)
    have lt: "length xs - Suc j < length xs - p" using t(2,3) by arith
    obtain v where v: "search_loop L (fst (told xs junk (Suc j))) (snd (told xs junk (Suc j))) (n + 1) ?u = Some (n + 1 + length gs, v)"
      "length (gSensorIDs v) = 5" "take (n + 1 + length gs) (gSensorIDs v) = take (n + 1) (gSensorIDs ?u) @ gs"
      using less.hyps [OF lt, of "n + 1" ?u gs] t(3) True less.prems(3) g by (auto simp: gs_def)
    have "take (n + 1) ((gSensorIDs s)[n := xs ! j]) = take n (gSensorIDs s) @ [xs ! j]"
      using True less.prems(3) by (simp add: take_Suc_conv_app_nth)
    then show ?thesis using step v fs g by simp
  qed
qed

lemma no_device_search:
  assumes "\<forall>u :: ('w, 'z) temps_scheme. fst (ow_reset L u) \<noteq> 0"
  shows "\<exists>t. search_sensors L junk (s :: ('w, 'z) temps_scheme) = Some (0, t) \<and> ow.more t = ow.more s"
proof -
  have "DS18X20_find_sensor L OW_SEARCH_FIRST junk (snd (ow_reset L s)) =
      Some (DS18X20_ERROR, OW_PRESENCE_ERR, junk, snd (ow_reset L (snd (ow_reset L s))))"
    using assms by (subst DS18X20_find_sensor.simps) (simp add: ow_rom_search_def split_beta Let_def)
  then have "search_loop L OW_SEARCH_FIRST junk 0 (snd (ow_reset L s)) = Some (0, snd (ow_reset L (snd (ow_reset L s))))"
    by (subst search_loop.simps) (simp add: MAXSENSORS_def OW_SEARCH_FIRST_def OW_LAST_DEVICE_def)
  then show ?thesis by (simp add: search_sensors_def)
qed

lemma found_eq: "xs \<noteq> [] \<Longrightarrow> found xs = filter is_sensor (butlast xs) @ [last xs]"
  by (induction xs rule: found.induct) auto

lemma search_sensors_found:
  assumes f: "follows_search L (on_bus xs) (R :: phase \<Rightarrow> ('w, 'z) temps_scheme \<Rightarrow> bool)" and "search_order xs" "length junk = 8"
    and "length (gSensorIDs s) = 5"
  shows "\<exists>t. search_sensors L junk (s :: ('w, 'z) temps_scheme) = Some (of_nat (length (take 5 (found xs))), t) \<and>
    take (length (take 5 (found xs))) (gSensorIDs t) = take 5 (found xs)"
proof (cases "xs = []")
  case True
  then have "\<forall>u :: ('w, 'z) temps_scheme. fst (ow_reset L u) \<noteq> 0" using follows_searchD(1) [OF f] by simp
  from no_device_search [OF this, of junk s] show ?thesis using True by auto
next
  case False
  let ?s = "snd (ow_reset L s)"
  have "length (gSensorIDs ?s) = 5" using gSensorIDs_more [of ?s s] assms(4) by simp
  from search_loop_told [OF f assms(2,3) False _ _ this, of 0 0 "take 5 (found xs)"]
  show ?thesis by (auto simp: told_def search_sensors_def)
qed

lemma read_all_told:
  assumes f: "follows_search L (on_bus xs) (R :: phase \<Rightarrow> ('w, 'z) ow_scheme \<Rightarrow> bool)" and xs: "search_order xs" "length junk = 8"
    and ne: "xs \<noteq> []"
  shows "p \<le> length xs \<Longrightarrow> \<exists>more t. read_all L (fst (told xs junk p)) (snd (told xs junk p)) reports (s :: ('w, 'z) ow_scheme) =
      Some (DS18X20_OK, reports @ more, t) \<and> map fst more = drop p xs \<and> (\<forall>(rom, sp) \<in> set more. (sp \<noteq> None) = is_sensor rom)"
proof (induction "length xs - p" arbitrary: p reports s rule: less_induct)
  case less
  have last: "(fst (told xs junk p) = OW_LAST_DEVICE) = (p = length xs)"
    by (rule told_last [OF f xs ne less.prems])
  show ?case
  proof (cases "p < length xs")
    case False
    then show ?thesis using last less.prems by (subst read_all.simps) auto
  next
    case True
    obtain t where t: "ow_rom_search L (fst (told xs junk p)) (snd (told xs junk p)) s = (of_nat (mark xs p), xs ! p, t)"
      using search_told [OF f xs True] by blast
    define sp u where "sp = (if is_sensor (xs ! p) then Some (fst (read_bytes L DS18X20_SP_SIZE (snd (ow_byte_wr L DS18X20_READ t)))) else None)"
      and "u = (if is_sensor (xs ! p) then snd (read_bytes L DS18X20_SP_SIZE (snd (ow_byte_wr L DS18X20_READ t))) else t)"
    have "read_all L (fst (told xs junk p)) (snd (told xs junk p)) reports s =
        read_all L (fst (told xs junk (Suc p))) (snd (told xs junk (Suc p))) (reports @ [(xs ! p, sp)]) u"
      using t last True mark_codes(1,2) [OF xs(1) True]
      by (subst read_all.simps) (simp add: told_Suc sp_def u_def split_beta Let_def)
    moreover have lt: "length xs - Suc p < length xs - p" using True by arith
    moreover obtain more v where "read_all L (fst (told xs junk (Suc p))) (snd (told xs junk (Suc p))) (reports @ [(xs ! p, sp)]) u =
        Some (DS18X20_OK, (reports @ [(xs ! p, sp)]) @ more, v)" "map fst more = drop (Suc p) xs"
        "\<forall>(rom, sp) \<in> set more. (sp \<noteq> None) = is_sensor rom"
      using less.hyps [OF lt, of "reports @ [(xs ! p, sp)]" u] True by auto
    moreover have "drop p xs = xs ! p # drop (Suc p) xs" using True by (simp add: Cons_nth_drop_Suc)
    ultimately show ?thesis by (intro exI [of _ "(xs ! p, sp) # more"] exI [of _ v]) (simp add: sp_def)
  qed
qed

definition fresh_temps :: "rom_wire temps" where
  "fresh_temps = \<lparr>ow_ddr = False, ow_port = True, wire = \<lparr>devices = Idle, low_for = 0, held = False\<rparr>,
     nSensors = 0, gSensorIDs = replicate 5 (replicate 8 0), temp_eminus4 = 0, temperature_value = 0\<rparr>"

text \<open>Two sensors, and a converter of voltages that is taken for a third.\<close>

definition sensors_and_converter :: "rom list" where
  "sensors_and_converter = [[0x28, 1, 0, 0, 0, 0, 0, 7], [0x10, 3, 0, 0, 0, 0, 0, 9], [0x20, 2, 0, 0, 0, 0, 0, 9]]"

lemma sensors_and_converter_order: "search_order sensors_and_converter"
  by (simp add: search_order_def sensors_and_converter_def rom_code_def rom_bits_def byte_bits_eval bit_numeral_rec)

section \<open>Properties\<close>

text \<open>C9: The search for sensors on a bus whose devices follow the search protocol ends and stores, in the order of
  their codes, the first five of: every temperature sensor on the bus, and the device that is found last whatever it
  is (the family of the last one is not looked at).\<close>

theorem sensors_found:
  assumes "follows_search L (rom_bits ` set xs) (R :: phase \<Rightarrow> ('w, 'z) temps_scheme \<Rightarrow> bool)" "search_order xs" "xs \<noteq> []"
    and "length junk = 8" "length (gSensorIDs s) = 5" "ids = take 5 (filter is_sensor (butlast xs) @ [last xs])"
  shows "\<exists>t. search_sensors L junk (s :: ('w, 'z) temps_scheme) = Some (of_nat (length ids), t) \<and>
    take (length ids) (gSensorIDs t) = ids"
  using search_sensors_found [OF assms(1,2,4,5)] assms(3,6) by (simp add: found_eq)

theorem sensors_found_witness:
  "\<exists>t. search_sensors (rom_line (rom_bits ` set sensors_and_converter)) (replicate 8 0) fresh_temps = Some (3, t) \<and>
     take 3 (gSensorIDs t) = sensors_and_converter"
  using sensors_found [OF rom_line_follows sensors_and_converter_order _ _ _ refl, of "replicate 8 0" fresh_temps]
  by (simp add: fresh_temps_def sensors_and_converter_def is_sensor_def DS18B20_FAMILY_CODE_def DS18S20_FAMILY_CODE_def
      DS1822_FAMILY_CODE_def numeral_3_eq_3)

text \<open>The listing of the devices ends with success and reports every device on the bus once, in the order of the codes,
  with its scratchpad exactly if it is a temperature sensor, although it talks to the sensors between the passes.\<close>

theorem listing_reports_every_device:
  assumes "follows_search L (rom_bits ` set xs) (R :: phase \<Rightarrow> ('w, 'z) ow_scheme \<Rightarrow> bool)" "search_order xs" "xs \<noteq> []"
    and "length junk = 8"
  shows "\<exists>reports t. DS18X20_read_meas_all_verbose L junk (s :: ('w, 'z) ow_scheme) = Some (DS18X20_OK, reports, t) \<and>
    map fst reports = xs \<and> (\<forall>(rom, sp) \<in> set reports. (sp \<noteq> None) = is_sensor rom)"
  using read_all_told [OF assms(1,2,4,3), of 0 "[]" s] by (simp add: DS18X20_read_meas_all_verbose_def told_def)

theorem listing_reports_every_device_witness:
  "\<exists>reports t. DS18X20_read_meas_all_verbose (rom_line (rom_bits ` set three_roms)) (replicate 8 0) fresh_bus =
     Some (DS18X20_OK, reports, t) \<and> map fst reports = three_roms"
proof -
  have "three_roms \<noteq> []" "length (replicate 8 0 :: u8 list) = 8" by (simp_all add: three_roms_def)
  from listing_reports_every_device [OF rom_line_follows three_roms_order this, of fresh_bus] show ?thesis by blast
qed

text \<open>When no device answers on the bus, reading the temperature endpoint reports success all the same, with the last
  temperature that was ever read (0 after the start).\<close>

theorem absent_sensors_go_unnoticed:
  assumes "\<forall>u :: ('w, 'z) temps_scheme. fst (ow_reset L u) \<noteq> 0" "nSensors (s :: ('w, 'z) temps_scheme) = 0"
  shows "\<exists>t. read_temperature L junk value s = Some (HXB_ERR_SUCCESS, set_float (getTemperatureFloat s) value, t)"
proof -
  let ?u = "snd (DS18X20_start_meas L DS18X20_POWER_PARASITE None s)"
  obtain t where t: "search_sensors L junk ?u = Some (0, t)" "ow.more t = ow.more ?u"
    using no_device_search [OF assms(1), of junk ?u] by blast
  have "loopTempSensors L junk s = Some (t\<lparr>nSensors := 0\<rparr>)"
    using assms(2) t(1) temps_more(1) [of ?u s] by (simp add: loopTempSensors_def Let_def split_beta)
  moreover have "ow.more t = ow.more s" using t(2) by simp
  then have "temp_eminus4 t = temp_eminus4 s" by (rule temps_more)
  ultimately show ?thesis by (simp add: read_temperature_def temperature_get_def getTemperatureFloat_def)
qed

theorem absent_sensors_go_unnoticed_witness:
  "\<exists>t. read_temperature (rom_line {}) [] fresh_value (fresh_temps\<lparr>temp_eminus4 := 215000\<rparr>) =
     Some (HXB_ERR_SUCCESS, set_float (getTemperatureFloat (fresh_temps\<lparr>temp_eminus4 := 215000\<rparr>)) fresh_value, t)"
  by (rule absent_sensors_go_unnoticed) (simp_all add: rom_line_reset fresh_temps_def)

end
