(* ===== verification/Host_Packet.thy ===== *)
theory Host_Packet
  imports Packet
begin

text \<open>
  Packets on the host: the classes of \<^verbatim>\<open>libhexabus/packet.hpp\<close> and the two directions of
  \<^verbatim>\<open>libhexabus/serialization.cpp\<close>. Proved: what the library writes it reads back, what it writes
  passes the check of the firmware and carries the same fields and value there, what the firmware
  sends is read by the library; and where reading fails: every packet with a date, and strings at the
  end of a short datagram.

  Boost is a parameter: its checksum, and its times, which are opaque values here. \<open>documented\<close> states
  what Boost documents of them. The host is little-endian. What lies in memory behind a datagram is not modelled;
  reading it is the result \<open>Read_beyond\<close>.
\<close>

section \<open>Boost\<close>

text \<open>\<open>crc_optimal\<close> has the five parameters of the template after the width; \<open>make_ptime\<close> takes year, month,
  day, hours, minutes, seconds and is \<open>None\<close> where the constructor of the date throws.\<close>

record ('p, 't) boost =
  crc_optimal :: "u16 \<Rightarrow> u16 \<Rightarrow> u16 \<Rightarrow> bool \<Rightarrow> bool \<Rightarrow> buf \<Rightarrow> u16"
  make_ptime :: "u16 \<Rightarrow> u8 \<Rightarrow> u8 \<Rightarrow> u8 \<Rightarrow> u8 \<Rightarrow> u8 \<Rightarrow> 'p option"
  pt_hours :: "'p \<Rightarrow> int"
  pt_minutes :: "'p \<Rightarrow> int"
  pt_seconds :: "'p \<Rightarrow> int"
  pt_day :: "'p \<Rightarrow> int"
  pt_month :: "'p \<Rightarrow> int"
  pt_year :: "'p \<Rightarrow> int"
  pt_day_of_week :: "'p \<Rightarrow> int"
  duration_of_seconds :: "u32 \<Rightarrow> 't"
  total_seconds :: "'t \<Rightarrow> int"

text \<open>The parametrised checksum that \<open>crc_optimal\<close> is documented to compute: a register of sixteen bits,
  fed most significant bit first with bytes that are reflected first if so wanted.\<close>

definition reflect :: "'a::len word \<Rightarrow> 'a word" where
  "reflect w = horner_sum of_bool 2 (rev (map (bit w) [0..<LENGTH('a)]))"

definition crc_shift :: "u16 \<Rightarrow> u16 \<Rightarrow> u16" where
  "crc_shift poly r = (if bit r 15 then push_bit 1 r XOR poly else push_bit 1 r)"

definition crc_model :: "u16 \<Rightarrow> u16 \<Rightarrow> u16 \<Rightarrow> bool \<Rightarrow> bool \<Rightarrow> buf \<Rightarrow> u16" where
  "crc_model poly init xorout reflect_in reflect_rem bs =
     (let r = fold (\<lambda>b r. (crc_shift poly ^^ 8) (r XOR push_bit 8 (ucast (if reflect_in then reflect b else b)))) bs init
      in (if reflect_rem then reflect r else r) XOR xorout)"

definition hexabus_crc :: "('p, 't) boost \<Rightarrow> buf \<Rightarrow> u16" where
  "hexabus_crc B input = crc_optimal B 0x1021 0x0000 0 True True input"

section \<open>Packets\<close>

datatype ('p, 't) host_value =
  Bool bool | Uint8 u8 | Uint32 u32 | Float f32 | Datetime 'p | Duration 't | String buf | Bytes16 buf | Bytes65 buf

datatype ('p, 't) host_packet =
  ErrorPacket u8 u8
| QueryPacket u32 u8
| EndpointQueryPacket u32 u8
| EndpointInfoPacket u32 u8 buf u8
| InfoPacket u32 "('p, 't) host_value" u8
| WritePacket u32 "('p, 't) host_value" u8

text \<open>\<open>calculateDatatype\<close>.\<close>

fun datatype_of :: "('p, 't) host_value \<Rightarrow> hxb_datatype" where
  "datatype_of (Bool b) = HXB_DTYPE_BOOL"
| "datatype_of (Uint8 x) = HXB_DTYPE_UINT8"
| "datatype_of (Uint32 x) = HXB_DTYPE_UINT32"
| "datatype_of (Float x) = HXB_DTYPE_FLOAT"
| "datatype_of (Datetime t) = HXB_DTYPE_DATETIME"
| "datatype_of (Duration t) = HXB_DTYPE_TIMESTAMP"
| "datatype_of (String s) = HXB_DTYPE_128STRING"
| "datatype_of (Bytes16 bs) = HXB_DTYPE_16BYTES"
| "datatype_of (Bytes65 bs) = HXB_DTYPE_65BYTES"

definition max_length :: nat where "max_length = 127"

text \<open>What the constructors of a value packet throw on: strings that are too long.\<close>

fun too_long :: "('p, 't) host_value \<Rightarrow> bool" where
  "too_long (String s) = (length s > max_length)"
| "too_long v = False"

section \<open>Serialization\<close>

definition append_u16 :: "u16 \<Rightarrow> buf" where
  "append_u16 value = (let c = uip_htons value in [byte_of 0 c, byte_of 1 c])"

definition append_u32 :: "u32 \<Rightarrow> buf" where
  "append_u32 value = (let c = uip_htonl value in [byte_of 0 c, byte_of 1 c, byte_of 2 c, byte_of 3 c])"

definition append_header :: "hxb_packet_type \<Rightarrow> u8 \<Rightarrow> buf" where
  "append_header t flags = HXB_HEADER @ [ptype_code t, flags]"

definition append_eid_header :: "hxb_packet_type \<Rightarrow> u32 \<Rightarrow> u8 \<Rightarrow> buf" where
  "append_eid_header t eid flags = append_header t flags @ append_u32 eid"

definition append_value_header :: "hxb_packet_type \<Rightarrow> u32 \<Rightarrow> u8 \<Rightarrow> u8 \<Rightarrow> buf" where
  "append_value_header t eid d flags = append_eid_header t eid flags @ [d]"

definition append_string :: "buf \<Rightarrow> buf" where
  "append_string s = s @ replicate (max_length + 1 - length s) 0"

fun append_value :: "('p, 't) boost \<Rightarrow> ('p, 't) host_value \<Rightarrow> buf" where
  "append_value B (Bool b) = [if b then 1 else 0]"
| "append_value B (Uint8 x) = [x]"
| "append_value B (Uint32 x) = append_u32 x"
| "append_value B (Float x) = append_u32 x"
| "append_value B (Datetime t) =
     [of_int (pt_hours B t), of_int (pt_minutes B t), of_int (pt_seconds B t), of_int (pt_day B t), of_int (pt_month B t)]
     @ append_u16 (of_int (pt_year B t)) @ [of_int (pt_day_of_week B t)]"
| "append_value B (Duration t) = append_u32 (of_int (total_seconds B t))"
| "append_value B (String s) = append_string s"
| "append_value B (Bytes16 bs) = bs"
| "append_value B (Bytes65 bs) = bs"

fun serialize_body :: "('p, 't) boost \<Rightarrow> ('p, 't) host_packet \<Rightarrow> buf" where
  "serialize_body B (ErrorPacket code flags) = append_header HXB_PTYPE_ERROR flags @ [code]"
| "serialize_body B (QueryPacket eid flags) = append_eid_header HXB_PTYPE_QUERY eid flags"
| "serialize_body B (EndpointQueryPacket eid flags) = append_eid_header HXB_PTYPE_EPQUERY eid flags"
| "serialize_body B (EndpointInfoPacket eid d s flags) = append_value_header HXB_PTYPE_EPINFO eid d flags @ append_string s"
| "serialize_body B (InfoPacket eid v flags) =
     append_value_header HXB_PTYPE_INFO eid (dtype_code (datatype_of v)) flags @ append_value B v"
| "serialize_body B (WritePacket eid v flags) =
     append_value_header HXB_PTYPE_WRITE eid (dtype_code (datatype_of v)) flags @ append_value B v"

definition append_crc :: "('p, 't) boost \<Rightarrow> buf \<Rightarrow> buf" where
  "append_crc B target = target @ append_u16 (hexabus_crc B target)"

definition serialize :: "('p, 't) boost \<Rightarrow> ('p, 't) host_packet \<Rightarrow> buf" where
  "serialize B p = append_crc B (serialize_body B p)"

section \<open>Deserialization\<close>

text \<open>What can go wrong: a \<open>BadPacketException\<close> with its reason, an exception of the standard library or of
  Boost that is none of \<^verbatim>\<open>libhexabus\<close>, a read beyond the datagram.\<close>

datatype thrown = BadPacket string | Out_of_range | Read_beyond

type_synonym 'a reader = "buf \<Rightarrow> nat \<Rightarrow> thrown + 'a \<times> nat"

definition return :: "'a \<Rightarrow> 'a reader" where
  "return x pkt off = Inr (x, off)"

definition throw :: "thrown \<Rightarrow> 'a reader" where
  "throw e pkt off = Inl e"

definition rbind :: "'a reader \<Rightarrow> ('a \<Rightarrow> 'b reader) \<Rightarrow> 'b reader" where
  "rbind m f pkt off = (case m pkt off of Inl e \<Rightarrow> Inl e | Inr (x, off) \<Rightarrow> f x pkt off)"

text \<open>\<open>size_t\<close> has 64 bits, and the difference wraps when the offset is behind the end.\<close>

definition check_length :: "nat \<Rightarrow> unit reader" where
  "check_length n pkt off =
     (if (of_nat (length pkt) - of_nat off :: 64 word) < of_nat n then Inl (BadPacket ''Packet too short'') else Inr ((), off))"

text \<open>\<open>n\<close> bytes of memory at the offset.\<close>

definition memory :: "nat \<Rightarrow> buf reader" where
  "memory n pkt off = (if off + n \<le> length pkt then Inr (get_bytes off n pkt, off + n) else Inl Read_beyond)"

definition read_bytes :: "nat \<Rightarrow> buf reader" where
  "read_bytes n = rbind (check_length n) (\<lambda>_. memory n)"

definition read_header :: "unit reader" where
  "read_header = rbind (read_bytes 4) (\<lambda>bs. if bs \<noteq> HXB_HEADER then throw (BadPacket ''Invalid header'') else return ())"

definition read_u8 :: "u8 reader" where
  "read_u8 = rbind (read_bytes 1) (\<lambda>bs. return (get8 0 bs))"

definition read_u16 :: "u16 reader" where
  "read_u16 = rbind (read_bytes 2) (\<lambda>bs. return (uip_ntohs (get16 0 bs)))"

definition read_u32 :: "u32 reader" where
  "read_u32 = rbind (read_bytes 4) (\<lambda>bs. return (uip_ntohl (get32 0 bs)))"

text \<open>The characters from the offset up to a null character, wherever it comes. The search for it before does
  not throw: \<open>std::find\<close> returns the end of the range when there is none, which is not a null pointer.\<close>

definition c_string :: "buf reader" where
  "c_string pkt off =
     (if 0 \<in> set (drop off pkt) then Inr (takeWhile (\<lambda>c. c \<noteq> 0) (drop off pkt), off) else Inl Read_beyond)"

definition read_string :: "buf reader" where
  "read_string =
     rbind (check_length max_length) (\<lambda>_. rbind c_string (\<lambda>s pkt off. Inr (s, off + max_length + 1)))"

definition check :: "('p, 't) boost \<Rightarrow> ('p, 't) host_packet \<Rightarrow> ('p, 't) host_packet reader" where
  "check B p pkt off =
     (if off > length pkt then Inl Read_beyond
      else rbind read_u16 (\<lambda>c. if hexabus_crc B (take off pkt) \<noteq> c then throw (BadPacket ''Bad checksum'') else return p) pkt off)"

definition check_info :: "('p, 't) boost \<Rightarrow> bool \<Rightarrow> u32 \<Rightarrow> ('p, 't) host_value \<Rightarrow> u8 \<Rightarrow> ('p, 't) host_packet reader" where
  "check_info B info eid v flags =
     (if too_long v then throw Out_of_range
      else if info then check B (InfoPacket eid v flags) else check B (WritePacket eid v flags))"

definition read_datetime :: "('p, 't) boost \<Rightarrow> ('p, 't) host_value reader" where
  "read_datetime B =
     rbind read_u8 (\<lambda>hour. rbind read_u8 (\<lambda>minute. rbind read_u8 (\<lambda>second.
     rbind read_u8 (\<lambda>day. rbind read_u8 (\<lambda>month. rbind read_u8 (\<lambda>year. rbind read_u8 (\<lambda>weekday.
       case make_ptime B (ucast year) month day hour minute second of
         None \<Rightarrow> throw Out_of_range
       | Some dt \<Rightarrow> (if pt_day_of_week B dt \<noteq> uint weekday then throw (BadPacket ''Invalid datetime format'')
                    else return (Datetime dt)))))))))"

definition read_value :: "('p, 't) boost \<Rightarrow> hxb_datatype \<Rightarrow> ('p, 't) host_value reader" where
  "read_value B d =
     (case d of
        HXB_DTYPE_BOOL \<Rightarrow> rbind read_u8 (\<lambda>x. return (Bool (x \<noteq> 0)))
      | HXB_DTYPE_UINT8 \<Rightarrow> rbind read_u8 (\<lambda>x. return (Uint8 x))
      | HXB_DTYPE_UINT32 \<Rightarrow> rbind read_u32 (\<lambda>x. return (Uint32 x))
      | HXB_DTYPE_FLOAT \<Rightarrow> rbind read_u32 (\<lambda>x. return (Float x))
      | HXB_DTYPE_DATETIME \<Rightarrow> read_datetime B
      | HXB_DTYPE_TIMESTAMP \<Rightarrow> rbind read_u32 (\<lambda>x. return (Duration (duration_of_seconds B x)))
      | HXB_DTYPE_128STRING \<Rightarrow> rbind read_string (\<lambda>s. return (String s))
      | HXB_DTYPE_16BYTES \<Rightarrow> rbind (read_bytes 16) (\<lambda>bs. return (Bytes16 bs))
      | HXB_DTYPE_65BYTES \<Rightarrow> rbind (read_bytes 65) (\<lambda>bs. return (Bytes65 bs))
      | HXB_DTYPE_UNDEFINED \<Rightarrow> throw (BadPacket ''Invalid datatype''))"

text \<open>The \<open>switch\<close> over the packet type, behind type and flags.\<close>

definition read_body :: "('p, 't) boost \<Rightarrow> u8 \<Rightarrow> u8 \<Rightarrow> ('p, 't) host_packet reader" where
  "read_body B ty flags =
     (case ptype_of ty of
        Some HXB_PTYPE_ERROR \<Rightarrow> rbind read_u8 (\<lambda>code. check B (ErrorPacket code flags))
      | Some HXB_PTYPE_QUERY \<Rightarrow> rbind read_u32 (\<lambda>eid. check B (QueryPacket eid flags))
      | Some HXB_PTYPE_EPQUERY \<Rightarrow> rbind read_u32 (\<lambda>eid. check B (EndpointQueryPacket eid flags))
      | Some HXB_PTYPE_EPINFO \<Rightarrow>
          rbind read_u32 (\<lambda>eid. rbind read_u8 (\<lambda>d. rbind read_string (\<lambda>s.
            if length s > max_length then throw Out_of_range else check B (EndpointInfoPacket eid d s flags))))
      | Some t \<Rightarrow>
          rbind read_u32 (\<lambda>eid. rbind read_u8 (\<lambda>d.
            case dtype_of d of
              None \<Rightarrow> throw (BadPacket ''Invalid datatype'')
            | Some d \<Rightarrow> rbind (read_value B d) (\<lambda>v. check_info B (t = HXB_PTYPE_INFO) eid v flags)))
      | None \<Rightarrow> throw (BadPacket ''Unknown packet type''))"

definition read_packet :: "('p, 't) boost \<Rightarrow> ('p, 't) host_packet reader" where
  "read_packet B = rbind read_header (\<lambda>_. rbind read_u8 (\<lambda>ty. rbind read_u8 (\<lambda>flags. read_body B ty flags)))"

definition deserialize :: "('p, 't) boost \<Rightarrow> buf \<Rightarrow> thrown + ('p, 't) host_packet" where
  "deserialize B packet = (case read_packet B packet 0 of Inl e \<Rightarrow> Inl e | Inr (p, _) \<Rightarrow> Inr p)"


text \<open>
  The completion handler of a receive operation (\<^verbatim>\<open>socket.cpp\<close>): what it does, and whether it receives
  again. A packet goes to the filters and slots; only exceptions of \<^verbatim>\<open>libhexabus\<close> are caught.
\<close>

datatype net_error = Operation_canceled | Other_error

datatype ('p, 't) received = Nothing_done | Async_error "thrown option" | Packet_received "('p, 't) host_packet" | Propagated thrown

definition packet_received_handler ::
    "('p, 't) boost \<Rightarrow> net_error option \<Rightarrow> nat \<Rightarrow> buf \<Rightarrow> ('p, 't) received \<times> bool" where
  "packet_received_handler B error n data =
     (case error of
        Some Operation_canceled \<Rightarrow> (Nothing_done, False)
      | Some Other_error \<Rightarrow> (Async_error None, False)
      | None \<Rightarrow>
          (case deserialize B (take (min n (length data)) data) of
             Inr packet \<Rightarrow> (Packet_received packet, True)
           | Inl (BadPacket reason) \<Rightarrow> (Async_error (Some (BadPacket reason)), True)
           | Inl e \<Rightarrow> (Propagated e, True)))"

section \<open>Boost's checksum is that of the firmware\<close>

definition crc_documented :: "('p, 't) boost \<Rightarrow> bool" where
  "crc_documented B = (\<forall>poly init xorout ri rr bs. crc_optimal B poly init xorout ri rr bs = crc_model poly init xorout ri rr bs)"

lemma bit_reflect: "bit (reflect (w :: 'a::len word)) n = (n < LENGTH('a) \<and> bit w (LENGTH('a) - Suc n))"
  by (auto simp: reflect_def bit_horner_sum_bit_word_iff rev_nth)

lemma bit_crc_polynomial: "bit (0x1021 :: u16) n = (n = 0 \<or> n = 5 \<or> n = 12)"
proof (cases "n < 16")
  case True
  from less_16_cases [OF True] show ?thesis
    by (elim insertE emptyE) (simp_all add: bit_numeral_rec)
qed (auto dest: bit_imp_le_length)

lemma bit_crc_shift:
  "n < 16 \<Longrightarrow> bit (crc_shift poly r) n = ((n \<noteq> 0 \<and> bit r (n - 1)) \<noteq> (bit r 15 \<and> bit poly n))"
  by (auto simp only: crc_shift_def bit_xor_iff bit_push_bit_iff if_True if_False possible_bit_def len_num1 split: if_splits)
     (simp_all add: Suc_le_eq possible_bit_word)

lemma reflect_crc_shift: "reflect (crc_shift 0x1021 r) = crc_bit (reflect r)"
proof (rule bit_word_eqI)
  fix n assume "n < LENGTH(16)"
  then have "n < 16" by simp
  from less_16_cases [OF this] show "bit (reflect (crc_shift 0x1021 r)) n = bit (crc_bit (reflect r)) n"
    by (elim insertE emptyE)
       (simp_all add: bit_reflect bit_crc_bit bit_crc_shift bit_crc_polynomial no_bit_beyond)
qed

lemma reflect_crc_shifts: "reflect ((crc_shift 0x1021 ^^ k) r) = (crc_bit ^^ k) (reflect r)"
  by (induction k) (simp_all add: reflect_crc_shift)

lemma reflect_feed: "reflect (r XOR push_bit 8 (ucast (reflect b))) = reflect r XOR (ucast (b :: u8) :: u16)"
proof (rule bit_word_eqI)
  fix n assume "n < LENGTH(16)"
  then show "bit (reflect (r XOR push_bit 8 (ucast (reflect b)))) n = bit (reflect r XOR (ucast b :: u16)) n"
    by (auto simp: bit_reflect bit_simps dest: bit_imp_le_length)
qed

lemma reflect_crc_steps:
  "reflect (fold (\<lambda>b r. (crc_shift 0x1021 ^^ 8) (r XOR push_bit 8 (ucast (reflect b)))) bs r) = fold crc_ref bs (reflect r)"
  by (induction bs arbitrary: r) (simp_all only: fold.simps comp_apply id_apply reflect_crc_shifts reflect_feed crc_ref_def)

lemma reflect_0 [simp]: "reflect 0 = 0"
  by (rule bit_word_eqI) (simp add: bit_reflect)

lemma crc_model_eq: "crc_model 0x1021 0 0 True True bs = crc16_data bs 0"
  by (simp only: crc_model_def Let_def if_True reflect_crc_steps crc16_data_eq_ref crc_ref_data_def reflect_0 xor.right_neutral)

lemma hexabus_crc_eq: "crc_documented B \<Longrightarrow> hexabus_crc B bs = crc16_data bs 0"
  by (simp add: hexabus_crc_def crc_documented_def crc_model_eq)

section \<open>Reading inside the datagram\<close>

lemma check_length_ok:
  assumes "length pkt < 2 ^ 64" "off + n \<le> length pkt"
  shows "check_length n pkt off = Inr ((), off)"
proof -
  have "(of_nat (length pkt) - of_nat off :: 64 word) = of_nat (length pkt - off)" using assms by simp
  moreover have "unat (of_nat (length pkt - off) :: 64 word) = length pkt - off"
    using assms by (simp add: unat_of_nat take_bit_nat_eq_self del: of_nat_diff)
  moreover have "unat (of_nat n :: 64 word) = n"
    using assms by (simp add: unat_of_nat take_bit_nat_eq_self)
  ultimately show ?thesis using assms by (simp only: check_length_def word_less_nat_alt) simp
qed

lemma read_bytes_ok:
  "length pkt < 2 ^ 64 \<Longrightarrow> off + n \<le> length pkt \<Longrightarrow> read_bytes n pkt off = Inr (get_bytes off n pkt, off + n)"
  by (simp add: read_bytes_def rbind_def check_length_ok memory_def)

lemma get_of_get_bytes:
  "get8 0 (get_bytes off 1 pkt) = get8 off pkt" if "off + 1 \<le> length pkt"
  using that by (simp add: get8_def get_bytes_def)

lemma get16_of_get_bytes: "off + 2 \<le> length pkt \<Longrightarrow> get16 0 (get_bytes off 2 pkt) = get16 off pkt"
  by (simp add: get16_def get_bytes_def)

lemma get32_of_get_bytes: "off + 4 \<le> length pkt \<Longrightarrow> get32 0 (get_bytes off 4 pkt) = get32 off pkt"
  by (simp add: get32_def get_bytes_def)

lemma read_ints_ok:
  assumes "length pkt < 2 ^ 64"
  shows "off + 1 \<le> length pkt \<Longrightarrow> read_u8 pkt off = Inr (get8 off pkt, off + 1)"
    and "off + 2 \<le> length pkt \<Longrightarrow> read_u16 pkt off = Inr (uip_ntohs (get16 off pkt), off + 2)"
    and "off + 4 \<le> length pkt \<Longrightarrow> read_u32 pkt off = Inr (uip_ntohl (get32 off pkt), off + 4)"
  using assms
  by (simp_all add: read_u8_def read_u16_def read_u32_def rbind_def read_bytes_ok return_def get_of_get_bytes
      get16_of_get_bytes get32_of_get_bytes del: One_nat_def)

lemma check_ok:
  assumes "length pkt < 2 ^ 64" "off + 2 \<le> length pkt" "hexabus_crc B (take off pkt) = uip_ntohs (get16 off pkt)"
  shows "check B p pkt off = Inr (p, off + 2)"
  using assms by (simp add: check_def rbind_def read_ints_ok return_def)

text \<open>The string of a field with a null character in it.\<close>

definition string_of :: "buf \<Rightarrow> buf" where
  "string_of field = takeWhile (\<lambda>c. c \<noteq> 0) field"

lemma takeWhile_take: "\<exists>x\<in>set (take n xs). \<not> P x \<Longrightarrow> takeWhile P xs = takeWhile P (take n xs)"
  by (induction xs arbitrary: n) (auto simp: take_Cons' split: if_splits)

lemma string_of_short: "0 \<in> set field \<Longrightarrow> length (string_of field) < length field"
  unfolding string_of_def by (induction field) auto

lemma read_string_ok:
  assumes "length pkt < 2 ^ 64" "off + 128 \<le> length pkt" "0 \<in> set (get_bytes off 128 pkt)"
  shows "read_string pkt off = Inr (string_of (get_bytes off 128 pkt), off + 128)"
    and "length (string_of (get_bytes off 128 pkt)) \<le> max_length"
proof -
  have "0 \<in> set (drop off pkt)" using assms(3) set_take_subset by (fastforce simp: get_bytes_def)
  moreover have "takeWhile (\<lambda>c. c \<noteq> 0) (drop off pkt) = string_of (get_bytes off 128 pkt)"
    unfolding string_of_def get_bytes_def by (rule takeWhile_take) (use assms(3) in \<open>auto simp: get_bytes_def\<close>)
  ultimately show "read_string pkt off = Inr (string_of (get_bytes off 128 pkt), off + 128)"
    using assms(1,2) by (simp add: read_string_def rbind_def check_length_ok max_length_def c_string_def)
  show "length (string_of (get_bytes off 128 pkt)) \<le> max_length"
    using string_of_short [OF assms(3)] assms(2) by (simp add: max_length_def get_bytes_def)
qed


section \<open>Reading a datagram of the length its type asks for\<close>

text \<open>What both ends agree on: the header, the length that the firmware computes from the two type bytes, the
  checksum, and that a string is terminated.\<close>

definition is_string :: "buf \<Rightarrow> bool" where
  "is_string pkt = (length pkt = sizeof_p_128string)"

definition datagram_ok :: "('p, 't) boost \<Rightarrow> buf \<Rightarrow> bool" where
  "datagram_ok B pkt = (get_bytes 0 4 pkt = HXB_HEADER \<and> crc_data_len pkt = Some (length pkt) \<and>
     hexabus_crc B (take (length pkt - 2) pkt) = uip_ntohs (get16 (length pkt - 2) pkt) \<and>
     (is_string pkt \<longrightarrow> 0 \<in> set (get_bytes off_value 128 pkt)))"

definition is_valued :: "buf \<Rightarrow> bool" where
  "is_valued pkt = (ptype_of (get8 off_type pkt) \<in> {Some HXB_PTYPE_INFO, Some HXB_PTYPE_WRITE})"

definition is_date :: "buf \<Rightarrow> bool" where
  "is_date pkt = (is_valued pkt \<and> dtype_of (get8 off_datatype pkt) = Some HXB_DTYPE_DATETIME)"

text \<open>The packet that the fields of a datagram denote.\<close>

definition wire_value :: "('p, 't) boost \<Rightarrow> hxb_datatype \<Rightarrow> buf \<Rightarrow> ('p, 't) host_value" where
  "wire_value B d pkt =
     (case d of
        HXB_DTYPE_BOOL \<Rightarrow> Bool (get8 off_value pkt \<noteq> 0)
      | HXB_DTYPE_UINT32 \<Rightarrow> Uint32 (uip_ntohl (get32 off_value pkt))
      | HXB_DTYPE_FLOAT \<Rightarrow> Float (uip_ntohl (get32 off_value pkt))
      | HXB_DTYPE_TIMESTAMP \<Rightarrow> Duration (duration_of_seconds B (uip_ntohl (get32 off_value pkt)))
      | HXB_DTYPE_128STRING \<Rightarrow> String (string_of (get_bytes off_value 128 pkt))
      | HXB_DTYPE_16BYTES \<Rightarrow> Bytes16 (get_bytes off_value 16 pkt)
      | HXB_DTYPE_65BYTES \<Rightarrow> Bytes65 (get_bytes off_value 65 pkt)
      | _ \<Rightarrow> Uint8 (get8 off_value pkt))"

definition wire_packet :: "('p, 't) boost \<Rightarrow> buf \<Rightarrow> ('p, 't) host_packet" where
  "wire_packet B pkt =
     (let flags = get8 off_flags pkt; eid = uip_ntohl (get32 off_eid pkt); d = get8 off_datatype pkt in
      case the (ptype_of (get8 off_type pkt)) of
        HXB_PTYPE_ERROR \<Rightarrow> ErrorPacket (get8 off_error_code pkt) flags
      | HXB_PTYPE_QUERY \<Rightarrow> QueryPacket eid flags
      | HXB_PTYPE_EPQUERY \<Rightarrow> EndpointQueryPacket eid flags
      | HXB_PTYPE_EPINFO \<Rightarrow> EndpointInfoPacket eid d (string_of (get_bytes off_value 128 pkt)) flags
      | HXB_PTYPE_INFO \<Rightarrow> InfoPacket eid (wire_value B (the (dtype_of d)) pkt) flags
      | HXB_PTYPE_WRITE \<Rightarrow> WritePacket eid (wire_value B (the (dtype_of d)) pkt) flags)"

lemma value_size_cases:
  "d \<noteq> HXB_DTYPE_UNDEFINED \<Longrightarrow> value_size d \<in> {14, 17, 21, 29, 78, 141}"
  by (cases d) (simp_all add: value_size_def offset_simps)

lemma read_value_ok:
  assumes len: "length pkt = value_size d" and d: "d \<noteq> HXB_DTYPE_UNDEFINED" "d \<noteq> HXB_DTYPE_DATETIME"
    and string: "is_string pkt \<longrightarrow> 0 \<in> set (get_bytes off_value 128 pkt)"
  shows "read_value B d pkt 11 = Inr (wire_value B d pkt, value_size d - 2)" and "\<not> too_long (wire_value B d pkt)"
proof -
  have l: "length pkt < 2 ^ 64" using len value_size_cases [OF d(1)] by auto
  show "read_value B d pkt 11 = Inr (wire_value B d pkt, value_size d - 2)"
    using len d string read_ints_ok [OF l, of 11] read_bytes_ok [OF l, of 11] read_string_ok(1) [OF l, of 11]
    by (cases d) (simp_all add: read_value_def rbind_def return_def wire_value_def value_size_def is_string_def offset_simps)
  show "\<not> too_long (wire_value B d pkt)"
    using len d string read_string_ok(2) [OF l, of 11]
    by (cases d) (simp_all add: wire_value_def value_size_def is_string_def offset_simps not_less)
qed

lemma crc_data_len_dest:
  assumes "crc_data_len pkt = Some n"
  obtains (valued) t d where "ptype_of (get8 off_type pkt) = Some t" "t = HXB_PTYPE_INFO \<or> t = HXB_PTYPE_WRITE"
      "dtype_of (get8 off_datatype pkt) = Some d" "d \<noteq> HXB_DTYPE_UNDEFINED" "n = value_size d"
    | (other) t where "ptype_of (get8 off_type pkt) = Some t" "t \<noteq> HXB_PTYPE_INFO" "t \<noteq> HXB_PTYPE_WRITE"
      "n = (if t = HXB_PTYPE_ERROR then sizeof_p_error else if t = HXB_PTYPE_EPINFO then sizeof_p_128string else sizeof_p_query)"
proof (cases "ptype_of (get8 off_type pkt)")
  case (Some t)
  show thesis
  proof (cases "t = HXB_PTYPE_INFO \<or> t = HXB_PTYPE_WRITE")
    case True
    show thesis
    proof (cases "dtype_of (get8 off_datatype pkt)")
      case (Some d)
      then have "d \<noteq> HXB_DTYPE_UNDEFINED \<and> n = value_size d"
        using assms \<open>ptype_of _ = _\<close> True by (cases d) (auto simp: crc_data_len_def value_size_def)
      then show thesis using valued Some \<open>ptype_of _ = _\<close> True by blast
    next
      case None
      then show thesis using assms Some True by (auto simp: crc_data_len_def)
    qed
  next
    case False
    then show thesis using other [of t] Some assms by (auto simp: crc_data_len_def split: if_splits)
  qed
qed (use assms in \<open>simp add: crc_data_len_def\<close>)

lemma datagram_read:
  assumes ok: "datagram_ok B pkt" and date: "\<not> is_date pkt"
  shows "deserialize B pkt = Inr (wire_packet B pkt)"
proof -
  have len: "crc_data_len pkt = Some (length pkt)" and hdr: "get_bytes 0 4 pkt = HXB_HEADER"
    and string: "is_string pkt \<longrightarrow> 0 \<in> set (get_bytes off_value 128 pkt)"
    and crc: "hexabus_crc B (take (length pkt - 2) pkt) = uip_ntohs (get16 (length pkt - 2) pkt)"
    using ok by (simp_all add: datagram_ok_def)
  have n: "length pkt \<in> {9, 12, 14, 17, 21, 29, 78, 141}"
    using len by (cases rule: crc_data_len_dest) (use value_size_cases in \<open>auto simp: offset_simps\<close>)
  then have l: "length pkt < 2 ^ 64" "9 \<le> length pkt" by auto
  note r = read_ints_ok [OF l(1)] read_bytes_ok [OF l(1)] 
  have head: "read_header pkt 0 = Inr ((), 4)" "read_u8 pkt 4 = Inr (get8 off_type pkt, 5)"
    "read_u8 pkt 5 = Inr (get8 off_flags pkt, 6)"
    using l r by (simp_all add: read_header_def rbind_def return_def hdr offset_simps)
  have fin: "off + 2 = length pkt \<Longrightarrow> check B p pkt off = Inr (p, length pkt)" for p off
    using check_ok [OF l(1), of off B p] crc by (metis add_diff_cancel_right' le_refl)
  from len show ?thesis
  proof (cases rule: crc_data_len_dest)
    case (valued t d)
    have nd: "d \<noteq> HXB_DTYPE_DATETIME" using date valued by (auto simp: is_date_def is_valued_def)
    have "14 \<le> length pkt" using valued(4,5) value_size_cases [of d] by auto
    then have "read_u32 pkt 6 = Inr (uip_ntohl (get32 off_eid pkt), 10)" "read_u8 pkt 10 = Inr (get8 off_datatype pkt, 11)"
      using r(3) [of 6] r(1) [of 10] by (simp_all add: offset_simps)
    then show ?thesis
      using valued(1-3) head read_value_ok [OF valued(5,4) nd string, of B] fin [of "length pkt - 2"] valued(5) \<open>14 \<le> length pkt\<close>
      by (auto simp: deserialize_def read_packet_def read_body_def rbind_def wire_packet_def check_info_def)
  next
    case (other t)
    have e: "t \<noteq> HXB_PTYPE_ERROR \<Longrightarrow> read_u32 pkt 6 = Inr (uip_ntohl (get32 off_eid pkt), 10)"
      using r(3) [of 6] other(4) by (simp add: offset_simps split: if_splits)
    have c: "read_u8 pkt 6 = Inr (get8 off_error_code pkt, 7)" using r(1) [of 6] l by (simp add: offset_simps)
    have i: "t = HXB_PTYPE_EPINFO \<Longrightarrow> read_u8 pkt 10 = Inr (get8 off_datatype pkt, 11)"
      "t = HXB_PTYPE_EPINFO \<Longrightarrow> read_string pkt 11 = Inr (string_of (get_bytes off_value 128 pkt), 139)"
      "t = HXB_PTYPE_EPINFO \<Longrightarrow> length (string_of (get_bytes off_value 128 pkt)) \<le> max_length"
      using r(1) [of 10] read_string_ok [OF l(1), of 11] string other(4) by (simp_all add: is_string_def offset_simps)
    show ?thesis
      using other head e c i fin [of 7] fin [of 10] fin [of 139]
      by (cases t) (simp_all add: deserialize_def read_packet_def read_body_def rbind_def wire_packet_def offset_simps)
  qed
qed


section \<open>What the library writes\<close>

text \<open>The packets there are: the constructors refuse long strings, and arrays have their length.\<close>

fun constructible_value :: "('p, 't) host_value \<Rightarrow> bool" where
  "constructible_value (String s) = (length s \<le> max_length)"
| "constructible_value (Bytes16 bs) = (length bs = 16)"
| "constructible_value (Bytes65 bs) = (length bs = 65)"
| "constructible_value v = True"

fun constructible :: "('p, 't) host_packet \<Rightarrow> bool" where
  "constructible (EndpointInfoPacket eid d s flags) = (length s \<le> max_length)"
| "constructible (InfoPacket eid v flags) = constructible_value v"
| "constructible (WritePacket eid v flags) = constructible_value v"
| "constructible p = True"

lemma length_append [simp]: "length (append_u16 w) = 2" "length (append_u32 x) = 4"
  "length s \<le> max_length \<Longrightarrow> length (append_string s) = 128"
  by (simp_all add: append_u16_def append_u32_def append_string_def max_length_def Let_def)

lemma length_append_value:
  "constructible_value v \<Longrightarrow> length (append_value B v) = value_size (datatype_of v) - 13"
  by (cases v) (simp_all add: value_size_def offset_simps)

lemma datatype_of_defined [simp]: "datatype_of v \<noteq> HXB_DTYPE_UNDEFINED"
  by (cases v) simp_all

lemma append_string_terminated: "length s \<le> max_length \<Longrightarrow> 0 \<in> set (append_string s)"
  by (simp add: append_string_def)

lemma string_of_append_string: "0 \<notin> set s \<Longrightarrow> length s \<le> max_length \<Longrightarrow> string_of (append_string s) = s"
proof -
  assume "0 \<notin> set s" "length s \<le> max_length"
  then have "takeWhile (\<lambda>c. c \<noteq> 0) (s @ replicate (Suc n) 0) = s" for n
    by (subst takeWhile_append2) auto
  moreover have "max_length + 1 - length s = Suc (max_length - length s)"
    using \<open>length s \<le> max_length\<close> by simp
  ultimately show ?thesis unfolding string_of_def append_string_def by metis
qed

text \<open>The fields of a value packet, of the size of its type.\<close>

definition valued_datagram :: "hxb_packet_type \<Rightarrow> u8 \<Rightarrow> u32 \<Rightarrow> u8 \<Rightarrow> buf \<Rightarrow> buf" where
  "valued_datagram t flags eid d payload = append_value_header t eid d flags @ payload"

lemma valued_datagram_fields:
  "get_bytes 0 4 (valued_datagram t flags eid d payload @ r) = HXB_HEADER"
  "get8 off_type (valued_datagram t flags eid d payload @ r) = ptype_code t"
  "get8 off_flags (valued_datagram t flags eid d payload @ r) = flags"
  "uip_ntohl (get32 off_eid (valued_datagram t flags eid d payload @ r)) = eid"
  "get8 off_datatype (valued_datagram t flags eid d payload @ r) = d"
  "get_bytes off_value n (valued_datagram t flags eid d payload @ r) = take n (payload @ r)"
  by (simp_all add: valued_datagram_def append_value_header_def append_eid_header_def append_header_def append_u32_def
      HXB_HEADER_def Let_def offset_simps get8_def get32_def get_bytes_def)

lemma length_valued_datagram [simp]: "length (valued_datagram t flags eid d payload) = 11 + length payload"
  by (simp add: valued_datagram_def append_value_header_def append_eid_header_def append_header_def)

lemma get_append:
  "get8 (length xs) (xs @ x # ys) = x"
  "get16 (length xs) (xs @ append_u16 w @ ys) = uip_htons w"
  "get32 (length xs) (xs @ append_u32 e @ ys) = uip_htonl e"
  by (simp_all add: get8_def get16_def get32_def append_u16_def append_u32_def Let_def nth_append)

lemma get_off_value:
  "get8 off_value (valued_datagram t flags eid d payload @ r) = (payload @ r) ! 0"
  "get16 (off_value + 5) (valued_datagram t flags eid d payload @ r) = get16 5 (payload @ r)"
  "get32 off_value (valued_datagram t flags eid d payload @ r) = get32 0 (payload @ r)"
  "get_datetime off_value (valued_datagram t flags eid d payload @ r) = get_datetime 0 (payload @ r)"
  by (simp_all add: valued_datagram_def append_value_header_def append_eid_header_def append_header_def append_u32_def
      HXB_HEADER_def Let_def offset_simps get8_def get16_def get32_def get_datetime_def eval_nat_numeral)

lemma append_crc_ok:
  assumes "crc_data_len (append_crc B body) = Some (length body + 2)" "get_bytes 0 4 (append_crc B body) = HXB_HEADER"
    and "length body + 2 = 141 \<Longrightarrow> 0 \<in> set (get_bytes off_value 128 (append_crc B body))"
  shows "datagram_ok B (append_crc B body)"
proof -
  have "get16 (length body) (append_crc B body) = uip_htons (hexabus_crc B body)"
    using get_append(2) [of body "hexabus_crc B body" "[]"] by (simp add: append_crc_def)
  then show ?thesis using assms by (simp add: datagram_ok_def is_string_def append_crc_def offset_simps)
qed

lemma serialize_value:
  fixes B :: "('p, 't) boost"
  assumes t: "t = HXB_PTYPE_INFO \<or> t = HXB_PTYPE_WRITE" and v: "constructible_value v"
  shows "datagram_ok B (append_crc B (valued_datagram t flags eid (dtype_code (datatype_of v)) (append_value B v)))"
proof (rule append_crc_ok)
  let ?b = "valued_datagram t flags eid (dtype_code (datatype_of v)) (append_value B v)"
  note f = valued_datagram_fields [where t = t and flags = flags and eid = eid and d = "dtype_code (datatype_of v)" and payload = "append_value B v" and r = "append_u16 (hexabus_crc B ?b)"]
  have "14 \<le> value_size (datatype_of v)" using value_size_cases [of "datatype_of v"] by auto
  then have n: "length ?b + 2 = value_size (datatype_of v)" using length_append_value [OF v] by simp
  show "crc_data_len (append_crc B ?b) = Some (length ?b + 2)" unfolding n append_crc_def
    using crc_data_len_value [OF f(2) t f(5)] by (cases v) (simp_all add: value_size_def)
  show "get_bytes 0 4 (append_crc B ?b) = HXB_HEADER" unfolding append_crc_def by (rule f(1))
  assume "length ?b + 2 = 141"
  then obtain s where "v = String s" unfolding n by (cases v) (simp_all add: value_size_def offset_simps)
  then show "0 \<in> set (get_bytes off_value 128 (append_crc B ?b))" unfolding append_crc_def f(6)
    using v append_string_terminated [of s] by simp
qed

lemma serialize_ok:
  fixes B :: "('p, 't) boost"
  assumes "constructible p"
  shows "datagram_ok B (serialize B p)"
proof (cases p)
  case (InfoPacket eid v flags)
  then show ?thesis using serialize_value [of HXB_PTYPE_INFO v B flags eid] assms by (simp add: serialize_def valued_datagram_def)
next
  case (WritePacket eid v flags)
  then show ?thesis using serialize_value [of HXB_PTYPE_WRITE v B flags eid] assms by (simp add: serialize_def valued_datagram_def)
next
  case (EndpointInfoPacket eid d s flags)
  let ?b = "valued_datagram HXB_PTYPE_EPINFO flags eid d (append_string s)"
  note f = valued_datagram_fields [where t = HXB_PTYPE_EPINFO and flags = flags and eid = eid and d = d and payload = "append_string s" and r = "append_u16 (hexabus_crc B ?b)"]
  have s: "length s \<le> max_length" using EndpointInfoPacket assms by simp
  have "datagram_ok B (append_crc B ?b)"
    by (rule append_crc_ok; unfold append_crc_def)
       (use crc_data_len_other [OF f(2)] f(1,6) s append_string_terminated [OF s] in \<open>simp_all add: offset_simps\<close>)
  then show ?thesis by (simp add: EndpointInfoPacket serialize_def valued_datagram_def)
next
  case (ErrorPacket code flags)
  have "datagram_ok B (append_crc B (append_header HXB_PTYPE_ERROR flags @ [code]))"
    by (rule append_crc_ok) (simp_all add: append_crc_def append_header_def HXB_HEADER_def crc_data_len_def get8_def get_bytes_def offset_simps)
  then show ?thesis by (simp add: ErrorPacket serialize_def)
next
  case (QueryPacket eid flags)
  have "datagram_ok B (append_crc B (append_eid_header HXB_PTYPE_QUERY eid flags))"
    by (rule append_crc_ok)
       (simp_all add: append_crc_def append_eid_header_def append_header_def HXB_HEADER_def crc_data_len_def get8_def get_bytes_def offset_simps)
  then show ?thesis by (simp add: QueryPacket serialize_def)
next
  case (EndpointQueryPacket eid flags)
  have "datagram_ok B (append_crc B (append_eid_header HXB_PTYPE_EPQUERY eid flags))"
    by (rule append_crc_ok)
       (simp_all add: append_crc_def append_eid_header_def append_header_def HXB_HEADER_def crc_data_len_def get8_def get_bytes_def offset_simps)
  then show ?thesis by (simp add: EndpointQueryPacket serialize_def)
qed


text \<open>The packets that come back as they were: no dates, no null characters in strings, whole seconds.\<close>

fun readable_value :: "('p, 't) boost \<Rightarrow> ('p, 't) host_value \<Rightarrow> bool" where
  "readable_value B (Datetime t) = False"
| "readable_value B (Duration t) = (duration_of_seconds B (of_int (total_seconds B t)) = t)"
| "readable_value B (String s) = (0 \<notin> set s)"
| "readable_value B v = True"

fun readable :: "('p, 't) boost \<Rightarrow> ('p, 't) host_packet \<Rightarrow> bool" where
  "readable B (EndpointInfoPacket eid d s flags) = (0 \<notin> set s)"
| "readable B (InfoPacket eid v flags) = readable_value B v"
| "readable B (WritePacket eid v flags) = readable_value B v"
| "readable B p = True"

lemma wire_value_written:
  assumes "constructible_value v" "readable_value B v"
  shows "wire_value B (datatype_of v) (valued_datagram t flags eid d (append_value B v) @ r) = v"
proof -
  have "get32 0 (append_u32 x @ r) = uip_htonl x" for x using get_append(3) [of "[]" x r] by simp
  then show ?thesis using assms
    by (cases v) (simp_all add: wire_value_def get_off_value valued_datagram_fields string_of_append_string)
qed

lemma serialize_valued:
  "serialize B (InfoPacket eid v flags) = append_crc B (valued_datagram HXB_PTYPE_INFO flags eid (dtype_code (datatype_of v)) (append_value B v))"
  "serialize B (WritePacket eid v flags) = append_crc B (valued_datagram HXB_PTYPE_WRITE flags eid (dtype_code (datatype_of v)) (append_value B v))"
  "serialize B (EndpointInfoPacket eid e s flags) = append_crc B (valued_datagram HXB_PTYPE_EPINFO flags eid e (append_string s))"
  by (simp_all add: serialize_def valued_datagram_def)

lemma wire_packet_written:
  assumes "constructible p" "readable B p"
  shows "wire_packet B (serialize B p) = p \<and> \<not> is_date (serialize B p)"
proof (cases p)
  case (InfoPacket eid v flags)
  then show ?thesis using assms wire_value_written [of v B]
    by (cases v) (simp_all add: serialize_valued append_crc_def wire_packet_def is_date_def valued_datagram_fields Let_def)
next
  case (WritePacket eid v flags)
  then show ?thesis using assms wire_value_written [of v B]
    by (cases v) (simp_all add: serialize_valued append_crc_def wire_packet_def is_date_def valued_datagram_fields Let_def)
next
  case (EndpointInfoPacket eid e s flags)
  then show ?thesis using assms
    by (simp add: serialize_valued append_crc_def wire_packet_def is_date_def is_valued_def valued_datagram_fields Let_def
        string_of_append_string)
qed (simp_all add: serialize_def append_crc_def wire_packet_def is_date_def is_valued_def append_eid_header_def append_header_def
    HXB_HEADER_def append_u32_def Let_def offset_simps get8_def get32_def)

section \<open>What the firmware makes of it\<close>

lemma get_prefix:
  "p < length xs \<Longrightarrow> get8 p (xs @ ys) = get8 p xs" "p + 1 < length xs \<Longrightarrow> get16 p (xs @ ys) = get16 p xs"
  "p + 3 < length xs \<Longrightarrow> get32 p (xs @ ys) = get32 p xs" "p + n \<le> length xs \<Longrightarrow> get_bytes p n (xs @ ys) = get_bytes p n xs"
  by (simp_all add: get8_def get16_def get32_def get_bytes_def nth_append)

lemma datagram_ok_length: "datagram_ok B pkt \<Longrightarrow> length pkt \<in> {9, 12, 14, 17, 21, 29, 78, 141}"
proof -
  assume "datagram_ok B pkt"
  then have "crc_data_len pkt = Some (length pkt)" by (simp add: datagram_ok_def)
  then show ?thesis by (cases rule: crc_data_len_dest) (use value_size_cases in \<open>auto simp: offset_simps\<close>)
qed

lemma crc_data_len_prefix:
  assumes "crc_data_len pkt = Some (length pkt)"
  shows "crc_data_len (pkt @ rest) = Some (length pkt)"
  using assms
proof (cases rule: crc_data_len_dest)
  case (valued t d)
  then have "11 < length pkt" using value_size_cases [of d] by auto
  then have "get8 off_type (pkt @ rest) = get8 off_type pkt" "get8 off_datatype (pkt @ rest) = get8 off_datatype pkt"
    by (simp_all add: get_prefix offset_simps)
  then show ?thesis using assms by (simp only: crc_data_len_def)
next
  case (other t)
  then have "get8 off_type (pkt @ rest) = ptype_code t"
    using ptype_of_Some [OF other(1)] by (subst get_prefix) (simp_all add: offset_simps)
  from crc_data_len_other [OF this other(2,3)] show ?thesis using other(4) by simp
qed

text \<open>The firmware reads a packet in a buffer that is longer than the datagram.\<close>

lemma datagram_checked:
  assumes "datagram_ok B pkt" "crc_documented B"
  shows "get_bytes off_magic 4 (pkt @ rest) = HXB_HEADER" and "check_crc (pkt @ rest) = HXB_ERR_SUCCESS"
proof -
  have len: "9 \<le> length pkt" using datagram_ok_length [OF assms(1)] by auto
  then show "get_bytes off_magic 4 (pkt @ rest) = HXB_HEADER"
    using assms(1) by (simp add: get_prefix datagram_ok_def offset_simps)
  have c: "crc_data_len (pkt @ rest) = Some (length pkt)" using assms(1) by (simp add: datagram_ok_def crc_data_len_prefix)
  have "get16 (length pkt - 2) (pkt @ rest) = get16 (length pkt - 2) pkt" using len by (simp add: get_prefix)
  then show "check_crc (pkt @ rest) = HXB_ERR_SUCCESS" unfolding check_crc_def c
    using assms len by (simp add: datagram_ok_def hexabus_crc_eq)
qed

text \<open>A value of the firmware that holds what a value of the host is.\<close>

fun carries :: "('p, 't) boost \<Rightarrow> ('p, 't) host_value \<Rightarrow> hxb_value \<Rightarrow> bool" where
  "carries B (Bool b) v = (v_bool v = (if b then HXB_TRUE else HXB_FALSE))"
| "carries B (Uint8 x) v = (v_u8 v = x)"
| "carries B (Uint32 x) v = (v_u32 v = x)"
| "carries B (Float x) v = (v_float v = x)"
| "carries B (Datetime t) v = (v_datetime v =
     \<lparr>hour = of_int (pt_hours B t), minute = of_int (pt_minutes B t), second = of_int (pt_seconds B t), day = of_int (pt_day B t),
      month = of_int (pt_month B t), year = of_int (pt_year B t), weekday = of_int (pt_day_of_week B t)\<rparr>)"
| "carries B (Duration t) v = (v_u32 v = of_int (total_seconds B t))"
| "carries B (String s) v = (vblob v = append_string s)"
| "carries B (Bytes16 bs) v = (vblob v = bs)"
| "carries B (Bytes65 bs) v = (vblob v = bs)"

lemma value_is_extracted:
  assumes "constructible_value hv" "wf_value w"
  shows "\<exists>v. extract_value (valued_datagram t flags eid (dtype_code (datatype_of hv)) (append_value B hv) @ r) w = (HXB_ERR_SUCCESS, v) \<and>
     vdatatype v = dtype_code (datatype_of hv) \<and> carries B hv v"
proof -
  have u: "get32 0 (append_u32 x @ r) = uip_htonl x" for x using get_append(3) [of "[]" x r] by simp
  have d: "get_datetime 0 (append_value B (Datetime t) @ r)\<lparr>year := uip_htons (year (get_datetime 0 (append_value B (Datetime t) @ r)))\<rparr> =
     \<lparr>hour = of_int (pt_hours B t), minute = of_int (pt_minutes B t), second = of_int (pt_seconds B t), day = of_int (pt_day B t),
      month = of_int (pt_month B t), year = of_int (pt_year B t), weekday = of_int (pt_day_of_week B t)\<rparr>" for t
    by (simp add: get_datetime_def get8_def get16_def append_u16_def Let_def eval_nat_numeral)
  have v_bool: "v_bool = v_u8" by (simp add: fun_eq_iff v_bool_def v_u8_def)
  show ?thesis using assms u d
    by (cases hv) (simp_all add: extract_value_def valued_datagram_fields get_off_value Let_def HXB_TRUE_def HXB_FALSE_def
        HXB_STRING_PACKET_BUFFER_LENGTH_def HXB_65BYTES_PACKET_BUFFER_LENGTH_def HXB_16BYTES_PACKET_BUFFER_LENGTH_def v_bool del: append_value.simps(5))
qed


section \<open>Where reading fails\<close>

lemma rbind_Inr: "rbind m f pkt off = Inr z \<longleftrightarrow> (\<exists>x off'. m pkt off = Inr (x, off') \<and> f x pkt off' = Inr z)"
  by (auto simp: rbind_def split: sum.splits)

lemma rbind_Inl: "rbind m f pkt off = Inl e \<longleftrightarrow> m pkt off = Inl e \<or> (\<exists>x off'. m pkt off = Inr (x, off') \<and> f x pkt off' = Inl e)"
  by (auto simp: rbind_def split: sum.splits)

text \<open>What Boost documents of its dates: the years from 1400 to 9999 exist.\<close>

definition years_documented :: "('p, 't) boost \<Rightarrow> bool" where
  "years_documented B = (\<forall>y m d h mi s. unat y < 1400 \<longrightarrow> make_ptime B y m d h mi s = None)"

lemma read_datetime_fails:
  assumes "years_documented B" "length pkt < 2 ^ 64" "off + 8 \<le> length pkt"
  shows "read_datetime B pkt off = Inl Out_of_range"
proof -
  have "unat (ucast (y :: u8) :: u16) < 1400" for y
  proof -
    have "unat (ucast y :: u16) = unat y" by (simp add: unsigned_ucast_eq take_bit_nat_eq_self less_le_trans [OF unsigned_less])
    moreover have "unat y < 2 ^ LENGTH(8)" by (rule unsigned_less)
    ultimately show ?thesis by simp
  qed
  then have "make_ptime B (ucast (y :: u8)) m d h mi s = None" for y m d h mi s
    using assms(1) by (simp add: years_documented_def)
  then show ?thesis using assms(2,3)
    by (simp add: read_datetime_def rbind_def read_ints_ok throw_def)
qed

lemma date_not_read:
  assumes "datagram_ok B pkt" "is_date pkt" "years_documented B"
  shows "deserialize B pkt = Inl Out_of_range"
proof -
  have len: "crc_data_len pkt = Some (length pkt)" and hdr: "get_bytes 0 4 pkt = HXB_HEADER"
    using assms(1) by (simp_all add: datagram_ok_def)
  from len have n: "length pkt = 21"
    by (cases rule: crc_data_len_dest) (use assms(2) in \<open>auto simp: is_date_def is_valued_def value_size_def offset_simps\<close>)
  then have l: "length pkt < 2 ^ 64" by simp
  note r = read_ints_ok [OF l] read_bytes_ok [OF l]
  have "read_header pkt 0 = Inr ((), 4)" "read_u8 pkt 4 = Inr (get8 off_type pkt, 5)" "read_u8 pkt 5 = Inr (get8 off_flags pkt, 6)"
    "read_u32 pkt 6 = Inr (uip_ntohl (get32 off_eid pkt), 10)" "read_u8 pkt 10 = Inr (get8 off_datatype pkt, 11)"
    using n r(3) [of 6] by (simp_all add: read_header_def rbind_def return_def hdr r offset_simps)
  then show ?thesis using assms(2) read_datetime_fails [OF assms(3) l, of 11] n
    by (auto simp: is_date_def is_valued_def deserialize_def read_packet_def read_body_def rbind_def read_value_def)
qed

text \<open>A reader stays in the datagram.\<close>

definition inside :: "'a reader \<Rightarrow> bool" where
  "inside m = (\<forall>pkt off. length pkt < 2 ^ 64 \<longrightarrow> off \<le> length pkt \<longrightarrow>
     (case m pkt off of Inl e \<Rightarrow> e \<noteq> Read_beyond | Inr (_, off) \<Rightarrow> off \<le> length pkt))"

named_theorems inside_intros \<open>readers that stay in the datagram\<close>

lemma insideD:
  assumes "inside m" "length pkt < 2 ^ 64" "off \<le> length pkt"
  shows "m pkt off \<noteq> Inl Read_beyond" "m pkt off = Inr (x, off') \<Longrightarrow> off' \<le> length pkt"
  using assms unfolding inside_def by (auto split: sum.splits)

lemma inside_rbind [inside_intros]: "inside m \<Longrightarrow> (\<And>x. inside (f x)) \<Longrightarrow> inside (rbind m f)"
  unfolding inside_def
proof (intro allI impI)
  fix pkt :: buf and off
  assume m: "\<forall>pkt off. length pkt < 2 ^ 64 \<longrightarrow> off \<le> length pkt \<longrightarrow>
      (case m pkt off of Inl e \<Rightarrow> e \<noteq> Read_beyond | Inr (_, off) \<Rightarrow> off \<le> length pkt)"
    and f: "\<And>x. \<forall>pkt off. length pkt < 2 ^ 64 \<longrightarrow> off \<le> length pkt \<longrightarrow>
      (case f x pkt off of Inl e \<Rightarrow> e \<noteq> Read_beyond | Inr (_, off) \<Rightarrow> off \<le> length pkt)"
    and l: "length pkt < 2 ^ 64" "off \<le> length pkt"
  show "case rbind m f pkt off of Inl e \<Rightarrow> e \<noteq> Read_beyond | Inr (_, off) \<Rightarrow> off \<le> length pkt"
  proof (cases "m pkt off")
    case (Inl e)
    then show ?thesis using m l by (fastforce simp: rbind_def)
  next
    case (Inr z)
    obtain x off' where z: "z = (x, off')" by fastforce
    have "off' \<le> length pkt" using m l Inr z by fastforce
    then show ?thesis using f l(1) by (simp add: rbind_def Inr z)
  qed
qed

lemma inside_return [inside_intros]: "inside (return x)" "e \<noteq> Read_beyond \<Longrightarrow> inside (throw e)"
  by (simp_all add: inside_def return_def throw_def)

lemma inside_read_bytes [inside_intros]: "n < 2 ^ 64 \<Longrightarrow> inside (read_bytes n)"
  unfolding inside_def
proof (intro allI impI)
  fix pkt :: buf and off
  assume n: "n < 2 ^ 64" and l: "length pkt < 2 ^ 64" "off \<le> length pkt"
  show "case read_bytes n pkt off of Inl e \<Rightarrow> e \<noteq> Read_beyond | Inr (_, off) \<Rightarrow> off \<le> length pkt"
  proof (cases "off + n \<le> length pkt")
    case True
    then show ?thesis using l by (simp add: read_bytes_ok)
  next
    case False
    have "(of_nat (length pkt) - of_nat off :: 64 word) = of_nat (length pkt - off)" using l by simp
    moreover have "unat (of_nat (length pkt - off) :: 64 word) = length pkt - off"
      using l by (simp add: unat_of_nat take_bit_nat_eq_self del: of_nat_diff)
    moreover have "unat (of_nat n :: 64 word) = n" using n by (simp add: unat_of_nat take_bit_nat_eq_self)
    ultimately have "(of_nat (length pkt) - of_nat off :: 64 word) < of_nat n"
      using False l(2) by (simp only: word_less_nat_alt)
    then show ?thesis by (simp add: read_bytes_def rbind_def check_length_def)
  qed
qed

lemma inside_if [inside_intros]: "inside m \<Longrightarrow> inside n \<Longrightarrow> inside (if b then m else n)"
  by simp

lemma inside_reads [inside_intros]: "inside read_header" "inside read_u8" "inside read_u16" "inside read_u32"
  by (simp_all add: read_header_def read_u8_def read_u16_def read_u32_def inside_intros)

lemma inside_check [inside_intros]: "inside (check B p)"
proof -
  have "inside (rbind read_u16 (\<lambda>c. if P c then throw (BadPacket ''Bad checksum'') else return p))" for P
    by (intro inside_intros) (simp add: inside_intros)
  then show ?thesis by (simp add: inside_def check_def)
qed

lemma inside_check_info [inside_intros]: "inside (check_info B info eid v flags)"
  by (simp add: check_info_def inside_intros)

lemma inside_option: "(\<And>x. inside (f x)) \<Longrightarrow> inside m \<Longrightarrow> inside (case q of None \<Rightarrow> m | Some x \<Rightarrow> f x)"
  by (cases q) simp_all

lemma inside_read_datetime [inside_intros]: "inside (read_datetime B)"
  unfolding read_datetime_def by (intro inside_intros inside_option; simp add: inside_intros)

lemma inside_read_value [inside_intros]: "d \<noteq> HXB_DTYPE_128STRING \<Longrightarrow> inside (read_value B d)"
  by (cases d) (simp_all add: read_value_def inside_intros)

text \<open>The two types of packets with a string in them.\<close>

definition asks_for_string :: "buf \<Rightarrow> bool" where
  "asks_for_string pkt = (ptype_of (get8 off_type pkt) = Some HXB_PTYPE_EPINFO \<or>
     is_valued pkt \<and> dtype_of (get8 off_datatype pkt) = Some HXB_DTYPE_128STRING)"


lemma read_bytes_value: "read_bytes n pkt off = Inr (bs, off') \<Longrightarrow> bs = get_bytes off n pkt \<and> off' = off + n \<and> off + n \<le> length pkt"
  by (auto simp: read_bytes_def rbind_Inr memory_def check_length_def split: if_splits)

lemma read_int_value:
  "read_u8 pkt off = Inr (x, off') \<Longrightarrow> x = get8 off pkt \<and> off' = off + 1"
  "read_u32 pkt off = Inr (y, off') \<Longrightarrow> off' = off + 4"
  by (auto simp: read_u8_def read_u32_def rbind_Inr return_def get_of_get_bytes simp del: One_nat_def dest!: read_bytes_value)

lemma read_header_value: "read_header pkt off = Inr (x, off') \<Longrightarrow> off' = off + 4"
  by (auto simp: read_header_def rbind_Inr return_def throw_def dest!: read_bytes_value split: if_splits)

lemma reads_inside:
  assumes l: "length pkt < 2 ^ 64" and no: "\<not> asks_for_string pkt"
  shows "deserialize B pkt \<noteq> Inl Read_beyond"
proof
  assume "deserialize B pkt = Inl Read_beyond"
  then have "read_packet B pkt 0 = Inl Read_beyond" by (auto simp: deserialize_def split: sum.splits)
  then obtain x off' where h: "read_header pkt 0 = Inr (x, off')"
      "rbind read_u8 (\<lambda>ty. rbind read_u8 (\<lambda>flags. read_body B ty flags)) pkt off' = Inl Read_beyond"
    using insideD(1) [OF inside_reads(1) l] unfolding read_packet_def rbind_Inl [where m = read_header] by auto
  have l4: "4 \<le> length pkt" and off': "off' = 4"
    using insideD(2) [OF inside_reads(1) l _ h(1)] read_header_value [OF h(1)] by simp_all
  obtain ty off2 where ty: "read_u8 pkt 4 = Inr (ty, off2)" "rbind read_u8 (read_body B ty) pkt off2 = Inl Read_beyond"
    using insideD(1) [OF inside_reads(2) l l4] h(2) unfolding off' rbind_Inl [where f = "\<lambda>ty. rbind read_u8 (read_body B ty)"] by auto
  have l5: "5 \<le> length pkt" and off2: "off2 = 5" "ty = get8 off_type pkt"
    using insideD(2) [OF inside_reads(2) l l4 ty(1)] read_int_value(1) [OF ty(1)] by (simp_all add: off_type_def)
  obtain flags off3 where fl: "read_u8 pkt 5 = Inr (flags, off3)" "read_body B ty flags pkt off3 = Inl Read_beyond"
    using insideD(1) [OF inside_reads(2) l l5] ty(2) unfolding off2 rbind_Inl by auto
  have l6: "6 \<le> length pkt" and off3: "off3 = 6"
    using insideD(2) [OF inside_reads(2) l l5 fl(1)] read_int_value(1) [OF fl(1)] by simp_all
  have body: "read_body B (get8 off_type pkt) flags pkt 6 = Inl Read_beyond" using fl(2) by (simp add: off2 off3)
  have some: "read_u8 pkt 10 = Inr (d, off') \<Longrightarrow> d = get8 off_datatype pkt" for d off'
    using read_int_value(1) [of pkt 10] by (simp add: off_datatype_def)
  show False
  proof (cases "is_valued pkt")
    case True
    then obtain t where t: "ptype_of (get8 off_type pkt) = Some t" "t = HXB_PTYPE_INFO \<or> t = HXB_PTYPE_WRITE"
      by (auto simp: is_valued_def)
    define k2 where "k2 eid d = (case dtype_of d of None \<Rightarrow> throw (BadPacket ''Invalid datatype'')
            | Some d \<Rightarrow> rbind (read_value B d) (\<lambda>v. check_info B (t = HXB_PTYPE_INFO) eid v flags))" for eid d
    define k where "k eid = rbind read_u8 (k2 eid)" for eid
    have "read_body B (get8 off_type pkt) flags = rbind read_u32 k"
      using t by (auto simp: read_body_def k_def [abs_def] k2_def [abs_def])
    with body have b: "rbind read_u32 k pkt 6 = Inl Read_beyond" by simp
    then obtain eid o1 where o1: "read_u32 pkt 6 = Inr (eid, o1)" "k eid pkt o1 = Inl Read_beyond"
      using insideD(1) [OF inside_reads(4) l l6] unfolding rbind_Inl by blast
    have l10: "10 \<le> length pkt" and e: "o1 = 10"
      using insideD(2) [OF inside_reads(4) l l6 o1(1)] read_int_value(2) [OF o1(1)] by simp_all
    obtain d o2 where o2: "read_u8 pkt 10 = Inr (d, o2)" "k2 eid d pkt o2 = Inl Read_beyond"
      using insideD(1) [OF inside_reads(2) l l10] o1(2) unfolding k_def e rbind_Inl by blast
    have "o2 \<le> length pkt" using insideD(2) [OF inside_reads(2) l l10 o2(1)] .
    moreover have "k2 eid (get8 off_datatype pkt) pkt o2 = Inl Read_beyond" using o2(2) some [OF o2(1)] by simp
    moreover have "inside (k2 eid (get8 off_datatype pkt))" unfolding k2_def
      using no True by (auto simp: asks_for_string_def intro!: inside_intros split: option.split)
    ultimately show False using insideD(1) [OF _ l] by blast
  next
    case False
    then have "inside (read_body B (get8 off_type pkt) flags)"
      using no by (auto simp: read_body_def asks_for_string_def is_valued_def intro!: inside_intros
          split: option.split hxb_packet_type.split)
    with body show False using insideD(1) [OF _ l l6] by blast
  qed
qed


lemma short_string_read_beyond:
  assumes "asks_for_string pkt" "get_bytes 0 4 pkt = HXB_HEADER" "length pkt = 138" "0 \<in> set (drop 11 pkt)"
  shows "deserialize B pkt = Inl Read_beyond"
proof -
  have l: "length pkt < 2 ^ 64" using assms(3) by simp
  note r = read_ints_ok [OF l] read_bytes_ok [OF l]
  have head: "read_header pkt 0 = Inr ((), 4)" "read_u8 pkt 4 = Inr (get8 off_type pkt, 5)" "read_u8 pkt 5 = Inr (get8 off_flags pkt, 6)"
    "read_u32 pkt 6 = Inr (uip_ntohl (get32 off_eid pkt), 10)" "read_u8 pkt 10 = Inr (get8 off_datatype pkt, 11)"
    using assms(3) r(3) [of 6] by (simp_all add: read_header_def rbind_def return_def assms(2) r offset_simps)
  have s: "read_string pkt 11 = Inr (string_of (drop 11 pkt), 139)"
    using assms(3,4) by (simp add: read_string_def rbind_def check_length_ok [OF l] c_string_def max_length_def string_of_def)
  have "length (string_of (drop 11 pkt)) \<le> max_length" using string_of_short [OF assms(4)] assms(3) by (simp add: max_length_def)
  moreover have "check B p pkt 139 = Inl Read_beyond" for p using assms(3) by (simp add: check_def)
  ultimately show ?thesis using assms(1) head s
    by (auto simp: asks_for_string_def is_valued_def deserialize_def read_packet_def read_body_def rbind_def read_value_def
        return_def check_info_def)
qed

section \<open>Properties\<close>

text \<open>C3: What the host library writes it reads back: every packet that can be constructed -- any type, flags, endpoint
  and value, dates, strings with null characters and fractions of seconds excepted -- is the result of deserializing
  its serialization, whatever function the checksum is.\<close>

theorem host_packets_round_trip:
  assumes "constructible p" "readable B p"
  shows "deserialize B (serialize B p) = Inr p"
  using datagram_read [OF serialize_ok [OF assms(1)]] wire_packet_written [OF assms] by simp

definition example_boost :: "(nat, u32) boost" where
  "example_boost = \<lparr>crc_optimal = crc_model, make_ptime = (\<lambda>y m d h mi s. if unat y < 1400 then None else Some (unat y)),
     pt_hours = (\<lambda>_. 0), pt_minutes = (\<lambda>_. 0), pt_seconds = (\<lambda>_. 0), pt_day = (\<lambda>_. 1), pt_month = (\<lambda>_. 1), pt_year = int,
     pt_day_of_week = (\<lambda>_. 0), duration_of_seconds = (\<lambda>n. n), total_seconds = uint\<rparr>"

lemma example_boost_documented: "crc_documented example_boost" "years_documented example_boost"
  by (simp_all add: crc_documented_def years_documented_def example_boost_def)

theorem host_packets_round_trip_witness:
  "deserialize example_boost (serialize example_boost (WritePacket 23 (String [72, 101, 120]) 0)) = Inr (WritePacket 23 (String [72, 101, 120]) 0)"
  by (rule host_packets_round_trip) (simp_all add: max_length_def)

text \<open>C4: A valid INFO or WRITE packet with a date, whatever date, can not be received: the year is read from one byte,
  which is before any year that Boost's dates have. The exception is none of the library's, so the completion handler
  of the socket does not catch it.\<close>

theorem dates_escape_the_receiver:
  assumes "datagram_ok B pkt" "is_date pkt" "years_documented B"
  shows "packet_received_handler B None (length pkt) (pkt @ rest) = (Propagated Out_of_range, True)"
  using date_not_read [OF assms] by (simp add: packet_received_handler_def)

theorem dates_escape_the_receiver_witness:
  "packet_received_handler example_boost None 21 (serialize example_boost (InfoPacket 1 (Datetime 2014) 0) @ []) = (Propagated Out_of_range, True)"
proof -
  let ?pkt = "serialize example_boost (InfoPacket 1 (Datetime (2014 :: nat)) 0)"
  have "datagram_ok example_boost ?pkt" by (rule serialize_ok) simp
  moreover have "is_date ?pkt"
    by (simp add: serialize_valued append_crc_def is_date_def is_valued_def valued_datagram_fields)
  moreover have "length ?pkt = 21" by (simp add: serialize_valued append_crc_def)
  ultimately show ?thesis using dates_escape_the_receiver [of example_boost ?pkt "[]"] example_boost_documented(2) by simp
qed

text \<open>C5: Reading stays inside the datagram, however short or malformed it is, for every packet that has no string. A
  string packet whose field is one byte short passes the length check, and the checksum is then read from behind the
  end of the datagram.\<close>

theorem only_strings_read_beyond:
  assumes "length pkt < 2 ^ 64"
  shows "(\<not> asks_for_string pkt \<longrightarrow> deserialize B pkt \<noteq> Inl Read_beyond) \<and>
    (asks_for_string pkt \<and> get_bytes 0 4 pkt = HXB_HEADER \<and> length pkt = 138 \<and> 0 \<in> set (drop 11 pkt) \<longrightarrow>
       deserialize B pkt = Inl Read_beyond)"
  using reads_inside [OF assms] short_string_read_beyond by blast

theorem only_strings_read_beyond_witness:
  "deserialize example_boost (valued_datagram HXB_PTYPE_INFO 0 1 6 (replicate 127 0)) = Inl Read_beyond"
proof -
  note f = valued_datagram_fields [where r = "[]", unfolded append_Nil2]
  have "asks_for_string (valued_datagram HXB_PTYPE_INFO 0 1 6 (replicate 127 0))"
    by (simp add: asks_for_string_def is_valued_def f)
  moreover have "drop 11 (valued_datagram HXB_PTYPE_INFO 0 1 6 (replicate 127 0)) = replicate 127 0"
    by (simp add: valued_datagram_def append_value_header_def append_eid_header_def append_header_def)
  ultimately show ?thesis
    using only_strings_read_beyond [of "valued_datagram HXB_PTYPE_INFO 0 1 6 (replicate 127 0)" example_boost] by (simp add: f)
qed

end
