(* ===== verification/Host_Link.thy ===== *)
theory Host_Link
  imports Udp_Handler Host_Packet
begin

text \<open>
  The host library and the device at the two ends of the wire: a packet that the library serializes is
  delivered to the UDP handler, and what the device sends is deserialized by the library. The value that
  the firmware holds and the value of the host are compared by \<open>host_of\<close> and \<open>carries\<close>.
\<close>

section \<open>From the device to the host\<close>

text \<open>The value of the host that a value of the firmware becomes; dates do not become one.\<close>

definition host_of :: "('p, 't) boost \<Rightarrow> hxb_datatype \<Rightarrow> hxb_value \<Rightarrow> ('p, 't) host_value" where
  "host_of B d v =
     (case d of
        HXB_DTYPE_BOOL \<Rightarrow> Bool (v_bool v \<noteq> HXB_FALSE)
      | HXB_DTYPE_UINT32 \<Rightarrow> Uint32 (v_u32 v)
      | HXB_DTYPE_FLOAT \<Rightarrow> Float (v_float v)
      | HXB_DTYPE_TIMESTAMP \<Rightarrow> Duration (duration_of_seconds B (v_u32 v))
      | HXB_DTYPE_128STRING \<Rightarrow> String (string_of (take 128 (vblob v)))
      | HXB_DTYPE_16BYTES \<Rightarrow> Bytes16 (take 16 (vblob v))
      | HXB_DTYPE_65BYTES \<Rightarrow> Bytes65 (take 65 (vblob v))
      | _ \<Rightarrow> Uint8 (v_u8 v))"

lemma host_of_extracted:
  assumes "extract_value b w = (HXB_ERR_SUCCESS, v)" "wf_value w" "dtype_of (get8 off_datatype b) = Some d" "d \<noteq> HXB_DTYPE_DATETIME"
  shows "host_of B d v = wire_value B d b"
  using assms
  by (cases d) (auto simp: extract_value_def Let_def host_of_def wire_value_def v_bool_def v_u8_def [symmetric] HXB_FALSE_def get_bytes_def
      HXB_STRING_PACKET_BUFFER_LENGTH_def HXB_65BYTES_PACKET_BUFFER_LENGTH_def HXB_16BYTES_PACKET_BUFFER_LENGTH_def)

lemma host_of_same:
  "same_value d v (sent_part d w) \<Longrightarrow> d \<noteq> HXB_DTYPE_DATETIME \<Longrightarrow> d \<noteq> HXB_DTYPE_UNDEFINED \<Longrightarrow> host_of B d v = host_of B d w"
  by (cases d) (auto simp: same_value_def host_of_def sent_part_def v_bool_def v_u8_def v_u32_def v_float_def blob_size_def offset_simps)

text \<open>Fields of a packet and of the datagram cut from the buffer.\<close>

lemma get_take:
  "p < n \<Longrightarrow> get8 p (take n b) = get8 p b" "p + 1 < n \<Longrightarrow> get16 p (take n b) = get16 p b"
  "p + 3 < n \<Longrightarrow> get32 p (take n b) = get32 p b" "p + k \<le> n \<Longrightarrow> get_bytes p k (take n b) = get_bytes p k b"
  by (simp_all add: get8_def get16_def get32_def get_bytes_def drop_take min_def)

lemma crc_data_len_take:
  assumes "crc_data_len b = Some n"
  shows "crc_data_len (take n b) = Some n"
  using assms
proof (cases rule: crc_data_len_dest)
  case (valued t d)
  then have "11 < n" using value_size_cases [of d] by auto
  then have "get8 off_type (take n b) = get8 off_type b" "get8 off_datatype (take n b) = get8 off_datatype b"
    by (simp_all add: get_take offset_simps)
  then show ?thesis using assms by (simp only: crc_data_len_def)
next
  case (other t)
  then have "get8 off_type (take n b) = ptype_code t" using ptype_of_Some [OF other(1)] by (simp add: get_take offset_simps)
  from crc_data_len_other [OF this other(2,3)] show ?thesis using other(4) by simp
qed

lemma crc_data_len_bound: "crc_data_len b = Some n \<Longrightarrow> 9 \<le> n \<and> n \<le> 141"
  by (erule crc_data_len_dest) (use value_size_cases in \<open>fastforce simp: offset_simps\<close>)+

text \<open>Every datagram of the device is one that the library can read, as far as its strings are terminated.\<close>

definition terminated :: "buf \<Rightarrow> bool" where
  "terminated pkt = (is_string pkt \<longrightarrow> 0 \<in> set (get_bytes off_value 128 pkt))"

lemma device_datagram_ok:
  assumes "well_formed_datagram dg" "crc_documented B" "terminated (dg_data dg)"
  shows "datagram_ok B (dg_data dg)" and "get8 off_flags (dg_data dg) = 0"
proof -
  define n where "n = length (dg_data dg)"
  obtain b where b: "wf_packet b" "get_bytes off_magic 4 b = HXB_HEADER" "get8 off_flags b = 0" "dg_data dg = take n b"
      "crc_data_len b = Some n" "check_crc b = HXB_ERR_SUCCESS"
    using assms(1) unfolding well_formed_datagram_def n_def by blast
  have n: "9 \<le> n" "n \<le> 141" using crc_data_len_bound [OF b(5)] by simp_all
  show "get8 off_flags (dg_data dg) = 0" using n b(3) by (simp add: b(4) get_take offset_simps)
  have "uip_ntohs (get16 (n - 2) b) = crc16_data (take (n - 2) b) 0"
    using b(6) by (simp add: check_crc_def b(5) split: if_splits)
  then have "hexabus_crc B (take (n - 2) (take n b)) = uip_ntohs (get16 (n - 2) (take n b))"
    using n by (simp add: hexabus_crc_eq [OF assms(2)] get_take min_def)
  then have crc: "hexabus_crc B (take (n - 2) (dg_data dg)) = uip_ntohs (get16 (n - 2) (dg_data dg))" by (simp only: b(4))
  have "get_bytes 0 4 (take n b) = HXB_HEADER" using b(2) n by (simp add: get_take offset_simps)
  then have hdr: "get_bytes 0 4 (dg_data dg) = HXB_HEADER" by (simp only: b(4))
  have "crc_data_len (dg_data dg) = Some n" using crc_data_len_take [OF b(5)] by (simp only: b(4))
  with crc hdr show "datagram_ok B (dg_data dg)"
    using assms(3) unfolding datagram_ok_def terminated_def n_def by blast
qed

lemma answer_decoded:
  assumes "answers_query dg eid d v" "d \<noteq> HXB_DTYPE_UNDEFINED" "d \<noteq> HXB_DTYPE_128STRING" "d \<noteq> HXB_DTYPE_DATETIME"
    and "vdatatype v = dtype_code d" "well_formed_datagram dg" "crc_documented B"
  shows "deserialize B (dg_data dg) = Inr (InfoPacket eid (host_of B d v) 0)"
proof -
  obtain b w where b: "wf_packet b" "dg_data dg = take (value_size d) b" "get8 off_type b = ptype_code HXB_PTYPE_INFO"
      "uip_ntohl (get32 off_eid b) = eid" "extract_value b fresh_value = (HXB_ERR_SUCCESS, w)" "same_value d w (sent_part d v)"
    using assms(1) by (auto simp: answers_query_def)
  let ?n = "value_size d"
  have n: "14 \<le> ?n" using value_size_cases [OF assms(2)] by auto
  have "vdatatype w = get8 off_datatype b"
    using b(5) by (auto simp: extract_value_def Let_def split: option.splits if_splits)
  then have dt: "get8 off_datatype b = dtype_code d"
    using b(6) assms(5) by (simp add: same_value_def sent_part_def)
  have "dtype_of (get8 off_datatype b) = Some d" by (simp add: dt)
  from host_of_extracted [OF b(5) wf_fresh this assms(4), of B]
  have hv: "wire_value B d b = host_of B d v" by (simp only: host_of_same [OF b(6) assms(4,2)])
  have wv: "wire_value B d (take ?n b) = wire_value B d b"
    using assms(2,3,4) by (cases d) (simp_all add: wire_value_def value_size_def get_take offset_simps)
  have "length (dg_data dg) = ?n" using b(1,2) value_size_cases [OF assms(2)] by (auto simp: wf_packet_def offset_simps min_def)
  then have "terminated (dg_data dg)" using assms(2,3) by (cases d) (simp_all add: terminated_def is_string_def value_size_def offset_simps)
  note ok = device_datagram_ok [OF assms(6,7) this]
  have f: "get8 off_type (take ?n b) = ptype_code HXB_PTYPE_INFO" "get32 off_eid (take ?n b) = get32 off_eid b"
    "get8 off_datatype (take ?n b) = dtype_code d"
    using n by (simp_all only: b(3) [symmetric] dt [symmetric]) (simp_all add: get_take offset_simps)
  have "\<not> is_date (dg_data dg)" using assms(4) by (simp add: is_date_def b(2) f)
  from datagram_read [OF ok(1) this] have "deserialize B (dg_data dg) = Inr (wire_packet B (dg_data dg))" .
  also have "wire_packet B (dg_data dg) = InfoPacket eid (host_of B d v) 0"
    using b(4) ok(2) wv hv by (simp add: wire_packet_def b(2) f)
  finally show ?thesis .
qed

lemma error_decoded:
  assumes "well_formed_datagram dg" "crc_documented B" "get8 off_type (dg_data dg) = ptype_code HXB_PTYPE_ERROR"
  shows "deserialize B (dg_data dg) = Inr (ErrorPacket (get8 off_error_code (dg_data dg)) 0)"
proof -
  obtain b where b: "dg_data dg = take (length (dg_data dg)) b" "crc_data_len b = Some (length (dg_data dg))"
    using assms(1) unfolding well_formed_datagram_def by blast
  then have "crc_data_len (dg_data dg) = Some (length (dg_data dg))" using crc_data_len_take by metis
  then have "length (dg_data dg) = 9" using crc_data_len_other [OF assms(3)] by (simp add: offset_simps)
  then have t: "terminated (dg_data dg)" by (simp add: terminated_def is_string_def offset_simps)
  have "\<not> is_date (dg_data dg)" by (simp add: is_date_def is_valued_def assms(3))
  from datagram_read [OF device_datagram_ok(1) [OF assms(1,2) t] this] device_datagram_ok(2) [OF assms(1,2) t]
  show ?thesis using assms(3) by (simp add: wire_packet_def)
qed

section \<open>From the host to the device\<close>

lemma serialized_length: "constructible p \<Longrightarrow> length (serialize B p) \<le> 141"
  using datagram_ok_length [OF serialize_ok [of p B]] by auto

text \<open>The firmware's buffer begins with the datagram.\<close>

lemma packet_of_payload:
  assumes "in_payload dg = serialize B p" "constructible p"
  obtains rest where "packet_of dg = serialize B p @ rest"
  using serialized_length [OF assms(2), of B] assms(1)
  by (auto simp: packet_of_def offset_simps)

lemma query_received:
  assumes "in_payload dg = serialize B (QueryPacket eid flags)" "crc_documented B"
  shows "get_bytes off_magic 4 (packet_of dg) = HXB_HEADER" "check_crc (packet_of dg) = HXB_ERR_SUCCESS"
    "get8 off_type (packet_of dg) = ptype_code HXB_PTYPE_QUERY" "uip_ntohl (get32 off_eid (packet_of dg)) = eid"
proof -
  obtain rest where p: "packet_of dg = serialize B (QueryPacket eid flags) @ rest" by (rule packet_of_payload [OF assms(1)]) simp
  have "datagram_ok B (serialize B (QueryPacket eid flags))" by (rule serialize_ok) simp
  from datagram_checked [OF this assms(2), of rest]
  show "get_bytes off_magic 4 (packet_of dg) = HXB_HEADER" "check_crc (packet_of dg) = HXB_ERR_SUCCESS" by (simp_all add: p)
  show "get8 off_type (packet_of dg) = ptype_code HXB_PTYPE_QUERY" "uip_ntohl (get32 off_eid (packet_of dg)) = eid"
    by (simp_all add: p serialize_def append_crc_def append_eid_header_def append_header_def HXB_HEADER_def append_u32_def Let_def
        offset_simps get8_def get32_def)
qed

lemma write_type:
  assumes "in_payload dg = serialize B (WritePacket eid hv flags)" "constructible_value hv"
  shows "get8 off_type (packet_of dg) = ptype_code HXB_PTYPE_WRITE"
proof -
  obtain rest where "packet_of dg = serialize B (WritePacket eid hv flags) @ rest"
    by (rule packet_of_payload [OF assms(1)]) (simp add: assms(2))
  then show ?thesis by (simp add: serialize_valued append_crc_def valued_datagram_fields)
qed

lemma write_received:
  assumes "in_payload dg = serialize B (WritePacket eid hv flags)" "constructible_value hv" "crc_documented B" "length (stack_bytes s) = 141"
  shows "\<exists>v. vdatatype v = dtype_code (datatype_of hv) \<and> carries B hv v \<and>
    receive_datagram dg s =
      (let (err, t) = fw_write broadcast_value eid
         \<lparr>env_src_ip = in_src dg, env_src_port = uip_ntohs (in_srcport dg), env_eid = eid, env_value = v\<rparr> s
       in reply_error dg err t)"
proof -
  let ?v = "valued_datagram HXB_PTYPE_WRITE flags eid (dtype_code (datatype_of hv)) (append_value B hv)"
  obtain rest where pkt: "packet_of dg = serialize B (WritePacket eid hv flags) @ rest"
    by (rule packet_of_payload [OF assms(1)]) (simp add: assms(2))
  then have p: "packet_of dg = ?v @ append_u16 (hexabus_crc B ?v) @ rest"
    by (simp add: serialize_valued append_crc_def)
  have "datagram_ok B (serialize B (WritePacket eid hv flags))" by (rule serialize_ok) (simp add: assms(2))
  from datagram_checked [OF this assms(3), of rest] pkt
  have c: "get_bytes off_magic 4 (packet_of dg) = HXB_HEADER" "check_crc (packet_of dg) = HXB_ERR_SUCCESS" by simp_all
  have f: "get8 off_type (packet_of dg) = ptype_code HXB_PTYPE_WRITE" "uip_ntohl (get32 off_eid (packet_of dg)) = eid"
    unfolding p by (rule valued_datagram_fields)+
  have "wf_value (local_value s)" using assms(4) by (simp add: wf_value_def local_value_def)
  from value_is_extracted [OF assms(2) this] obtain v where
    "extract_value (packet_of dg) (local_value s) = (HXB_ERR_SUCCESS, v)" "vdatatype v = dtype_code (datatype_of hv)" "carries B hv v"
    unfolding p by blast
  then show ?thesis using c f
    by (intro exI [of _ v]) (simp add: receive_datagram_def handle_packet_def handle_write_def received_env_def)
qed


text \<open>The error with which a write is refused before the endpoint's function is called.\<close>

definition refusal :: "('r, 'w) chain \<Rightarrow> u32 \<Rightarrow> u8 \<Rightarrow> hxb_error_code option" where
  "refusal ch eid d =
     (if eid mod 32 = 0 then Some HXB_ERR_WRITEREADONLY
      else case find_descriptor ch eid of
             None \<Rightarrow> Some HXB_ERR_UNKNOWNEID
           | Some ep \<Rightarrow> (if ep_write ep = None then Some HXB_ERR_WRITEREADONLY
                         else if ep_datatype ep \<noteq> d then Some HXB_ERR_DATATYPE else None))"

lemma endpoint_write_refused:
  "refusal ch eid (vdatatype (env_value env)) = Some e \<Longrightarrow> endpoint_write call ch eid env s = (e, s)"
  by (auto simp: refusal_def endpoint_write_def split: if_splits option.splits)

lemma endpoint_write_accepted:
  "refusal ch eid (vdatatype (env_value env)) = None \<Longrightarrow>
   \<exists>ep w. find_descriptor ch eid = Some ep \<and> ep_write ep = Some w \<and> endpoint_write call ch eid env s = call w env s"
  by (auto simp: refusal_def endpoint_write_def split: if_splits option.splits)

lemma error_reply:
  assumes "udpconn s" "in_srcport dg \<noteq> 0" "get8 off_type (packet_of dg) \<noteq> ptype_code HXB_PTYPE_INFO"
    and "err \<noteq> HXB_ERR_SUCCESS" "\<not> err_internal err" "crc_documented B"
  shows "\<exists>a. reply_error dg err s = s\<lparr>sent := sent s @ [a]\<rparr> \<and> dg_to a = in_src dg \<and> dg_port a = uip_ntohs (in_srcport dg) \<and>
    deserialize B (dg_data a) = Inr (ErrorPacket (err_code err) 0)"
proof -
  have p: "uip_ntohs (in_srcport dg) \<noteq> 0" using assms(2) by (metis uip_htons_involution uip_htons_0)
  have r: "reply_error dg err s = udp_handler_send_error (Some (in_src dg)) (uip_ntohs (in_srcport dg)) err s"
    using assms(3-5) by (simp add: reply_error_def)
  show ?thesis unfolding r using error_answer [OF assms(1) p, of "in_src dg" err] error_decoded [OF _ assms(6)] by metis
qed

section \<open>Properties\<close>

text \<open>C1: A query that the host library sends to a device is answered exactly once, to the host, and the library decodes
  the answer: to an INFO packet with the queried endpoint and the value that the endpoint's read function returned, or to
  an error packet with the error of the read. Only internal errors are not answered.\<close>

theorem host_query_answered:
  assumes "crc_documented B" "in_payload dg = serialize B (QueryPacket eid flags)"
    and "udpconn s" "wf_packet (stack_bytes s)" "in_srcport dg \<noteq> 0"
    and "fw_read eid (linked_value (stack_bytes s) s) s = (err, v, t)"
    and "err = HXB_ERR_SUCCESS \<Longrightarrow> vdatatype v = dtype_code d \<and>
      d \<notin> {HXB_DTYPE_UNDEFINED, HXB_DTYPE_128STRING, HXB_DTYPE_DATETIME}"
  shows "\<exists>a. sent (receive_datagram dg s) = sent s @ (if err_internal err then [] else [a]) \<and>
    dg_to a = in_src dg \<and> dg_port a = uip_ntohs (in_srcport dg) \<and>
    deserialize B (dg_data a) =
      Inr (if err = HXB_ERR_SUCCESS then InfoPacket eid (host_of B d v) 0 else ErrorPacket (err_code err) 0)"
proof -
  note q = query_received [OF assms(2,1)]
  have "err = HXB_ERR_SUCCESS \<Longrightarrow> vdatatype v = dtype_code d \<and> d \<noteq> HXB_DTYPE_UNDEFINED \<and> d \<noteq> HXB_DTYPE_128STRING"
    using assms(7) by simp
  from query_answered [OF assms(3-5) q(1-3) q(4) [symmetric] assms(6) this] obtain a where
    a: "sent (receive_datagram dg s) = sent s @ (if err_internal err then [] else [a])" "dg_to a = in_src dg"
      "dg_port a = uip_ntohs (in_srcport dg)" "well_formed_datagram a"
    and r: "if err = HXB_ERR_SUCCESS then answers_query a eid d v
       else get8 off_type (dg_data a) = ptype_code HXB_PTYPE_ERROR \<and> get8 off_error_code (dg_data a) = err_code err" by blast
  have "deserialize B (dg_data a) =
      Inr (if err = HXB_ERR_SUCCESS then InfoPacket eid (host_of B d v) 0 else ErrorPacket (err_code err) 0)"
    using r assms(7) answer_decoded [OF _ _ _ _ _ a(4) assms(1)] error_decoded [OF a(4) assms(1)] by auto
  with a show ?thesis by blast
qed

definition from_host :: "buf \<Rightarrow> in_datagram" where
  "from_host payload = \<lparr>in_src = ip6_localhost, in_srcport = 0x3412, in_dst = HXB_GROUP, in_payload = payload,
     in_stale = replicate sizeof_packet_any 0\<rparr>"

theorem host_query_answered_witness:
  "\<exists>a. sent (receive_datagram (from_host (serialize example_boost (QueryPacket EP_POWER_SWITCH 0)))
         (fresh_shs\<lparr>chain := [endpoint_relay], udpconn := True\<rparr>)) = sent fresh_shs @ [a] \<and>
     deserialize example_boost (dg_data a) = Inr (InfoPacket EP_POWER_SWITCH (Bool True) 0)"
proof -
  let ?s = "fresh_shs\<lparr>chain := [endpoint_relay], udpconn := True\<rparr>"
  let ?v = "set_u8 1 ((linked_value (replicate 141 0) fresh_shs)\<lparr>vdatatype := dtype_code HXB_DTYPE_BOOL\<rparr>)"
  have s: "udpconn ?s" "wf_packet (stack_bytes ?s)" by (simp_all add: fresh_shs_simps wf_packet_def offset_simps)
  have lv: "linked_value b ?s = linked_value b fresh_shs" for b by (simp add: linked_value_def)
  have "fw_read EP_POWER_SWITCH (linked_value (stack_bytes ?s) ?s) ?s = (HXB_ERR_SUCCESS, ?v, ?s)"
    unfolding lv by (simp add: fw_read_def endpoint_read_def find_descriptor_def endpoint_relay_def EP_POWER_SWITCH_def run_read_def
        read_relay_def relay_get_state_def fresh_shs_simps HXB_TRUE_def)
  from host_query_answered [OF example_boost_documented(1) _ s _ this, of "from_host (serialize example_boost (QueryPacket EP_POWER_SWITCH 0))" 0 HXB_DTYPE_BOOL]
  show ?thesis by (auto simp add: from_host_def host_of_def HXB_FALSE_def v_bool_def v_u8_def [symmetric] wf_value_def linked_value_def fresh_shs_simps)
qed

text \<open>C2: A WRITE packet of the host library reaches the write function of its endpoint with the very value the host gave,
  whatever the type. If there is no such endpoint, or none of that type that can be written, the device changes nothing,
  and the host gets one packet that decodes to the error.\<close>

theorem host_write_reaches_endpoint:
  assumes "crc_documented B" "in_payload dg = serialize B (WritePacket eid hv flags)" "constructible_value hv"
    and "udpconn s" "wf_packet (stack_bytes s)" "in_srcport dg \<noteq> 0"
  shows "case refusal (chain s) eid (dtype_code (datatype_of hv)) of
      None \<Rightarrow> \<exists>ep w v. find_descriptor (chain s) eid = Some ep \<and> ep_write ep = Some w \<and> carries B hv v \<and>
        receive_datagram dg s =
          (let (err, t) = run_write broadcast_value w
             \<lparr>env_src_ip = in_src dg, env_src_port = uip_ntohs (in_srcport dg), env_eid = eid, env_value = v\<rparr> s
           in reply_error dg err t)
    | Some err \<Rightarrow> \<exists>a. receive_datagram dg s = s\<lparr>sent := sent s @ [a]\<rparr> \<and> dg_to a = in_src dg \<and>
        dg_port a = uip_ntohs (in_srcport dg) \<and> deserialize B (dg_data a) = Inr (ErrorPacket (err_code err) 0)"
proof -
  obtain v where v: "vdatatype v = dtype_code (datatype_of hv)" "carries B hv v" and r: "receive_datagram dg s =
      (let (err, t) = fw_write broadcast_value eid
         \<lparr>env_src_ip = in_src dg, env_src_port = uip_ntohs (in_srcport dg), env_eid = eid, env_value = v\<rparr> s
       in reply_error dg err t)"
    using write_received [OF assms(2,3,1), of s] assms(5) by (auto simp: wf_packet_def offset_simps)
  let ?env = "\<lparr>env_src_ip = in_src dg, env_src_port = uip_ntohs (in_srcport dg), env_eid = eid, env_value = v\<rparr>"
  show ?thesis
  proof (cases "refusal (chain s) eid (dtype_code (datatype_of hv))")
    case None
    then have "refusal (chain s) eid (vdatatype (env_value ?env)) = None" by (simp add: v)
    from endpoint_write_accepted [OF this, of "run_write broadcast_value" s] show ?thesis
      using v r None by (auto simp: fw_write_def)
  next
    case (Some err)
    then have e: "endpoint_write (run_write broadcast_value) (chain s) eid ?env s = (err, s)"
      by (intro endpoint_write_refused) (simp add: v)
    have "err \<in> {HXB_ERR_WRITEREADONLY, HXB_ERR_UNKNOWNEID, HXB_ERR_DATATYPE}"
      using Some by (auto simp: refusal_def split: if_splits option.splits)
    moreover have "get8 off_type (packet_of dg) \<noteq> ptype_code HXB_PTYPE_INFO"
      using write_type [OF assms(2,3)] by simp
    ultimately have "\<exists>a. reply_error dg err s = s\<lparr>sent := sent s @ [a]\<rparr> \<and> dg_to a = in_src dg \<and>
        dg_port a = uip_ntohs (in_srcport dg) \<and> deserialize B (dg_data a) = Inr (ErrorPacket (err_code err) 0)"
      by (intro error_reply) (use assms in auto)
    then show ?thesis using Some by (simp add: r fw_write_def e)
  qed
qed

theorem host_write_reaches_endpoint_witness:
  "\<exists>a. receive_datagram (from_host (serialize example_boost (WritePacket 7 (Uint32 42) 0))) (fresh_shs\<lparr>chain := [], udpconn := True\<rparr>) =
     fresh_shs\<lparr>chain := [], udpconn := True, sent := sent fresh_shs @ [a]\<rparr> \<and> deserialize example_boost (dg_data a) = Inr (ErrorPacket 1 0)"
proof -
  let ?s = "fresh_shs\<lparr>chain := [], udpconn := True\<rparr>"
  have "refusal (chain ?s) 7 (dtype_code (datatype_of (Uint32 42))) = Some HXB_ERR_UNKNOWNEID"
    by (simp add: refusal_def find_descriptor_def fresh_shs_simps)
  then show ?thesis
    using host_write_reaches_endpoint [OF example_boost_documented(1), of "from_host (serialize example_boost (WritePacket 7 (Uint32 42) 0))"
        7 "Uint32 42" 0 ?s]
    by (auto simp: from_host_def fresh_shs_simps wf_packet_def offset_simps)
qed

end
