(* ===== verification/Etimer.thy ===== *)
theory Etimer
  imports Contiki_Process Timer
begin

text \<open>
  Event timers (\<^verbatim>\<open>core/sys/etimer.c\<close>): a process that keeps the pending timers in a list, and posts an
  event to the owner of each that has expired when it is polled. An event timer is an address; its
  struct is the fields \<open>et_timer\<close> and \<open>et_p\<close> and its link in \<open>timers\<close>. Proved: what one poll does, for
  any number of expired timers and any room in the event queue; that the other operations keep the
  list a list as long as no pending timer lacks a process; and that it becomes cyclic otherwise.
\<close>

section \<open>State\<close>

text \<open>\<open>timers\<close> is the variable \<open>timerlist\<close> with the pointer \<open>next\<close> of every timer. The clock goes on while the
  code runs: \<open>readings\<close> are the values that \<open>clock_time()\<close> is going to return, one for each call.\<close>

record ('a, 'u) ets = "('a, 'u) kern" +
  timers :: "nat linked"
  next_expiration :: u16
  et_timer :: "nat \<Rightarrow> timer"
  et_p :: "nat \<Rightarrow> nat option"   \<comment> \<open>\<open>None\<close> is \<open>PROCESS_NONE\<close>\<close>
  readings :: "nat \<Rightarrow> u16"

abbreviation timerlist :: "('a, 'u, 'z) ets_scheme \<Rightarrow> nat option" where "timerlist s \<equiv> head (timers s)"
abbreviation et_next :: "('a, 'u, 'z) ets_scheme \<Rightarrow> nat \<Rightarrow> nat option" where "et_next s \<equiv> link (timers s)"

definition read_clock :: "('a, 'u, 'z) ets_scheme \<Rightarrow> u16 \<times> ('a, 'u, 'z) ets_scheme" where
  "read_clock s = (readings s 0, s\<lparr>readings := (\<lambda>n. readings s (Suc n))\<rparr>)"

definition set_timer :: "nat \<Rightarrow> timer \<Rightarrow> ('a, 'u, 'z) ets_scheme \<Rightarrow> ('a, 'u, 'z) ets_scheme" where
  "set_timer et tm s = s\<lparr>et_timer := (et_timer s)(et := tm)\<rparr>"

text \<open>The address of the process of the event timers.\<close>

definition etimer_process :: nat where "etimer_process = 0"

section \<open>Operations\<close>

definition expiration_distance :: "(nat \<Rightarrow> timer) \<Rightarrow> u16 \<Rightarrow> nat \<Rightarrow> u16" where
  "expiration_distance tm now et = tm_start (tm et) + tm_interval (tm et) - now"

partial_function (option) min_distance :: "(nat \<Rightarrow> timer) \<Rightarrow> (nat \<Rightarrow> nat option) \<Rightarrow> u16 \<Rightarrow> nat option \<Rightarrow> u16 \<Rightarrow> u16 option" where
  "min_distance tm nx now t tdist =
     (case t of
        None \<Rightarrow> Some tdist
      | Some x \<Rightarrow> min_distance tm nx now (nx x)
          (if expiration_distance tm now x < tdist then expiration_distance tm now x else tdist))"

definition update_time :: "('a, 'u, 'z) ets_scheme \<Rightarrow> ('a, 'u, 'z) ets_scheme option" where
  "update_time s =
     (case timerlist s of
        None \<Rightarrow> Some (s\<lparr>next_expiration := 0\<rparr>)
      | Some x \<Rightarrow>
          (let (now, s) = read_clock s in
           do { tdist \<leftarrow> min_distance (et_timer s) (et_next s) now (et_next s x) (expiration_distance (et_timer s) now x);
                Some (s\<lparr>next_expiration := now + tdist\<rparr>) }))"

definition etimer_request_poll :: "('a, 'u, 'z) ets_scheme \<Rightarrow> ('a, 'u, 'z) ets_scheme" where
  "etimer_request_poll s = process_poll (Some etimer_process) s"

definition add_timer :: "nat \<Rightarrow> ('a, 'u, 'z) ets_scheme \<Rightarrow> ('a, 'u, 'z) ets_scheme option" where
  "add_timer et s =
     (let s = etimer_request_poll s in
      do { found \<leftarrow> (if et_p s et \<noteq> None then on_list (et_next s) (timerlist s) et else Some False);
           if found then update_time s
           else (let s = s\<lparr>et_p := (et_p s)(et := process_current s)\<rparr>;
                     s = s\<lparr>timers := (timers s)\<lparr>link := (et_next s)(et := timerlist s), head := Some et\<rparr>\<rparr>
                 in update_time s) })"

definition etimer_set :: "nat \<Rightarrow> u16 \<Rightarrow> ('a, 'u, 'z) ets_scheme \<Rightarrow> ('a, 'u, 'z) ets_scheme option" where
  "etimer_set et interval s =
     (let (now, s) = read_clock s in add_timer et (set_timer et (timer_set now interval (et_timer s et)) s))"

definition etimer_reset :: "nat \<Rightarrow> ('a, 'u, 'z) ets_scheme \<Rightarrow> ('a, 'u, 'z) ets_scheme option" where
  "etimer_reset et s = add_timer et (set_timer et (timer_reset (et_timer s et)) s)"

definition etimer_restart :: "nat \<Rightarrow> ('a, 'u, 'z) ets_scheme \<Rightarrow> ('a, 'u, 'z) ets_scheme option" where
  "etimer_restart et s =
     (let (now, s) = read_clock s in add_timer et (set_timer et (timer_restart now (et_timer s et)) s))"

definition etimer_adjust :: "nat \<Rightarrow> i16 \<Rightarrow> ('a, 'u, 'z) ets_scheme \<Rightarrow> ('a, 'u, 'z) ets_scheme option" where
  "etimer_adjust et timediff s =
     update_time (set_timer et ((et_timer s et)\<lparr>tm_start := tm_start (et_timer s et) + timediff\<rparr>) s)"

definition etimer_expired :: "nat \<Rightarrow> ('a, 'u, 'z) ets_scheme \<Rightarrow> bool" where
  "etimer_expired et s = (et_p s et = None)"

definition etimer_expiration_time :: "nat \<Rightarrow> ('a, 'u, 'z) ets_scheme \<Rightarrow> u16" where
  "etimer_expiration_time et s = tm_start (et_timer s et) + tm_interval (et_timer s et)"

definition etimer_start_time :: "nat \<Rightarrow> ('a, 'u, 'z) ets_scheme \<Rightarrow> u16" where
  "etimer_start_time et s = tm_start (et_timer s et)"

definition etimer_pending :: "('a, 'u, 'z) ets_scheme \<Rightarrow> bool" where
  "etimer_pending s = (timerlist s \<noteq> None)"

definition etimer_next_expiration_time :: "('a, 'u, 'z) ets_scheme \<Rightarrow> u16" where
  "etimer_next_expiration_time s = (if etimer_pending s then next_expiration s else 0)"

text \<open>The walk of \<open>etimer_stop\<close> to the item before \<open>et\<close>.\<close>

partial_function (option) item_before :: "(nat \<Rightarrow> nat option) \<Rightarrow> nat option \<Rightarrow> nat \<Rightarrow> nat option option" where
  "item_before nx t et =
     (case t of None \<Rightarrow> Some None | Some x \<Rightarrow> (if nx x = Some et then Some (Some x) else item_before nx (nx x) et))"

definition etimer_stop :: "nat \<Rightarrow> ('a, 'u, 'z) ets_scheme \<Rightarrow> ('a, 'u, 'z) ets_scheme option" where
  "etimer_stop et s =
     do { s \<leftarrow> (if timerlist s = Some et then update_time (s\<lparr>timers := (timers s)\<lparr>head := et_next s et\<rparr>\<rparr>)
                else do { t \<leftarrow> item_before (et_next s) (timerlist s) et;
                          case t of
                            None \<Rightarrow> Some s
                          | Some x \<Rightarrow> update_time (s\<lparr>timers := (timers s)\<lparr>link := (et_next s)(x := et_next s et)\<rparr>\<rparr>) });
          Some (s\<lparr>timers := (timers s)\<lparr>link := (et_next s)(et := None)\<rparr>, et_p := (et_p s)(et := None)\<rparr>) }"

section \<open>The process\<close>

text \<open>The timers of a process that has exited are dropped: first those at the front, then the others. The pointer
  \<open>data\<close> of the event is compared with the pointer to the process.\<close>

fun owned_by :: "'a pdata \<Rightarrow> nat option \<Rightarrow> bool" where
  "owned_by (Process q) p = (p = Some q)"
| "owned_by No_Data p = (p = None)"
| "owned_by _ p = False"

partial_function (option) drop_front :: "(nat \<Rightarrow> bool) \<Rightarrow> (nat \<Rightarrow> nat option) \<Rightarrow> nat option \<Rightarrow> nat option option" where
  "drop_front own nx t = (case t of None \<Rightarrow> Some None | Some x \<Rightarrow> (if own x then drop_front own nx (nx x) else Some (Some x)))"

partial_function (option) drop_after :: "(nat \<Rightarrow> bool) \<Rightarrow> (nat \<Rightarrow> nat option) \<Rightarrow> nat \<Rightarrow> (nat \<Rightarrow> nat option) option" where
  "drop_after own nx t =
     (case nx t of
        None \<Rightarrow> Some nx
      | Some x \<Rightarrow> (if own x then drop_after own (nx(t := nx x)) t else drop_after own nx x))"

definition process_exited :: "'a pdata \<Rightarrow> ('a, 'u, 'z) ets_scheme \<Rightarrow> ('a, 'u, 'z) ets_scheme option" where
  "process_exited d s =
     (let own = (\<lambda>x. owned_by d (et_p s x)) in
      do { h \<leftarrow> drop_front own (et_next s) (timerlist s);
           let s = s\<lparr>timers := (timers s)\<lparr>head := h\<rparr>\<rparr>;
           case h of
             None \<Rightarrow> Some s
           | Some x \<Rightarrow> do { nx \<leftarrow> drop_after own (et_next s) x; Some (s\<lparr>timers := (timers s)\<lparr>link := nx\<rparr>\<rparr>) } })"

text \<open>The loop over the timers after a poll; \<open>u\<close> is the item before \<open>t\<close>. Each posted timer restarts it.\<close>

partial_function (option) poll_timers :: "nat option \<Rightarrow> nat option \<Rightarrow> ('a, 'u, 'z) ets_scheme \<Rightarrow> ('a, 'u, 'z) ets_scheme option" where
  "poll_timers u t s =
     (case t of
        None \<Rightarrow> Some s
      | Some x \<Rightarrow>
          (let (now, s) = read_clock s in
           if timer_expired now (et_timer s x) then
             (let (ok, s) = process_post (et_p s x) EVENT_TIMER (Etimer x) s in
              if ok then
                (let s = s\<lparr>et_p := (et_p s)(x := None)\<rparr>;
                     s = (case u of
                            Some y \<Rightarrow> s\<lparr>timers := (timers s)\<lparr>link := (et_next s)(y := et_next s x)\<rparr>\<rparr>
                          | None \<Rightarrow> s\<lparr>timers := (timers s)\<lparr>head := et_next s x\<rparr>\<rparr>);
                     s = s\<lparr>timers := (timers s)\<lparr>link := (et_next s)(x := None)\<rparr>\<rparr>
                 in do { s \<leftarrow> update_time s; poll_timers None (timerlist s) s })
              else (let s = etimer_request_poll s in poll_timers (Some x) (et_next s x) s))
           else poll_timers (Some x) (et_next s x) s))"

definition etimer_init :: "('a, 'u, 'z) ets_scheme \<Rightarrow> ('a, 'u, 'z) ets_scheme" where
  "etimer_init s = s\<lparr>timers := (timers s)\<lparr>head := None\<rparr>\<rparr>"

definition etimer_event :: "u8 \<Rightarrow> 'a pdata \<Rightarrow> ('a, 'u, 'z) ets_scheme \<Rightarrow> ('a, 'u, 'z) ets_scheme option" where
  "etimer_event e d s =
     (if e = EVENT_EXITED then process_exited d s
      else if e \<noteq> EVENT_POLL then Some s
      else poll_timers None (timerlist s) s)"


section \<open>The next expiration\<close>

definition nearest :: "(nat \<Rightarrow> timer) \<Rightarrow> u16 \<Rightarrow> nat list \<Rightarrow> u16" where
  "nearest tm now ts = (if ts = [] then 0 else now + Min (expiration_distance tm now ` set ts))"

lemma min_distance_fold:
  "lseg nx t ts \<Longrightarrow> min_distance tm nx now t d = Some (fold min (map (expiration_distance tm now) ts) d)"
proof (induction ts arbitrary: t d)
  case (Cons x ts)
  have "(if a < b then a else b) = min a b" for a b :: u16
    by (metis min.absorb1 min.absorb2 less_imp_le not_less)
  then show ?case using Cons by (auto simp: min_distance.simps [of tm nx now "Some x"] simp del: fold_map)
qed (simp add: min_distance.simps)

lemma update_time_list:
  assumes "represents (timers s) ts"
  shows "update_time s = Some (s\<lparr>next_expiration := nearest (et_timer s) (readings s 0) ts,
    readings := (if ts = [] then readings s else (\<lambda>n. readings s (Suc n)))\<rparr>)"
proof (cases ts)
  case Nil
  then show ?thesis using assms by (simp add: update_time_def represents_def nearest_def)
next
  case (Cons x xs)
  let ?f = "expiration_distance (et_timer s) (readings s 0)"
  have "timerlist s = Some x" "lseg (et_next s) (et_next s x) xs" using assms Cons by (simp_all add: represents_def)
  moreover have "fold min (map ?f xs) (?f x) = Min (?f ` set ts)"
    using Min.set_eq_fold [of "?f x" "map ?f xs"] by (simp add: Cons del: fold_map)
  ultimately show ?thesis
    by (simp add: update_time_def read_clock_def min_distance_fold nearest_def Cons Let_def del: fold_map)
qed

text \<open>What no operation on the list touches.\<close>

lemma request_poll_frame [simp]:
  "timers (etimer_request_poll s) = timers s" "et_p (etimer_request_poll s) = et_p s" "et_timer (etimer_request_poll s) = et_timer s"
  "readings (etimer_request_poll s) = readings s" "next_expiration (etimer_request_poll s) = next_expiration s"
  "queue (etimer_request_poll s) = queue s" "queue_ok (etimer_request_poll s) = queue_ok s" "state (etimer_request_poll s) = state s"
  "process_current (etimer_request_poll s) = process_current s"
  by (simp_all add: etimer_request_poll_def process_poll_def queue_def queue_ok_def)

lemma request_poll_twice [simp]: "etimer_request_poll (etimer_request_poll s) = etimer_request_poll s"
  by (simp add: etimer_request_poll_def process_poll_def)

lemma timers_frame [simp]:
  "queue (s\<lparr>timers := l\<rparr>) = queue s" "queue_ok (s\<lparr>timers := l\<rparr>) = queue_ok s"
  "queue (s\<lparr>et_p := p\<rparr>) = queue s" "queue_ok (s\<lparr>et_p := p\<rparr>) = queue_ok s"
  "queue (s\<lparr>next_expiration := e, readings := r\<rparr>) = queue s" "queue_ok (s\<lparr>next_expiration := e, readings := r\<rparr>) = queue_ok s"
  by (simp_all add: queue_def queue_ok_def)

lemma process_post_frame:
  fixes s :: "('a, 'u, 'z) ets_scheme"
  assumes "process_post p e d s = (ok, t)"
  shows "timers t = timers s" "et_p t = et_p s" "et_timer t = et_timer s" "readings t = readings s" "next_expiration t = next_expiration s"
    "state t = state s" "process_current t = process_current s" "needspoll t = needspoll s" "poll_requested t = poll_requested s"
  using assms by (auto simp: process_post_def Let_def split: if_splits)

lemma path_unique: "path nx x ps y \<Longrightarrow> path nx x ps z \<Longrightarrow> y = z"
  by (induction ps arbitrary: x) auto

section \<open>One poll\<close>

text \<open>The clock does not go on during the poll.\<close>

definition stopped_at :: "u16 \<Rightarrow> ('a, 'u, 'z) ets_scheme \<Rightarrow> bool" where
  "stopped_at now s = (readings s = (\<lambda>_. now))"

lemma read_clock_stopped: "stopped_at now s \<Longrightarrow> read_clock s = (now, s)"
  by (simp add: stopped_at_def read_clock_def)

abbreviation expired_in :: "u16 \<Rightarrow> ('a, 'u, 'z) ets_scheme \<Rightarrow> nat list \<Rightarrow> nat list" where
  "expired_in now s ts \<equiv> filter (\<lambda>x. timer_expired now (et_timer s x)) ts"

definition timer_event :: "('a, 'u, 'z) ets_scheme \<Rightarrow> nat \<Rightarrow> 'a event" where
  "timer_event s x = \<lparr>ev = EVENT_TIMER, data = Etimer x, receiver = et_p s x\<rparr>"

lemma poll_skip:
  assumes "stopped_at now s" "expired_in now s ps = []" "path (et_next s) t ps z"
  shows "poll_timers u t s = poll_timers (if ps = [] then u else Some (last ps)) z s"
  using assms(2,3)
proof (induction ps arbitrary: u t)
  case (Cons x ps)
  then have x: "t = Some x" "\<not> timer_expired now (et_timer s x)" "path (et_next s) (et_next s x) ps z" "expired_in now s ps = []"
    by (simp_all split: if_splits)
  have "poll_timers u t s = poll_timers (Some x) (et_next s x) s"
    using x(2) unfolding x(1) by (subst poll_timers.simps) (simp add: read_clock_stopped [OF assms(1)])
  then show ?case using Cons.IH [OF x(4,3)] by simp
qed simp

lemma poll_full:
  assumes "stopped_at now s" "queue_ok s" "length (queue s) = PROCESS_CONF_NUMEVENTS" "lseg (et_next s) t qs"
  shows "poll_timers u t s = Some (if expired_in now s qs = [] then s else etimer_request_poll s)"
  using assms
proof (induction qs arbitrary: u t s)
  case Nil
  then show ?case by (simp add: poll_timers.simps)
next
  case (Cons x qs)
  note rc = read_clock_stopped [OF Cons.prems(1)]
  show ?case
  proof (cases "timer_expired now (et_timer s x)")
    case True
    have "poll_timers u t s = poll_timers (Some x) (et_next s x) (etimer_request_poll s)"
      using Cons.prems(4) True post_full [OF Cons.prems(2,3), of "et_p s x" EVENT_TIMER "Etimer x"]
      by (subst poll_timers.simps) (simp add: rc)
    moreover have "stopped_at now (etimer_request_poll s)" using Cons.prems(1) by (simp add: stopped_at_def)
    ultimately show ?thesis using Cons.IH [of "etimer_request_poll s"] Cons.prems True by simp
  next
    case False
    then have "poll_timers u t s = poll_timers (Some x) (et_next s x) s"
      using Cons.prems(4) by (subst poll_timers.simps) (simp add: rc)
    then show ?thesis using Cons.IH Cons.prems False by simp
  qed
qed


text \<open>The outcome of a poll: these timers were posted, these are left, and whether another poll was requested.\<close>

definition polled :: "u16 \<Rightarrow> nat list \<Rightarrow> nat list \<Rightarrow> bool \<Rightarrow> ('a, 'u, 'z) ets_scheme \<Rightarrow> ('a, 'u, 'z) ets_scheme \<Rightarrow> bool" where
  "polled now posted left again s t =
     (queue t = queue s @ map (timer_event s) posted \<and> queue_ok t \<and> represents (timers t) left \<and>
      et_p t = (\<lambda>x. if x \<in> set posted then None else et_p s x) \<and> et_timer t = et_timer s \<and> stopped_at now t \<and>
      next_expiration t = (if posted = [] then next_expiration s else nearest (et_timer s) now left) \<and>
      needspoll t = needspoll (if again then etimer_request_poll s else s) \<and> state t = state s)"

text \<open>Taking one expired timer off the list and posting it.\<close>

lemma post_timer_step:
  fixes s :: "('a, 'u, 'z) ets_scheme"
  assumes s: "stopped_at now s" "queue_ok s" "length (queue s) < PROCESS_CONF_NUMEVENTS"
    and l: "represents (timers s) (ps @ x # qs)" and x: "timer_expired now (et_timer s x)" and u: "u = (if ps = [] then None else Some (last ps))"
  obtains s2 where "poll_timers u (Some x) s = poll_timers None (timerlist s2) s2" "stopped_at now s2" "queue_ok s2"
    "queue s2 = queue s @ [timer_event s x]" "represents (timers s2) (ps @ qs)" "et_p s2 = (et_p s)(x := None)"
    "et_timer s2 = et_timer s" "next_expiration s2 = nearest (et_timer s) now (ps @ qs)" "needspoll s2 = needspoll s" "state s2 = state s"
proof -
  obtain t1 where t1: "process_post (et_p s x) EVENT_TIMER (Etimer x) s = (True, t1)" "queue t1 = queue s @ [timer_event s x]" "queue_ok t1"
    using post_room [OF s(2,3), of "et_p s x" EVENT_TIMER "Etimer x"] by (auto simp: timer_event_def)
  note f = process_post_frame [OF t1(1)]
  define s1 where "s1 = t1\<lparr>et_p := (et_p s)(x := None), timers := unlink u x (timers s)\<rparr>"
  have r: "represents (timers s1) (ps @ qs)" using unlink_represents [OF l] by (simp add: s1_def u)
  have step: "poll_timers u (Some x) s = Option.bind (update_time s1) (\<lambda>s2. poll_timers None (timerlist s2) s2)"
    by (subst poll_timers.simps)
       (simp add: read_clock_stopped [OF s(1)] x t1(1) Let_def s1_def unlink_def f split: option.split)
  have rd: "readings s1 = (\<lambda>_. now)" using s(1) by (simp add: s1_def f stopped_at_def)
  let ?s2 = "s1\<lparr>next_expiration := nearest (et_timer s1) now (ps @ qs), readings := (\<lambda>_. now)\<rparr>"
  have "update_time s1 = Some ?s2" using update_time_list [OF r] rd by simp
  then show thesis
    by (intro that [of ?s2]) (use step r t1(2,3) in \<open>simp_all add: s1_def f stopped_at_def\<close>)
qed

lemma poll_list:
  assumes "stopped_at now s" "queue_ok s" "represents (timers s) (ps @ qs)" "expired_in now s ps = []"
    and "path (et_next s) (timerlist s) ps z" "u = (if ps = [] then None else Some (last ps))"
  shows "\<exists>t. poll_timers u z s = Some t \<and>
    (let posted = take (PROCESS_CONF_NUMEVENTS - length (queue s)) (expired_in now s qs)
     in polled now posted (ps @ filter (\<lambda>x. x \<notin> set posted) qs) (length posted < length (expired_in now s qs)) s t)"
  using assms
proof (induction qs arbitrary: s ps z u)
  case Nil
  then have "path (et_next s) (timerlist s) ps None" by (simp add: represents_def lseg_path)
  with Nil.prems(5) have "z = None" using path_unique by metis
  with Nil show ?case by (simp add: poll_timers.simps polled_def)
next
  case (Cons x qs)
  have z: "z = Some x" "lseg (et_next s) z (x # qs)"
    using Cons.prems(3,5) by (auto simp: represents_def lseg_append dest: path_unique)
  have d: "distinct (ps @ x # qs)" using Cons.prems(3) by (rule represents_distinct)
  show ?case
  proof (cases "timer_expired now (et_timer s x)")
    case False
    have "poll_timers u z s = poll_timers (Some x) (et_next s x) s"
      using False unfolding z(1) by (subst poll_timers.simps) (simp add: read_clock_stopped [OF Cons.prems(1)])
    moreover have "path (et_next s) (timerlist s) (ps @ [x]) (et_next s x)" using Cons.prems(5) z(1) by (auto simp: path_append)
    ultimately show ?thesis
      using Cons.IH [of s "ps @ [x]" "et_next s x" "Some x"] Cons.prems(1-4) False by (auto simp: Let_def dest!: in_set_takeD)
  next
    case expired: True
    show ?thesis
    proof (cases "length (queue s) = PROCESS_CONF_NUMEVENTS")
      case True
      have "poll_timers u z s = Some (etimer_request_poll s)"
        using poll_full [OF Cons.prems(1,2) True z(2), of u] expired by simp
      then show ?thesis using Cons.prems(1-3) True expired by (simp add: polled_def stopped_at_def)
    next
      case False
      then have room: "length (queue s) < PROCESS_CONF_NUMEVENTS" using queue_bounded [OF Cons.prems(2)] by simp
      from post_timer_step [OF Cons.prems(1,2) room Cons.prems(3) expired Cons.prems(6)] obtain s2 where
        s2: "poll_timers u (Some x) s = poll_timers None (timerlist s2) s2" "stopped_at now s2" "queue_ok s2"
          "queue s2 = queue s @ [timer_event s x]" "represents (timers s2) (ps @ qs)" "et_p s2 = (et_p s)(x := None)"
          "et_timer s2 = et_timer s" "next_expiration s2 = nearest (et_timer s) now (ps @ qs)" "needspoll s2 = needspoll s" "state s2 = state s" .
      obtain z2 where z2: "path (et_next s2) (timerlist s2) ps z2" using s2(5) by (auto simp: represents_def lseg_append)
      have ps: "expired_in now s2 ps = []" using Cons.prems(4) by (simp add: s2(7))
      from Cons.IH [OF s2(2,3,5) ps z2 refl] poll_skip [OF s2(2) ps z2, of None] obtain t where
        t: "poll_timers u z s = Some t" and
        p: "let posted = take (PROCESS_CONF_NUMEVENTS - length (queue s2)) (expired_in now s2 qs)
          in polled now posted (ps @ filter (\<lambda>x. x \<notin> set posted) qs) (length posted < length (expired_in now s2 qs)) s2 t"
        using s2(1) z(1) by auto
      define post where "post = take (PROCESS_CONF_NUMEVENTS - length (queue s2)) (expired_in now s qs)"
      have p': "polled now post (ps @ filter (\<lambda>y. y \<notin> set post) qs) (length post < length (expired_in now s qs)) s2 t"
        using p by (simp only: Let_def s2(7) post_def)
      have posted: "take (PROCESS_CONF_NUMEVENTS - length (queue s)) (expired_in now s (x # qs)) = x # post"
      proof -
        have "length (queue s2) = Suc (length (queue s))" unfolding s2(4) by (rule length_append_singleton)
        then have "PROCESS_CONF_NUMEVENTS - length (queue s) = Suc (PROCESS_CONF_NUMEVENTS - length (queue s2))"
          using room by linarith
        then show ?thesis using expired by (simp only: post_def filter.simps if_True take_Suc_Cons)
      qed
      have "x \<notin> set post" using d by (auto simp: post_def dest: in_set_takeD)
      then have ev: "map (timer_event s2) post = map (timer_event s) post"
        by (auto simp: timer_event_def s2(6))
      have left: "filter (\<lambda>y. y \<notin> set (x # post)) (x # qs) = filter (\<lambda>y. y \<notin> set post) qs"
        using d by (auto intro!: filter_cong)
      have rp: "needspoll (etimer_request_poll s2) = needspoll (etimer_request_poll s)"
        by (simp add: etimer_request_poll_def process_poll_def s2)
      have "polled now (x # post) (ps @ filter (\<lambda>y. y \<notin> set (x # post)) (x # qs)) (length (x # post) < length (expired_in now s (x # qs))) s t"
        using p' ev rp s2(4,6,7,8,9,10) expired unfolding left by (auto simp: polled_def)
      then show ?thesis using t unfolding Let_def posted by blast
    qed
  qed
qed


lemma etimer_poll:
  assumes "stopped_at now s" "queue_ok s" "represents (timers s) ts"
  shows "\<exists>t. etimer_event EVENT_POLL d s = Some t \<and>
    (let posted = take (PROCESS_CONF_NUMEVENTS - length (queue s)) (expired_in now s ts)
     in polled now posted (filter (\<lambda>x. x \<notin> set posted) ts) (length posted < length (expired_in now s ts)) s t)"
  using poll_list [OF assms(1,2), of "[]" ts "timerlist s" None] assms(3)
  by (simp add: etimer_event_def EVENT_POLL_def EVENT_EXITED_def)

section \<open>The list of pending timers\<close>

text \<open>Every pending timer has a process.\<close>

definition timers_ok :: "nat list \<Rightarrow> ('a, 'u, 'z) ets_scheme \<Rightarrow> bool" where
  "timers_ok ts s = (represents (timers s) ts \<and> (\<forall>x \<in> set ts. et_p s x \<noteq> None))"

lemma on_list_lseg: "lseg nx q ps \<Longrightarrow> on_list nx q p = Some (p \<in> set ps)"
proof (induction ps arbitrary: q)
  case (Cons a ps)
  then show ?case by (auto simp: on_list.simps [of nx "Some a"])
qed (simp add: on_list.simps)

lemma set_timer_frame [simp]:
  "timers (set_timer et tm s) = timers s" "et_p (set_timer et tm s) = et_p s" "et_timer (set_timer et tm s) = (et_timer s)(et := tm)"
  "readings (set_timer et tm s) = readings s" "process_current (set_timer et tm s) = process_current s"
  by (simp_all add: set_timer_def)

lemma read_clock_frame [simp]:
  "timers (snd (read_clock s)) = timers s" "et_p (snd (read_clock s)) = et_p s" "et_timer (snd (read_clock s)) = et_timer s"
  "process_current (snd (read_clock s)) = process_current s" "fst (read_clock s) = readings s 0" "readings (snd (read_clock s)) n = readings s (Suc n)"
  by (simp_all add: read_clock_def)

text \<open>Inside a process a timer becomes pending once, however often it is set.\<close>

lemma add_timer_ok:
  assumes "timers_ok ts s" "process_current s = Some c"
  shows "\<exists>t. add_timer et s = Some t \<and> timers_ok (if et \<in> set ts then ts else et # ts) t \<and>
    et_p t = (if et \<in> set ts then et_p s else (et_p s)(et := Some c)) \<and> et_timer t = et_timer s \<and>
    next_expiration t = nearest (et_timer s) (readings s 0) (if et \<in> set ts then ts else et # ts) \<and> process_current t = Some c"
proof -
  have r: "represents (timers s) ts" and p: "\<forall>x \<in> set ts. et_p s x \<noteq> None" using assms(1) by (simp_all add: timers_ok_def)
  have f: "on_list (et_next s) (timerlist s) et = Some (et \<in> set ts)" using r by (intro on_list_lseg) (simp add: represents_def)
  show ?thesis
  proof (cases "et \<in> set ts")
    case True
    then have "et_p s et \<noteq> None" using p by blast
    then show ?thesis using True f r p assms(2) update_time_list [of "etimer_request_poll s" ts]
      by (simp add: add_timer_def timers_ok_def Let_def)
  next
    case False
    let ?s = "etimer_request_poll s"
    let ?t = "?s\<lparr>et_p := (et_p s)(et := Some c), timers := (timers s)\<lparr>link := (et_next s)(et := timerlist s), head := Some et\<rparr>\<rparr>"
    have rt: "represents (timers ?t) (et # ts)" using r False by (simp add: represents_def)
    have "add_timer et s = update_time ?t" using False f assms(2) by (auto simp: add_timer_def Let_def)
    then show ?thesis using False p assms(2) rt update_time_list [OF rt] by (simp add: timers_ok_def)
  qed
qed

lemma item_before_lseg:
  "lseg nx (Some p) (p # ps) \<Longrightarrow> et \<notin> set ps \<Longrightarrow> item_before nx (Some p) et = Some None"
  "lseg nx (Some p) (p # as @ et # bs) \<Longrightarrow> et \<notin> set as \<Longrightarrow> item_before nx (Some p) et = Some (Some (last (p # as)))"
proof (induction ps arbitrary: p)
  case (Cons a ps)
  { case 1
    then show ?case using Cons.IH(1) [of a] by (simp add: item_before.simps [of nx "Some p"]) }
next
  case Nil
  { case 1
    then show ?case by (simp add: item_before.simps) }
qed (induction as arbitrary: p, auto simp: item_before.simps)


lemma etimer_stop_list:
  assumes "represents (timers s) ts"
  shows "\<exists>t. etimer_stop et s = Some t \<and> represents (timers t) (remove1 et ts) \<and> et_p t = (et_p s)(et := None) \<and> et_timer t = et_timer s"
proof -
  have d: "distinct ts" using assms by (rule represents_distinct)
  have frame: "timers (s'\<lparr>next_expiration := e, readings := r\<rparr>) = timers s'" "et_p (s'\<lparr>next_expiration := e, readings := r\<rparr>) = et_p s'"
    "et_timer (s'\<lparr>next_expiration := e, readings := r\<rparr>) = et_timer s'" for s' :: "('a, 'b, 'c) ets_scheme" and e r by simp_all
  show ?thesis
  proof (cases ts)
    case Nil
    then show ?thesis using assms by (simp add: etimer_stop_def represents_def item_before.simps)
  next
    case (Cons p ps)
    then have h: "timerlist s = Some p" "lseg (et_next s) (Some p) (p # ps)" using assms by (simp_all add: represents_def)
    consider (first) "et = p" | (later) as bs where "et \<noteq> p" "ps = as @ et # bs" "et \<notin> set as" | (absent) "et \<notin> set (p # ps)"
      using split_list_first [of et ps] by auto
    then show ?thesis
    proof cases
      case first
      let ?s = "s\<lparr>timers := (timers s)\<lparr>head := et_next s et\<rparr>\<rparr>"
      have "represents (timers ?s) ps" using h first by (simp add: represents_def)
      from update_time_list [OF this] show ?thesis
        using h d Cons first by (simp add: etimer_stop_def represents_def)
    next
      case later
      let ?s = "s\<lparr>timers := (timers s)\<lparr>link := (et_next s)(last (p # as) := et_next s et)\<rparr>\<rparr>"
      have b: "item_before (et_next s) (timerlist s) et = Some (Some (last (p # as)))"
        using item_before_lseg(2) [of "et_next s" p as et bs] h later by simp
      have ne: "last (p # as) \<noteq> et" using d Cons later by (auto simp: last_in_set split: if_splits)
      have u: "(timers s)\<lparr>link := ((et_next s)(last (p # as) := et_next s et))(et := None)\<rparr> = unlink (Some (last (p # as))) et (timers s)"
        by (simp add: unlink_def Let_def)
      have r: "represents (unlink (Some (last (p # as))) et (timers s)) (p # as @ bs)"
        using unlink_represents [of "timers s" "p # as" et bs] assms Cons later by simp
      have "lseg ((et_next s)(last (p # as) := et_next s et)) (timerlist s) (p # as @ bs)"
        using r d Cons later by (simp add: represents_def unlink_def Let_def)
      then have "represents (timers ?s) (p # as @ bs)" by (simp add: represents_def)
      from update_time_list [OF this] show ?thesis
        using b r u h later Cons by (simp add: etimer_stop_def remove1_append)
    next
      case absent
      then have "item_before (et_next s) (timerlist s) et = Some None" using item_before_lseg(1) h by simp
      then show ?thesis using h absent Cons assms by (auto simp: etimer_stop_def represents_def remove1_idem)
    qed
  qed
qed

lemma drop_front_lseg: "lseg nx t ts \<Longrightarrow> \<exists>z. drop_front own nx t = Some z \<and> lseg nx z (dropWhile own ts)"
proof (induction ts arbitrary: t)
  case (Cons a ts)
  then show ?case by (auto simp: drop_front.simps [of own nx "Some a"])
qed (simp add: drop_front.simps)

lemma drop_after_lseg:
  "lseg nx (Some p) (p # ps) \<Longrightarrow> distinct (p # ps) \<Longrightarrow>
     \<exists>nx'. drop_after own nx p = Some nx' \<and> lseg nx' (Some p) (p # filter (\<lambda>x. \<not> own x) ps) \<and> (\<forall>q. q \<notin> set (p # ps) \<longrightarrow> nx' q = nx q)"
proof (induction ps arbitrary: nx p)
  case Nil
  then show ?case by (subst drop_after.simps) auto
next
  case (Cons a ps)
  show ?case
  proof (cases "own a")
    case True
    let ?nx = "nx(p := nx a)"
    have l: "lseg ?nx (Some p) (p # ps)" and dd: "distinct (p # ps)" using Cons.prems by auto
    obtain nx' where n: "drop_after own ?nx p = Some nx'" "lseg nx' (Some p) (p # filter (\<lambda>x. \<not> own x) ps)"
        "\<forall>q. q \<notin> set (p # ps) \<longrightarrow> nx' q = ?nx q"
      using Cons.IH [OF l dd] by blast
    have "drop_after own nx p = drop_after own ?nx p" using Cons.prems(1) True by (subst drop_after.simps) simp
    then show ?thesis using n True by auto
  next
    case False
    have "lseg nx (Some a) (a # ps)" using Cons.prems by auto
    then obtain nx' where n: "drop_after own nx a = Some nx'" "lseg nx' (Some a) (a # filter (\<lambda>x. \<not> own x) ps)"
        "\<forall>q. q \<notin> set (a # ps) \<longrightarrow> nx' q = nx q"
      using Cons.IH [of nx a] Cons.prems(2) by auto
    have "drop_after own nx p = drop_after own nx a" using Cons.prems(1) False by (subst drop_after.simps) simp
    moreover have "nx' p = Some a" using n(3) Cons.prems by auto
    ultimately show ?thesis using n False by auto
  qed
qed

lemma process_exited_list:
  assumes "represents (timers s) ts"
  shows "\<exists>t. process_exited d s = Some t \<and> represents (timers t) (filter (\<lambda>x. \<not> owned_by d (et_p s x)) ts) \<and>
    et_p t = et_p s \<and> et_timer t = et_timer s \<and> next_expiration t = next_expiration s"
proof -
  let ?own = "\<lambda>x. owned_by d (et_p s x)"
  obtain z where z: "drop_front ?own (et_next s) (timerlist s) = Some z" "lseg (et_next s) z (dropWhile ?own ts)"
    using drop_front_lseg assms by (metis represents_def)
  have f: "filter (\<lambda>x. \<not> ?own x) ts = filter (\<lambda>x. \<not> ?own x) (dropWhile ?own ts)"
    by (induction ts) auto
  show ?thesis
  proof (cases "dropWhile ?own ts")
    case Nil
    have "z = None" using z(2) unfolding Nil by simp
    moreover have "filter (\<lambda>x. \<not> ?own x) ts = []" unfolding f Nil by simp
    ultimately show ?thesis using z(1) by (simp add: process_exited_def represents_def)
  next
    case (Cons y ys)
    have y: "z = Some y" "lseg (et_next s) (Some y) (y # ys)" using z(2) unfolding Cons by simp_all
    have y': "\<not> ?own y" using Cons by (simp add: dropWhile_eq_Cons_conv)
    have "distinct (y # ys)" using represents_distinct [OF assms] distinct_dropWhile [of ts ?own] Cons by simp
    from drop_after_lseg [OF y(2) this, of ?own] obtain nx where
      "drop_after ?own (et_next s) y = Some nx" "lseg nx (Some y) (y # filter (\<lambda>x. \<not> ?own x) ys)" by blast
    moreover have "filter (\<lambda>x. \<not> ?own x) ts = y # filter (\<lambda>x. \<not> ?own x) ys" unfolding f Cons using y' by simp
    ultimately show ?thesis using z(1) y(1) by (simp add: process_exited_def represents_def)
  qed
qed


section \<open>A timer that is pending without a process\<close>

lemma self_link_diverges:
  assumes "nx x = Some x"
  shows "min_distance tm nx now (Some x) d = None"
proof (rule ccontr)
  assume "min_distance tm nx now (Some x) d \<noteq> None"
  then obtain r where r: "min_distance tm nx now (Some x) d = Some r" by auto
  have "nx' = nx \<longrightarrow> p = Some x \<longrightarrow> False" if "min_distance tm' nx' now' p d' = Some r'" for tm' nx' now' p d' r'
  proof (rule min_distance.raw_induct [where P = "\<lambda>tm' nx' now' p d' r'. nx' = nx \<longrightarrow> p = Some x \<longrightarrow> False", OF _ that])
    fix f :: "(nat \<Rightarrow> timer) \<Rightarrow> (nat \<Rightarrow> nat option) \<Rightarrow> u16 \<Rightarrow> nat option \<Rightarrow> u16 \<Rightarrow> u16 option"
      and tm' nx' now' p d' y
    assume IH: "\<And>tm' nx' now' p d' y. f tm' nx' now' p d' = Some y \<Longrightarrow> nx' = nx \<longrightarrow> p = Some x \<longrightarrow> False"
      and eq: "(case p of None \<Rightarrow> Some d' | Some z \<Rightarrow> f tm' nx' now' (nx' z)
          (if expiration_distance tm' now' z < d' then expiration_distance tm' now' z else d')) = Some y"
    show "nx' = nx \<longrightarrow> p = Some x \<longrightarrow> False"
    proof (intro impI)
      assume "nx' = nx" "p = Some x"
      with eq assms have "f tm' nx now' (Some x) (if expiration_distance tm' now' x < d' then expiration_distance tm' now' x else d') = Some y" by simp
      from IH [OF this] show False by simp
    qed
  qed
  with r show False by blast
qed

lemma set_outside_process:
  assumes "represents (timers s) ts" "process_current s = None" "et_p s et = None" "et \<notin> set ts"
  shows "\<exists>t. etimer_set et i s = Some t \<and> represents (timers t) (et # ts) \<and> etimer_set et j t = None"
proof -
  define s0 where "s0 = set_timer et (timer_set (readings s 0) i (et_timer s et)) (snd (read_clock s))"
  have s0: "timers s0 = timers s" "process_current s0 = None" "et_p s0 = et_p s" using assms(2) by (simp_all add: s0_def)
  have e: "etimer_set et i s = add_timer et s0" by (simp add: etimer_set_def s0_def split_beta Let_def)
  let ?u = "(etimer_request_poll s0)\<lparr>et_p := (et_p s)(et := None), timers := (timers s)\<lparr>link := (et_next s)(et := timerlist s), head := Some et\<rparr>\<rparr>"
  have u: "add_timer et s0 = update_time ?u" using assms(3) by (simp add: add_timer_def s0)
  have ru: "represents (timers ?u) (et # ts)" using assms(1,4) by (simp add: represents_def)
  obtain t where t: "update_time ?u = Some t" "timers t = timers ?u" "et_p t = et_p ?u" "process_current t = None"
    using update_time_list [OF ru] s0(2) by simp
  define t0 where "t0 = set_timer et (timer_set (readings t 0) j (et_timer t et)) (snd (read_clock t))"
  have t0: "timers t0 = timers ?u" "process_current t0 = None" "et_p t0 et = None" using t by (simp_all add: t0_def)
  have "etimer_set et j t = add_timer et t0" by (simp add: etimer_set_def t0_def split_beta Let_def)
  also have "\<dots> = None"
    using self_link_diverges [of "(et_next t0)(et := Some et)" et] t0 by (simp add: add_timer_def update_time_def Let_def split_beta)
  finally show ?thesis using e u t ru by auto
qed


section \<open>Setting and polling\<close>

lemma setters_add:
  "etimer_set et iv s = add_timer et (set_timer et (timer_set (readings s 0) iv (et_timer s et)) (snd (read_clock s)))"
  "etimer_reset et s = add_timer et (set_timer et (timer_reset (et_timer s et)) s)"
  "etimer_restart et s = add_timer et (set_timer et (timer_restart (readings s 0) (et_timer s et)) (snd (read_clock s)))"
  by (simp_all add: etimer_set_def etimer_reset_def etimer_restart_def split_beta Let_def)

lemma timers_ok_frame [simp]:
  "timers_ok ts (set_timer et tm s) = timers_ok ts s" "timers_ok ts (snd (read_clock s)) = timers_ok ts s"
  by (simp_all add: timers_ok_def)

lemma setters_ok:
  fixes et :: nat
  assumes "timers_ok ts s" "process_current s = Some c"
  defines "ts' \<equiv> (if et \<in> set ts then ts else et # ts)"
  shows "\<exists>t. etimer_set et iv s = Some t \<and> timers_ok ts' t \<and> et_p t = (if et \<in> set ts then et_p s else (et_p s)(et := Some c)) \<and>
      et_timer t = (et_timer s)(et := timer_set (readings s 0) iv (et_timer s et))"
    and "\<exists>t. etimer_reset et s = Some t \<and> timers_ok ts' t \<and> et_timer t = (et_timer s)(et := timer_reset (et_timer s et))"
    and "\<exists>t. etimer_restart et s = Some t \<and> timers_ok ts' t \<and> et_timer t = (et_timer s)(et := timer_restart (readings s 0) (et_timer s et))"
  unfolding setters_add ts'_def
  by (use add_timer_ok [of ts "set_timer et (timer_set (readings s 0) iv (et_timer s et)) (snd (read_clock s))" c et]
        add_timer_ok [of ts "set_timer et (timer_reset (et_timer s et)) s" c et]
        add_timer_ok [of ts "set_timer et (timer_restart (readings s 0) (et_timer s et)) (snd (read_clock s))" c et] assms in auto)

lemma adjust_ok: "timers_ok ts s \<Longrightarrow> \<exists>t. etimer_adjust et dt s = Some t \<and> timers_ok ts t"
  using update_time_list [of "set_timer et ((et_timer s et)\<lparr>tm_start := tm_start (et_timer s et) + dt\<rparr>) s" ts]
  by (auto simp: etimer_adjust_def timers_ok_def)

lemma stop_ok: "timers_ok ts s \<Longrightarrow> \<exists>t. etimer_stop et s = Some t \<and> timers_ok (remove1 et ts) t \<and> etimer_expired et t"
proof -
  assume ok: "timers_ok ts s"
  then obtain t where t: "etimer_stop et s = Some t" "represents (timers t) (remove1 et ts)" "et_p t = (et_p s)(et := None)"
    using etimer_stop_list [of s ts et] by (auto simp: timers_ok_def)
  have "et \<notin> set (remove1 et ts)" "set (remove1 et ts) \<subseteq> set ts"
    using represents_distinct [of "timers s" ts] ok by (auto simp: timers_ok_def dest: in_set_remove1 notin_set_remove1)
  then have "\<forall>x \<in> set (remove1 et ts). et_p t x \<noteq> None" using ok t(3) by (auto simp: timers_ok_def)
  then show ?thesis using t by (auto simp: timers_ok_def etimer_expired_def)
qed

lemma exited_ok:
  assumes "timers_ok ts s"
  shows "\<exists>t. etimer_event EVENT_EXITED (Process q) s = Some t \<and> timers_ok (filter (\<lambda>x. et_p s x \<noteq> Some q) ts) t"
  using process_exited_list [of s ts "Process q"] assms by (auto simp: etimer_event_def timers_ok_def)

lemma poll_ok:
  assumes "timers_ok ts s" "stopped_at now s" "queue_ok s"
  shows "\<exists>t ls. etimer_event EVENT_POLL d s = Some t \<and> timers_ok ls t \<and> set ls \<subseteq> set ts"
proof -
  obtain t posted where t: "etimer_event EVENT_POLL d s = Some t" "polled now posted (filter (\<lambda>x. x \<notin> set posted) ts)
      (length posted < length (expired_in now s ts)) s t"
    using etimer_poll [OF assms(2,3), of ts d] assms(1) unfolding timers_ok_def Let_def by blast
  then have "timers_ok (filter (\<lambda>x. x \<notin> set posted) ts) t" using assms(1) by (auto simp: timers_ok_def polled_def)
  then show ?thesis using t(1) by (intro exI [of _ t] exI [of _ "filter (\<lambda>x. x \<notin> set posted) ts"]) auto
qed

section \<open>Properties\<close>

definition idle_timers :: "(unit, unit) ets" where
  "idle_timers = \<lparr>process_list = None, pnext = (\<lambda>_. None), state = (\<lambda>_. STATE_RUNNING), needspoll = (\<lambda>_. False), process_current = None,
     last_event = EVENT_MAX, events = replicate 32 \<lparr>ev = 0, data = No_Data, receiver = None\<rparr>, nevents = 0, fevent = 0,
     poll_requested = False, user = (), timers = \<lparr>head = None, link = (\<lambda>_. None)\<rparr>, next_expiration = 0,
     et_timer = (\<lambda>_. \<lparr>tm_start = 0, tm_interval = 0\<rparr>), et_p = (\<lambda>_. None), readings = (\<lambda>_. 0)\<rparr>"

lemma idle_timers_ok: "timers_ok [] idle_timers" "queue_ok idle_timers" "queue idle_timers = []" "stopped_at 0 idle_timers"
  by (simp_all add: timers_ok_def represents_def idle_timers_def queue_ok_def queue_def PROCESS_CONF_NUMEVENTS_def stopped_at_def)



text \<open>C28: A timer that a process sets for some ticks is reported to that process by a poll, and reads as expired, exactly if
  that many ticks have passed, for any time up to the wrap of the clock, as long as the queue has room for all that is pending.\<close>

theorem timer_fires_on_time:
  assumes "timers_ok ts s" "process_current s = Some c" "et \<notin> set ts" "etimer_set et iv s = Some t"
    and "timers u = timers t" "et_p u = et_p t" "et_timer u = et_timer t" "stopped_at (readings s 0 + of_nat n) u"
    and "queue_ok u" "length (queue u) + Suc (length ts) \<le> PROCESS_CONF_NUMEVENTS" "n < 2 ^ 16 - 1"
  shows "\<exists>v es. etimer_event EVENT_POLL d u = Some v \<and> queue v = queue u @ es \<and>
    (\<lparr>ev = EVENT_TIMER, data = Etimer et, receiver = Some c\<rparr> \<in> set es \<longleftrightarrow> unat iv \<le> n) \<and> (etimer_expired et v \<longleftrightarrow> unat iv \<le> n)"
proof -
  let ?now = "readings s 0 + of_nat n"
  have t: "timers_ok (et # ts) t" "et_p t = (et_p s)(et := Some c)" "et_timer t et = timer_set (readings s 0) iv (et_timer s et)"
    using setters_ok(1) [OF assms(1,2), of et iv] assms(3,4) by auto
  then have r: "represents (timers u) (et # ts)" by (simp add: timers_ok_def assms(5))
  let ?ex = "expired_in ?now u (et # ts)"
  have all: "take (PROCESS_CONF_NUMEVENTS - length (queue u)) ?ex = ?ex"
    using assms(10) length_filter_le [of "\<lambda>x. timer_expired ?now (et_timer u x)" "et # ts"] by (intro take_all) simp
  obtain v where v: "etimer_event EVENT_POLL d u = Some v" "queue v = queue u @ map (timer_event u) ?ex"
      "et_p v = (\<lambda>x. if x \<in> set ?ex then None else et_p u x)"
    using etimer_poll [OF assms(8,9) r, of d] unfolding Let_def all polled_def by blast
  have fires: "et \<in> set ?ex \<longleftrightarrow> unat iv \<le> n"
    using timer_expired_iff [of n "readings s 0" iv "et_timer s et"] assms(11) by (simp add: assms(7) t(3))
  have "\<lparr>ev = EVENT_TIMER, data = Etimer et, receiver = Some c\<rparr> \<in> set (map (timer_event u) ?ex) \<longleftrightarrow> et \<in> set ?ex"
    by (auto simp: timer_event_def assms(6) t(2) image_iff)
  moreover have "etimer_expired et v \<longleftrightarrow> et \<in> set ?ex" by (simp add: etimer_expired_def v(3) assms(6) t(2))
  ultimately show ?thesis using v fires by (intro exI [of _ v] exI [of _ "map (timer_event u) ?ex"]) simp
qed

theorem timer_fires_on_time_witness:
  "\<exists>t v es. etimer_set 5 3 (idle_timers\<lparr>process_current := Some 2\<rparr>) = Some t \<and>
     etimer_event EVENT_POLL No_Data (t\<lparr>readings := (\<lambda>_. 4)\<rparr>) = Some v \<and> queue v = queue t @ es \<and>
     \<lparr>ev = EVENT_TIMER, data = Etimer 5, receiver = Some 2\<rparr> \<in> set es"
proof -
  let ?s = "idle_timers\<lparr>process_current := Some 2\<rparr>"
  have s: "timers_ok [] ?s" using idle_timers_ok(1) by (simp add: timers_ok_def)
  obtain t where t: "etimer_set 5 3 ?s = Some t" using setters_ok(1) [OF s, of 2 5 3] by auto
  have "queue t = [] \<and> queue_ok t"
    using t by (auto simp: etimer_set_def add_timer_def update_time_def read_clock_def set_timer_def idle_timers_def
        etimer_request_poll_def process_poll_def STATE_RUNNING_def min_distance.simps queue_def queue_ok_def PROCESS_CONF_NUMEVENTS_def)
  then show ?thesis
    using timer_fires_on_time [OF s _ _ t, where u = "t\<lparr>readings := (\<lambda>_. 4)\<rparr>" and n = 4 and d = No_Data] t
    by (auto simp: stopped_at_def idle_timers_def PROCESS_CONF_NUMEVENTS_def queue_def queue_ok_def)
qed

text \<open>C29: The pending timers stay a list, each with a process, under every operation of a process: setting, resetting and
  restarting add a timer once, stopping takes it off, an exited process loses its timers and no others, a poll only takes
  timers off. Outside of processes this fails: a timer set twice becomes its own successor and the second call does not return.\<close>

theorem pending_timers_stay_a_list:
  fixes et :: nat
  assumes "timers_ok ts s" "process_current s = Some c"
  defines "ts' \<equiv> (if et \<in> set ts then ts else et # ts)"
  shows "(\<exists>t. etimer_set et iv s = Some t \<and> timers_ok ts' t) \<and> (\<exists>t. etimer_reset et s = Some t \<and> timers_ok ts' t) \<and>
    (\<exists>t. etimer_restart et s = Some t \<and> timers_ok ts' t) \<and> (\<exists>t. etimer_adjust et dt s = Some t \<and> timers_ok ts t) \<and>
    (\<exists>t. etimer_stop et s = Some t \<and> timers_ok (remove1 et ts) t) \<and>
    (\<exists>t. etimer_event EVENT_EXITED (Process q) s = Some t \<and> timers_ok (filter (\<lambda>x. et_p s x \<noteq> Some q) ts) t) \<and>
    (stopped_at now s \<and> queue_ok s \<longrightarrow> (\<exists>t ls. etimer_event EVENT_POLL d s = Some t \<and> timers_ok ls t \<and> set ls \<subseteq> set ts)) \<and>
    (et \<notin> set ts \<and> et_p s et = None \<longrightarrow>
       (\<exists>t. etimer_set et i (s\<lparr>process_current := None\<rparr>) = Some t \<and> etimer_set et j t = None))"
proof -
  have "represents (timers (s\<lparr>process_current := None\<rparr>)) ts" using assms(1) by (simp add: timers_ok_def)
  from set_outside_process [OF this, of et i j]
  have "et \<notin> set ts \<and> et_p s et = None \<longrightarrow>
       (\<exists>t. etimer_set et i (s\<lparr>process_current := None\<rparr>) = Some t \<and> etimer_set et j t = None)" by auto
  then show ?thesis
    using setters_ok(1) [OF assms(1,2), of et iv] setters_ok(2,3) [OF assms(1,2), of et] adjust_ok [OF assms(1), of et dt] stop_ok [OF assms(1), of et]
      exited_ok [OF assms(1), of q] poll_ok [OF assms(1), of now d] unfolding ts'_def by blast
qed

theorem pending_timers_stay_a_list_witness:
  "(\<exists>t. etimer_set 5 3 (idle_timers\<lparr>process_current := Some 2\<rparr>) = Some t \<and> timers_ok [5] t) \<and>
   (\<exists>t. etimer_set 5 3 (idle_timers\<lparr>process_current := None\<rparr>) = Some t \<and> etimer_set 5 4 t = None)"
proof -
  have s: "timers_ok [] (idle_timers\<lparr>process_current := Some 2\<rparr>)" using idle_timers_ok(1) by (simp add: timers_ok_def)
  have "et_p (idle_timers\<lparr>process_current := Some 2\<rparr>) 5 = None" by (simp add: idle_timers_def)
  then show ?thesis using pending_timers_stay_a_list [OF s, where c = 2 and et = 5 and iv = 3 and i = 3 and j = 4] by simp
qed

end
