(* ===== verification/Ctimer.thy ===== *)
theory Ctimer
  imports Etimer
begin

text \<open>
  Callback timers (\<^verbatim>\<open>core/sys/ctimer.c\<close>): a process that owns an event timer for each of them and calls
  a function when its event comes, in the context of the process that set the timer. The functions
  are the applications' code, an argument \<open>call\<close> here; a call that does not return is \<open>None\<close>.
\<close>

section \<open>State\<close>

record ('a, 'u) cts = "('a, 'u) ets" +
  ctimers :: "nat linked"          \<comment> \<open>\<open>ctimer_list\<close>\<close>
  initialized :: bool
  ct_p :: "nat \<Rightarrow> nat option"
  ct_f :: "nat \<Rightarrow> nat option"      \<comment> \<open>\<open>None\<close> is a null pointer\<close>
  ct_ptr :: "nat \<Rightarrow> nat"

text \<open>The event timer inside a callback timer lies behind its pointer \<open>next\<close>, of two bytes.\<close>

definition ct_etimer :: "nat \<Rightarrow> nat" where "ct_etimer c = c + 2"

definition ctimer_process :: nat where "ctimer_process = 1"

type_synonym 's callee = "nat \<Rightarrow> nat \<Rightarrow> 's \<Rightarrow> 's option"

text \<open>\<open>PROCESS_CONTEXT_BEGIN\<close> and \<open>PROCESS_CONTEXT_END\<close> around a call.\<close>

definition in_context ::
    "nat option \<Rightarrow> (('a, 'u, 'z) cts_scheme \<Rightarrow> ('a, 'u, 'z) cts_scheme option) \<Rightarrow> ('a, 'u, 'z) cts_scheme \<Rightarrow> ('a, 'u, 'z) cts_scheme option" where
  "in_context p m s =
     (let tmp_current = process_current s
      in map_option (\<lambda>s. s\<lparr>process_current := tmp_current\<rparr>) (m (s\<lparr>process_current := p\<rparr>)))"

section \<open>Operations\<close>

definition ctimer_relist :: "nat \<Rightarrow> ('a, 'u, 'z) cts_scheme \<Rightarrow> ('a, 'u, 'z) cts_scheme option" where
  "ctimer_relist c s =
     do { l \<leftarrow> list_remove c (ctimers s);
          l \<leftarrow> list_add c l;
          Some (s\<lparr>ctimers := l\<rparr>) }"

definition ctimer_set :: "nat \<Rightarrow> u16 \<Rightarrow> nat option \<Rightarrow> nat \<Rightarrow> ('a, 'u, 'z) cts_scheme \<Rightarrow> ('a, 'u, 'z) cts_scheme option" where
  "ctimer_set c t f ptr s =
     (let s = s\<lparr>ct_p := (ct_p s)(c := process_current s), ct_f := (ct_f s)(c := f), ct_ptr := (ct_ptr s)(c := ptr)\<rparr> in
      do { s \<leftarrow> (if initialized s then in_context (Some ctimer_process) (etimer_set (ct_etimer c) t) s
                else Some (set_timer (ct_etimer c) ((et_timer s (ct_etimer c))\<lparr>tm_interval := t\<rparr>) s));
           ctimer_relist c s })"

definition ctimer_reset :: "nat \<Rightarrow> ('a, 'u, 'z) cts_scheme \<Rightarrow> ('a, 'u, 'z) cts_scheme option" where
  "ctimer_reset c s =
     do { s \<leftarrow> (if initialized s then in_context (Some ctimer_process) (etimer_reset (ct_etimer c)) s else Some s);
          ctimer_relist c s }"

definition ctimer_restart :: "nat \<Rightarrow> ('a, 'u, 'z) cts_scheme \<Rightarrow> ('a, 'u, 'z) cts_scheme option" where
  "ctimer_restart c s =
     do { s \<leftarrow> (if initialized s then in_context (Some ctimer_process) (etimer_restart (ct_etimer c)) s else Some s);
          ctimer_relist c s }"

definition ctimer_stop :: "nat \<Rightarrow> ('a, 'u, 'z) cts_scheme \<Rightarrow> ('a, 'u, 'z) cts_scheme option" where
  "ctimer_stop c s =
     do { s \<leftarrow> (if initialized s then etimer_stop (ct_etimer c) s
                else Some (s\<lparr>timers := (timers s)\<lparr>link := (et_next s)(ct_etimer c := None)\<rparr>, et_p := (et_p s)(ct_etimer c := None)\<rparr>));
          l \<leftarrow> list_remove c (ctimers s);
          Some (s\<lparr>ctimers := l\<rparr>) }"

definition ctimer_expired :: "nat \<Rightarrow> ('a, 'u, 'z) cts_scheme \<Rightarrow> bool option" where
  "ctimer_expired c s =
     (if initialized s then Some (etimer_expired (ct_etimer c) s)
      else map_option Not (on_list (link (ctimers s)) (head (ctimers s)) c))"

section \<open>The process\<close>

definition ctimer_init ::
    "('a, 'u, ('a, 'u, 'z) cts_scheme) runner \<Rightarrow> ('a, 'u) program \<Rightarrow> ('a, 'u, 'z) cts_scheme \<Rightarrow> ('a, 'u, 'z) cts_scheme option" where
  "ctimer_init go P s =
     (let s = s\<lparr>initialized := False, ctimers := list_init (ctimers s)\<rparr> in map_option snd (process_start go P ctimer_process No_Data s))"

text \<open>At the start of the process the timers that were set before are started.\<close>

partial_function (option) start_timers :: "nat option \<Rightarrow> ('a, 'u, 'z) cts_scheme \<Rightarrow> ('a, 'u, 'z) cts_scheme option" where
  "start_timers c s =
     (case c of
        None \<Rightarrow> Some s
      | Some x \<Rightarrow> do { s \<leftarrow> etimer_set (ct_etimer x) (tm_interval (et_timer s (ct_etimer x))) s;
                       start_timers (link (ctimers s) x) s })"

definition ctimer_start :: "('a, 'u, 'z) cts_scheme \<Rightarrow> ('a, 'u, 'z) cts_scheme option" where
  "ctimer_start s = do { s \<leftarrow> start_timers (head (ctimers s)) s; Some (s\<lparr>initialized := True\<rparr>) }"

text \<open>The loop that looks for the timer of an event.\<close>

partial_function (option) find_timer :: "(nat \<Rightarrow> nat option) \<Rightarrow> nat option \<Rightarrow> 'a pdata \<Rightarrow> nat option option" where
  "find_timer nx c d =
     (case c of None \<Rightarrow> Some None | Some x \<Rightarrow> (if d = Etimer (ct_etimer x) then Some (Some x) else find_timer nx (nx x) d))"

definition ctimer_event ::
    "('a, 'u, 'z) cts_scheme callee \<Rightarrow> u8 \<Rightarrow> 'a pdata \<Rightarrow> ('a, 'u, 'z) cts_scheme \<Rightarrow> ('a, 'u, 'z) cts_scheme option" where
  "ctimer_event call e d s =
     (if e = EVENT_TIMER then
        do { c \<leftarrow> find_timer (link (ctimers s)) (head (ctimers s)) d;
             case c of
               None \<Rightarrow> Some s
             | Some x \<Rightarrow>
                 do { l \<leftarrow> list_remove x (ctimers s);
                      in_context (ct_p s x)
                        (\<lambda>s. case ct_f s x of None \<Rightarrow> Some s | Some f \<Rightarrow> call f (ct_ptr s x) s) (s\<lparr>ctimers := l\<rparr>) } }
      else Some s)"


section \<open>What the event timers leave alone\<close>

lemma update_time_more: "update_time s = Some t \<Longrightarrow> ets.more t = ets.more s \<and> process_current t = process_current s"
  by (auto simp: update_time_def read_clock_def Let_def bind_eq_Some_conv split: option.splits)

lemma request_poll_more [simp]: "ets.more (etimer_request_poll s) = ets.more s"
  by (simp add: etimer_request_poll_def process_poll_def)

lemma add_timer_more: "add_timer et s = Some t \<Longrightarrow> ets.more t = ets.more s \<and> process_current t = process_current s"
  by (auto simp: add_timer_def Let_def bind_eq_Some_conv dest!: update_time_more split: if_splits)

lemma setters_more:
  "etimer_set et iv s = Some t \<Longrightarrow> ets.more t = ets.more s \<and> process_current t = process_current s"
  "etimer_reset et s = Some t \<Longrightarrow> ets.more t = ets.more s \<and> process_current t = process_current s"
  "etimer_restart et s = Some t \<Longrightarrow> ets.more t = ets.more s \<and> process_current t = process_current s"
  unfolding setters_add by (auto dest!: add_timer_more simp: set_timer_def read_clock_def)

lemma cts_of_more:
  "ets.more t = ets.more s \<Longrightarrow> ctimers t = ctimers s \<and> initialized t = initialized s \<and> ct_p t = ct_p s \<and> ct_f t = ct_f s \<and> ct_ptr t = ct_ptr s"
  by (cases t; cases s) simp

lemma timers_ok_context [simp]: "timers_ok ts (s\<lparr>process_current := p\<rparr>) = timers_ok ts s"
  by (simp add: timers_ok_def)

lemma timers_ok_cts [simp]:
  "timers_ok ts (s\<lparr>ctimers := l\<rparr>) = timers_ok ts s" "timers_ok ts (s\<lparr>ct_p := a, ct_f := b, ct_ptr := c\<rparr>) = timers_ok ts s"
  "timers_ok ts (s\<lparr>initialized := i\<rparr>) = timers_ok ts s"
  by (simp_all add: timers_ok_def)

section \<open>The list of callback timers\<close>

lemma relist_list:
  assumes "represents (ctimers s) cs"
  shows "\<exists>l. ctimer_relist c s = Some (s\<lparr>ctimers := l\<rparr>) \<and> represents l (remove1 c cs @ [c])"
proof -
  obtain l1 where l1: "list_remove c (ctimers s) = Some l1" "represents l1 (remove1 c cs)"
    using list_remove_represents [OF assms] by blast
  obtain l2 where l2: "list_add c l1 = Some l2" "represents l2 (remove1 c (remove1 c cs) @ [c])"
    using list_add_represents [OF l1(2)] by blast
  have "c \<notin> set (remove1 c cs)" using represents_distinct [OF assms] by simp
  then show ?thesis using l1(1) l2 by (intro exI [of _ l2]) (simp add: ctimer_relist_def remove1_idem)
qed

lemma find_timer_lseg:
  "lseg nx c cs \<Longrightarrow> find_timer nx c d = Some (find (\<lambda>x. d = Etimer (ct_etimer x)) cs)"
proof (induction cs arbitrary: c)
  case (Cons a cs)
  then show ?case by (auto simp: find_timer.simps [of nx "Some a"])
qed (simp add: find_timer.simps)

lemma find_own: "c \<in> set cs \<Longrightarrow> find (\<lambda>x. Etimer (ct_etimer c) = Etimer (ct_etimer x)) cs = Some c"
  by (induction cs) (auto simp: ct_etimer_def)

lemma find_other: "c \<notin> set cs \<Longrightarrow> find (\<lambda>x. Etimer (ct_etimer c) = Etimer (ct_etimer x)) cs = None"
  by (induction cs) (auto simp: ct_etimer_def)

text \<open>The event of a timer in the list: the timer is taken off, and its function is called in the context of its process.\<close>

definition run_callback ::
    "('a, 'u, 'z) cts_scheme callee \<Rightarrow> nat option \<Rightarrow> nat option \<Rightarrow> nat \<Rightarrow> ('a, 'u, 'z) cts_scheme \<Rightarrow> ('a, 'u, 'z) cts_scheme option" where
  "run_callback call p f ptr s = in_context p (\<lambda>s. case f of None \<Rightarrow> Some s | Some g \<Rightarrow> call g ptr s) s"

lemma timer_event_found:
  fixes s :: "('a, 'u, 'z) cts_scheme"
  assumes "represents (ctimers s) cs" "c \<in> set cs"
  shows "\<exists>l. represents l (remove1 c cs) \<and>
    ctimer_event call EVENT_TIMER (Etimer (ct_etimer c)) s = run_callback call (ct_p s c) (ct_f s c) (ct_ptr s c) (s\<lparr>ctimers := l\<rparr>)"
proof -
  obtain l where l: "list_remove c (ctimers s) = Some l" "represents l (remove1 c cs)"
    using list_remove_represents [OF assms(1)] by blast
  have "find_timer (link (ctimers s)) (head (ctimers s)) (Etimer (ct_etimer c) :: 'a pdata) = Some (Some c)"
    using find_timer_lseg [of "link (ctimers s)" "head (ctimers s)" cs "Etimer (ct_etimer c) :: 'a pdata"] assms find_own by (simp add: represents_def)
  then show ?thesis using l by (intro exI [of _ l]) (simp add: ctimer_event_def run_callback_def in_context_def split: option.split)
qed

lemma timer_event_ignored:
  fixes s :: "('a, 'u, 'z) cts_scheme"
  assumes "represents (ctimers s) cs" "c \<notin> set cs"
  shows "ctimer_event call EVENT_TIMER (Etimer (ct_etimer c)) s = Some s"
  using find_timer_lseg [of "link (ctimers s)" "head (ctimers s)" cs "Etimer (ct_etimer c) :: 'a pdata"] assms find_other
  by (simp add: represents_def ctimer_event_def)

text \<open>Setting and restarting once the process runs.\<close>

lemma ctimer_set_ok:
  assumes "initialized s" "represents (ctimers s) cs" "timers_ok ts s"
  shows "\<exists>t. ctimer_set c iv f ptr s = Some t \<and> represents (ctimers t) (remove1 c cs @ [c]) \<and> initialized t \<and>
    timers_ok (if ct_etimer c \<in> set ts then ts else ct_etimer c # ts) t \<and> process_current t = process_current s \<and>
    et_timer t = (et_timer s)(ct_etimer c := timer_set (readings s 0) iv (et_timer s (ct_etimer c))) \<and>
    ct_p t = (ct_p s)(c := process_current s) \<and> ct_f t = (ct_f s)(c := f) \<and> ct_ptr t = (ct_ptr s)(c := ptr)"
proof -
  define s1 where "s1 = s\<lparr>ct_p := (ct_p s)(c := process_current s), ct_f := (ct_f s)(c := f), ct_ptr := (ct_ptr s)(c := ptr)\<rparr>"
  have s1: "initialized s1" "timers_ok ts (s1\<lparr>process_current := Some ctimer_process\<rparr>)" "process_current s1 = process_current s"
    "ctimers s1 = ctimers s" "readings s1 = readings s" "et_timer s1 = et_timer s"
    using assms(1,3) by (simp_all add: s1_def)
  let ?s1 = "s1\<lparr>process_current := Some ctimer_process\<rparr>"
  obtain s2 where s2: "etimer_set (ct_etimer c) iv ?s1 = Some s2"
    "timers_ok (if ct_etimer c \<in> set ts then ts else ct_etimer c # ts) s2"
    "et_timer s2 = (et_timer s)(ct_etimer c := timer_set (readings s 0) iv (et_timer s (ct_etimer c)))"
    using setters_ok(1) [OF s1(2), of ctimer_process "ct_etimer c" iv] s1(5,6) by auto
  have more: "ctimers s2 = ctimers s" "initialized s2" "ct_p s2 = ct_p s1" "ct_f s2 = ct_f s1" "ct_ptr s2 = ct_ptr s1"
    using cts_of_more [of s2 ?s1] setters_more(1) [OF s2(1)] s1(1,4) by simp_all
  let ?s2 = "s2\<lparr>process_current := process_current s\<rparr>"
  obtain l where l: "ctimer_relist c ?s2 = Some (?s2\<lparr>ctimers := l\<rparr>)" "represents l (remove1 c cs @ [c])"
    using relist_list [of ?s2 cs c] assms(2) more(1) by auto
  have "ctimer_set c iv f ptr s = Some (?s2\<lparr>ctimers := l\<rparr>)"
    using s1(1,3) s2(1) l(1) by (simp add: ctimer_set_def s1_def [symmetric] in_context_def)
  then show ?thesis using l(2) s2(2,3) more by (simp add: s1_def)
qed

lemma ctimer_restart_ok:
  assumes "initialized s" "represents (ctimers s) cs" "timers_ok ts s"
  shows "\<exists>t. ctimer_restart c s = Some t \<and> represents (ctimers t) (remove1 c cs @ [c]) \<and>
    timers_ok (if ct_etimer c \<in> set ts then ts else ct_etimer c # ts) t \<and> process_current t = process_current s \<and>
    et_timer t (ct_etimer c) = timer_restart (readings s 0) (et_timer s (ct_etimer c)) \<and>
    ct_p t = ct_p s \<and> ct_f t = ct_f s \<and> ct_ptr t = ct_ptr s"
proof -
  let ?s1 = "s\<lparr>process_current := Some ctimer_process\<rparr>"
  have "timers_ok ts ?s1" using assms(3) by simp
  then obtain s2 where s2: "etimer_restart (ct_etimer c) ?s1 = Some s2"
    "timers_ok (if ct_etimer c \<in> set ts then ts else ct_etimer c # ts) s2"
    "et_timer s2 = (et_timer s)(ct_etimer c := timer_restart (readings s 0) (et_timer s (ct_etimer c)))"
    using setters_ok(3) [of ts ?s1 ctimer_process "ct_etimer c"] by auto
  have more: "ctimers s2 = ctimers s" "ct_p s2 = ct_p s" "ct_f s2 = ct_f s" "ct_ptr s2 = ct_ptr s"
    using cts_of_more [of s2 ?s1] setters_more(3) [OF s2(1)] by simp_all
  let ?s2 = "s2\<lparr>process_current := process_current s\<rparr>"
  obtain l where l: "ctimer_relist c ?s2 = Some (?s2\<lparr>ctimers := l\<rparr>)" "represents l (remove1 c cs @ [c])"
    using relist_list [of ?s2 cs c] assms(2) more(1) by auto
  have "ctimer_restart c s = Some (?s2\<lparr>ctimers := l\<rparr>)"
    using assms(1) s2(1) l(1) by (simp add: ctimer_restart_def in_context_def)
  then show ?thesis using l(2) s2(2,3) more by simp
qed

text \<open>Timers that were set before the process runs are started with it.\<close>

lemma start_timers_ok:
  assumes "lseg (link (ctimers s)) c cs" "timers_ok ts s" "process_current s = Some p"
  shows "\<exists>t ts'. start_timers c s = Some t \<and> timers_ok ts' t \<and> set ts' = set ts \<union> ct_etimer ` set cs \<and> ets.more t = ets.more s \<and>
    (\<forall>x. tm_interval (et_timer t x) = tm_interval (et_timer s x))"
  using assms
proof (induction cs arbitrary: c s ts)
  case Nil
  then show ?case by (auto simp: start_timers.simps)
next
  case (Cons a cs)
  let ?iv = "tm_interval (et_timer s (ct_etimer a))"
  obtain u where u: "etimer_set (ct_etimer a) ?iv s = Some u"
    "timers_ok (if ct_etimer a \<in> set ts then ts else ct_etimer a # ts) u"
    "et_timer u = (et_timer s)(ct_etimer a := timer_set (readings s 0) ?iv (et_timer s (ct_etimer a)))"
    using setters_ok(1) [OF Cons.prems(2,3), of "ct_etimer a" ?iv] by blast
  note m = setters_more(1) [OF u(1)]
  then have c: "ctimers u = ctimers s" "process_current u = Some p" using cts_of_more Cons.prems(3) by auto
  have "lseg (link (ctimers u)) (link (ctimers u) a) cs" using Cons.prems(1) c(1) by simp
  from Cons.IH [OF this u(2) c(2)] obtain t ts' where
    t: "start_timers (link (ctimers u) a) u = Some t" "timers_ok ts' t" "ets.more t = ets.more u"
      "set ts' = set (if ct_etimer a \<in> set ts then ts else ct_etimer a # ts) \<union> ct_etimer ` set cs"
      "\<forall>x. tm_interval (et_timer t x) = tm_interval (et_timer u x)" by blast
  have "start_timers c s = Some t" using Cons.prems(1) u(1) t(1) by (subst start_timers.simps) simp
  moreover have "set ts' = set ts \<union> ct_etimer ` set (a # cs)" using t(4) by (auto split: if_splits)
  ultimately show ?case using t(2,3,5) m u(3) by (intro exI [of _ t] exI [of _ ts']) (auto simp: timer_set_def)
qed


section \<open>Properties\<close>

text \<open>C30: Once a process has set a callback timer, the event of its event timer calls the function with the pointer that were
  given, once, in the context of that process, whichever timers were set meanwhile; afterwards the timer is not in the list
  any more, and further events of it have no effect.\<close>

theorem callback_runs_once:
  assumes "initialized s" "represents (ctimers s) cs" "timers_ok ts s" "ctimer_set c iv (Some f) ptr s = Some t"
    and "represents (ctimers u) ds" "c \<in> set ds" "ct_p u c = ct_p t c" "ct_f u c = ct_f t c" "ct_ptr u c = ct_ptr t c"
  shows "\<exists>l. represents l (remove1 c ds) \<and>
    ctimer_event call EVENT_TIMER (Etimer (ct_etimer c)) u =
      map_option (\<lambda>v. v\<lparr>process_current := process_current u\<rparr>)
        (call f ptr (u\<lparr>ctimers := l, process_current := process_current s\<rparr>)) \<and>
    (\<forall>v. ctimers v = l \<longrightarrow> ctimer_event call EVENT_TIMER (Etimer (ct_etimer c)) v = Some v)"
proof -
  have t: "ct_p t c = process_current s" "ct_f t c = Some f" "ct_ptr t c = ptr"
    using ctimer_set_ok [OF assms(1-3), of c iv "Some f" ptr] assms(4) by auto
  obtain l where l: "represents l (remove1 c ds)"
    "ctimer_event call EVENT_TIMER (Etimer (ct_etimer c)) u = run_callback call (ct_p u c) (ct_f u c) (ct_ptr u c) (u\<lparr>ctimers := l\<rparr>)"
    using timer_event_found [OF assms(5,6), of call] by blast
  have "c \<notin> set (remove1 c ds)" using represents_distinct [OF assms(5)] by simp
  then have "ctimer_event call EVENT_TIMER (Etimer (ct_etimer c)) v = Some v" if "ctimers v = l" for v
    using timer_event_ignored [of v "remove1 c ds" c call] l(1) that by simp
  then show ?thesis using l t assms(7-9) by (intro exI [of _ l]) (simp add: run_callback_def in_context_def)
qed

definition idle_ctimers :: "(unit, unit) cts" where
  "idle_ctimers = ets.extend (ets.truncate idle_timers) \<lparr>ctimers = \<lparr>head = None, link = (\<lambda>_. None)\<rparr>, initialized = True,
     ct_p = (\<lambda>_. None), ct_f = (\<lambda>_. None), ct_ptr = (\<lambda>_. 0)\<rparr>"

lemma idle_ctimers_ok: "initialized idle_ctimers" "represents (ctimers idle_ctimers) []" "timers_ok [] idle_ctimers"
  using idle_timers_ok(1) by (simp_all add: idle_ctimers_def cts.defs ets.defs represents_def timers_ok_def)

theorem callback_runs_once_witness:
  "\<exists>t v. ctimer_set 10 3 (Some 7) 42 (idle_ctimers\<lparr>process_current := Some 5\<rparr>) = Some t \<and>
     ctimer_event (\<lambda>f ptr s. Some (s\<lparr>ct_ptr := (\<lambda>_. f + ptr)\<rparr>)) EVENT_TIMER (Etimer 12) t = Some v \<and> ct_ptr v 0 = 49"
proof -
  let ?s = "idle_ctimers\<lparr>process_current := Some 5\<rparr>"
  have s: "initialized ?s" "represents (ctimers ?s) []" "timers_ok [] ?s" using idle_ctimers_ok by simp_all
  obtain t where t: "ctimer_set 10 3 (Some 7) 42 ?s = Some t" "represents (ctimers t) [10]"
    using ctimer_set_ok [OF s, of 10 3 "Some 7" 42] by auto
  have "ct_etimer 10 = 12" by (simp add: ct_etimer_def)
  then show ?thesis
    using callback_runs_once [OF s t(1,2), of "\<lambda>f ptr s. Some (s\<lparr>ct_ptr := (\<lambda>_. f + ptr)\<rparr>)"] t(1) by auto
qed

text \<open>C31: A callback timer that is restarted after its event was posted, but before the event was delivered, does not wait:
  the old event calls the function at once, although the timer has just been restarted, and takes the timer off the list,
  so that the event of the restarted timer is ignored.\<close>

theorem stale_event_calls_early:
  assumes "initialized s" "represents (ctimers s) cs" "timers_ok ts s" "c \<in> set cs" "ct_etimer c \<notin> set ts"
  shows "\<exists>t l. ctimer_restart c s = Some t \<and> \<not> etimer_expired (ct_etimer c) t \<and>
    et_timer t (ct_etimer c) = timer_restart (readings s 0) (et_timer s (ct_etimer c)) \<and>
    ctimer_event call EVENT_TIMER (Etimer (ct_etimer c)) t = run_callback call (ct_p s c) (ct_f s c) (ct_ptr s c) (t\<lparr>ctimers := l\<rparr>) \<and>
    (\<forall>v. ctimers v = l \<longrightarrow> ctimer_event call EVENT_TIMER (Etimer (ct_etimer c)) v = Some v)"
proof -
  obtain t where t: "ctimer_restart c s = Some t" "represents (ctimers t) (remove1 c cs @ [c])" "timers_ok (ct_etimer c # ts) t"
    "et_timer t (ct_etimer c) = timer_restart (readings s 0) (et_timer s (ct_etimer c))" "ct_p t = ct_p s" "ct_f t = ct_f s" "ct_ptr t = ct_ptr s"
    using ctimer_restart_ok [OF assms(1-3), of c] assms(5) by auto
  obtain l where l: "represents l (remove1 c (remove1 c cs @ [c]))"
    "ctimer_event call EVENT_TIMER (Etimer (ct_etimer c)) t = run_callback call (ct_p t c) (ct_f t c) (ct_ptr t c) (t\<lparr>ctimers := l\<rparr>)"
    using timer_event_found [OF t(2), of c call] by auto
  have "c \<notin> set (remove1 c (remove1 c cs @ [c]))" using represents_distinct [OF t(2)] by (simp add: remove1_append)
  then have "ctimer_event call EVENT_TIMER (Etimer (ct_etimer c)) v = Some v" if "ctimers v = l" for v
    using timer_event_ignored [of v _ c call] l(1) that by blast
  moreover have "\<not> etimer_expired (ct_etimer c) t" using t(3) by (simp add: timers_ok_def etimer_expired_def)
  ultimately show ?thesis using t l(2) by (intro exI [of _ t] exI [of _ l]) simp
qed

theorem stale_event_calls_early_witness:
  "\<exists>t. ctimer_restart 10 (idle_ctimers\<lparr>ctimers := \<lparr>head = Some 10, link = (\<lambda>_. None)\<rparr>\<rparr>) = Some t \<and> \<not> etimer_expired 12 t"
proof -
  let ?s = "idle_ctimers\<lparr>ctimers := \<lparr>head = Some 10, link = (\<lambda>_. None)\<rparr>\<rparr>"
  have "initialized ?s" "represents (ctimers ?s) [10]" "timers_ok [] ?s" using idle_ctimers_ok by (simp_all add: represents_def)
  from stale_event_calls_early [OF this, of 10] show ?thesis by (auto simp: ct_etimer_def)
qed

end
