(* ===== verification/Auto_Broadcast.thy ===== *)
theory Auto_Broadcast
  imports Ctimer
begin

text \<open>
  The process that broadcasts some values at intervals (\<^verbatim>\<open>value_broadcast.c\<close>), on top of the event timers and the
  callback timers. Every interval it gives each endpoint a callback timer with a random delay, so that the values of many devices
  do not collide; its callback broadcasts the value. The endpoints are those of the configuration, an argument.
\<close>

section \<open>State\<close>

text \<open>\<open>rands\<close> are the values that \<open>random_rand()\<close> is going to return. The static variables of the process are known by their addresses.\<close>

datatype vb_pc = Vb_Start | Vb_Paused | Vb_Waiting

record ('a, 'u) vbs = "('a, 'u) cts" +
  vb_pc :: vb_pc
  vb_listening :: bool       \<comment> \<open>the connection \<open>client_conn\<close> is there\<close>
  rands :: "nat \<Rightarrow> u16"

record vb_addresses =
  periodic :: nat
  backoff_timer :: "nat \<Rightarrow> nat"
  auto_eid :: "nat \<Rightarrow> nat"
  broadcast_value_ptr :: nat

definition VALUE_BROADCAST_AUTO_INTERVAL :: u16 where "VALUE_BROADCAST_AUTO_INTERVAL = 20"

definition EVENT_CONTINUE :: u8 where "EVENT_CONTINUE = 0x85"

definition SEND_INTERVAL :: u16 where "SEND_INTERVAL = CLOCK_SECOND * VALUE_BROADCAST_AUTO_INTERVAL"

section \<open>The process\<close>

definition random_rand :: "('a, 'u, 'z) vbs_scheme \<Rightarrow> u16 \<times> ('a, 'u, 'z) vbs_scheme" where
  "random_rand s = (rands s 0, s\<lparr>rands := (\<lambda>n. rands s (Suc n))\<rparr>)"

definition SEND_TIME :: "('a, 'u, 'z) vbs_scheme \<Rightarrow> u16 \<times> ('a, 'u, 'z) vbs_scheme" where
  "SEND_TIME s = (let (r, s) = random_rand s in (r mod SEND_INTERVAL, s))"

text \<open>The loop over the endpoints.\<close>

fun set_backoffs :: "vb_addresses \<Rightarrow> nat list \<Rightarrow> ('a, 'u, 'z) vbs_scheme \<Rightarrow> ('a, 'u, 'z) vbs_scheme option" where
  "set_backoffs A [] s = Some s"
| "set_backoffs A (i # is) s =
     (let (t, s) = SEND_TIME s
      in do { s \<leftarrow> ctimer_set (backoff_timer A i) t (Some (broadcast_value_ptr A)) (auto_eid A i) s; set_backoffs A is s })"

definition value_broadcast_event :: "vb_addresses \<Rightarrow> u32 list \<Rightarrow> u8 \<Rightarrow> ('a, 'u, 'z) vbs_scheme \<Rightarrow> ('a, 'u, 'z) vbs_scheme option" where
  "value_broadcast_event A auto_eids e s =
     (case vb_pc s of
        Vb_Start \<Rightarrow> Some ((snd (process_post (process_current s) EVENT_CONTINUE No_Data s))\<lparr>vb_pc := Vb_Paused\<rparr>)
      | Vb_Paused \<Rightarrow>
          (if e = EVENT_CONTINUE then etimer_set (periodic A) SEND_INTERVAL (s\<lparr>vb_listening := True, vb_pc := Vb_Waiting\<rparr>)
           else Some s)
      | Vb_Waiting \<Rightarrow>
          (if etimer_expired (periodic A) s then
             do { s \<leftarrow> etimer_reset (periodic A) s; set_backoffs A [0..<length auto_eids] s }
           else Some s))"

text \<open>The function \<open>broadcast_value_ptr\<close> among the functions that the callback timers call.\<close>

definition call_broadcast_value :: "vb_addresses \<Rightarrow> u32 list \<Rightarrow> (u32 \<Rightarrow> 's \<Rightarrow> 's option) \<Rightarrow> 's callee \<Rightarrow> 's callee" where
  "call_broadcast_value A auto_eids broadcast_value others f ptr s =
     (if f = broadcast_value_ptr A then
        (case find (\<lambda>i. auto_eid A i = ptr) [0..<length auto_eids] of
           Some i \<Rightarrow> broadcast_value (auto_eids ! i) s
         | None \<Rightarrow> None)
      else others f ptr s)"

section \<open>The interval\<close>

definition addresses_ok :: "vb_addresses \<Rightarrow> nat \<Rightarrow> bool" where
  "addresses_ok A n =
     (inj_on (backoff_timer A) {0..<n} \<and> inj_on (auto_eid A) {0..<n} \<and> periodic A \<notin> (\<lambda>i. ct_etimer (backoff_timer A i)) ` {0..<n})"

lemma ctimer_set_more:
  assumes "ctimer_set c iv f ptr s = Some t" "initialized s"
  shows "cts.more t = cts.more s"
proof -
  have e: "cts.more t = cts.more s" if "ets.more t = ets.more s" for t s :: "('a, 'b, 'c) cts_scheme" using that by (cases t; cases s) simp
  show ?thesis using assms
    by (auto simp: ctimer_set_def in_context_def Let_def bind_eq_Some_conv ctimer_relist_def dest!: setters_more(1) e)
qed

lemma send_interval: "SEND_INTERVAL = 2500"
  by (simp add: SEND_INTERVAL_def CLOCK_SECOND_def VALUE_BROADCAST_AUTO_INTERVAL_def)

text \<open>What the backoff timer of endpoint \<open>i\<close> is after the loop.\<close>

definition backoff_set :: "vb_addresses \<Rightarrow> nat option \<Rightarrow> nat \<Rightarrow> ('a, 'u, 'z) vbs_scheme \<Rightarrow> bool" where
  "backoff_set A p i s =
     (let c = backoff_timer A i in
      ct_p s c = p \<and> ct_f s c = Some (broadcast_value_ptr A) \<and> ct_ptr s c = auto_eid A i \<and> tm_interval (et_timer s (ct_etimer c)) < SEND_INTERVAL)"

lemma set_backoffs_ok:
  fixes s :: "('a, 'u, 'z) vbs_scheme"
  assumes "initialized s" "represents (ctimers s) cs" "timers_ok ts s" "distinct (map (backoff_timer A) is)"
  shows "\<exists>t cs' ts'. set_backoffs A is s = Some t \<and> initialized t \<and> represents (ctimers t) cs' \<and> timers_ok ts' t \<and> process_current t = process_current s \<and>
    set cs' = set cs \<union> backoff_timer A ` set is \<and> set ts' = set ts \<union> (\<lambda>i. ct_etimer (backoff_timer A i)) ` set is \<and>
    (\<forall>i \<in> set is. backoff_set A (process_current s) i t) \<and>
    (\<forall>i. backoff_timer A i \<notin> backoff_timer A ` set is \<longrightarrow> backoff_set A (process_current s) i t = backoff_set A (process_current s) i s) \<and>
    (\<forall>x. x \<notin> (\<lambda>i. ct_etimer (backoff_timer A i)) ` set is \<longrightarrow> et_timer t x = et_timer s x)"
  using assms
proof (induction "is" arbitrary: s cs ts)
  case Nil
  then show ?case by auto
next
  case (Cons i "is")
  let ?c = "backoff_timer A i" and ?u = "s\<lparr>rands := (\<lambda>n. rands s (Suc n))\<rparr>" and ?d = "rands s 0 mod SEND_INTERVAL"
  have u: "initialized ?u" "represents (ctimers ?u) cs" "timers_ok ts ?u" using Cons.prems(1-3) by (simp_all add: timers_ok_def)
  obtain v where v: "ctimer_set ?c ?d (Some (broadcast_value_ptr A)) (auto_eid A i) ?u = Some v" "represents (ctimers v) (remove1 ?c cs @ [?c])"
    "initialized v" "timers_ok (if ct_etimer ?c \<in> set ts then ts else ct_etimer ?c # ts) v" "process_current v = process_current s"
    "et_timer v = (et_timer s)(ct_etimer ?c := timer_set (readings s 0) ?d (et_timer s (ct_etimer ?c)))"
    "ct_p v = (ct_p s)(?c := process_current s)" "ct_f v = (ct_f s)(?c := Some (broadcast_value_ptr A))" "ct_ptr v = (ct_ptr s)(?c := auto_eid A i)"
    using ctimer_set_ok [OF u, of ?c ?d "Some (broadcast_value_ptr A)" "auto_eid A i"] by auto
  have d: "distinct (map (backoff_timer A) is)" "?c \<notin> backoff_timer A ` set is" using Cons.prems(4) by simp_all
  from Cons.IH [OF v(3,2,4) d(1)] obtain t cs' ts' where t: "set_backoffs A is v = Some t" "initialized t" "represents (ctimers t) cs'" "timers_ok ts' t"
    "process_current t = process_current v" "set cs' = set (remove1 ?c cs @ [?c]) \<union> backoff_timer A ` set is"
    "set ts' = set (if ct_etimer ?c \<in> set ts then ts else ct_etimer ?c # ts) \<union> (\<lambda>i. ct_etimer (backoff_timer A i)) ` set is"
    "\<forall>i \<in> set is. backoff_set A (process_current v) i t"
    "\<forall>i. backoff_timer A i \<notin> backoff_timer A ` set is \<longrightarrow> backoff_set A (process_current v) i t = backoff_set A (process_current v) i v"
    "\<forall>x. x \<notin> (\<lambda>i. ct_etimer (backoff_timer A i)) ` set is \<longrightarrow> et_timer t x = et_timer v x" by blast
  have r: "set_backoffs A (i # is) s = Some t" using v(1) t(1) by (simp add: SEND_TIME_def random_rand_def Let_def)
  have "?d < SEND_INTERVAL" by (simp add: send_interval word_mod_less_divisor)
  then have "backoff_set A (process_current s) i v" by (simp add: backoff_set_def Let_def v(6-9) timer_set_def)
  then have own: "\<forall>j \<in> set (i # is). backoff_set A (process_current s) j t" using t(8,9) d(2) v(5) by simp
  have "backoff_set A q j v = backoff_set A q j s" if "backoff_timer A j \<noteq> ?c" for q j
    using that by (simp add: backoff_set_def Let_def v(6-9) ct_etimer_def)
  then have others: "\<forall>j. backoff_timer A j \<notin> backoff_timer A ` set (i # is) \<longrightarrow> backoff_set A (process_current s) j t = backoff_set A (process_current s) j s"
    using t(9) v(5) by simp
  have frame: "\<forall>x. x \<notin> (\<lambda>i. ct_etimer (backoff_timer A i)) ` set (i # is) \<longrightarrow> et_timer t x = et_timer s x"
    using t(10) v(6) by simp
  have "distinct cs" using represents_distinct [OF Cons.prems(2)] .
  then have "set cs' = set cs \<union> backoff_timer A ` set (i # is)" using t(6) by auto
  moreover have "set ts' = set ts \<union> (\<lambda>i. ct_etimer (backoff_timer A i)) ` set (i # is)" using t(7) by auto
  ultimately show ?case using r t(2-5) v(5) own others frame by (intro exI [of _ t] exI [of _ cs'] exI [of _ ts'] conjI) simp_all
qed

lemma set_backoffs_pending:
  assumes "timers_ok ts s" "x \<in> set ts" shows "\<not> etimer_expired x s"
  using assms by (simp add: timers_ok_def etimer_expired_def)

text \<open>The event of a backoff timer broadcasts the value of its endpoint.\<close>

lemma find_address:
  assumes "inj_on f {0..<n}" "i < n" shows "find (\<lambda>j. f j = f i) [0..<n] = Some i"
proof -
  have "f j = f i \<longleftrightarrow> j = i" if "j < n" for j using assms that by (auto dest: inj_onD)
  then show ?thesis using assms(2) by (auto simp: find_Some_iff intro!: exI [of _ i])
qed

lemma backoff_callback:
  assumes "represents (ctimers u) ds" "backoff_timer A i \<in> set ds" "backoff_set A p i u" "addresses_ok A (length auto_eids)" "i < length auto_eids"
  shows "\<exists>l. represents l (remove1 (backoff_timer A i) ds) \<and>
    ctimer_event (call_broadcast_value A auto_eids broadcast_value others) EVENT_TIMER (Etimer (ct_etimer (backoff_timer A i))) u =
      in_context p (broadcast_value (auto_eids ! i)) (u\<lparr>ctimers := l\<rparr>)"
proof -
  have "find (\<lambda>j. auto_eid A j = auto_eid A i) [0..<length auto_eids] = Some i" using assms(4,5) by (intro find_address) (simp_all add: addresses_ok_def)
  then show ?thesis
    using timer_event_found [OF assms(1,2), of "call_broadcast_value A auto_eids broadcast_value others"] assms(3)
    by (auto simp: run_callback_def backoff_set_def Let_def call_broadcast_value_def in_context_def)
qed

section \<open>Properties\<close>

text \<open>C35: When the periodic timer has expired, the next event of any kind starts it again without drift and gives every configured endpoint a
  callback timer with a delay below the interval; when the event of such a timer comes, it broadcasts the value of that
  endpoint, in the context of the process, and takes the timer off the list.\<close>

theorem values_broadcast_every_interval:
  fixes s :: "('a, 'u, 'z) vbs_scheme"
  assumes "initialized s" "represents (ctimers s) cs" "timers_ok ts s" "process_current s = Some p" "addresses_ok A (length auto_eids)"
    and "vb_pc s = Vb_Waiting" "etimer_expired (periodic A) s"
  shows "\<exists>t ds. value_broadcast_event A auto_eids e s = Some t \<and> represents (ctimers t) ds \<and>
    \<not> etimer_expired (periodic A) t \<and> et_timer t (periodic A) = timer_reset (et_timer s (periodic A)) \<and>
    (\<forall>i < length auto_eids. backoff_timer A i \<in> set ds \<and> \<not> etimer_expired (ct_etimer (backoff_timer A i)) t \<and> backoff_set A (Some p) i t) \<and>
    (\<forall>i u es. i < length auto_eids \<and> backoff_set A (Some p) i u \<and> represents (ctimers u) es \<and> backoff_timer A i \<in> set es \<longrightarrow>
      (\<exists>l. represents l (remove1 (backoff_timer A i) es) \<and>
        ctimer_event (call_broadcast_value A auto_eids broadcast_value others) EVENT_TIMER (Etimer (ct_etimer (backoff_timer A i))) (u :: ('a, 'u, 'z) vbs_scheme) =
          in_context (Some p) (broadcast_value (auto_eids ! i)) (u\<lparr>ctimers := l\<rparr>)))"
proof -
  let ?is = "[0..<length auto_eids]" and ?P = "periodic A"
  obtain u where u: "etimer_reset ?P s = Some u" "timers_ok (if ?P \<in> set ts then ts else ?P # ts) u"
    "et_timer u = (et_timer s)(?P := timer_reset (et_timer s ?P))"
    using setters_ok(2) [OF assms(3,4), of ?P] by blast
  have "initialized u" "ctimers u = ctimers s" "process_current u = Some p"
    using setters_more(2) [OF u(1)] cts_of_more [of u s] assms(1,4) by simp_all
  moreover from this have "represents (ctimers u) cs" using assms(2) by simp
  moreover have "distinct (map (backoff_timer A) ?is)" using assms(5) by (simp add: distinct_map addresses_ok_def)
  ultimately obtain t ds ts' where t: "set_backoffs A ?is u = Some t" "represents (ctimers t) ds" "timers_ok ts' t"
    "set ds = set cs \<union> backoff_timer A ` set ?is"
    "set ts' = set (if ?P \<in> set ts then ts else ?P # ts) \<union> (\<lambda>i. ct_etimer (backoff_timer A i)) ` set ?is"
    "\<forall>i \<in> set ?is. backoff_set A (Some p) i t" "\<forall>x. x \<notin> (\<lambda>i. ct_etimer (backoff_timer A i)) ` set ?is \<longrightarrow> et_timer t x = et_timer u x"
    using set_backoffs_ok [of u cs _ A ?is, OF _ _ u(2)] by metis
  have "value_broadcast_event A auto_eids e s = Some t" using assms(6,7) u(1) t(1) by (simp add: value_broadcast_event_def)
  moreover have "?P \<in> set ts'" "\<And>i. i < length auto_eids \<Longrightarrow> ct_etimer (backoff_timer A i) \<in> set ts'" using t(5) by auto
  then have "\<not> etimer_expired ?P t" "\<And>i. i < length auto_eids \<Longrightarrow> \<not> etimer_expired (ct_etimer (backoff_timer A i)) t"
    using set_backoffs_pending [OF t(3)] by blast+
  moreover have "et_timer t ?P = timer_reset (et_timer s ?P)" using t(7) u(3) assms(5) by (simp add: addresses_ok_def)
  moreover have "\<forall>i < length auto_eids. backoff_timer A i \<in> set ds \<and> backoff_set A (Some p) i t" using t(4,6) by simp
  ultimately show ?thesis using t(2) backoff_callback [OF _ _ _ assms(5)] by (intro exI [of _ t] exI [of _ ds]) blast
qed

definition idle_broadcast :: "(unit, unit) vbs" where
  "idle_broadcast = cts.extend (idle_ctimers\<lparr>process_current := Some 5\<rparr>) \<lparr>vb_pc = Vb_Waiting, vb_listening = True, rands = (\<lambda>_. 0)\<rparr>"

theorem values_broadcast_every_interval_witness:
  "let A = \<lparr>periodic = 1, backoff_timer = (\<lambda>i. 100 + 20 * i), auto_eid = (\<lambda>i. 500 + 4 * i), broadcast_value_ptr = 9\<rparr>
   in \<exists>t. value_broadcast_event A [1, 2] EVENT_TIMER idle_broadcast = Some t \<and> backoff_set A (Some 5) 1 t"
proof -
  let ?A = "\<lparr>periodic = 1, backoff_timer = (\<lambda>i. 100 + 20 * i), auto_eid = (\<lambda>i. 500 + 4 * i), broadcast_value_ptr = 9\<rparr>"
  have s: "initialized idle_broadcast" "represents (ctimers idle_broadcast) []" "timers_ok [] idle_broadcast" "process_current idle_broadcast = Some 5"
    "vb_pc idle_broadcast = Vb_Waiting"
    using idle_ctimers_ok by (simp_all add: idle_broadcast_def cts.defs timers_ok_def)
  have e: "etimer_expired (periodic ?A) idle_broadcast"
    by (simp add: etimer_expired_def idle_broadcast_def idle_ctimers_def idle_timers_def cts.defs ets.defs)
  have a: "addresses_ok ?A (length [1, 2 :: u32])" by (auto simp: addresses_ok_def inj_on_def ct_etimer_def)
  obtain t where "value_broadcast_event ?A [1, 2] EVENT_TIMER idle_broadcast = Some t" "\<forall>i < length [1, 2 :: u32]. backoff_set ?A (Some 5) i t"
    using values_broadcast_every_interval [OF s(1-4) a s(5) e] by blast
  then show ?thesis unfolding Let_def by (intro exI [of _ t]) simp
qed

end
