(* ===== verification/I2c.thy ===== *)
theory I2c
  imports Prelude "HOL-Library.Monad_Syntax"
begin

text \<open>
  The two-wire bus (\<^verbatim>\<open>i2c/twimaster.c\<close>, \<^verbatim>\<open>i2c/i2c.c\<close>). The interface hardware is an argument: told to go on by a write to
  the control register, with a byte in the data register, it does what is asked on the bus and sets its flag, with a new status and
  perhaps a byte received. The driver waits for the flag in a busy loop; hardware that never sets it is not in the model.
\<close>

section \<open>The interface\<close>

type_synonym 'b twi_hw = "u8 \<Rightarrow> u8 \<Rightarrow> 'b \<Rightarrow> u8 \<times> u8 \<times> 'b"

record 'b twi =
  TWSR :: u8
  TWDR :: u8
  TWBR :: u8
  twi_bus :: 'b

definition TWINT :: u8 where "TWINT = 0x80"
definition TWEA :: u8 where "TWEA = 0x40"
definition TWSTA :: u8 where "TWSTA = 0x20"
definition TWSTO :: u8 where "TWSTO = 0x10"
definition TWEN :: u8 where "TWEN = 0x04"

definition TW_START :: u8 where "TW_START = 0x08"
definition TW_REP_START :: u8 where "TW_REP_START = 0x10"
definition TW_MT_SLA_ACK :: u8 where "TW_MT_SLA_ACK = 0x18"
definition TW_MT_SLA_NACK :: u8 where "TW_MT_SLA_NACK = 0x20"
definition TW_MT_DATA_ACK :: u8 where "TW_MT_DATA_ACK = 0x28"
definition TW_MR_SLA_ACK :: u8 where "TW_MR_SLA_ACK = 0x40"
definition TW_MR_DATA_NACK :: u8 where "TW_MR_DATA_NACK = 0x58"

definition I2C_READ :: u8 where "I2C_READ = 1"
definition I2C_WRITE :: u8 where "I2C_WRITE = 0"

text \<open>A write of the control register and the loop that waits for its flag.\<close>

definition set_TWCR :: "'b twi_hw \<Rightarrow> u8 \<Rightarrow> ('b, 'z) twi_scheme \<Rightarrow> ('b, 'z) twi_scheme" where
  "set_TWCR H c s = (let (st, d, b) = H c (TWDR s) (twi_bus s) in s\<lparr>TWSR := st, TWDR := d, twi_bus := b\<rparr>)"

definition TW_STATUS :: "('b, 'z) twi_scheme \<Rightarrow> u8" where
  "TW_STATUS s = TWSR s AND 0xF8"

section \<open>The driver\<close>

definition i2c_init :: "nat \<Rightarrow> ('b, 'z) twi_scheme \<Rightarrow> ('b, 'z) twi_scheme" where
  "i2c_init F_CPU s = s\<lparr>TWSR := 0, TWBR := of_int ((int F_CPU div 100000 - 16) div 2)\<rparr>"

text \<open>True is the result 1: no access.\<close>

definition i2c_start :: "'b twi_hw \<Rightarrow> u8 \<Rightarrow> ('b, 'z) twi_scheme \<Rightarrow> bool \<times> ('b, 'z) twi_scheme" where
  "i2c_start H address s =
     (let s = set_TWCR H (TWINT OR TWSTA OR TWEN) s; twst = TW_STATUS s in
      if twst \<noteq> TW_START \<and> twst \<noteq> TW_REP_START then (True, s)
      else (let s = set_TWCR H (TWINT OR TWEN) (s\<lparr>TWDR := address\<rparr>); twst = TW_STATUS s in
            if twst \<noteq> TW_MT_SLA_ACK \<and> twst \<noteq> TW_MR_SLA_ACK then (True, s) else (False, s)))"

definition i2c_rep_start :: "'b twi_hw \<Rightarrow> u8 \<Rightarrow> ('b, 'z) twi_scheme \<Rightarrow> bool \<times> ('b, 'z) twi_scheme" where
  "i2c_rep_start = i2c_start"

definition i2c_stop :: "'b twi_hw \<Rightarrow> ('b, 'z) twi_scheme \<Rightarrow> ('b, 'z) twi_scheme" where
  "i2c_stop H s = set_TWCR H (TWINT OR TWEN OR TWSTO) s"

partial_function (option) i2c_start_wait :: "'b twi_hw \<Rightarrow> u8 \<Rightarrow> ('b, 'z) twi_scheme \<Rightarrow> ('b, 'z) twi_scheme option" where
  "i2c_start_wait H address s =
     (let s = set_TWCR H (TWINT OR TWSTA OR TWEN) s; twst = TW_STATUS s in
      if twst \<noteq> TW_START \<and> twst \<noteq> TW_REP_START then i2c_start_wait H address s
      else (let s = set_TWCR H (TWINT OR TWEN) (s\<lparr>TWDR := address\<rparr>); twst = TW_STATUS s in
            if twst = TW_MT_SLA_NACK \<or> twst = TW_MR_DATA_NACK then i2c_start_wait H address (i2c_stop H s) else Some s))"

definition i2c_write :: "'b twi_hw \<Rightarrow> u8 \<Rightarrow> ('b, 'z) twi_scheme \<Rightarrow> bool \<times> ('b, 'z) twi_scheme" where
  "i2c_write H x s = (let s = set_TWCR H (TWINT OR TWEN) (s\<lparr>TWDR := x\<rparr>) in (TW_STATUS s \<noteq> TW_MT_DATA_ACK, s))"

definition i2c_readAck :: "'b twi_hw \<Rightarrow> ('b, 'z) twi_scheme \<Rightarrow> u8 \<times> ('b, 'z) twi_scheme" where
  "i2c_readAck H s = (let s = set_TWCR H (TWINT OR TWEN OR TWEA) s in (TWDR s, s))"

definition i2c_readNak :: "'b twi_hw \<Rightarrow> ('b, 'z) twi_scheme \<Rightarrow> u8 \<times> ('b, 'z) twi_scheme" where
  "i2c_readNak H s = (let s = set_TWCR H (TWINT OR TWEN) s in (TWDR s, s))"

section \<open>Transfers\<close>

text \<open>The result of \<open>i2c_write\<close> is dropped.\<close>

definition i2c_write_bytes :: "'b twi_hw \<Rightarrow> u8 \<Rightarrow> buf \<Rightarrow> ('b, 'z) twi_scheme \<Rightarrow> bool \<times> ('b, 'z) twi_scheme" where
  "i2c_write_bytes H address bs s =
     (let (failed, s) = i2c_start H (address + I2C_WRITE) s in
      if failed then (True, s) else (False, i2c_stop H (fold (\<lambda>x s. snd (i2c_write H x s)) bs s)))"

fun read_acked :: "'b twi_hw \<Rightarrow> nat \<Rightarrow> ('b, 'z) twi_scheme \<Rightarrow> buf \<times> ('b, 'z) twi_scheme" where
  "read_acked H 0 s = ([], s)"
| "read_acked H (Suc n) s = (let (x, s) = i2c_readAck H s; (xs, s) = read_acked H n s in (x # xs, s))"

text \<open>The bytes read, or \<open>None\<close> for the result 1, which leaves the buffer as it was.\<close>

definition i2c_read_bytes :: "'b twi_hw \<Rightarrow> u8 \<Rightarrow> u8 \<Rightarrow> ('b, 'z) twi_scheme \<Rightarrow> buf option \<times> ('b, 'z) twi_scheme" where
  "i2c_read_bytes H address len s =
     (if len < 1 then (None, s)
      else (let (failed, s) = i2c_start H (address + I2C_READ) s in
            if failed then (None, s)
            else (let (xs, s) = read_acked H (unat len - 1) s; (x, s) = i2c_readNak H s in (Some (xs @ [x]), i2c_stop H s))))"

lemmas i2c_defs = set_TWCR_def TW_STATUS_def i2c_start_def i2c_stop_def i2c_write_def i2c_readAck_def i2c_readNak_def

section \<open>Devices on the bus\<close>

text \<open>No device at an address: after the address the status is not an acknowledgement.\<close>

definition absent :: "'b twi_hw \<Rightarrow> u8 \<Rightarrow> bool" where
  "absent H addr =
     (\<forall>b. \<forall>d \<in> {addr + I2C_WRITE, addr + I2C_READ}. fst (H (TWINT OR TWEN) d b) AND 0xF8 \<notin> {TW_MT_SLA_ACK, TW_MR_SLA_ACK})"

text \<open>A device with a pointer to its registers, as the barometer is: the first byte written sets the pointer, reading moves it on. The phase of a transfer
  is a function of the bus.\<close>

datatype phase = Idle u8 | Started u8 | Selected u8 | Pointed u8 | Reading u8

fun register_pointer :: "phase \<Rightarrow> u8" where
  "register_pointer (Idle p) = p" | "register_pointer (Started p) = p" | "register_pointer (Selected p) = p"
| "register_pointer (Pointed p) = p" | "register_pointer (Reading p) = p"

definition register_device :: "'b twi_hw \<Rightarrow> ('b \<Rightarrow> phase) \<Rightarrow> u8 \<Rightarrow> (u8 \<Rightarrow> u8) \<Rightarrow> bool" where
  "register_device H ph addr regs =
     (\<forall>b d.
        (case H (TWINT OR TWSTA OR TWEN) d b of (st, _, b') \<Rightarrow> st AND 0xF8 \<in> {TW_START, TW_REP_START} \<and> ph b' = Started (register_pointer (ph b))) \<and>
        (case H (TWINT OR TWEN OR TWSTO) d b of (_, _, b') \<Rightarrow> ph b' = Idle (register_pointer (ph b))) \<and>
        (\<forall>c \<in> {TWINT OR TWEN, TWINT OR TWEN OR TWEA}. case H c d b of (st, d', b') \<Rightarrow>
           (case ph b of
              Started p \<Rightarrow> (d = addr + I2C_WRITE \<longrightarrow> st AND 0xF8 = TW_MT_SLA_ACK \<and> ph b' = Selected p) \<and>
                (d = addr + I2C_READ \<longrightarrow> st AND 0xF8 = TW_MR_SLA_ACK \<and> ph b' = Reading p)
            | Selected p \<Rightarrow> st AND 0xF8 = TW_MT_DATA_ACK \<and> ph b' = Pointed d
            | Reading p \<Rightarrow> d' = regs p \<and> ph b' = Reading (p + 1)
            | _ \<Rightarrow> True)))"

lemma absent_start: "absent H addr \<Longrightarrow> a \<in> {addr + I2C_WRITE, addr + I2C_READ} \<Longrightarrow> fst (i2c_start H a s)"
  by (auto simp: absent_def i2c_defs Let_def split_beta)

lemma absent_transfers:
  assumes "absent H addr"
  shows "fst (i2c_write_bytes H addr bs s)" "fst (i2c_read_bytes H addr n s) = None"
  using absent_start [OF assms] by (auto simp: i2c_write_bytes_def i2c_read_bytes_def split_beta Let_def)

abbreviation at_phase :: "('b \<Rightarrow> phase) \<Rightarrow> ('b, 'z) twi_scheme \<Rightarrow> phase" where "at_phase ph s \<equiv> ph (twi_bus s)"

lemma device_rules:
  assumes "register_device H ph addr regs"
  shows "fst (H (TWINT OR TWSTA OR TWEN) d b) AND 0xF8 \<in> {TW_START, TW_REP_START}"
    "ph (snd (snd (H (TWINT OR TWSTA OR TWEN) d b))) = Started (register_pointer (ph b))"
    "ph (snd (snd (H (TWINT OR TWEN OR TWSTO) d b))) = Idle (register_pointer (ph b))"
    "ph b = Started p \<Longrightarrow> fst (H (TWINT OR TWEN) (addr + I2C_WRITE) b) AND 0xF8 = TW_MT_SLA_ACK"
    "ph b = Started p \<Longrightarrow> ph (snd (snd (H (TWINT OR TWEN) (addr + I2C_WRITE) b))) = Selected p"
    "ph b = Started p \<Longrightarrow> fst (H (TWINT OR TWEN) (addr + I2C_READ) b) AND 0xF8 = TW_MR_SLA_ACK"
    "ph b = Started p \<Longrightarrow> ph (snd (snd (H (TWINT OR TWEN) (addr + I2C_READ) b))) = Reading p"
    "ph b = Selected p \<Longrightarrow> ph (snd (snd (H (TWINT OR TWEN) d b))) = Pointed d"
    "ph b = Reading p \<Longrightarrow> c \<in> {TWINT OR TWEN, TWINT OR TWEN OR TWEA} \<Longrightarrow> fst (snd (H c d b)) = regs p \<and> ph (snd (snd (H c d b))) = Reading (p + 1)"
proof -
  note r = assms [unfolded register_device_def, rule_format]
  show "fst (H (TWINT OR TWSTA OR TWEN) d b) AND 0xF8 \<in> {TW_START, TW_REP_START}"
    "ph (snd (snd (H (TWINT OR TWSTA OR TWEN) d b))) = Started (register_pointer (ph b))"
    "ph (snd (snd (H (TWINT OR TWEN OR TWSTO) d b))) = Idle (register_pointer (ph b))"
    using r [of b d] by (auto split: prod.splits)
  have s: "c \<in> {TWINT OR TWEN, TWINT OR TWEN OR TWEA} \<Longrightarrow> case ph b of
              Started p \<Rightarrow> (d = addr + I2C_WRITE \<longrightarrow> fst (H c d b) AND 0xF8 = TW_MT_SLA_ACK \<and> ph (snd (snd (H c d b))) = Selected p) \<and>
                (d = addr + I2C_READ \<longrightarrow> fst (H c d b) AND 0xF8 = TW_MR_SLA_ACK \<and> ph (snd (snd (H c d b))) = Reading p)
            | Selected p \<Rightarrow> fst (H c d b) AND 0xF8 = TW_MT_DATA_ACK \<and> ph (snd (snd (H c d b))) = Pointed d
            | Reading p \<Rightarrow> fst (snd (H c d b)) = regs p \<and> ph (snd (snd (H c d b))) = Reading (p + 1)
            | _ \<Rightarrow> True" for c d b using r [of b d] by (elim insertE emptyE; hypsubst) (simp_all add: split_beta)
  show "ph b = Started p \<Longrightarrow> fst (H (TWINT OR TWEN) (addr + I2C_WRITE) b) AND 0xF8 = TW_MT_SLA_ACK"
    "ph b = Started p \<Longrightarrow> ph (snd (snd (H (TWINT OR TWEN) (addr + I2C_WRITE) b))) = Selected p"
    "ph b = Started p \<Longrightarrow> fst (H (TWINT OR TWEN) (addr + I2C_READ) b) AND 0xF8 = TW_MR_SLA_ACK"
    "ph b = Started p \<Longrightarrow> ph (snd (snd (H (TWINT OR TWEN) (addr + I2C_READ) b))) = Reading p"
    "ph b = Selected p \<Longrightarrow> ph (snd (snd (H (TWINT OR TWEN) d b))) = Pointed d"
    using s [of "TWINT OR TWEN" "addr + I2C_WRITE" b] s [of "TWINT OR TWEN" "addr + I2C_READ" b] s [of "TWINT OR TWEN" d b] by simp_all
  show "ph b = Reading p \<Longrightarrow> c \<in> {TWINT OR TWEN, TWINT OR TWEN OR TWEA} \<Longrightarrow> fst (snd (H c d b)) = regs p \<and> ph (snd (snd (H c d b))) = Reading (p + 1)"
    using s [of c d b] by simp
qed

lemma device_start:
  assumes "register_device H ph addr regs"
  shows "\<not> fst (i2c_start H (addr + I2C_WRITE) s)" "at_phase ph (snd (i2c_start H (addr + I2C_WRITE) s)) = Selected (register_pointer (at_phase ph s))"
    and "\<not> fst (i2c_start H (addr + I2C_READ) s)" "at_phase ph (snd (i2c_start H (addr + I2C_READ) s)) = Reading (register_pointer (at_phase ph s))"
  using device_rules(1,2) [OF assms, of "TWDR s" "twi_bus s"] device_rules(4-7) [OF assms]
  by (auto simp: i2c_start_def set_TWCR_def TW_STATUS_def Let_def split_beta)

lemma device_stop:
  "register_device H ph addr regs \<Longrightarrow> at_phase ph (i2c_stop H s) = Idle (register_pointer (at_phase ph s))"
  using device_rules(3) by (simp add: i2c_stop_def set_TWCR_def Let_def split_beta)

lemma device_pointed:
  "register_device H ph addr regs \<Longrightarrow> at_phase ph s = Selected p \<Longrightarrow> at_phase ph (snd (i2c_write H a s)) = Pointed a"
  using device_rules(8) by (fastforce simp: i2c_write_def set_TWCR_def Let_def split_beta)

lemma device_read:
  assumes "register_device H ph addr regs" "at_phase ph s = Reading p"
  shows "fst (i2c_readAck H s) = regs p" "at_phase ph (snd (i2c_readAck H s)) = Reading (p + 1)"
    and "fst (i2c_readNak H s) = regs p" "at_phase ph (snd (i2c_readNak H s)) = Reading (p + 1)"
  using device_rules(9) [OF assms] by (simp_all add: i2c_readAck_def i2c_readNak_def set_TWCR_def Let_def split_beta)

lemma device_write_pointer:
  assumes "register_device H ph addr regs"
  shows "\<not> fst (i2c_write_bytes H addr [a] s)" "at_phase ph (snd (i2c_write_bytes H addr [a] s)) = Idle a"
  using device_start(1,2) [OF assms, of s] device_pointed [OF assms device_start(2) [OF assms, of s], of a]
  by (simp_all add: device_stop [OF assms] i2c_write_bytes_def split_beta Let_def)

lemma device_read_acked:
  assumes "register_device H ph addr regs" "at_phase ph s = Reading p"
  shows "fst (read_acked H n s) = map (\<lambda>i. regs (p + of_nat i)) [0..<n] \<and> at_phase ph (snd (read_acked H n s)) = Reading (p + of_nat n)"
  using assms(2)
proof (induction n arbitrary: s p)
  case (Suc n)
  note r = device_read(1,2) [OF assms(1) Suc.prems]
  have "map (\<lambda>i. regs (p + of_nat i)) [0..<Suc n] = regs p # map (\<lambda>i. regs (p + 1 + of_nat i)) [0..<n]"
    by (simp add: upt_conv_Cons map_Suc_upt [symmetric] comp_def algebra_simps del: upt_Suc)
  then show ?case using r Suc.IH [OF r(2)] by (simp add: split_beta algebra_simps)
qed simp

text \<open>Reading the registers from the pointer on.\<close>

lemma device_read_bytes:
  assumes "register_device H ph addr regs" "0 < n"
  shows "fst (i2c_read_bytes H addr n s) = Some (map (\<lambda>i. regs (register_pointer (at_phase ph s) + of_nat i)) [0..<unat n])"
proof -
  let ?t = "snd (i2c_start H (addr + I2C_READ) s)" and ?p = "register_pointer (at_phase ph s)"
  have n: "unat n = Suc (unat n - 1)" using assms(2) by (simp add: unat_gt_0)
  note a = device_read_acked [OF assms(1) device_start(4) [OF assms(1), of s], of "unat n - 1"]
  have "\<not> n < 1" using assms(2) by (simp add: word_less_1 word_gt_0)
  then have "fst (i2c_read_bytes H addr n s) = Some (map (\<lambda>i. regs (?p + of_nat i)) [0..<unat n - 1] @ [regs (?p + of_nat (unat n - 1))])"
    using device_start(3) [OF assms(1), of s] a device_read(3) [OF assms(1) conjunct2 [OF a]]
    by (simp add: i2c_read_bytes_def split_beta Let_def)
  also have "\<dots> = Some (map (\<lambda>i. regs (?p + of_nat i)) [0..<unat n])" by (subst (3) n) simp
  finally show ?thesis .
qed

end
