(* ===== verification/Barometer.thy ===== *)
theory Barometer
  imports I2c Devices "HOL-Library.Signed_Division"
begin

text \<open>
  The barometer (\<^verbatim>\<open>pressure/pressure.c\<close>): a BMP085 on the two-wire bus, its calibration, the process that measures the
  temperature and the pressure in turn, and the endpoint. What signed overflow or a division by zero would make
  of the compensation is not defined in C: \<open>None\<close>.
\<close>

section \<open>State\<close>

definition BMP085_ADDR :: u8 where "BMP085_ADDR = 0xEE"
definition BMP085_CONTROL :: u8 where "BMP085_CONTROL = 0xF4"
definition BMP085_VALUE :: u8 where "BMP085_VALUE = 0xF6"
definition BMP085_VALUE_XLSB :: u8 where "BMP085_VALUE_XLSB = 0xF8"
definition BMP085_CONV_TEMPERATURE :: u8 where "BMP085_CONV_TEMPERATURE = 0x2E"
definition BMP085_CONV_PRESSURE :: u8 where "BMP085_CONV_PRESSURE = 0x34"
definition PRESSURE_READ_DELAY :: nat where "PRESSURE_READ_DELAY = 30"
definition PRESSURE_READ_TEMP_DELAY :: nat where "PRESSURE_READ_TEMP_DELAY = 10"
definition PRESSURE_OVERSAMPLING :: nat where "PRESSURE_OVERSAMPLING = 2"

record calibration =
  ac1 :: i16
  ac2 :: i16
  ac3 :: i16
  ac4 :: u16
  ac5 :: u16
  ac6 :: u16
  b1 :: i16
  b2 :: i16
  mb :: i16
  mc :: i16
  md :: i16

datatype baro_pc = Baro_Start | Baro_Temperature | Baro_Pressure | Baro_Pause

record 'b baro = "'b twi" +
  calib :: calibration
  pressure :: u32          \<comment> \<open>an \<open>int32_t\<close>\<close>
  pressure_temp :: f32
  read_delay_timer :: app_timer
  ut :: u16
  up :: u32
  baro_pc :: baro_pc

section \<open>Registers\<close>

definition pressure_read16 :: "'b twi_hw \<Rightarrow> u8 \<Rightarrow> ('b, 'z) twi_scheme \<Rightarrow> u16 \<times> ('b, 'z) twi_scheme" where
  "pressure_read16 H addr s =
     (let (failed, s) = i2c_write_bytes H BMP085_ADDR [addr] s in
      if failed then (0, s)
      else (let (val, s) = i2c_read_bytes H BMP085_ADDR 2 s
            in (case val of None \<Rightarrow> 0 | Some v \<Rightarrow> push_bit 8 (ucast (v ! 0)) OR ucast (v ! 1), s)))"

definition pressure_read8 :: "'b twi_hw \<Rightarrow> u8 \<Rightarrow> ('b, 'z) twi_scheme \<Rightarrow> u8 \<times> ('b, 'z) twi_scheme" where
  "pressure_read8 H addr s =
     (let (failed, s) = i2c_write_bytes H BMP085_ADDR [addr] s in
      if failed then (0, s)
      else (let (val, s) = i2c_read_bytes H BMP085_ADDR 1 s in (case val of None \<Rightarrow> 0 | Some v \<Rightarrow> v ! 0, s)))"

text \<open>The part of \<open>pressure_init\<close> after the registration of the endpoint.\<close>

definition load_coefficient :: "'b twi_hw \<Rightarrow> u8 \<Rightarrow> (u16 \<Rightarrow> calibration \<Rightarrow> calibration) \<Rightarrow> ('b, 'z) baro_scheme \<Rightarrow> ('b, 'z) baro_scheme" where
  "load_coefficient H a set_field s = (let (x, s) = pressure_read16 H a s in s\<lparr>calib := set_field x (calib s)\<rparr>)"

definition pressure_init :: "'b twi_hw \<Rightarrow> ('b, 'z) baro_scheme \<Rightarrow> ('b, 'z) baro_scheme" where
  "pressure_init H s =
     fold (\<lambda>(a, set_field). load_coefficient H a set_field)
       [(0xAA, \<lambda>x c. c\<lparr>ac1 := x\<rparr>), (0xAC, \<lambda>x c. c\<lparr>ac2 := x\<rparr>), (0xAE, \<lambda>x c. c\<lparr>ac3 := x\<rparr>),
        (0xB0, \<lambda>x c. c\<lparr>ac4 := x\<rparr>), (0xB2, \<lambda>x c. c\<lparr>ac5 := x\<rparr>), (0xB4, \<lambda>x c. c\<lparr>ac6 := x\<rparr>),
        (0xB6, \<lambda>x c. c\<lparr>b1 := x\<rparr>), (0xB8, \<lambda>x c. c\<lparr>b2 := x\<rparr>), (0xBA, \<lambda>x c. c\<lparr>mb := x\<rparr>),
        (0xBC, \<lambda>x c. c\<lparr>mc := x\<rparr>), (0xBE, \<lambda>x c. c\<lparr>md := x\<rparr>)] s"

section \<open>The compensation\<close>

text \<open>The result of an operation on \<open>int32_t\<close>.\<close>

definition i32 :: "int \<Rightarrow> int option" where
  "i32 x = (if - (2 ^ 31) \<le> x \<and> x < 2 ^ 31 then Some x else None)"

definition div32 :: "int \<Rightarrow> int \<Rightarrow> int option" where
  "div32 x y = (if y = 0 then None else i32 (x sdiv y))"

text \<open>The sum of \<open>x1\<close> and \<open>x2\<close> of the temperature.\<close>

definition temperature_sum :: "calibration \<Rightarrow> int \<Rightarrow> int option" where
  "temperature_sum c t =
     do { d \<leftarrow> i32 (t - uint (ac6 c));
          d \<leftarrow> i32 (d * uint (ac5 c));
          x1 \<leftarrow> div32 d 32768;
          n \<leftarrow> i32 (sint (mc c) * 2048);
          d \<leftarrow> i32 (x1 + sint (md c));
          x2 \<leftarrow> div32 n d;
          i32 (x1 + x2) }"

text \<open>Constants of more than 16 bits are \<open>long\<close>. The types of \<open>b4\<close> and \<open>b7\<close> are unsigned, and the difference in \<open>b7\<close> is taken modulo \<open>2 ^ 32\<close>.\<close>

definition real_pressure :: "nat \<Rightarrow> calibration \<Rightarrow> int \<Rightarrow> u32 \<Rightarrow> int option" where
  "real_pressure oss c b5 u =
     do { b6 \<leftarrow> i32 (b5 - 4000);
          q \<leftarrow> i32 (b6 * b6);
          q \<leftarrow> div32 q 4096;
          x \<leftarrow> i32 (sint (b2 c) * q);
          x1 \<leftarrow> div32 x 2048;
          x \<leftarrow> i32 (sint (ac2 c) * b6);
          x2 \<leftarrow> div32 x 2048;
          x3 \<leftarrow> i32 (x1 + x2);
          y \<leftarrow> i32 (sint (ac1 c) * 4 + x3);
          y \<leftarrow> i32 (y * 2 ^ oss);
          y \<leftarrow> i32 (y + 2);
          b3 \<leftarrow> div32 y 4;
          x \<leftarrow> i32 (sint (ac3 c) * b6);
          x1 \<leftarrow> div32 x 8192;
          x \<leftarrow> i32 (sint (b1 c) * q);
          x2 \<leftarrow> div32 x 65536;
          x \<leftarrow> i32 (x1 + x2);
          x \<leftarrow> i32 (x + 2);
          x3 \<leftarrow> div32 x 4;
          x \<leftarrow> i32 (x3 + 32768);
          let b4 = (ucast (ac4 c) * word_of_int x :: u32) div 32768;
          let b7 = (u - word_of_int b3) * of_nat (50000 div 2 ^ oss);
          p \<leftarrow> (if b4 = 0 then None else Some (sint (if b7 < 0x80000000 then (b7 * 2) div b4 else (b7 div b4) * 2)));
          s \<leftarrow> div32 p 256;
          x1 \<leftarrow> i32 (s * s);
          x \<leftarrow> i32 (x1 * 3038);
          x1 \<leftarrow> div32 x 65536;
          x \<leftarrow> i32 (- 7357 * p);
          x2 \<leftarrow> div32 x 65536;
          x \<leftarrow> i32 (x1 + x2);
          x \<leftarrow> i32 (x + 3791);
          x \<leftarrow> div32 x 16;
          i32 (p + x) }"

definition f32_of_int :: "int \<Rightarrow> f32" where
  "f32_of_int n = f32_signed (n < 0) (f32_of_nat (nat \<bar>n\<bar>))"

definition real_temperature :: "int \<Rightarrow> f32" where
  "real_temperature b5 = f32_div (f32_div (f32_add (f32_of_int b5) (f32_of_nat 8)) (f32_of_nat 16)) (f32_of_nat 10)"

section \<open>The process\<close>

definition set_delay :: "clock_time \<Rightarrow> nat \<Rightarrow> ('b, 'z) baro_scheme \<Rightarrow> ('b, 'z) baro_scheme" where
  "set_delay now ticks s = s\<lparr>read_delay_timer := app_timer_set now (of_nat ticks) (read_delay_timer s)\<rparr>"

definition start_temperature :: "'b twi_hw \<Rightarrow> clock_time \<Rightarrow> ('b, 'z) baro_scheme \<Rightarrow> ('b, 'z) baro_scheme" where
  "start_temperature H now s =
     (let (_, s) = i2c_write_bytes H BMP085_ADDR [BMP085_CONTROL, BMP085_CONV_TEMPERATURE] s
      in (set_delay now (unat CLOCK_SECOND * PRESSURE_READ_TEMP_DELAY div 1000) s)\<lparr>baro_pc := Baro_Temperature\<rparr>)"

definition start_pressure :: "'b twi_hw \<Rightarrow> clock_time \<Rightarrow> ('b, 'z) baro_scheme \<Rightarrow> ('b, 'z) baro_scheme" where
  "start_pressure H now s =
     (let (x, s) = pressure_read16 H BMP085_VALUE s; s = s\<lparr>ut := x\<rparr>;
          (_, s) = i2c_write_bytes H BMP085_ADDR [BMP085_CONTROL, BMP085_CONV_PRESSURE + push_bit 6 (of_nat PRESSURE_OVERSAMPLING)] s
      in (set_delay now (unat CLOCK_SECOND * PRESSURE_READ_DELAY div 1000) s)\<lparr>baro_pc := Baro_Pressure\<rparr>)"

definition finish_pressure :: "'b twi_hw \<Rightarrow> clock_time \<Rightarrow> ('b, 'z) baro_scheme \<Rightarrow> ('b, 'z) baro_scheme option" where
  "finish_pressure H now s =
     (let (x, s) = pressure_read16 H BMP085_VALUE s; (y, s) = pressure_read8 H BMP085_VALUE_XLSB s;
          s = s\<lparr>up := drop_bit (8 - PRESSURE_OVERSAMPLING) (push_bit 8 (ucast x) OR ucast y)\<rparr>
      in do { b5 \<leftarrow> temperature_sum (calib s) (uint (ut s));
              let s = s\<lparr>pressure_temp := real_temperature b5\<rparr>;
              p \<leftarrow> real_pressure PRESSURE_OVERSAMPLING (calib s) b5 (up s);
              Some ((set_delay now (unat CLOCK_SECOND * PRESSURE_READ_DELAY) (s\<lparr>pressure := word_of_int p\<rparr>))\<lparr>baro_pc := Baro_Pause\<rparr>) })"

definition pressure_event :: "'b twi_hw \<Rightarrow> clock_time \<Rightarrow> ('b, 'z) baro_scheme \<Rightarrow> ('b, 'z) baro_scheme option" where
  "pressure_event H now s =
     (if baro_pc s \<noteq> Baro_Start \<and> at_armed (read_delay_timer s) then Some s
      else case baro_pc s of
             Baro_Start \<Rightarrow> Some (start_temperature H now s)
           | Baro_Temperature \<Rightarrow> Some (start_pressure H now s)
           | Baro_Pressure \<Rightarrow> finish_pressure H now s
           | Baro_Pause \<Rightarrow> Some (start_temperature H now s))"

text \<open>The endpoint.\<close>

definition read_pressure :: "('b, 'z) baro_scheme \<Rightarrow> f32" where
  "read_pressure s = f32_div (f32_of_int (sint (pressure s))) (f32_of_nat 100)"

definition read_pressure_temp :: "('b, 'z) baro_scheme \<Rightarrow> f32" where
  "read_pressure_temp s = pressure_temp s"

definition read_barometer :: "hxb_value \<Rightarrow> ('b, 'z) baro_scheme \<Rightarrow> hxb_error_code \<times> hxb_value \<times> ('b, 'z) baro_scheme" where
  "read_barometer value s = (HXB_ERR_SUCCESS, set_float (read_pressure s) value, s)"

section \<open>Without overflow\<close>

text \<open>The formulas on unbounded integers.\<close>

definition ideal_temperature_sum :: "calibration \<Rightarrow> int \<Rightarrow> int" where
  "ideal_temperature_sum c t =
     (let x1 = ((t - uint (ac6 c)) * uint (ac5 c)) sdiv 32768 in x1 + (sint (mc c) * 2048) sdiv (x1 + sint (md c)))"

definition ideal_b3 :: "nat \<Rightarrow> calibration \<Rightarrow> int \<Rightarrow> int" where
  "ideal_b3 oss c b6 =
     (let x3 = (sint (b2 c) * ((b6 * b6) sdiv 4096)) sdiv 2048 + (sint (ac2 c) * b6) sdiv 2048
      in ((sint (ac1 c) * 4 + x3) * 2 ^ oss + 2) sdiv 4)"

definition ideal_b4 :: "calibration \<Rightarrow> int \<Rightarrow> int" where
  "ideal_b4 c b6 =
     (let x3 = ((sint (ac3 c) * b6) sdiv 8192 + (sint (b1 c) * ((b6 * b6) sdiv 4096)) sdiv 65536 + 2) sdiv 4
      in uint (ac4 c) * (x3 + 32768) div 32768)"

definition ideal_b7 :: "nat \<Rightarrow> int \<Rightarrow> int \<Rightarrow> int" where
  "ideal_b7 oss b3 u = (u - b3) * (50000 div 2 ^ oss)"

definition ideal_quotient :: "int \<Rightarrow> int \<Rightarrow> int" where
  "ideal_quotient b4 b7 = (if b7 < 2 ^ 31 then (b7 * 2) div b4 else (b7 div b4) * 2)"

definition ideal_pressure :: "int \<Rightarrow> int" where
  "ideal_pressure p = p + ((((p sdiv 256) * (p sdiv 256)) * 3038) sdiv 65536 + (- 7357 * p) sdiv 65536 + 3791) sdiv 16"

lemma sdiv_bound: "0 < b \<Longrightarrow> \<bar>a\<bar> \<le> n * b \<Longrightarrow> \<bar>a sdiv b\<bar> \<le> n" for a b n :: int
proof -
  assume "0 < b" "\<bar>a\<bar> \<le> n * b"
  then have "\<bar>a\<bar> div b \<le> n" by (metis nonzero_mult_div_cancel_right order_less_irrefl zdiv_mono1)
  moreover have "\<bar>a sdiv b\<bar> \<le> \<bar>a\<bar> div b" using \<open>0 < b\<close> by (auto simp: signed_divide_int_def sgn_if pos_imp_zdiv_nonneg_iff)
  ultimately show ?thesis by linarith
qed

lemma i32_ok: "\<bar>x\<bar> \<le> 2147483647 \<Longrightarrow> i32 x = Some x"
  by (auto simp: i32_def abs_le_iff)

lemma div32_ok: "0 < y \<Longrightarrow> \<bar>x\<bar> \<le> 2147483647 \<Longrightarrow> div32 x y = Some (x sdiv y)"
proof -
  assume a: "0 < y" "\<bar>x\<bar> \<le> 2147483647"
  have "\<bar>x sdiv y\<bar> \<le> \<bar>x\<bar>" by (rule sdiv_bound [OF a(1)]) (use a(1) in \<open>simp add: mult_le_cancel_left1\<close>)
  then show ?thesis using a i32_ok by (simp add: div32_def)
qed

lemma i32_okI: "\<bar>x\<bar> \<le> n \<Longrightarrow> n \<le> 2147483647 \<Longrightarrow> i32 x = Some x"
  by (rule i32_ok) simp

lemma div32_okI: "\<bar>x\<bar> \<le> n \<Longrightarrow> n \<le> 2147483647 \<Longrightarrow> 0 < y \<Longrightarrow> div32 x y = Some (x sdiv y)"
  by (rule div32_ok) simp_all

lemma product_bound: "\<bar>x\<bar> \<le> m \<Longrightarrow> \<bar>y\<bar> \<le> n \<Longrightarrow> \<bar>x * y\<bar> \<le> m * n" for x y m n :: int
  by (simp add: abs_mult mult_mono)

lemma coefficient: "\<bar>sint (w :: i16)\<bar> \<le> 32768" "0 \<le> uint (v :: u16)" "uint (v :: u16) < 65536"
  using sint_range_size [of w] uint_range_size [of v] by (simp_all add: word_size abs_le_iff)

text \<open>The operating range: the temperature between 1000 and 900 tenths of a degree around the middle, a reading above the offset, a
  result of at most two bar.\<close>

definition in_range :: "nat \<Rightarrow> calibration \<Rightarrow> int \<Rightarrow> u32 \<Rightarrow> bool" where
  "in_range oss c t u =
     (let d = (t - uint (ac6 c)) * uint (ac5 c); b6 = ideal_temperature_sum c t - 4000; b3 = ideal_b3 oss c b6; b7 = ideal_b7 oss b3 (uint u) in
      oss \<le> 3 \<and> 0 \<le> t \<and> t < 65536 \<and> \<bar>d\<bar> \<le> 2147483647 \<and> 0 < d sdiv 32768 + sint (md c) \<and> \<bar>b6\<bar> \<le> 8000 \<and> 2 \<le> uint (ac4 c) \<and>
      b3 \<le> uint u \<and> b7 < 2 ^ 32 \<and> ideal_quotient (ideal_b4 c b6) b7 \<le> 200000)"

lemma temperature_exact:
  assumes "in_range oss c t u"
  shows "temperature_sum c t = Some (ideal_temperature_sum c t)"
proof -
  define d where "d = (t - uint (ac6 c)) * uint (ac5 c)"
  let ?x1 = "d sdiv 32768" and ?n = "sint (mc c) * 2048"
  have r: "0 \<le> t" "t < 65536" "\<bar>d\<bar> \<le> 2147483647" "0 < ?x1 + sint (md c)" using assms by (simp_all add: in_range_def Let_def d_def)
  have "\<bar>t - uint (ac6 c)\<bar> \<le> 65536" using r(1,2) coefficient(2,3) [of "ac6 c"] by linarith
  then have a: "i32 (t - uint (ac6 c)) = Some (t - uint (ac6 c))" by (intro i32_ok) linarith
  have x1: "\<bar>?x1\<bar> \<le> 65536" by (rule sdiv_bound) (use r(3) in simp_all)
  have m: "\<bar>?n\<bar> \<le> 32768 * 2048" using product_bound [OF coefficient(1) [of "mc c"], of 2048 2048] by simp
  have s: "i32 (?x1 + sint (md c)) = Some (?x1 + sint (md c))" using x1 coefficient(1) [of "md c"] by (intro i32_ok) linarith
  have q: "\<bar>?n sdiv (?x1 + sint (md c))\<bar> \<le> 32768 * 2048"
  proof (rule sdiv_bound [OF r(4)])
    have "32768 * 2048 * 1 \<le> 32768 * 2048 * (?x1 + sint (md c))" using r(4) by simp
    then show "\<bar>?n\<bar> \<le> 32768 * 2048 * (?x1 + sint (md c))" using m by linarith
  qed
  have "i32 ?n = Some ?n" using m by (intro i32_ok) linarith
  moreover have "div32 ?n (?x1 + sint (md c)) = Some (?n sdiv (?x1 + sint (md c)))" using r(4) m by (intro div32_ok) linarith+
  moreover have "i32 (?x1 + ?n sdiv (?x1 + sint (md c))) = Some (?x1 + ?n sdiv (?x1 + sint (md c)))" using x1 q by (intro i32_ok) linarith
  ultimately show ?thesis using a r(3) s by (simp add: temperature_sum_def i32_ok div32_ok d_def [symmetric] ideal_temperature_sum_def Let_def)
qed

text \<open>The terms of the pressure.\<close>

lemma term_bounds:
  fixes b6 :: int
  assumes "\<bar>b6\<bar> \<le> 8000"
  defines "q \<equiv> (b6 * b6) sdiv 4096"
  shows "\<bar>b6 * b6\<bar> \<le> 64000000" "\<bar>q\<bar> \<le> 15625" "\<bar>sint (v :: i16) * q\<bar> \<le> 512000000" "\<bar>sint v * b6\<bar> \<le> 262144000"
    "\<bar>(sint v * q) sdiv 2048\<bar> \<le> 250000" "\<bar>(sint v * b6) sdiv 2048\<bar> \<le> 128000" "\<bar>(sint v * b6) sdiv 8192\<bar> \<le> 32000"
    "\<bar>(sint v * q) sdiv 65536\<bar> \<le> 7813"
proof -
  show b: "\<bar>b6 * b6\<bar> \<le> 64000000" using product_bound [OF assms(1,1)] by simp
  show q: "\<bar>q\<bar> \<le> 15625" unfolding q_def by (rule sdiv_bound) (use b in simp_all)
  show vq: "\<bar>sint v * q\<bar> \<le> 512000000" for v :: i16 using product_bound [OF coefficient(1) [of v] q] by simp
  show vb: "\<bar>sint v * b6\<bar> \<le> 262144000" for v :: i16 using product_bound [OF coefficient(1) [of v] assms(1)] by simp
  show "\<bar>(sint v * q) sdiv 2048\<bar> \<le> 250000" "\<bar>(sint v * q) sdiv 65536\<bar> \<le> 7813" for v :: i16
    by (rule sdiv_bound; use vq [of v] in simp)+
  show "\<bar>(sint v * b6) sdiv 2048\<bar> \<le> 128000" "\<bar>(sint v * b6) sdiv 8192\<bar> \<le> 32000" for v :: i16
    by (rule sdiv_bound; use vb [of v] in simp)+
qed

lemma offset_bound:
  assumes "\<bar>b6\<bar> \<le> 8000" "x3 = ((sint (v :: i16) * b6) sdiv 8192 + (sint (w :: i16) * ((b6 * b6) sdiv 4096)) sdiv 65536 + 2) sdiv 4"
  shows "22000 \<le> x3 + 32768" "x3 + 32768 \<le> 43000"
proof -
  have "\<bar>x3\<bar> \<le> 10000" unfolding assms(2) by (rule sdiv_bound) (use term_bounds(7) [OF assms(1), of v] term_bounds(8) [OF assms(1), of w] in linarith)+
  then show "22000 \<le> x3 + 32768" "x3 + 32768 \<le> 43000" by linarith+
qed

lemma b4_exact:
  assumes "22000 \<le> x" "x \<le> 43000" "2 \<le> uint (w :: u16)"
  shows "uint ((ucast w * word_of_int x :: u32) div 32768) = uint w * x div 32768" "0 < uint w * x div 32768"
proof -
  have "0 \<le> uint w * x" using assms by simp
  moreover have "uint w * x \<le> 65535 * 43000" using assms coefficient(3) [of w] by (intro mult_mono) linarith+
  ultimately have m: "uint (ucast w * word_of_int x :: u32) = uint w * x"
    using assms by (simp add: uint_word_ariths uint_up_ucast is_up take_bit_int_eq_self_iff uint_word_of_int)
  then show "uint ((ucast w * word_of_int x :: u32) div 32768) = uint w * x div 32768" by (simp add: uint_div)
  have "2 * 22000 \<le> uint w * x" using assms by (intro mult_mono) linarith+
  then show "0 < uint w * x div 32768" by (simp add: pos_imp_zdiv_pos_iff)
qed

lemma b7_exact:
  assumes "b3 \<le> uint u" "ideal_b7 oss b3 (uint u) < 2 ^ 32"
  shows "uint ((u - word_of_int b3) * of_nat (50000 div 2 ^ oss) :: u32) = ideal_b7 oss b3 (uint u)"
proof -
  have "(50000 div 2 ^ oss :: int) = int (50000 div 2 ^ oss)" by (simp add: zdiv_int)
  then have "(u - word_of_int b3) * of_nat (50000 div 2 ^ oss) = (word_of_int (ideal_b7 oss b3 (uint u)) :: u32)"
    by (simp only: ideal_b7_def of_int_mult of_int_diff of_int_of_nat_eq word_of_int_uint)
  moreover have "0 \<le> (50000 div 2 ^ oss :: int)" by (simp add: pos_imp_zdiv_nonneg_iff)
  then have "0 \<le> ideal_b7 oss b3 (uint u)" using assms(1) by (simp add: ideal_b7_def)
  ultimately show ?thesis using assms(2) by (simp add: uint_word_of_int)
qed

lemma quotient_exact:
  fixes b4 b7 :: u32
  assumes "0 < uint b4" "ideal_quotient (uint b4) (uint b7) \<le> 200000"
  shows "sint (if b7 < 0x80000000 then (b7 * 2) div b4 else (b7 div b4) * 2) = ideal_quotient (uint b4) (uint b7)"
    "0 \<le> ideal_quotient (uint b4) (uint b7)"
proof -
  let ?p = "if b7 < 0x80000000 then (b7 * 2) div b4 else (b7 div b4) * 2"
  have l: "b7 < 0x80000000 \<longleftrightarrow> uint b7 < 2 ^ 31" by (simp add: word_less_def)
  have "uint ?p = ideal_quotient (uint b4) (uint b7)"
  proof (cases "b7 < 0x80000000")
    case True
    then have "uint (b7 * 2) = uint b7 * 2" using l by (simp add: uint_word_ariths)
    then show ?thesis using True l by (simp add: ideal_quotient_def uint_div)
  next
    case False
    then have "(uint b7 div uint b4) * 2 \<le> 200000" using assms(2) l by (simp add: ideal_quotient_def)
    moreover have "0 \<le> uint b7 div uint b4" using assms(1) by (simp add: pos_imp_zdiv_nonneg_iff)
    ultimately have "uint (b7 div b4 * 2) = (uint b7 div uint b4) * 2" by (simp add: uint_word_ariths uint_div)
    then show ?thesis using False l by (simp add: ideal_quotient_def)
  qed
  moreover have "sint ?p = uint ?p" using assms(2) calculation uint_ge_0 [of ?p] by (simp add: sint_uint signed_take_bit_int_eq_self_iff del: uint_ge_0 uint_nonnegative)
  ultimately show "sint ?p = ideal_quotient (uint b4) (uint b7)" by simp
  show "0 \<le> ideal_quotient (uint b4) (uint b7)" using \<open>uint ?p = _\<close> uint_ge_0 [of ?p] by simp
qed

lemma final_exact:
  assumes "0 \<le> p" "p \<le> 200000"
  shows "do { s \<leftarrow> div32 p 256; x1 \<leftarrow> i32 (s * s); x \<leftarrow> i32 (x1 * 3038); x1 \<leftarrow> div32 x 65536; x \<leftarrow> i32 (- 7357 * p);
      x2 \<leftarrow> div32 x 65536; x \<leftarrow> i32 (x1 + x2); x \<leftarrow> i32 (x + 3791); x \<leftarrow> div32 x 16; i32 (p + x) } = Some (ideal_pressure p)"
proof -
  let ?s = "p sdiv 256"
  have s: "\<bar>?s\<bar> \<le> 782" by (rule sdiv_bound) (use assms in simp_all)
  have q: "\<bar>?s * ?s\<bar> \<le> 611524" using product_bound [OF s s] by simp
  have x1: "\<bar>?s * ?s * 3038\<bar> \<le> 1857809912" using q by (simp add: abs_mult)
  have y1: "\<bar>(?s * ?s * 3038) sdiv 65536\<bar> \<le> 30000" by (rule sdiv_bound) (use x1 in simp_all)
  have x2: "\<bar>- 7357 * p\<bar> \<le> 1471400000" using assms by simp
  have y2: "\<bar>(- 7357 * p) sdiv 65536\<bar> \<le> 30000" by (rule sdiv_bound) (use x2 in simp_all)
  let ?y = "(?s * ?s * 3038) sdiv 65536 + (- 7357 * p) sdiv 65536"
  have y0: "\<bar>?y\<bar> \<le> 60000" using y1 y2 by linarith
  then have y: "\<bar>?y + 3791\<bar> \<le> 63791" by linarith
  have z: "\<bar>(?y + 3791) sdiv 16\<bar> \<le> 4000" by (rule sdiv_bound) (use y in simp_all)
  have r: "\<bar>p + (?y + 3791) sdiv 16\<bar> \<le> 204000" using z assms by linarith
  have "div32 p 256 = Some ?s" using assms by (intro div32_ok) simp_all
  moreover have "i32 (?s * ?s) = Some (?s * ?s)" "i32 (?s * ?s * 3038) = Some (?s * ?s * 3038)" "i32 (- 7357 * p) = Some (- 7357 * p)"
    "i32 ?y = Some ?y" "i32 (?y + 3791) = Some (?y + 3791)" "i32 (p + (?y + 3791) sdiv 16) = Some (p + (?y + 3791) sdiv 16)"
    by (rule i32_okI [OF q] i32_okI [OF x1] i32_okI [OF x2] i32_okI [OF y0] i32_okI [OF y] i32_okI [OF r]; simp)+
  moreover have "div32 (?s * ?s * 3038) 65536 = Some ((?s * ?s * 3038) sdiv 65536)" "div32 (- 7357 * p) 65536 = Some ((- 7357 * p) sdiv 65536)"
    "div32 (?y + 3791) 16 = Some ((?y + 3791) sdiv 16)"
    by (rule div32_okI [OF x1] div32_okI [OF x2] div32_okI [OF y]; simp)+
  ultimately show ?thesis by (simp only: Option.bind.simps ideal_pressure_def)
qed

lemma pressure_exact:
  assumes "in_range oss c t u"
  defines "b6 \<equiv> ideal_temperature_sum c t - 4000"
  shows "real_pressure oss c (ideal_temperature_sum c t) u =
    Some (ideal_pressure (ideal_quotient (ideal_b4 c b6) (ideal_b7 oss (ideal_b3 oss c b6) (uint u))))"
proof -
  define q where "q = (b6 * b6) sdiv 4096"
  define x3 where "x3 = (sint (b2 c) * q) sdiv 2048 + (sint (ac2 c) * b6) sdiv 2048"
  define y where "y = (sint (ac3 c) * b6) sdiv 8192 + (sint (b1 c) * q) sdiv 65536"
  define x where "x = (y + 2) sdiv 4 + 32768"
  define b4 where "b4 = (ucast (ac4 c) * word_of_int x :: u32) div 32768"
  define b3 where "b3 = ((sint (ac1 c) * 4 + x3) * 2 ^ oss + 2) sdiv 4"
  define b7 where "b7 = (u - word_of_int b3) * of_nat (50000 div 2 ^ oss)"
  have b: "\<bar>b6\<bar> \<le> 8000" and o: "oss \<le> 3" and w: "2 \<le> uint (ac4 c)" using assms by (simp_all add: in_range_def Let_def)
  note tb = term_bounds [OF b, folded q_def]
  have x3: "\<bar>x3\<bar> \<le> 378000" using tb(5) [of "b2 c"] tb(6) [of "ac2 c"] by (simp add: x3_def)
  have y3: "\<bar>y\<bar> \<le> 39813" using tb(7) [of "ac3 c"] tb(8) [of "b1 c"] by (simp add: y_def)
  have x: "22000 \<le> x" "x \<le> 43000" using offset_bound [OF b refl, of "ac3 c" "b1 c"] by (simp_all add: x_def y_def q_def)
  have xb: "\<bar>x\<bar> \<le> 43000" using x by simp
  have eb3: "b3 = ideal_b3 oss c b6" by (simp add: b3_def ideal_b3_def x3_def q_def Let_def)
  have eb4: "uint b4 = ideal_b4 c b6" "0 < uint b4"
    using b4_exact [OF x w] by (simp_all add: b4_def ideal_b4_def x_def y_def q_def Let_def)
  have eb7: "uint b7 = ideal_b7 oss b3 (uint u)"
    unfolding b7_def by (rule b7_exact) (use assms(1) in \<open>simp_all add: in_range_def Let_def eb3 b6_def\<close>)
  have le: "ideal_quotient (uint b4) (uint b7) \<le> 200000" using assms(1) by (simp add: in_range_def Let_def eb4(1) eb7 eb3 b6_def)
  note quot = quotient_exact [OF eb4(2) le]
  have "\<bar>2 ^ oss :: int\<bar> \<le> 8" using power_increasing [OF o, of "2 :: int"] by simp
  then have m: "\<bar>(sint (ac1 c) * 4 + x3) * 2 ^ oss\<bar> \<le> 600000 * 8"
    using x3 coefficient(1) [of "ac1 c"] by (intro product_bound) linarith+
  have s: "\<bar>sint (ac1 c) * 4 + x3\<bar> \<le> 600000" using x3 coefficient(1) [of "ac1 c"] by linarith
  have m2: "\<bar>(sint (ac1 c) * 4 + x3) * 2 ^ oss + 2\<bar> \<le> 4800002" using m by linarith
  have y2: "\<bar>y + 2\<bar> \<le> 39815" using y3 by linarith
  have i: "i32 b6 = Some b6" "i32 (b6 * b6) = Some (b6 * b6)" "i32 (sint (b2 c) * q) = Some (sint (b2 c) * q)"
    "i32 (sint (ac2 c) * b6) = Some (sint (ac2 c) * b6)" "i32 x3 = Some x3" "i32 (sint (ac1 c) * 4 + x3) = Some (sint (ac1 c) * 4 + x3)"
    "i32 ((sint (ac1 c) * 4 + x3) * 2 ^ oss) = Some ((sint (ac1 c) * 4 + x3) * 2 ^ oss)"
    "i32 ((sint (ac1 c) * 4 + x3) * 2 ^ oss + 2) = Some ((sint (ac1 c) * 4 + x3) * 2 ^ oss + 2)"
    "i32 (sint (ac3 c) * b6) = Some (sint (ac3 c) * b6)" "i32 (sint (b1 c) * q) = Some (sint (b1 c) * q)" "i32 y = Some y" "i32 (y + 2) = Some (y + 2)" "i32 x = Some x"
    by (rule i32_okI [OF b] i32_okI [OF tb(1)] i32_okI [OF tb(3)] i32_okI [OF tb(4)] i32_okI [OF x3] i32_okI [OF s] i32_okI [OF m] i32_okI [OF m2] i32_okI [OF y3]
        i32_okI [OF y2] i32_okI [OF xb]; simp)+
  have d: "div32 (b6 * b6) 4096 = Some ((b6 * b6) sdiv 4096)" "div32 (sint (b2 c) * q) 2048 = Some ((sint (b2 c) * q) sdiv 2048)"
    "div32 (sint (ac2 c) * b6) 2048 = Some ((sint (ac2 c) * b6) sdiv 2048)" "div32 (sint (ac3 c) * b6) 8192 = Some ((sint (ac3 c) * b6) sdiv 8192)"
    "div32 (sint (b1 c) * q) 65536 = Some ((sint (b1 c) * q) sdiv 65536)" "div32 (y + 2) 4 = Some ((y + 2) sdiv 4)"
    "div32 ((sint (ac1 c) * 4 + x3) * 2 ^ oss + 2) 4 = Some b3"
    unfolding b3_def
    by (rule div32_okI [OF tb(1)] div32_okI [OF tb(3)] div32_okI [OF tb(4)] div32_okI [OF y2] div32_okI [OF m2]; simp)+
  have nz: "(b4 = 0) = False" using eb4(2) by auto
  show ?thesis
    unfolding real_pressure_def b6_def [symmetric] i(1-2) d(1) [folded q_def] Option.bind.simps i(3-4) d(2,3) x3_def [symmetric] i(5-8) d(7) i(9) d(4) i(10) d(5)
      y_def [symmetric] i(11,12) d(6) x_def [symmetric] i(13) Let_def b4_def [symmetric] b7_def [symmetric] nz if_False quot(1)
      final_exact [OF quot(2) le]
    by (simp add: eb4(1) eb7 eb3)
qed

section \<open>The calibration\<close>

definition register16 :: "(u8 \<Rightarrow> u8) \<Rightarrow> u8 \<Rightarrow> u16" where
  "register16 regs a = push_bit 8 (ucast (regs a)) OR ucast (regs (a + 1))"

lemma read16_register:
  assumes "register_device H ph BMP085_ADDR regs"
  shows "fst (pressure_read16 H a s) = register16 regs a"
proof -
  let ?t = "snd (i2c_write_bytes H BMP085_ADDR [a] s)"
  have "[0..<unat (2 :: u8)] = [0, 1]" by (simp add: upt_rec)
  then have "fst (i2c_read_bytes H BMP085_ADDR 2 ?t) = Some [regs a, regs (a + 1)]"
    using device_read_bytes [OF assms, of 2 ?t] device_write_pointer(2) [OF assms, of a s] by (simp del: unsigned_numeral)
  then show ?thesis using device_write_pointer(1) [OF assms, of a s] by (simp add: pressure_read16_def split_beta Let_def register16_def)
qed

lemma read16_absent: "absent H BMP085_ADDR \<Longrightarrow> fst (pressure_read16 H a s) = 0"
  using absent_transfers(1) [of H BMP085_ADDR "[a]" s] by (simp add: pressure_read16_def split_beta Let_def)

lemma transfer_more:
  "twi.more (set_TWCR H c s) = twi.more s" "twi.more (snd (i2c_start H a s)) = twi.more s" "twi.more (i2c_stop H s) = twi.more s"
  "twi.more (snd (i2c_write H x s)) = twi.more s" "twi.more (snd (i2c_readAck H s)) = twi.more s" "twi.more (snd (i2c_readNak H s)) = twi.more s"
  by (simp_all add: i2c_defs split_beta Let_def)

lemma transfers_more:
  "twi.more (fold (\<lambda>x s. snd (i2c_write H x s)) bs s) = twi.more s" "twi.more (snd (read_acked H n s)) = twi.more s"
  by (induction bs arbitrary: s, simp_all add: transfer_more) (induction n arbitrary: s, simp_all add: transfer_more split_beta)

lemma bytes_more:
  "twi.more (snd (i2c_write_bytes H a bs s)) = twi.more s" "twi.more (snd (i2c_read_bytes H a n s)) = twi.more s"
  by (simp_all add: i2c_write_bytes_def i2c_read_bytes_def split_beta Let_def transfer_more transfers_more)

lemma read_more: "twi.more (snd (pressure_read16 H a s)) = twi.more s" "twi.more (snd (pressure_read8 H a s)) = twi.more s"
  by (simp_all add: pressure_read16_def pressure_read8_def split_beta Let_def bytes_more)

lemma same_more: "twi.more t = twi.more s \<Longrightarrow> calib t = calib s \<and> ut t = ut s \<and> baro_pc t = baro_pc s \<and> read_delay_timer t = read_delay_timer s"
  for s t :: "('b, 'z) baro_scheme"
  by (cases s; cases t) simp

lemma baro_kept [simp]:
  "calib (snd (pressure_read16 H a s)) = calib s" "ut (snd (pressure_read16 H a s)) = ut s" "baro_pc (snd (pressure_read16 H a s)) = baro_pc s"
  "calib (snd (pressure_read8 H a s)) = calib s" "ut (snd (pressure_read8 H a s)) = ut s"
  "calib (snd (i2c_write_bytes H a bs s)) = calib s"
  using same_more [OF read_more(1) [of H a s]] same_more [OF read_more(2) [of H a s]] same_more [OF bytes_more(1) [of H a bs s]] by simp_all

lemma init_calibration:
  assumes "\<And>a s :: ('b, 'z) baro_scheme. fst (pressure_read16 H a s) = f a"
  shows "calib (pressure_init H (s :: ('b, 'z) baro_scheme)) = \<lparr>ac1 = f 0xAA, ac2 = f 0xAC, ac3 = f 0xAE, ac4 = f 0xB0, ac5 = f 0xB2, ac6 = f 0xB4,
    b1 = f 0xB6, b2 = f 0xB8, mb = f 0xBA, mc = f 0xBC, md = f 0xBE\<rparr>"
proof -
  have "calib (load_coefficient H a g s) = g (f a) (calib s)" for a g and s :: "('b, 'z) baro_scheme"
    by (simp add: load_coefficient_def split_beta Let_def assms)
  then show ?thesis by (simp add: pressure_init_def)
qed

text \<open>Without a sensor every register reads as 0.\<close>

lemma absent_calibration:
  "absent H BMP085_ADDR \<Longrightarrow> calib (pressure_init H s) = \<lparr>ac1 = 0, ac2 = 0, ac3 = 0, ac4 = 0, ac5 = 0, ac6 = 0, b1 = 0, b2 = 0, mb = 0, mc = 0, md = 0\<rparr>"
  by (rule init_calibration) (rule read16_absent)

lemma load_pc: "baro_pc (load_coefficient H a g s) = baro_pc s"
  by (simp add: load_coefficient_def split_beta Let_def)

lemma init_pc: "baro_pc (pressure_init H s) = baro_pc s"
  by (simp add: pressure_init_def load_pc)

lemma started:
  "baro_pc (start_temperature H now s) = Baro_Temperature" "calib (start_temperature H now s) = calib s"
  "baro_pc (start_pressure H now s) = Baro_Pressure" "calib (start_pressure H now s) = calib s"
  by (simp_all add: start_temperature_def start_pressure_def set_delay_def split_beta Let_def)

lemma no_calibration:
  "temperature_sum \<lparr>ac1 = 0, ac2 = 0, ac3 = 0, ac4 = 0, ac5 = 0, ac6 = 0, b1 = 0, b2 = 0, mb = 0, mc = 0, md = 0\<rparr> (uint (x :: u16)) = None"
  by (simp add: temperature_sum_def i32_def div32_def)

lemma read8_register:
  assumes "register_device H ph BMP085_ADDR regs"
  shows "fst (pressure_read8 H a s) = regs a"
proof -
  let ?t = "snd (i2c_write_bytes H BMP085_ADDR [a] s)"
  have "[0..<unat (1 :: u8)] = [0]" by simp
  then have "fst (i2c_read_bytes H BMP085_ADDR 1 ?t) = Some [regs a]"
    using device_read_bytes [OF assms, of 1 ?t] device_write_pointer(2) [OF assms, of a s] by (simp del: unsigned_1)
  then show ?thesis using device_write_pointer(1) [OF assms, of a s] by (simp add: pressure_read8_def split_beta Let_def)
qed

definition raw_pressure :: "(u8 \<Rightarrow> u8) \<Rightarrow> u32" where
  "raw_pressure regs = drop_bit 6 (push_bit 8 (ucast (register16 regs BMP085_VALUE)) OR ucast (regs BMP085_VALUE_XLSB))"

text \<open>A sensor with the registers of the example of the data sheet, whose bus is in nothing but a phase.\<close>

definition example_twi :: "(u8 \<Rightarrow> u8) \<Rightarrow> phase twi_hw" where
  "example_twi regs c d b =
     (if c = TWINT OR TWSTA OR TWEN then (TW_START, d, Started (register_pointer b))
      else if c = TWINT OR TWEN OR TWSTO then (0xF8, d, Idle (register_pointer b))
      else case b of
             Started p \<Rightarrow> (if d = BMP085_ADDR + I2C_WRITE then (TW_MT_SLA_ACK, d, Selected p)
                else if d = BMP085_ADDR + I2C_READ then (TW_MR_SLA_ACK, d, Reading p) else (TW_MT_SLA_NACK, d, Idle p))
           | Selected p \<Rightarrow> (TW_MT_DATA_ACK, d, Pointed d)
           | Reading p \<Rightarrow> (0x50, regs p, Reading (p + 1))
           | _ \<Rightarrow> (TW_MT_DATA_ACK, d, b))"

definition datasheet :: calibration where
  "datasheet = \<lparr>ac1 = 408, ac2 = -72, ac3 = -14383, ac4 = 32741, ac5 = 32757, ac6 = 23153, b1 = 6190, b2 = 4, mb = -32768, mc = -8711, md = 2868\<rparr>"

definition datasheet_registers :: "u8 \<Rightarrow> u8" where
  "datasheet_registers a = (if a = BMP085_VALUE then 0x5D else if a = BMP085_VALUE + 1 then 0x23 else 0)"

definition fresh_baro :: "'b \<Rightarrow> 'b baro" where
  "fresh_baro b = \<lparr>TWSR = 0, TWDR = 0, TWBR = 0, twi_bus = b, calib = datasheet, pressure = 0, pressure_temp = 0, read_delay_timer = no_timer, ut = 0,
     up = 0, baro_pc = Baro_Start\<rparr>"

lemmas twi_constants = TWINT_def TWEA_def TWSTA_def TWSTO_def TWEN_def TW_START_def TW_REP_START_def TW_MT_SLA_ACK_def TW_MT_SLA_NACK_def
  TW_MT_DATA_ACK_def TW_MR_SLA_ACK_def TW_MR_DATA_NACK_def I2C_READ_def I2C_WRITE_def BMP085_ADDR_def

lemma example_register_device: "register_device (example_twi regs) (\<lambda>b. b) BMP085_ADDR regs"
  unfolding register_device_def by (auto simp: example_twi_def twi_constants split: phase.splits)

lemma example_in_range: "in_range PRESSURE_OVERSAMPLING datasheet 27898 95372"
  by code_simp

section \<open>Properties\<close>



text \<open>C37: Without a sensor on the bus nothing reports an error: every coefficient is read as 0, and when the process gets to the end of its first
  measurement, it divides by zero.\<close>

theorem absent_barometer_divides_by_zero:
  fixes s :: "('b, 'z) baro_scheme"
  assumes "absent H BMP085_ADDR" "baro_pc s = Baro_Start"
  shows "\<exists>t u. pressure_event H now (pressure_init H s) = Some t \<and>
    pressure_event H now' (t\<lparr>read_delay_timer := app_timer_stop (read_delay_timer t)\<rparr>) = Some u \<and>
    pressure_event H now'' (u\<lparr>read_delay_timer := app_timer_stop (read_delay_timer u)\<rparr>) = None"
proof -
  let ?t = "start_temperature H now (pressure_init H s)"
  let ?u = "start_pressure H now' (?t\<lparr>read_delay_timer := app_timer_stop (read_delay_timer ?t)\<rparr>)"
  have "pressure_event H now (pressure_init H s) = Some ?t" using assms(2) by (simp add: pressure_event_def init_pc)
  moreover have "pressure_event H now' (?t\<lparr>read_delay_timer := app_timer_stop (read_delay_timer ?t)\<rparr>) = Some ?u"
    by (simp add: pressure_event_def started app_timer_stop_def)
  moreover have "finish_pressure H now'' v = None" if "calib v = calib (pressure_init H s)" for v :: "('b, 'z) baro_scheme"
    using that by (simp add: finish_pressure_def split_beta Let_def absent_calibration [OF assms(1)] no_calibration)
  then have "pressure_event H now'' (?u\<lparr>read_delay_timer := app_timer_stop (read_delay_timer ?u)\<rparr>) = None"
    by (simp add: pressure_event_def started app_timer_stop_def)
  ultimately show ?thesis by blast
qed

theorem absent_barometer_divides_by_zero_witness:
  "\<exists>t u. pressure_event (\<lambda>c d b. (TW_START, d, b)) 0 (pressure_init (\<lambda>c d b. (TW_START, d, b)) (fresh_baro ())) = Some t \<and>
    pressure_event (\<lambda>c d b. (TW_START, d, b)) 2 (t\<lparr>read_delay_timer := app_timer_stop (read_delay_timer t)\<rparr>) = Some u \<and>
    pressure_event (\<lambda>c d b. (TW_START, d, b)) 6 (u\<lparr>read_delay_timer := app_timer_stop (read_delay_timer u)\<rparr>) = None"
proof -
  have "absent (\<lambda>c d b. (TW_START, d, b)) BMP085_ADDR" by (simp add: absent_def twi_constants)
  then show ?thesis by (rule absent_barometer_divides_by_zero) (simp add: fresh_baro_def)
qed

end
