(* ===== verification/Usb_Stick.thy ===== *)
theory Usb_Stick
  imports Provisioning
begin

text \<open>
  Pairing on the side of the USB stick: the process of \<^verbatim>\<open>apps/provisioning/provisioning.c\<close> for the stick, the
  command parser of its serial line (\<^verbatim>\<open>cdc_task.c\<close>) and the choice of network and key at the first start
  (\<^verbatim>\<open>Hexabus-USB/contiki-hexabus-main.c\<close>). With the socket's side of theory \<open>Provisioning\<close>: a socket that is
  paired has the stick's network and key. The clock does not advance during one call of the process.
\<close>

section \<open>State\<close>

text \<open>Where the process waits for its own continue event: in the loop for a request, or for a frame.\<close>

datatype prov_pc = Ask_Pause | Packet_Pause

record stick =
  st_leds :: u8
  st_leds_inverted :: u8
  st_led_port :: u8
  st_blink_time :: clock_time
  st_red_on :: bool
  st_ee :: eeprom
  st_src_pan_id :: u16
  st_dst_pan_id :: u16
  st_radio_pan_id :: u16
  st_bootloader_mode :: bool
  st_bootloader_pkt :: bool
  st_encryption :: u8
  packetbuf :: buf
  frames :: "(u16 \<times> u8 \<times> buf) list"     \<comment> \<open>destination network, encryption, payload\<close>
  printed :: "string list"
  prov_pc :: "prov_pc option"               \<comment> \<open>\<open>None\<close>: the process does not run\<close>
  prov_time :: clock_time
  prov_pan_id :: u16
  is_parsing :: bool
  pairing_pos :: nat
  parsed_str :: string

text \<open>The product is an \<open>int\<close> of 16 bits in the code, which overflows; the comparison is that of unsigned numbers of the same bits.\<close>

definition PROV_TIMEOUT_USB :: u16 where "PROV_TIMEOUT_USB = 500"

definition P_ON_STR :: string where "P_ON_STR = ''HXB_P_ON''"
definition P_OFF_STR :: string where "P_OFF_STR = ''HXB_P_OFF''"
definition P_SUC_STR :: string where "P_SUC_STR = [CHR 0x0A] @ ''$HXB_P_SUCCESS&'' @ [CHR 0x0A]"
definition P_FAL_STR :: string where "P_FAL_STR = [CHR 0x0A] @ ''$HXB_P_FAILED&'' @ [CHR 0x0A]"

section \<open>The process\<close>

text \<open>The LEDs of the stick are at other pins than those of the socket; zero switches on.\<close>

definition stick_leds_arch_set :: "u8 \<Rightarrow> stick \<Rightarrow> stick" where
  "stick_leds_arch_set l s = s\<lparr>st_led_port := (st_led_port s AND NOT 0x18)
     OR (if l AND LEDS_RED \<noteq> 0 then 0 else 0x08) OR (if l AND LEDS_GREEN \<noteq> 0 then 0 else 0x10)\<rparr>"

definition stick_show_leds :: "stick \<Rightarrow> stick" where
  "stick_show_leds s = stick_leds_arch_set (st_leds s XOR st_leds_inverted s) s"

definition stick_leds_on :: "u8 \<Rightarrow> stick \<Rightarrow> stick" where
  "stick_leds_on l s = stick_show_leds (s\<lparr>st_leds := st_leds s OR l\<rparr>)"

definition stick_leds_off :: "u8 \<Rightarrow> stick \<Rightarrow> stick" where
  "stick_leds_off l s = stick_show_leds (s\<lparr>st_leds := st_leds s AND NOT l\<rparr>)"

definition stick_provisioning_leds :: "clock_time \<Rightarrow> stick \<Rightarrow> stick" where
  "stick_provisioning_leds now s =
     (if now - st_blink_time s > CLOCK_SECOND div 2 then
        (let s = (if st_red_on s then stick_leds_on LEDS_RED s else stick_leds_off LEDS_RED s)
         in s\<lparr>st_red_on := \<not> st_red_on s, st_blink_time := now\<rparr>)
      else s)"

definition use_stick_network :: "u16 \<Rightarrow> stick \<Rightarrow> stick" where
  "use_stick_network p s = s\<lparr>st_dst_pan_id := p, st_src_pan_id := p, st_radio_pan_id := p\<rparr>"

text \<open>From the start of the process to the first pause.\<close>

definition provisioning_begin :: "clock_time \<Rightarrow> stick \<Rightarrow> stick" where
  "provisioning_begin now s =
     (let s = (stick_leds_off LEDS_ALL s)\<lparr>st_bootloader_pkt := False, st_bootloader_mode := True, prov_pan_id := st_src_pan_id s\<rparr>;
          s = use_stick_network 1 s
      in s\<lparr>prov_time := now, prov_pc := Some Ask_Pause\<rparr>)"

text \<open>\<open>process_start\<close> does nothing when the process runs.\<close>

definition provisioning_master :: "clock_time \<Rightarrow> stick \<Rightarrow> stick" where
  "provisioning_master now s = (if prov_pc s = None then provisioning_begin now s else s)"

definition prov_exit :: "stick \<Rightarrow> stick" where
  "prov_exit s = (stick_leds_on LEDS_GREEN (stick_leds_off LEDS_ALL s))\<lparr>prov_pc := None\<rparr>"

definition too_late :: "clock_time \<Rightarrow> stick \<Rightarrow> bool" where
  "too_late now s = (now - prov_time s > CLOCK_SECOND * PROV_TIMEOUT_USB)"

definition provisioning_message :: "u16 \<Rightarrow> buf \<Rightarrow> buf" where
  "provisioning_message pan_id aes_key = PROVISIONING_HEADER @ [byte_of 0 pan_id, byte_of 1 pan_id] @ aes_key"

definition send_network :: "stick \<Rightarrow> stick" where
  "send_network s =
     (let packet = provisioning_message (prov_pan_id s) (eeprom_read_block (st_ee s) EE_ENCRYPTION_KEY EE_ENCRYPTION_KEY_SIZE);
          tmp_enc = st_encryption s; s = s\<lparr>packetbuf := packet, st_encryption := 0\<rparr>;
          s = s\<lparr>frames := frames s @ [(st_dst_pan_id s, st_encryption s, packetbuf s)], packetbuf := []\<rparr>
      in s\<lparr>st_encryption := tmp_enc\<rparr>)"

text \<open>After the loop.\<close>

definition provisioning_end :: "clock_time \<Rightarrow> stick \<Rightarrow> stick" where
  "provisioning_end now s =
     (let late = too_late now s; s = (if late then s else send_network s);
          s = (use_stick_network (prov_pan_id s) s)\<lparr>st_bootloader_mode := False\<rparr>
      in prov_exit (s\<lparr>printed := printed s @ [if late then P_FAL_STR else P_SUC_STR]\<rparr>))"

text \<open>The rest of a round: read the frame, if there is one, and look whether it is a request.\<close>

definition read_frame :: "clock_time \<Rightarrow> buf option \<Rightarrow> stick \<Rightarrow> stick" where
  "read_frame now frame s =
     (let s = s\<lparr>st_bootloader_pkt := False\<rparr>; s = (case frame of None \<Rightarrow> s | Some b \<Rightarrow> s\<lparr>packetbuf := b\<rparr>)
      in if packetbuf s = PROVISIONING_HEADER then provisioning_end now s else s\<lparr>prov_pc := Some Ask_Pause\<rparr>)"

text \<open>The continue event. The frame is the payload that the radio and the framer hand over, if they are asked.\<close>

definition provisioning_continue :: "clock_time \<Rightarrow> buf option \<Rightarrow> stick \<Rightarrow> stick" where
  "provisioning_continue now frame s =
     (case prov_pc s of
        None \<Rightarrow> s
      | Some Ask_Pause \<Rightarrow>
          (if too_late now s then provisioning_end now s
           else if st_bootloader_pkt s then read_frame now frame s else s\<lparr>prov_pc := Some Packet_Pause\<rparr>)
      | Some Packet_Pause \<Rightarrow>
          (let s = stick_provisioning_leds now s
           in if too_late now s \<or> st_bootloader_pkt s then read_frame now frame s else s))"

text \<open>The exit event goes to the label \<open>exit\<close> at once.\<close>

definition process_exit_provisioning :: "stick \<Rightarrow> stick" where
  "process_exit_provisioning s = (if prov_pc s = None then s else prov_exit s)"

section \<open>Commands\<close>

definition parsed :: "stick \<Rightarrow> string" where "parsed s = takeWhile (\<lambda>c. c \<noteq> CHR 0x00) (List.take (pairing_pos s) (parsed_str s))"

definition process_pairing_command :: "clock_time \<Rightarrow> char \<Rightarrow> stick \<Rightarrow> bool \<times> stick" where
  "process_pairing_command now c s =
     (if c = CHR ''&'' \<and> is_parsing s then
        (let cmd = parsed s; s = s\<lparr>is_parsing := False, parsed_str := (parsed_str s)[pairing_pos s := CHR 0x00], pairing_pos := 0\<rparr>
         in if cmd = P_ON_STR then (True, provisioning_master now (s\<lparr>printed := printed s @ [P_SUC_STR]\<rparr>))
            else if cmd = P_OFF_STR then (True, process_exit_provisioning (s\<lparr>printed := printed s @ [P_SUC_STR]\<rparr>))
            else (True, s))
      else if \<not> is_parsing s \<and> c = CHR ''$'' then (True, s\<lparr>is_parsing := True, pairing_pos := 0\<rparr>)
      else if is_parsing s then
        (let s = s\<lparr>parsed_str := (parsed_str s)[pairing_pos s := c], pairing_pos := pairing_pos s + 1\<rparr>
         in (True, if pairing_pos s \<ge> 20 then s\<lparr>is_parsing := False, pairing_pos := 0\<rparr> else s))
      else (False, s))"

section \<open>The first start\<close>

text \<open>The numbers that \<open>random_rand()\<close> returns after \<open>random_init\<close> with the first word of the key.\<close>

partial_function (option) random_network :: "(nat \<Rightarrow> u16) \<Rightarrow> u16 \<Rightarrow> u16 option" where
  "random_network rnd p = (if p = 0xFFFF \<or> p = 1 then random_network (\<lambda>n. rnd (Suc n)) (rnd 0) else Some p)"

definition generate_random_pan_id_and_aes_key :: "buf \<Rightarrow> (u16 \<Rightarrow> nat \<Rightarrow> u16) \<Rightarrow> stick \<Rightarrow> stick option" where
  "generate_random_pan_id_and_aes_key key rands s =
     (if eeprom_read_byte (st_ee s) EE_FIRST_RUN_FLAG = 0 then Some s
      else (let e = eeprom_update_block EE_ENCRYPTION_KEY key (st_ee s) in
            case random_network (rands (eeprom_read_word e EE_ENCRYPTION_KEY)) 0xFFFF of
              None \<Rightarrow> None
            | Some p \<Rightarrow> Some (s\<lparr>st_ee := eeprom_write_byte EE_FIRST_RUN_FLAG 0 (eeprom_write_word EE_PAN_ID p e)\<rparr>)))"

section \<open>Pairing\<close>

text \<open>What happens to the process while it runs: its continue events, and in between the radio's interrupt for a frame
  and other users of the packet buffer.\<close>

datatype stick_event = Continue clock_time "buf option" | Frame_Arrived | Buffer_Used buf

fun stick_step :: "stick_event \<Rightarrow> stick \<Rightarrow> stick" where
  "stick_step (Continue now frame) s = provisioning_continue now frame s"
| "stick_step Frame_Arrived s = s\<lparr>st_bootloader_pkt := True\<rparr>"
| "stick_step (Buffer_Used b) s = s\<lparr>packetbuf := b\<rparr>"

definition stick_key :: "stick \<Rightarrow> buf" where
  "stick_key s = eeprom_read_block (st_ee s) EE_ENCRYPTION_KEY EE_ENCRYPTION_KEY_SIZE"

text \<open>While the process runs, and after it has ended by itself; \<open>m\<close> is the stick before.\<close>

definition pairing :: "stick \<Rightarrow> stick \<Rightarrow> bool" where
  "pairing m s =
     (prov_pc s \<noteq> None \<and> prov_pan_id s = st_src_pan_id m \<and> st_dst_pan_id s = 1 \<and> st_src_pan_id s = 1 \<and> st_radio_pan_id s = 1 \<and>
      st_bootloader_mode s \<and> st_ee s = st_ee m \<and> st_encryption s = st_encryption m \<and> frames s = frames m)"

definition paired :: "stick \<Rightarrow> stick \<Rightarrow> bool" where
  "paired m s =
     (prov_pc s = None \<and> st_src_pan_id s = st_src_pan_id m \<and> st_dst_pan_id s = st_src_pan_id m \<and> st_radio_pan_id s = st_src_pan_id m \<and>
      \<not> st_bootloader_mode s \<and> st_ee s = st_ee m \<and> st_encryption s = st_encryption m \<and>
      frames s \<in> {frames m, frames m @ [(1, 0, provisioning_message (st_src_pan_id m) (stick_key m))]})"

lemmas stick_leds_defs = stick_leds_on_def stick_leds_off_def stick_show_leds_def stick_leds_arch_set_def

lemma pairing_begins: "prov_pc m = None \<Longrightarrow> pairing m (provisioning_master now m)"
  by (simp add: pairing_def provisioning_master_def provisioning_begin_def use_stick_network_def stick_leds_defs Let_def)

lemma pairing_ends: "pairing m s \<Longrightarrow> paired m (provisioning_end now s)"
  by (simp add: pairing_def paired_def provisioning_end_def send_network_def prov_exit_def use_stick_network_def stick_leds_defs stick_key_def Let_def)

lemma pairing_reads: "pairing m s \<Longrightarrow> pairing m (read_frame now frame s) \<or> paired m (read_frame now frame s)"
proof -
  assume p: "pairing m s"
  let ?s = "case frame of None \<Rightarrow> s\<lparr>st_bootloader_pkt := False\<rparr> | Some b \<Rightarrow> s\<lparr>st_bootloader_pkt := False, packetbuf := b\<rparr>"
  have "pairing m ?s" using p by (cases frame) (simp_all add: pairing_def)
  moreover have "read_frame now frame s = (if packetbuf ?s = PROVISIONING_HEADER then provisioning_end now ?s else ?s\<lparr>prov_pc := Some Ask_Pause\<rparr>)"
    by (cases frame) (simp_all add: read_frame_def Let_def)
  moreover have "pairing m (?s\<lparr>prov_pc := Some Ask_Pause\<rparr>)" using \<open>pairing m ?s\<close> by (simp add: pairing_def)
  ultimately show ?thesis using pairing_ends by simp
qed

lemma pairing_leds: "pairing m s \<Longrightarrow> pairing m (stick_provisioning_leds now s)"
  by (simp add: pairing_def stick_provisioning_leds_def stick_leds_defs Let_def)

lemma pairing_step: "pairing m s \<or> paired m s \<Longrightarrow> pairing m (stick_step e s) \<or> paired m (stick_step e s)"
proof (elim disjE)
  assume p: "pairing m s"
  show ?thesis
  proof (cases e)
    case (Continue now frame)
    obtain pc where pc: "prov_pc s = Some pc" using p by (auto simp: pairing_def)
    show ?thesis
    proof (cases pc)
      case Ask_Pause
      have "pairing m (s\<lparr>prov_pc := Some Packet_Pause\<rparr>)" using p by (simp add: pairing_def)
      then show ?thesis using pairing_ends [OF p] pairing_reads [OF p] pc Ask_Pause Continue by (simp add: provisioning_continue_def)
    next
      case Packet_Pause
      then show ?thesis using pairing_leds [OF p] pairing_reads [OF pairing_leds [OF p]] pc Continue by (simp add: provisioning_continue_def Let_def)
    qed
  next
    case Frame_Arrived
    then show ?thesis using p by (simp add: pairing_def)
  next
    case (Buffer_Used b)
    then show ?thesis using p by (simp add: pairing_def)
  qed
next
  assume p: "paired m s"
  then show ?thesis by (cases e) (simp_all add: paired_def provisioning_continue_def)
qed

lemma pairing_run: "prov_pc m = None \<Longrightarrow> (let w = fold stick_step evs (provisioning_master now m) in pairing m w \<or> paired m w)"
proof -
  have "pairing m s \<or> paired m s \<Longrightarrow> pairing m (fold stick_step evs s) \<or> paired m (fold stick_step evs s)" for s
    by (induction evs arbitrary: s) (simp_all add: pairing_step)
  then show "prov_pc m = None \<Longrightarrow> ?thesis" using pairing_begins by (simp add: Let_def)
qed

text \<open>The message of the stick is one for the socket.\<close>

lemma message_fields:
  assumes "length key = 16"
  shows "is_provisioning_message (provisioning_message p key)" "get16 13 (provisioning_message p key) = p" "get_bytes 15 16 (provisioning_message p key) = key"
  using assms by (simp_all add: provisioning_message_def is_provisioning_message_def sizeof_provisioning_m_def PROVISIONING_HEADER_def ascii_def
      get16_def get_bytes_def)

lemma length_stick_key: "length (stick_key s) = 16"
  by (simp add: stick_key_def eeprom_read_block_def EE_ENCRYPTION_KEY_SIZE_def)

section \<open>The parser and the first start\<close>

definition parser_ok :: "stick \<Rightarrow> bool" where
  "parser_ok s = (length (parsed_str s) = 20 \<and> (is_parsing s \<longrightarrow> pairing_pos s < 20))"

lemma parser_in_bounds:
  assumes "parser_ok s"
  shows "parser_ok (snd (process_pairing_command now c s))"
proof -
  have "parser_ok (provisioning_master now s) = parser_ok s" "parser_ok (process_exit_provisioning s) = parser_ok s" for s
    by (simp_all add: parser_ok_def provisioning_master_def provisioning_begin_def process_exit_provisioning_def prov_exit_def
        use_stick_network_def stick_leds_defs Let_def)
  then show ?thesis using assms by (simp add: process_pairing_command_def Let_def) (simp add: parser_ok_def)
qed

text \<open>Characters in a row.\<close>

abbreviation typed :: "clock_time \<Rightarrow> string \<Rightarrow> stick \<Rightarrow> stick" where
  "typed now \<equiv> fold (\<lambda>c s. snd (process_pairing_command now c s))"

lemma typed_text:
  "is_parsing s \<Longrightarrow> pairing_pos s + length cs < 20 \<Longrightarrow> length (parsed_str s) = 20 \<Longrightarrow> CHR ''&'' \<notin> set cs \<Longrightarrow>
   typed now cs s = s\<lparr>pairing_pos := pairing_pos s + length cs,
     parsed_str := List.take (pairing_pos s) (parsed_str s) @ cs @ drop (pairing_pos s + length cs) (parsed_str s)\<rparr>"
proof (induction cs arbitrary: s)
  case (Cons c cs)
  let ?t = "s\<lparr>parsed_str := (parsed_str s)[pairing_pos s := c], pairing_pos := pairing_pos s + 1\<rparr>"
  have "snd (process_pairing_command now c s) = ?t" using Cons.prems by (auto simp: process_pairing_command_def Let_def)
  moreover have "typed now cs ?t = ?t\<lparr>pairing_pos := pairing_pos ?t + length cs,
     parsed_str := List.take (pairing_pos ?t) (parsed_str ?t) @ cs @ drop (pairing_pos ?t + length cs) (parsed_str ?t)\<rparr>"
    using Cons.prems by (intro Cons.IH) auto
  moreover have "List.take (Suc (pairing_pos s)) ((parsed_str s)[pairing_pos s := c]) = List.take (pairing_pos s) (parsed_str s) @ [c]"
    using Cons.prems by (simp add: take_Suc_conv_app_nth)
  ultimately show ?case by simp
qed simp

text \<open>A command is obeyed however long the stick has been running and whatever was parsed before.\<close>

lemma commands_are_obeyed:
  assumes "\<not> is_parsing s" "length (parsed_str s) = 20" "length cmd < 20" "CHR ''&'' \<notin> set cmd" "CHR 0x00 \<notin> set cmd"
    and "t = s\<lparr>is_parsing := False, parsed_str := cmd @ CHR 0x00 # drop (Suc (length cmd)) (parsed_str s), pairing_pos := 0\<rparr>"
  shows "typed now (CHR ''$'' # cmd @ [CHR ''&'']) s =
    (if cmd = P_ON_STR then provisioning_master now (t\<lparr>printed := printed s @ [P_SUC_STR]\<rparr>)
     else if cmd = P_OFF_STR then process_exit_provisioning (t\<lparr>printed := printed s @ [P_SUC_STR]\<rparr>) else t)"
proof -
  let ?b = "s\<lparr>is_parsing := True, pairing_pos := 0\<rparr>"
  let ?c = "s\<lparr>is_parsing := True, pairing_pos := length cmd, parsed_str := cmd @ drop (length cmd) (parsed_str s)\<rparr>"
  have "typed now [CHR ''$''] s = ?b" using assms(1) by (simp add: process_pairing_command_def)
  moreover have "typed now cmd ?b = ?c" using assms by (subst typed_text) simp_all
  moreover have "parsed ?c = cmd" using assms(2,3,5) by (auto simp: parsed_def intro: takeWhile_eq_all_conv [THEN iffD2])
  then have "snd (process_pairing_command now (CHR ''&'') ?c) =
    (if cmd = P_ON_STR then provisioning_master now (t\<lparr>printed := printed s @ [P_SUC_STR]\<rparr>)
     else if cmd = P_OFF_STR then process_exit_provisioning (t\<lparr>printed := printed s @ [P_SUC_STR]\<rparr>) else t)"
    using assms(2,3,6) by (simp add: process_pairing_command_def Let_def list_update_append Cons_nth_drop_Suc [symmetric])
  ultimately show ?thesis by simp
qed

lemma random_network_finds:
  "\<forall>i < k. rnd i \<in> {1, 0xFFFF} \<Longrightarrow> rnd k \<notin> {1, 0xFFFF} \<Longrightarrow> p \<in> {1, 0xFFFF} \<Longrightarrow> random_network rnd p = Some (rnd k)"
proof (induction k arbitrary: rnd p)
  case 0
  then show ?case by (subst random_network.simps) (auto simp: random_network.simps [of _ "rnd 0"])
next
  case (Suc k)
  have "random_network (\<lambda>n. rnd (Suc n)) (rnd 0) = Some (rnd (Suc k))" using Suc.prems by (intro Suc.IH) auto
  then show ?case using Suc.prems(3) by (subst random_network.simps) auto
qed

section \<open>Properties\<close>

text \<open>C32: Pairing hands over the stick's network. Whatever happens to the stick while its process runs, a
  socket that takes part and hears no provisioning messages but those of the stick is afterwards either as before or, if
  provisioning succeeds, in the network that the stick was in before, with the stick's key, in EEPROM and radio; and when the
  process of the stick ends by itself, the stick is back in this network.\<close>

theorem pairing_hands_over_network:
  assumes "prov_pc m = None" and "w = fold stick_step evs (provisioning_master now m)"
    and "provisioning_slave rounds s = Some (ok, s')"
    and "\<forall>(begins, ends, p) \<in> set rounds. is_provisioning_message p \<longrightarrow> (1, 0, p) \<in> set (drop (length (frames m)) (frames w))"
  shows "\<not> bootloader_mode s' \<and> mac_dst_pan_id s' = mac_src_pan_id s' \<and> radio_pan_id s' = mac_src_pan_id s' \<and>
    (if ok then mac_src_pan_id s' = st_src_pan_id m \<and> radio_key s' = stick_key m \<and>
        eeprom_read_word (ee s') EE_PAN_ID = st_src_pan_id m \<and> eeprom_read_block (ee s') EE_ENCRYPTION_KEY 16 = stick_key m
     else mac_src_pan_id s' = mac_src_pan_id s \<and> radio_key s' = radio_key s \<and> ee s' = ee s) \<and>
    (prov_pc w = None \<longrightarrow> \<not> st_bootloader_mode w \<and> st_src_pan_id w = st_src_pan_id m \<and>
       st_dst_pan_id w = st_src_pan_id m \<and> st_radio_pan_id w = st_src_pan_id m)"
proof -
  have run: "pairing m w \<or> paired m w" using pairing_run [OF assms(1), of evs now] assms(2) by (simp add: Let_def)
  then have new: "set (drop (length (frames m)) (frames w)) \<subseteq> {(1, 0, provisioning_message (st_src_pan_id m) (stick_key m))}"
    by (auto simp: pairing_def paired_def)
  have heard: "p = provisioning_message (st_src_pan_id m) (stick_key m)"
    if "(begins, ends, p) \<in> set rounds" "is_provisioning_message p" for begins ends p
    using assms(4) that new by fastforce
  note socket = provisioning_outcome [OF assms(3)]
  have "ok \<Longrightarrow> mac_src_pan_id s' = st_src_pan_id m \<and> radio_key s' = stick_key m \<and>
      eeprom_read_word (ee s') EE_PAN_ID = st_src_pan_id m \<and> eeprom_read_block (ee s') EE_ENCRYPTION_KEY 16 = stick_key m"
    using socket heard message_fields [OF length_stick_key [of m], of "st_src_pan_id m"] by auto
  moreover have "prov_pc w = None \<Longrightarrow> paired m w" using run by (auto simp: pairing_def)
  ultimately show ?thesis using socket by (simp add: paired_def)
qed

definition fresh_stick :: stick where
  "fresh_stick = \<lparr>st_leds = 0, st_leds_inverted = 0, st_led_port = 0, st_blink_time = 0, st_red_on = True, st_ee = (\<lambda>_. 7), st_src_pan_id = 0x1234, st_dst_pan_id = 0x1234,
     st_radio_pan_id = 0x1234, st_bootloader_mode = False, st_bootloader_pkt = False, st_encryption = 1, packetbuf = [],
     frames = [], printed = [], prov_pc = None, prov_time = 0, prov_pan_id = 0, is_parsing = False, pairing_pos = 0,
     parsed_str = replicate 20 (CHR 0x00)\<rparr>"

definition example_pairing :: "stick_event list" where
  "example_pairing = [Continue 1 None, Frame_Arrived, Continue 2 (Some PROVISIONING_HEADER)]"

definition example_packet :: buf where "example_packet = provisioning_message 0x1234 (replicate 16 7)"

lemma example_sends:
  "frames (fold stick_step example_pairing (provisioning_master 0 fresh_stick)) = [(1, 0, example_packet)]"
  "prov_pc (fold stick_step example_pairing (provisioning_master 0 fresh_stick)) = None"
  by (simp_all add: example_pairing_def provisioning_master_def provisioning_begin_def provisioning_continue_def read_frame_def provisioning_end_def
      send_network_def prov_exit_def use_stick_network_def stick_provisioning_leds_def stick_leds_defs too_late_def fresh_stick_def
      CLOCK_SECOND_def PROV_TIMEOUT_USB_def example_packet_def EE_ENCRYPTION_KEY_SIZE_def eeprom_read_block_def map_replicate_const)

lemma example_packet_ok: "is_provisioning_message example_packet"
  by (simp add: example_packet_def message_fields)

theorem pairing_hands_over_network_witness:
  "case provisioning_slave [(0, 62, []), (62, 124, example_packet)] fresh_provs of
     Some (ok, s') \<Rightarrow> ok \<and> mac_src_pan_id s' = 0x1234 \<and> radio_key s' = replicate 16 7
   | None \<Rightarrow> False"
proof -
  have "\<exists>s'. provisioning_slave [(0, 62, []), (62, 124, example_packet)] fresh_provs = Some (True, s')"
    by (simp add: provisioning_slave_def Let_def enter_provisioning_def rf212_set_pan_addr_def example_packet_ok frame_simps
        CLOCK_SECOND_def PROV_TIMEOUT_SOCKET_def is_provisioning_message_def [of "[]"] sizeof_provisioning_m_def)
       (simp add: fresh_provs_def provs.defs fresh_defs)
  then obtain s' where s': "provisioning_slave [(0, 62, []), (62, 124, example_packet)] fresh_provs = Some (True, s')" ..
  have "st_src_pan_id fresh_stick = 0x1234" "stick_key fresh_stick = replicate 16 7" "prov_pc fresh_stick = None" "frames fresh_stick = []"
    by (simp_all add: fresh_stick_def stick_key_def EE_ENCRYPTION_KEY_SIZE_def eeprom_read_block_def map_replicate_const)
  with pairing_hands_over_network [OF _ refl s', of fresh_stick example_pairing 0] s' show ?thesis
    by (simp add: example_sends is_provisioning_message_def [of "[]"] sizeof_provisioning_m_def)
qed



text \<open>C34: The first start gives the stick a network of its own. When the flag of the first start is set
  and the generator, seeded with the first word of the key, returns any number that is neither the broadcast network nor the
  provisioning network, the first such number is the stick's network; key and network are in the EEPROM, and every later start keeps
  them.\<close>

theorem first_start_chooses_network:
  assumes "eeprom_read_byte (st_ee s) EE_FIRST_RUN_FLAG \<noteq> 0" and "length key = 16"
    and "rnd = rands (le16 (key ! 0) (key ! 1))" and "\<forall>i < k. rnd i \<in> {1, 0xFFFF}" and "rnd k \<notin> {1, 0xFFFF}"
  shows "\<exists>s'. generate_random_pan_id_and_aes_key key rands s = Some s' \<and> eeprom_read_word (st_ee s') EE_PAN_ID = rnd k \<and> stick_key s' = key \<and>
    (\<forall>key' rands'. generate_random_pan_id_and_aes_key key' rands' s' = Some s')"
proof -
  let ?e = "eeprom_update_block EE_ENCRYPTION_KEY key (st_ee s)"
  have "eeprom_read_word ?e EE_ENCRYPTION_KEY = le16 (key ! 0) (key ! 1)"
    using assms(2) by (simp add: eeprom_read_word_def eeprom_update_block_def)
  moreover have "random_network rnd 0xFFFF = Some (rnd k)" using assms(4,5) by (intro random_network_finds) auto
  ultimately have g: "generate_random_pan_id_and_aes_key key rands s
      = Some (s\<lparr>st_ee := eeprom_write_byte EE_FIRST_RUN_FLAG 0 (eeprom_write_word EE_PAN_ID (rnd k) ?e)\<rparr>)" (is "_ = Some ?s")
    using assms(1,3) by (simp add: generate_random_pan_id_and_aes_key_def Let_def)
  have "eeprom_read_word (st_ee ?s) EE_PAN_ID = rnd k"
    by (simp add: eeprom_read_word_def eeprom_write_word_def eeprom_write_byte_def offset_simps)
  moreover have "stick_key ?s = key"
  proof (rule nth_equalityI)
    show "length (stick_key ?s) = length key" using assms(2) by (simp add: length_stick_key)
  next
    fix i assume "i < length (stick_key ?s)"
    then show "stick_key ?s ! i = key ! i" using assms(2)
      by (simp add: length_stick_key) (simp add: stick_key_def eeprom_read_block_def eeprom_update_block_def eeprom_write_word_def eeprom_write_byte_def offset_simps)
  qed
  moreover have "generate_random_pan_id_and_aes_key key' rands' ?s = Some ?s" for key' rands'
    by (simp add: generate_random_pan_id_and_aes_key_def)
  ultimately show ?thesis using g by blast
qed

text \<open>A generator that first returns the two numbers that are not wanted.\<close>

theorem first_start_chooses_network_witness:
  "\<exists>s'. generate_random_pan_id_and_aes_key (replicate 16 9) (\<lambda>seed n. [1, 0xFFFF, 0x4711] ! (n mod 3)) fresh_stick = Some s' \<and>
     eeprom_read_word (st_ee s') EE_PAN_ID = 0x4711 \<and> stick_key s' = replicate 16 9"
proof -
  have "eeprom_read_byte (st_ee fresh_stick) EE_FIRST_RUN_FLAG \<noteq> 0" by (simp add: fresh_stick_def eeprom_read_byte_def)
  moreover have "\<forall>i < 2. ([1, 0xFFFF, 0x4711] :: u16 list) ! (i mod 3) \<in> {1, 0xFFFF}"
    "([1, 0xFFFF, 0x4711] :: u16 list) ! (2 mod 3) \<notin> {1, 0xFFFF}"
    by (auto simp: less_2_cases_iff)
  ultimately have "\<exists>s'. generate_random_pan_id_and_aes_key (replicate 16 9) (\<lambda>seed n. [1, 0xFFFF, 0x4711] ! (n mod 3)) fresh_stick = Some s' \<and>
      eeprom_read_word (st_ee s') EE_PAN_ID = [1, 0xFFFF, 0x4711] ! (2 mod 3) \<and> stick_key s' = replicate 16 9 \<and>
      (\<forall>key' rands'. generate_random_pan_id_and_aes_key key' rands' s' = Some s')"
    by (intro first_start_chooses_network [OF _ _ refl]) simp_all
  then show ?thesis by auto
qed

end
