(* ===== verification/Number_Text.thy ===== *)
theory Number_Text
  imports Float32
begin

text \<open>
  Numbers as text in the streams of the C++ library, as the assembler of state machines uses them: it writes
  a \<open>float\<close> to a \<^verbatim>\<open>std::stringstream\<close> with the default format (\<^verbatim>\<open>%.6g\<close>) and reads the text back as an
  unsigned integer or as a \<open>float\<close>. Proved: whole numbers below a million survive, larger ones become a
  single digit when they are read as an integer.
\<close>

section \<open>Decimal text\<close>

definition digit :: "nat \<Rightarrow> char" where "digit d = char_of (48 + d)"

definition is_digit :: "char \<Rightarrow> bool" where "is_digit c = (48 \<le> (of_char c :: nat) \<and> (of_char c :: nat) \<le> 57)"

definition digit_value :: "char \<Rightarrow> nat" where "digit_value c = of_char c - 48"

fun decimal :: "nat \<Rightarrow> string" where
  "decimal n = (if n < 10 then [digit n] else decimal (n div 10) @ [digit (n mod 10)])"

declare decimal.simps [simp del]

definition decimal_value :: "string \<Rightarrow> nat" where
  "decimal_value ds = fold (\<lambda>c n. 10 * n + digit_value c) ds 0"

section \<open>Writing\<close>

definition round_even :: "nat \<Rightarrow> nat \<Rightarrow> nat" where
  "round_even n d = (if 2 * (n mod d) > d \<or> (2 * (n mod d) = d \<and> odd (n div d)) then n div d + 1 else n div d)"

text \<open>The decimal exponent of \<open>n / d\<close>.\<close>

function shifts_up :: "nat \<Rightarrow> nat \<Rightarrow> nat" where
  "shifts_up n d = (if n = 0 \<or> d \<le> n then 0 else Suc (shifts_up (10 * n) d))"
  by auto

termination by (relation "measure (\<lambda>(n, d). d - n)") auto

declare shifts_up.simps [simp del]

definition exponent10 :: "nat \<Rightarrow> nat \<Rightarrow> int" where
  "exponent10 n d = (if d \<le> n then int (length (decimal (n div d))) - 1 else - int (shifts_up n d))"

text \<open>Six significant digits, and the exponent of the first.\<close>

definition six_digits :: "nat \<Rightarrow> nat \<Rightarrow> nat \<times> int" where
  "six_digits n d =
     (let x = exponent10 n d;
          q = round_even (n * 10 ^ nat (5 - x)) (d * 10 ^ nat (x - 5))
      in if q = 10 ^ 6 then (10 ^ 5, x + 1) else (q, x))"

definition with_point :: "string \<Rightarrow> string \<Rightarrow> string" where
  "with_point i f = (let f = rev (dropWhile (\<lambda>c. c = CHR ''0'') (rev f)) in if f = [] then i else i @ ''.'' @ f)"

definition put_magnitude :: "nat \<Rightarrow> nat \<Rightarrow> string" where
  "put_magnitude n d =
     (if n = 0 then ''0'' else
      let (q, x) = six_digits n d; ds = decimal q
      in if x < -4 \<or> 6 \<le> x then
           with_point (List.take 1 ds) (drop 1 ds) @ ''e'' @ (if x < 0 then ''-'' else ''+'') @
             (if \<bar>x\<bar> < 10 then ''0'' else []) @ decimal (nat \<bar>x\<bar>)
         else if x < 0 then with_point ''0'' (replicate (nat (- x - 1)) (CHR ''0'') @ ds)
         else with_point (List.take (nat x + 1) ds) (drop (nat x + 1) ds))"

definition put_float :: "f32 \<Rightarrow> string" where
  "put_float f =
     (if f32_neg f then ''-'' else []) @
     (if f32_nan f then ''nan'' else if \<not> f32_finite f then ''inf''
      else case f32_frac f of (n, d) \<Rightarrow> put_magnitude n d)"

section \<open>Reading\<close>

definition get_sign :: "string \<Rightarrow> bool \<times> string" where
  "get_sign s = (case s of [] \<Rightarrow> (False, []) | c # cs \<Rightarrow> (if c = CHR ''-'' then (True, cs) else if c = CHR ''+'' then (False, cs) else (False, s)))"

text \<open>Reading an unsigned integer ends at the first character that is no digit. Without digits the result is zero, beyond
  the range it is the largest value, and a minus sign negates it modulo the width.\<close>

definition get_uint :: "string \<Rightarrow> u32" where
  "get_uint s =
     (let (negative, s) = get_sign s; n = decimal_value (takeWhile is_digit s)
      in if n \<ge> 2 ^ 32 then 0xffffffff else if negative then - of_nat n else of_nat n)"

definition get_exponent :: "string \<Rightarrow> int" where
  "get_exponent s =
     (case s of
        c # cs \<Rightarrow> (if c = CHR ''e'' then
                     (let (negative, cs) = get_sign cs; n = decimal_value (takeWhile is_digit cs)
                      in if negative then - int n else int n)
                   else 0)
      | [] \<Rightarrow> 0)"

definition get_float :: "string \<Rightarrow> f32" where
  "get_float s =
     (let (negative, s) = get_sign s;
          i = takeWhile is_digit s; s = dropWhile is_digit s;
          f = (case s of c # cs \<Rightarrow> (if c = CHR ''.'' then takeWhile is_digit cs else []) | [] \<Rightarrow> []);
          s = (case s of c # cs \<Rightarrow> (if c = CHR ''.'' then dropWhile is_digit cs else s) | [] \<Rightarrow> []);
          x = get_exponent s - int (length f);
          m = f32_round (decimal_value (i @ f) * 10 ^ nat x) (10 ^ nat (- x))
      in if i @ f = [] then 0 else f32_signed negative (if m = f32_inf then 0x7f7fffff else m))"

section \<open>Facts\<close>

lemma of_char_digit: "d < 10 \<Longrightarrow> of_char (digit d) = 48 + d"
  by (simp add: digit_def)

lemma digit_simps [simp]: "d < 10 \<Longrightarrow> is_digit (digit d)" "d < 10 \<Longrightarrow> digit_value (digit d) = d" "digit 0 = CHR ''0''"
  by (simp_all add: is_digit_def digit_value_def of_char_digit) (simp add: digit_def char_of_def bit_0)

lemma decimal_digits: "c \<in> set (decimal n) \<Longrightarrow> is_digit c"
proof (induction n rule: decimal.induct)
  case (1 n)
  then show ?case by (subst (asm) (2) decimal.simps) (auto split: if_splits)
qed

lemma decimal_nonempty [simp]: "decimal n \<noteq> []"
  by (subst decimal.simps) simp

lemma decimal_value_snoc: "decimal_value (ds @ [c]) = 10 * decimal_value ds + digit_value c"
  by (simp add: decimal_value_def)

lemma decimal_value_decimal [simp]: "decimal_value (decimal n) = n"
proof (induction n rule: decimal.induct)
  case (1 n)
  then show ?case by (subst decimal.simps) (auto simp: decimal_value_snoc decimal_value_def)
qed

lemma decimal_step: "0 < n \<Longrightarrow> d < 10 \<Longrightarrow> decimal (10 * n + d) = decimal n @ [digit d]"
  by (subst decimal.simps) simp

lemma decimal_times: "0 < n \<Longrightarrow> decimal (n * 10 ^ k) = decimal n @ replicate k (CHR ''0'')"
proof (induction k)
  case (Suc k)
  then have "decimal (10 * (n * 10 ^ k) + 0) = decimal (n * 10 ^ k) @ [digit 0]" by (intro decimal_step) auto
  then show ?case using Suc by (simp add: mult.left_commute replicate_append_same [symmetric])
qed simp

lemma length_decimal: "10 ^ k \<le> n \<Longrightarrow> n < 10 ^ Suc k \<Longrightarrow> length (decimal n) = Suc k"
proof (induction k arbitrary: n)
  case 0
  then show ?case by (simp add: decimal.simps)
next
  case (Suc k)
  then have "10 ^ k \<le> n div 10" "n div 10 < 10 ^ Suc k" by auto
  moreover have "\<not> n < 10" using Suc.prems(1) by (auto simp: not_less intro: order_trans [of _ "10 * 10 ^ k"])
  ultimately show ?case using Suc.IH by (subst decimal.simps) simp
qed

lemma decimal_bounds: "0 < n \<Longrightarrow> 10 ^ (length (decimal n) - 1) \<le> n \<and> n < 10 ^ length (decimal n)"
proof (induction n rule: decimal.induct)
  case (1 n)
  show ?case
  proof (cases "n < 10")
    case True
    then show ?thesis using 1 by (simp add: decimal.simps)
  next
    case False
    with 1 have b: "10 ^ (length (decimal (n div 10)) - 1) \<le> n div 10" "n div 10 < 10 ^ length (decimal (n div 10))" by auto
    have l: "length (decimal n) = Suc (length (decimal (n div 10)))" using False by (subst decimal.simps) simp
    have p: "10 ^ (length (decimal n) - 1) = 10 * (10 :: nat) ^ (length (decimal (n div 10)) - 1)"
      unfolding l by (cases "decimal (n div 10)") auto
    have "10 * 10 ^ (length (decimal (n div 10)) - 1) \<le> n" using b(1) by (simp add: less_eq_div_iff_mult_less_eq mult.commute)
    moreover have "n < 10 ^ length (decimal n)" using b(2) unfolding l by (simp add: div_less_iff_less_mult mult.commute)
    ultimately show ?thesis unfolding p by blast
  qed
qed

lemma length_decimal_le:
  assumes "0 < n" "n < 10 ^ k" shows "length (decimal n) \<le> k"
proof (rule ccontr)
  assume "\<not> length (decimal n) \<le> k"
  then have "(10 :: nat) ^ k \<le> 10 ^ (length (decimal n) - 1)" by (intro power_increasing) auto
  then show False using decimal_bounds [OF assms(1)] assms(2) by linarith
qed

lemma first_digit: "0 < n \<Longrightarrow> \<exists>d ds. decimal n = digit d # ds \<and> 1 \<le> d \<and> d < 10"
proof (induction n rule: decimal.induct)
  case (1 n)
  show ?case
  proof (cases "n < 10")
    case True
    then show ?thesis using 1 by (auto simp: decimal.simps)
  next
    case False
    then have "0 < n div 10" by simp
    with 1(1) [OF False] obtain d ds where "decimal (n div 10) = digit d # ds" "1 \<le> d" "d < 10" by blast
    then show ?thesis using False by (subst decimal.simps) auto
  qed
qed

lemma takeWhile_decimal: "takeWhile is_digit (decimal n @ s) = decimal n @ takeWhile is_digit s"
    "dropWhile is_digit (decimal n @ s) = dropWhile is_digit s"
  by (simp_all add: takeWhile_append2 dropWhile_append2 decimal_digits)

lemma strip_zeros [simp]: "with_point i (replicate k (CHR ''0'')) = i"
  by (simp add: with_point_def dropWhile_eq_Nil_conv)

lemma no_sign: "get_sign (decimal n @ s) = (False, decimal n @ s)"
proof -
  obtain c cs where c: "decimal n = c # cs" by (cases "decimal n") auto
  then have "is_digit c" using decimal_digits [of c n] by simp
  then have "c \<noteq> CHR ''-''" "c \<noteq> CHR ''+''" by (auto simp: is_digit_def)
  then show ?thesis by (simp add: get_sign_def c)
qed

lemma get_uint_decimal: "takeWhile is_digit s = [] \<Longrightarrow> n < 2 ^ 32 \<Longrightarrow> get_uint (decimal n @ s) = of_nat n"
  by (simp add: get_uint_def no_sign takeWhile_decimal)

section \<open>Whole numbers\<close>

lemma exponent10_whole:
  assumes "0 < b" "0 < n" shows "exponent10 (n * b) b = int (length (decimal n)) - 1"
  using assms by (simp add: exponent10_def)

lemma round_even_exact: "0 < d \<Longrightarrow> round_even (q * d) d = q"
  by (simp add: round_even_def)

lemma six_digits_whole:
  assumes "0 < b" "0 < n" "n < 10 ^ 6"
  shows "six_digits (n * b) b = (n * 10 ^ (6 - length (decimal n)), int (length (decimal n)) - 1)"
proof -
  let ?l = "length (decimal n)"
  have l: "1 \<le> ?l" by (simp add: Suc_leI)
  have b: "10 ^ (?l - 1) \<le> n" "n < 10 ^ ?l" using decimal_bounds [OF assms(2)] by simp_all
  have l6: "?l \<le> 6" using length_decimal_le [OF assms(2,3)] .
  have x: "nat (5 - (int ?l - 1)) = 6 - ?l" "nat (int ?l - 1 - 5) = 0" using l6 by simp_all
  have "n * 10 ^ (6 - ?l) < 10 ^ ?l * 10 ^ (6 - ?l)" using b(2) by simp
  also have "\<dots> = 10 ^ 6" using l6 by (simp flip: power_add)
  finally have "n * 10 ^ (6 - ?l) \<noteq> 10 ^ 6" by simp
  moreover have "n * b * 10 ^ (6 - ?l) = (n * 10 ^ (6 - ?l)) * b" by simp
  ultimately show ?thesis
    by (simp only: six_digits_def Let_def exponent10_whole [OF assms(1,2)] x power_0 mult_1_right round_even_exact [OF assms(1)] if_False)
qed

lemma put_whole:
  assumes "0 < b" "0 < n" "n < 10 ^ 6"
  shows "put_magnitude (n * b) b = decimal n"
proof -
  let ?l = "length (decimal n)"
  have l: "1 \<le> ?l" by (simp add: Suc_leI)
  have l6: "?l \<le> 6" using length_decimal_le [OF assms(2,3)] .
  have "nat (int ?l - 1) + 1 = ?l" using l by simp
  then show ?thesis using l l6 assms(1,2)
    by (simp add: put_magnitude_def six_digits_whole [OF assms] decimal_times)
qed

lemma bitlen_bounds: "0 < n \<Longrightarrow> 2 ^ (bitlen n - 1) \<le> n \<and> n < 2 ^ bitlen n \<and> 0 < bitlen n"
proof (induction n rule: bitlen.induct)
  case (1 n)
  show ?case
  proof (cases "n = 1")
    case False
    with 1 have b: "2 ^ (bitlen (n div 2) - 1) \<le> n div 2" "n div 2 < 2 ^ bitlen (n div 2)" "0 < bitlen (n div 2)" by auto
    have l: "bitlen n = Suc (bitlen (n div 2))" using 1 by (subst bitlen.simps) simp
    have p: "2 ^ (bitlen n - 1) = 2 * (2 :: nat) ^ (bitlen (n div 2) - 1)"
      unfolding l using b(3) by (cases "bitlen (n div 2)") auto
    have "2 * 2 ^ (bitlen (n div 2) - 1) \<le> n" using b(1) by (simp add: less_eq_div_iff_mult_less_eq mult.commute)
    moreover have "n < 2 ^ bitlen n" using b(2) unfolding l by (simp add: div_less_iff_less_mult mult.commute)
    ultimately show ?thesis unfolding p using l by simp
  qed simp
qed

text \<open>Every natural number below \<open>2 ^ 24\<close> is a float.\<close>

lemma round_nat:
  assumes "0 < n" "n < 2 ^ 24"
  shows "f32_round n 1 = of_nat (n * 2 ^ (24 - bitlen n) + (bitlen n + 125) * 2 ^ 23)" "1 \<le> bitlen n" "bitlen n \<le> 24"
    "2 ^ 23 \<le> n * 2 ^ (24 - bitlen n)" "n * 2 ^ (24 - bitlen n) < 2 ^ 24"
proof -
  let ?L = "bitlen n"
  have b: "2 ^ (?L - 1) \<le> n" "n < 2 ^ ?L" "0 < ?L" using bitlen_bounds [OF assms(1)] by simp_all
  show l: "1 \<le> ?L" using b(3) by simp
  show l24: "?L \<le> 24"
  proof (rule ccontr)
    assume "\<not> ?L \<le> 24"
    then have "(2 :: nat) ^ 24 \<le> 2 ^ (?L - 1)" by (intro power_increasing) auto
    then show False using b(1) assms(2) by linarith
  qed
  have "2 ^ (?L - 1) * 2 ^ (24 - ?L) \<le> n * 2 ^ (24 - ?L)" using b(1) by (rule mult_right_mono) simp
  moreover have "2 ^ (?L - 1) * 2 ^ (24 - ?L) = (2 :: nat) ^ 23" using l l24 by (simp flip: power_add)
  ultimately show q: "2 ^ 23 \<le> n * 2 ^ (24 - ?L)" by (simp only:)
  have "n * 2 ^ (24 - ?L) < 2 ^ ?L * 2 ^ (24 - ?L)" using b(2) by simp
  also have "\<dots> = 2 ^ 24" using l24 by (simp flip: power_add)
  finally show q24: "n * 2 ^ (24 - ?L) < 2 ^ 24" .
  have s: "nat (- (int ?L - 25)) = Suc (24 - ?L)" using l24 by simp
  show "f32_round n 1 = of_nat (n * 2 ^ (24 - ?L) + (?L + 125) * 2 ^ 23)"
  proof (rule f32_roundI [of n 1 "int ?L - 25" "int ?L - 24" "int ?L - 24" "n * 2 ^ (24 - ?L)" 1 "n * 2 ^ (24 - ?L)" 0 "n * 2 ^ (24 - ?L)"])
    show "(if n * 2 ^ nat (- (int ?L - 25)) \<ge> 2 ^ 24 * (1 * 2 ^ nat (int ?L - 25)) then int ?L - 25 + 1 else int ?L - 25) = int ?L - 24"
      using q l24 unfolding s by simp
    show "n * 2 ^ nat (- (int ?L - 24)) = n * 2 ^ (24 - ?L)" using l24 by (simp add: nat_diff_distrib)
    show "n * 2 ^ (24 - ?L) + nat (int ?L - 24 + 149) * 2 ^ 23 = n * 2 ^ (24 - ?L) + (?L + 125) * 2 ^ 23"
      by (simp add: nat_add_distrib)
    show "n * 2 ^ (24 - ?L) + (?L + 125) * 2 ^ 23 < 0x7f800000" using q24 l24 by simp
  qed (use assms l24 l in auto)
qed

lemma frac_of_nat:
  assumes "0 < n" "n < 2 ^ 24"
  shows "\<exists>b. 0 < b \<and> f32_frac (f32_of_nat n) = (n * b, b) \<and> f32_finite (f32_of_nat n) \<and> \<not> f32_nan (f32_of_nat n) \<and> \<not> f32_neg (f32_of_nat n)"
proof -
  let ?L = "bitlen n" let ?q = "n * 2 ^ (24 - ?L)"
  let ?m = "?q + (?L + 125) * 2 ^ 23"
  note r = round_nat [OF assms]
  have m: "?m < 2 ^ 31" using r(3,5) by simp
  have f: "f32_of_nat n = of_nat ?m" using r(1) by (simp add: f32_of_nat_def)
  have "of_nat ?m AND 0x7fffffff = (take_bit 31 (of_nat ?m) :: u32)" by (simp add: take_bit_eq_mask mask_eq_exp_minus_1)
  also have "\<dots> = of_nat ?m" using m by (simp only: take_bit_of_nat take_bit_nat_eq_self)
  finally have mag: "f32_mag (f32_of_nat n) = ?m" using m by (simp only: f f32_mag_def unat_of_nat) (simp add: take_bit_eq_mod)
  have neg: "\<not> f32_neg (f32_of_nat n)"
  proof -
    have "bit (of_nat ?m :: u32) 31 = (bit ?m 31)" by (simp only: bit_of_nat_iff) simp
    also have "\<dots> = False" using m by (simp only: bit_iff_odd div_less) simp
    finally show ?thesis by (simp add: f32_neg_def f)
  qed
  have div: "?m div 2 ^ 23 = ?L + 126" "?m mod 2 ^ 23 + 2 ^ 23 = ?q"
  proof -
    obtain d where d: "?q = 2 ^ 23 + d" using r(4) le_Suc_ex by blast
    then have "d < 2 ^ 23" using r(5) by simp
    moreover have "?m = d + (?L + 126) * 2 ^ 23" unfolding d by simp
    ultimately have "?m div 2 ^ 23 = ?L + 126 \<and> ?m mod 2 ^ 23 = d" by (simp only: div_mult_self1 mod_mult_self1) simp
    then show "?m div 2 ^ 23 = ?L + 126" "?m mod 2 ^ 23 + 2 ^ 23 = ?q" using d by simp_all
  qed
  have frac: "f32_frac (f32_of_nat n) = (?q, 2 ^ (24 - ?L))"
    using r(2,3) by (simp only: f32_frac_def Let_def mag div) auto
  have "f32_finite (f32_of_nat n)" "\<not> f32_nan (f32_of_nat n)"
    using r(3,5) by (simp_all only: f32_finite_def f32_nan_def mag) simp_all
  with neg frac show ?thesis by (intro exI [of _ "2 ^ (24 - ?L)"]) simp
qed

lemma put_of_nat:
  assumes "n < 10 ^ 6" shows "put_float (f32_of_nat n) = decimal n"
proof (cases "n = 0")
  case True
  then show ?thesis
    by (simp add: put_float_def f32_of_nat_def f32_round_def f32_bits put_magnitude_def decimal.simps)
next
  case False
  then obtain b where b: "0 < b" "f32_frac (f32_of_nat n) = (n * b, b)" "f32_finite (f32_of_nat n)"
    "\<not> f32_nan (f32_of_nat n)" "\<not> f32_neg (f32_of_nat n)"
    using frac_of_nat [of n] assms by auto
  then show ?thesis using put_whole [OF b(1) _ assms] False by (simp add: put_float_def)
qed

lemma get_float_decimal: "n < 10 ^ 6 \<Longrightarrow> get_float (decimal n) = f32_of_nat n"
proof -
  assume n: "n < 10 ^ 6"
  have "f32_of_nat n \<noteq> f32_inf"
  proof (cases "n = 0")
    case False
    then have "f32_finite (f32_of_nat n)" using frac_of_nat [of n] n by auto
    then show ?thesis by (auto simp: f32_finite_def f32_mag_def)
  qed (simp add: f32_of_nat_def f32_round_def)
  moreover have w: "takeWhile is_digit (decimal n) = decimal n" "dropWhile is_digit (decimal n) = []" "get_sign (decimal n) = (False, decimal n)"
    using takeWhile_decimal [of n "[]"] no_sign [of n "[]"] by simp_all
  ultimately show ?thesis
    by (simp add: get_float_def w Let_def get_exponent_def f32_signed_def f32_of_nat_def del: takeWhile_eq_all_conv dropWhile_eq_Nil_conv)
qed

text \<open>A value of a million or more is written with an exponent, and reading the integer stops after the first digit.\<close>

lemma exponent10_large:
  assumes "0 < d" "10 ^ 6 * d \<le> n" shows "6 \<le> exponent10 n d"
proof -
  have q: "10 ^ 6 \<le> n div d" using assms by (simp add: less_eq_div_iff_mult_less_eq)
  have "1 * d \<le> 10 ^ 6 * d" by (rule mult_right_mono) simp_all
  then have "d \<le> n" using assms(2) by linarith
  have "\<not> length (decimal (n div d)) \<le> 6"
  proof
    assume "length (decimal (n div d)) \<le> 6"
    then have "(10 :: nat) ^ length (decimal (n div d)) \<le> 10 ^ 6" by (intro power_increasing) auto
    moreover have "0 < n div d" by (rule less_le_trans [OF _ q]) simp
    ultimately show False using decimal_bounds [of "n div d"] q by auto
  qed
  with \<open>d \<le> n\<close> show ?thesis by (simp add: exponent10_def)
qed

lemma six_digits_large:
  assumes "0 < d" "10 ^ 6 * d \<le> n" "six_digits n d = (q, x)"
  shows "0 < q" "6 \<le> x"
proof -
  define x0 where "x0 = exponent10 n d"
  define q0 where "q0 = round_even (n * 10 ^ nat (5 - x0)) (d * 10 ^ nat (x0 - 5))"
  have x0: "6 \<le> x0" unfolding x0_def by (rule exponent10_large [OF assms(1,2)])
  have r: "(if q0 = 10 ^ 6 then (10 ^ 5, x0 + 1) else (q0, x0)) = (q, x)"
    using assms(3) by (simp only: six_digits_def Let_def x0_def q0_def)
  then show "6 \<le> x" using x0 by (auto split: if_splits)
  have "1 * d \<le> 10 ^ 6 * d" by (rule mult_right_mono) simp_all
  then have "d \<le> n" using assms(2) by linarith
  then have "0 < n div d" using assms(1) by (simp add: div_greater_zero_iff)
  then have "10 ^ (length (decimal (n div d)) - 1) \<le> n div d" using decimal_bounds by blast
  moreover have "nat (x0 - 5) \<le> length (decimal (n div d)) - 1" using \<open>d \<le> n\<close> by (simp add: x0_def exponent10_def)
  then have "(10 :: nat) ^ nat (x0 - 5) \<le> 10 ^ (length (decimal (n div d)) - 1)" by (intro power_increasing) auto
  ultimately have "10 ^ nat (x0 - 5) \<le> n div d" by linarith
  then have "d * 10 ^ nat (x0 - 5) \<le> n" using assms(1) by (simp add: less_eq_div_iff_mult_less_eq mult.commute)
  moreover have "nat (5 - x0) = 0" using x0 by simp
  ultimately have "0 < q0" using assms(1) by (simp add: q0_def round_even_def div_greater_zero_iff)
  then show "0 < q" using r by (auto split: if_splits)
qed

lemma get_uint_large:
  assumes "f32_finite f" "\<not> f32_neg f" "\<not> f32_nan f" "f32_frac f = (n, d)" "0 < d" "10 ^ 6 * d \<le> n"
  shows "1 \<le> unat (get_uint (put_float f)) \<and> unat (get_uint (put_float f)) \<le> 9"
proof -
  obtain q x where qx: "six_digits n d = (q, x)" by fastforce
  note s = six_digits_large [OF assms(5,6) qx]
  obtain c ds where c: "decimal q = digit c # ds" "1 \<le> c" "c < 10" using first_digit [OF s(1)] by blast
  have c1: "decimal c = [digit c]" using c(3) by (simp add: decimal.simps)
  have "put_float f = decimal c @ (if (rev (dropWhile (\<lambda>c. c = CHR ''0'') (rev ds))) = [] then [] else ''.'' @ rev (dropWhile (\<lambda>c. c = CHR ''0'') (rev ds)))
      @ ''e+'' @ (if \<bar>x\<bar> < 10 then ''0'' else []) @ decimal (nat \<bar>x\<bar>)"
    using assms(1-4) s qx c(1) c1 assms(5,6) by (auto simp: put_float_def put_magnitude_def with_point_def Let_def)
  then have "get_uint (put_float f) = of_nat c" using c(3)
    by (simp only:) (rule get_uint_decimal, auto simp: is_digit_def)
  moreover have "unat (of_nat c :: u32) = c" using c(3) by (simp add: unat_of_nat take_bit_nat_eq_self)
  ultimately show ?thesis using c(2,3) by simp
qed

end
