(* ===== verification/Assembler.thy ===== *)
theory Assembler
  imports SM_Eeprom Number_Text
begin

text \<open>
  The assembler of state machines (\<^verbatim>\<open>hostsoftware/hba\<close>): from the parsed document over the graph of states
  and conditions to the file that \<^verbatim>\<open>hexaupload\<close> sends to a device. The parser is generated by Boost.Spirit
  and not modelled, its result is the input here; the graph of Boost is an argument. Line numbers, which
  occur in messages only, are left out. Proved: the tables of the image are the conditions and transitions of
  the document in their order, as far as they fit, and identifiers are positions in the tables.
\<close>

section \<open>The document\<close>

record if_clause_doc =
  if_name :: string
  if_eid :: u32
  if_value :: f32
  if_goodstate :: string
  if_badstate :: string

record state_doc =
  state_name :: string
  if_clauses :: "if_clause_doc list"
  state_id :: u32

record cond_eidvalue_doc =
  ipv6_address :: string
  eidvalue_eid :: u32
  eidvalue_op :: u32
  eidvalue_value :: f32

record cond_datetime_doc =
  datetime_field :: u32
  datetime_op :: u32
  datetime_value :: u32

datatype hba_cond = Eidvalue cond_eidvalue_doc | Timeout u32 | On_Date cond_datetime_doc

record condition_doc =
  condition_name :: string
  cond_doc :: hba_cond
  condition_id :: u32

datatype hba_doc_block = State_Block state_doc | Condition_Block condition_doc

record hba_doc =
  target_ip :: string
  device_name :: string
  machine_id :: string
  start_state :: string
  doc_blocks :: "hba_doc_block list"

section \<open>The graph\<close>

datatype vertex_type = CONDITION | STATE | STARTSTATE

record vertex_t =
  vertex_name :: string
  vertex_id :: u32
  vertex_type :: vertex_type

datatype edge_type = GOOD_STATE | BAD_STATE | FROM_STATE

record edge_t =
  edge_name :: string
  edge_type :: edge_type

text \<open>The operations of Boost's \<open>adjacency_list\<close> that the assembler uses, on graphs of type \<open>'g\<close>. Vertices are numbered from
  zero; \<open>add_edge\<close> also returns whether an edge was added, and gives it its property.\<close>

record 'g bgl =
  no_graph :: 'g
  add_vertex :: "vertex_t \<Rightarrow> 'g \<Rightarrow> 'g"
  graph_vertices :: "'g \<Rightarrow> vertex_t list"
  set_vertex :: "nat \<Rightarrow> vertex_t \<Rightarrow> 'g \<Rightarrow> 'g"
  add_edge :: "nat \<Rightarrow> nat \<Rightarrow> edge_t \<Rightarrow> 'g \<Rightarrow> bool \<times> 'g"
  out_neighbours :: "'g \<Rightarrow> nat \<Rightarrow> nat list"   \<comment> \<open>\<open>adjacent_vertices\<close>\<close>
  in_neighbours :: "'g \<Rightarrow> nat \<Rightarrow> nat list"    \<comment> \<open>\<open>inv_adjacent_vertices\<close>\<close>

datatype hba_error = VertexNotFound string | EdgeLink | DatatypeNotFound | Unreachable string | Unleavable string | Exited

fun find_from :: "nat \<Rightarrow> vertex_t list \<Rightarrow> string \<Rightarrow> nat option" where
  "find_from i [] name = None"
| "find_from i (v # vs) name = (if name = vertex_name v then Some i else find_from (Suc i) vs name)"

definition find_vertex :: "'g bgl \<Rightarrow> 'g \<Rightarrow> string \<Rightarrow> hba_error + nat" where
  "find_vertex G g name =
     (case find_from 0 (graph_vertices G g) name of None \<Rightarrow> Inl (VertexNotFound name) | Some i \<Rightarrow> Inr i)"

definition ebind :: "'e + 'a \<Rightarrow> ('a \<Rightarrow> 'e + 'b) \<Rightarrow> 'e + 'b" where
  "ebind m f = (case m of Inl e \<Rightarrow> Inl e | Inr x \<Rightarrow> f x)"

definition find_vertex_id :: "'g bgl \<Rightarrow> 'g \<Rightarrow> string \<Rightarrow> hba_error + u32" where
  "find_vertex_id G g name = ebind (find_vertex G g name) (\<lambda>i. Inr (vertex_id (graph_vertices G g ! i)))"

text \<open>The first pass numbers states and conditions, each from zero, and adds a vertex for each.\<close>

fun first_pass :: "'g bgl \<Rightarrow> hba_doc_block \<Rightarrow> u32 \<times> u32 \<times> 'g \<Rightarrow> hba_doc_block \<times> u32 \<times> u32 \<times> 'g" where
  "first_pass G (State_Block st) (sid, cid, g) =
     (State_Block (st\<lparr>state_id := sid\<rparr>), sid + 1, cid,
      add_vertex G \<lparr>vertex_name = state_name st, vertex_id = sid, vertex_type = STATE\<rparr> g)"
| "first_pass G (Condition_Block co) (sid, cid, g) =
     (Condition_Block (co\<lparr>condition_id := cid\<rparr>), sid, cid + 1,
      add_vertex G \<lparr>vertex_name = condition_name co, vertex_id = cid, vertex_type = CONDITION\<rparr> g)"

fun first_passes :: "'g bgl \<Rightarrow> hba_doc_block list \<Rightarrow> u32 \<times> u32 \<times> 'g \<Rightarrow> hba_doc_block list \<times> u32 \<times> u32 \<times> 'g" where
  "first_passes G [] s = ([], s)"
| "first_passes G (b # bs) s =
     (let (b, s) = first_pass G b s; (bs, s) = first_passes G bs s in (b # bs, s))"

definition mark_start_state :: "'g bgl \<Rightarrow> string \<Rightarrow> 'g \<Rightarrow> hba_error + 'g" where
  "mark_start_state G name g =
     (case find_from 0 (graph_vertices G g) name of
        None \<Rightarrow> Inl (VertexNotFound name)
      | Some i \<Rightarrow> Inr (set_vertex G i ((graph_vertices G g ! i)\<lparr>vertex_type := STARTSTATE\<rparr>) g))"

definition link_vertices :: "'g bgl \<Rightarrow> nat \<Rightarrow> nat \<Rightarrow> edge_t \<Rightarrow> 'g \<Rightarrow> hba_error + 'g" where
  "link_vertices G a b e g = (let (ok, g) = add_edge G a b e g in if ok then Inr g else Inl EdgeLink)"

definition link_clause :: "'g bgl \<Rightarrow> string \<Rightarrow> if_clause_doc \<Rightarrow> 'g \<Rightarrow> hba_error + 'g" where
  "link_clause G from_state_name clause g =
     ebind (find_vertex G g from_state_name) (\<lambda>from_state.
     ebind (find_vertex G g (if_goodstate clause)) (\<lambda>good_state.
     ebind (find_vertex G g (if_badstate clause)) (\<lambda>bad_state.
     if if_name clause \<noteq> ''true'' then
       ebind (find_vertex G g (if_name clause)) (\<lambda>condition.
       ebind (link_vertices G from_state condition \<lparr>edge_name = [], edge_type = FROM_STATE\<rparr> g) (\<lambda>g.
       ebind (link_vertices G condition good_state \<lparr>edge_name = ''G'', edge_type = GOOD_STATE\<rparr> g) (\<lambda>g.
       link_vertices G condition bad_state \<lparr>edge_name = ''B'', edge_type = BAD_STATE\<rparr> g)))
     else link_vertices G from_state good_state \<lparr>edge_name = ''T'', edge_type = GOOD_STATE\<rparr> g)))"

text \<open>An error of the second pass is caught, and the program ends.\<close>

fun second_clauses :: "'g bgl \<Rightarrow> string \<Rightarrow> if_clause_doc list \<Rightarrow> 'g \<Rightarrow> hba_error + 'g" where
  "second_clauses G name [] g = Inr g"
| "second_clauses G name (c # cs) g =
     (case link_clause G name c g of Inl e \<Rightarrow> Inl Exited | Inr g \<Rightarrow> second_clauses G name cs g)"

fun second_passes :: "'g bgl \<Rightarrow> hba_doc_block list \<Rightarrow> 'g \<Rightarrow> hba_error + 'g" where
  "second_passes G [] g = Inr g"
| "second_passes G (State_Block st # bs) g =
     ebind (second_clauses G (state_name st) (if_clauses st) g) (second_passes G bs)"
| "second_passes G (Condition_Block co # bs) g = second_passes G bs g"

text \<open>\<open>GraphBuilder::operator()\<close>: a missing start state is reported, and the work goes on.\<close>

definition build_graph :: "'g bgl \<Rightarrow> hba_doc \<Rightarrow> hba_error + hba_doc \<times> 'g" where
  "build_graph G hba =
     (let (bs, _, _, g) = first_passes G (doc_blocks hba) (0, 0, no_graph G);
          hba = hba\<lparr>doc_blocks := bs\<rparr>
      in if graph_vertices G g = [] then Inr (hba, g)
         else (let g = (case mark_start_state G (start_state hba) g of Inl e \<Rightarrow> g | Inr g \<Rightarrow> g) in
               ebind (second_passes G bs g) (\<lambda>g. Inr (hba, g))))"

section \<open>Checks of the graph\<close>

definition is_state :: "vertex_t \<Rightarrow> bool" where
  "is_state v = (vertex_type v = STATE \<or> vertex_type v = STARTSTATE)"

definition check_vertices :: "'g bgl \<Rightarrow> (vertex_t \<Rightarrow> bool) \<Rightarrow> ('g \<Rightarrow> nat \<Rightarrow> nat list) \<Rightarrow> (string \<Rightarrow> hba_error) \<Rightarrow> 'g \<Rightarrow> hba_error + unit" where
  "check_vertices G sel nb err g =
     (case find (\<lambda>(i, v). sel v \<and> nb g i = []) (zip [0..<length (graph_vertices G g)] (graph_vertices G g)) of
        None \<Rightarrow> Inr ()
      | Some (i, v) \<Rightarrow> Inl (err (vertex_name v)))"

definition check_states_incoming :: "'g bgl \<Rightarrow> 'g \<Rightarrow> hba_error + unit" where
  "check_states_incoming G = check_vertices G is_state (in_neighbours G) Unreachable"

definition check_states_outgoing :: "'g bgl \<Rightarrow> 'g \<Rightarrow> hba_error + unit" where
  "check_states_outgoing G = check_vertices G is_state (out_neighbours G) Unleavable"

definition check_conditions_incoming :: "'g bgl \<Rightarrow> 'g \<Rightarrow> hba_error + unit" where
  "check_conditions_incoming G = check_vertices G (\<lambda>v. vertex_type v = CONDITION) (in_neighbours G) Unreachable"

text \<open>The body of the last check is commented out.\<close>

definition check_conditions_outgoing :: "'g bgl \<Rightarrow> 'g \<Rightarrow> hba_error + unit" where
  "check_conditions_outgoing G g = Inr ()"

section \<open>Datatypes of endpoints\<close>

definition is_space :: "char \<Rightarrow> bool" where
  "is_space c = (c = CHR '' '' \<or> (9 \<le> (of_char c :: nat) \<and> (of_char c :: nat) \<le> 13))"

definition datatype_named :: "string \<Rightarrow> hxb_datatype" where
  "datatype_named dtype =
     (if dtype = ''UNDEFINED'' then HXB_DTYPE_UNDEFINED
      else if dtype = ''BOOL'' then HXB_DTYPE_BOOL
      else if dtype = ''UINT8'' then HXB_DTYPE_UINT8
      else if dtype = ''UINT32'' then HXB_DTYPE_UINT32
      else if dtype = ''DATETIME'' then HXB_DTYPE_DATETIME
      else if dtype = ''FLOAT'' then HXB_DTYPE_FLOAT
      else if dtype = ''128STRING'' then HXB_DTYPE_128STRING
      else if dtype = ''TIMESTAMP'' then HXB_DTYPE_TIMESTAMP
      else HXB_DTYPE_UNDEFINED)"

type_synonym dtype_map = "u32 \<Rightarrow> hxb_datatype option"

text \<open>One line: an integer and a word. If there is no integer, or one out of range, the stream fails and the word stays empty.\<close>

definition read_datatype :: "string \<Rightarrow> dtype_map \<Rightarrow> dtype_map" where
  "read_datatype line m =
     (if line = [] then m
      else let (negative, s) = get_sign (dropWhile is_space line);
               ds = takeWhile is_digit s;
               n = decimal_value ds
           in if ds = [] then m(0 \<mapsto> HXB_DTYPE_UNDEFINED)
              else if negative \<and> n > 2 ^ 31 then m(0x80000000 \<mapsto> HXB_DTYPE_UNDEFINED)
              else if \<not> negative \<and> n \<ge> 2 ^ 31 then m(0x7fffffff \<mapsto> HXB_DTYPE_UNDEFINED)
              else m((if negative then - of_nat n else of_nat n) \<mapsto>
                     datatype_named (takeWhile (\<lambda>c. \<not> is_space c) (dropWhile is_space (dropWhile is_digit s)))))"

definition read_datatypes :: "string list \<Rightarrow> dtype_map" where
  "read_datatypes ls = fold read_datatype ls Map.empty"

definition getDatatype :: "dtype_map \<Rightarrow> u32 \<Rightarrow> hba_error + hxb_datatype" where
  "getDatatype m eid = (case m eid of Some d \<Rightarrow> Inr d | None \<Rightarrow> Inl DatatypeNotFound)"

section \<open>Table entries\<close>

definition TRUE_COND_INDEX :: u32 where "TRUE_COND_INDEX = 255"
definition HXB_SM_TIMESTAMP_OP :: u8 where "HXB_SM_TIMESTAMP_OP = 0x80"

text \<open>A value is written to a stream and read back by the type of its endpoint: a float, or else an unsigned integer.\<close>

definition store_value :: "hxb_datatype \<Rightarrow> f32 \<Rightarrow> hxb_value \<Rightarrow> hxb_value" where
  "store_value d x v =
     (let v = v\<lparr>vdatatype := dtype_code d\<rparr>
      in if d = HXB_DTYPE_FLOAT then set_float (get_float (put_float x)) v
         else set_u32 (get_uint (put_float x)) v)"

definition transition_entry :: "'g bgl \<Rightarrow> 'g \<Rightarrow> dtype_map \<Rightarrow> u32 \<Rightarrow> if_clause_doc \<Rightarrow> hba_error + u32 \<times> sm_transition" where
  "transition_entry G g m sid clause =
     ebind (if if_name clause \<noteq> ''true'' then find_vertex_id G g (if_name clause) else Inr TRUE_COND_INDEX) (\<lambda>cond_id.
     ebind (find_vertex_id G g (if_goodstate clause)) (\<lambda>goodstate_id.
     ebind (find_vertex_id G g (if_badstate clause)) (\<lambda>badstate_id.
     ebind (getDatatype m (if_eid clause)) (\<lambda>d.
     Inr (cond_id,
       \<lparr>fromState = ucast sid, trans_cond = ucast cond_id, trans_eid = if_eid clause, goodState = ucast goodstate_id,
        badState = ucast badstate_id,
        trans_value = store_value d (if_value clause) \<lparr>vdatatype = 0, vraw = replicate 8 0, vblob = []\<rparr>\<rparr>)))))"

definition hex_value :: "char \<Rightarrow> nat option" where
  "hex_value c =
     (let n = of_char c :: nat
      in if 48 \<le> n \<and> n \<le> 57 then Some (n - 48)
         else if 65 \<le> n \<and> n \<le> 70 then Some (n - 55)
         else if 97 \<le> n \<and> n \<le> 102 then Some (n - 87) else None)"

definition get_hex :: "string \<Rightarrow> u32" where
  "get_hex s = of_nat (fold (\<lambda>c n. 16 * n + the (hex_value c)) (takeWhile (\<lambda>c. hex_value c \<noteq> None) s) 0)"

definition hex_byte :: "string \<Rightarrow> nat \<Rightarrow> u8" where
  "hex_byte s i = ucast (get_hex (List.take 2 (drop (2 * i) s)))"

text \<open>A condition is built in a local variable; \<open>junk\<close> is what was on the stack, and stays in the bytes of the value that
  are not written. The address \<open>::1\<close> stands for conditions without a source.\<close>

definition localhost :: buf where "localhost = replicate 15 0 @ [1]"

definition condition_entry :: "dtype_map \<Rightarrow> buf \<Rightarrow> hba_cond \<Rightarrow> hba_error + sm_condition" where
  "condition_entry m junk co =
     (case co of
        Eidvalue c \<Rightarrow>
          ebind (getDatatype m (eidvalue_eid c)) (\<lambda>d.
          Inr \<lparr>sourceIP = map (hex_byte (ipv6_address c)) [0..<16], sourceEID = eidvalue_eid c, cond_op = ucast (eidvalue_op c),
               cond_value = store_value d (eidvalue_value c) \<lparr>vdatatype = 0, vraw = junk, vblob = []\<rparr>\<rparr>)
      | Timeout t \<Rightarrow>
          Inr \<lparr>sourceIP = localhost, sourceEID = 0, cond_op = HXB_SM_TIMESTAMP_OP,
               cond_value = set_u32 t \<lparr>vdatatype = dtype_code HXB_DTYPE_TIMESTAMP, vraw = junk, vblob = []\<rparr>\<rparr>
      | On_Date c \<Rightarrow>
          Inr \<lparr>sourceIP = localhost, sourceEID = 0, cond_op = ucast (datetime_field c OR datetime_op c),
               cond_value = set_u32 (datetime_value c) \<lparr>vdatatype = dtype_code HXB_DTYPE_DATETIME, vraw = junk, vblob = []\<rparr>\<rparr>)"

section \<open>The tables\<close>

text \<open>\<open>std::map\<close> with unsigned keys: a list sorted by its keys; \<open>insert\<close> keeps an element that is already there.\<close>

fun map_insert :: "u32 \<Rightarrow> 'v \<Rightarrow> (u32 \<times> 'v) list \<Rightarrow> (u32 \<times> 'v) list" where
  "map_insert k v [] = [(k, v)]"
| "map_insert k v ((k', v') # m) =
     (if k < k' then (k, v) # (k', v') # m else if k = k' then (k', v') # m else (k', v') # map_insert k v m)"

record tables =
  states_bin :: "(u32 \<times> sm_transition) list"
  trans_dt_bin :: "(u32 \<times> sm_transition) list"
  conditions_bin :: "(u32 \<times> sm_condition) list"
  state_index :: u32

text \<open>A clause: its transition goes to the table of date transitions if its condition is on the date; a condition that is
  not in the table (yet) leaves it out.\<close>

definition gen_clause :: "'g bgl \<Rightarrow> 'g \<Rightarrow> dtype_map \<Rightarrow> u32 \<Rightarrow> if_clause_doc \<Rightarrow> tables \<Rightarrow> hba_error + tables" where
  "gen_clause G g m sid clause tb =
     (let i = state_index tb; tb = tb\<lparr>state_index := i + 1\<rparr> in
      ebind (transition_entry G g m sid clause) (\<lambda>(cond_id, t).
      Inr (if if_name clause \<noteq> ''true'' then
             (case map_of (conditions_bin tb) cond_id of
                Some c \<Rightarrow> (if vdatatype (cond_value c) = dtype_code HXB_DTYPE_DATETIME
                           then tb\<lparr>trans_dt_bin := map_insert i t (trans_dt_bin tb)\<rparr>
                           else tb\<lparr>states_bin := map_insert i t (states_bin tb)\<rparr>)
              | None \<Rightarrow> tb)
           else tb\<lparr>states_bin := map_insert i t (states_bin tb)\<rparr>)))"

fun gen_clauses :: "'g bgl \<Rightarrow> 'g \<Rightarrow> dtype_map \<Rightarrow> u32 \<Rightarrow> if_clause_doc list \<Rightarrow> tables \<Rightarrow> hba_error + tables" where
  "gen_clauses G g m sid [] tb = Inr tb"
| "gen_clauses G g m sid (c # cs) tb = ebind (gen_clause G g m sid c tb) (gen_clauses G g m sid cs)"

fun gen_block :: "'g bgl \<Rightarrow> 'g \<Rightarrow> dtype_map \<Rightarrow> (u32 \<Rightarrow> buf) \<Rightarrow> hba_doc_block \<Rightarrow> tables \<Rightarrow> hba_error + tables" where
  "gen_block G g m junk (State_Block st) tb = gen_clauses G g m (state_id st) (if_clauses st) tb"
| "gen_block G g m junk (Condition_Block co) tb =
     ebind (condition_entry m (junk (condition_id co)) (cond_doc co)) (\<lambda>c.
     Inr (tb\<lparr>conditions_bin := map_insert (condition_id co) c (conditions_bin tb)\<rparr>))"

fun gen_blocks :: "'g bgl \<Rightarrow> 'g \<Rightarrow> dtype_map \<Rightarrow> (u32 \<Rightarrow> buf) \<Rightarrow> hba_doc_block list \<Rightarrow> tables \<Rightarrow> hba_error + tables" where
  "gen_blocks G g m junk [] tb = Inr tb"
| "gen_blocks G g m junk (b # bs) tb = ebind (gen_block G g m junk b tb) (gen_blocks G g m junk bs)"

text \<open>The buffers: a count, then the entries. An entry that does not fit is left out.\<close>

definition add_entry :: "buf \<Rightarrow> buf \<times> nat \<Rightarrow> buf \<times> nat" where
  "add_entry e bp =
     (let (b, pos) = bp
      in if pos < length b - length e then (put_bytes pos e (b[0 := b ! 0 + 1]), pos + length e) else (b, pos))"

definition table_buffer :: "nat \<Rightarrow> buf list \<Rightarrow> buf" where
  "table_buffer n es = fst (fold add_entry es (replicate n 0, 1))"

definition generator_flash :: "'g bgl \<Rightarrow> 'g \<Rightarrow> dtype_map \<Rightarrow> (u32 \<Rightarrow> buf) \<Rightarrow> hba_doc \<Rightarrow> buf \<Rightarrow> hba_error + buf" where
  "generator_flash G g m junk ast v =
     ebind (gen_blocks G g m junk (doc_blocks ast) \<lparr>states_bin = [], trans_dt_bin = [], conditions_bin = [], state_index = 0\<rparr>) (\<lambda>tb.
     Inr (v @ table_buffer 512 (map (condition_bytes \<circ> snd) (conditions_bin tb))
            @ table_buffer 512 (map (transition_bytes \<circ> snd) (trans_dt_bin tb))
            @ table_buffer 496 (map (transition_bytes \<circ> snd) (states_bin tb))))"

section \<open>The file\<close>

definition pad_machine_id :: "string \<Rightarrow> string" where
  "pad_machine_id s = (let s = List.take 32 s in s @ replicate (32 - length s) (CHR ''0''))"

definition name_chunk :: "string \<Rightarrow> buf" where
  "name_chunk s = (let s = List.take 30 s in map of_char s @ replicate (64 - length s) 0)"

text \<open>\<^verbatim>\<open>hbasm\<close> with the option \<open>output\<close>: the target's address, the device name as the first chunk, and the machine if there is one.\<close>

definition assemble :: "'g bgl \<Rightarrow> string list \<Rightarrow> (u32 \<Rightarrow> buf) \<Rightarrow> hba_doc \<Rightarrow> hba_error + buf" where
  "assemble G dtypes junk ast =
     ebind (build_graph G ast) (\<lambda>(ast, g).
     let data = map (hex_byte (target_ip ast)) [0..<length (target_ip ast) div 2] @ name_chunk (device_name ast)
     in if doc_blocks ast \<noteq> [] then
          generator_flash G g (read_datatypes dtypes) junk ast
            (data @ map (hex_byte (pad_machine_id (machine_id ast))) [0..<16])
        else Inr data)"


section \<open>Buffers as tables\<close>

lemma length_concat_same: "\<forall>x \<in> set xs. length x = L \<Longrightarrow> length (concat xs) = L * length xs"
  by (induction xs) auto

lemma take_drop_concat: "\<forall>x \<in> set xs. length x = L \<Longrightarrow> i < length xs \<Longrightarrow> List.take L (drop (L * i) (concat xs @ ys)) = xs ! i"
proof (induction xs arbitrary: i)
  case (Cons x xs)
  then show ?case by (cases i) auto
qed simp

lemma put_bytes_zeros:
  "length e \<le> n \<Longrightarrow> put_bytes (length a) e (a @ replicate n 0) = a @ e @ replicate (n - length e) (0 :: u8)"
  by (simp add: put_bytes_def)

lemma add_entries:
  assumes "\<forall>e \<in> set es. length e = L" "\<And>i. (1 + L * i < n - L) = (i < cap)" "1 + L * cap \<le> n"
  shows "fold add_entry es (replicate n 0, 1) =
    (let k = min cap (length es) in ([of_nat k] @ concat (List.take k es) @ replicate (n - 1 - L * k) 0, 1 + L * k))"
  using assms(1)
proof (induction es rule: rev_induct)
  case Nil
  have "replicate n 0 = 0 # replicate (n - 1) (0 :: u8)" using assms(3) by (cases n) auto
  then show ?case by simp
next
  case (snoc e es)
  let ?k = "min cap (length es)"
  let ?b = "[of_nat ?k] @ concat (List.take ?k es) @ replicate (n - 1 - L * ?k) (0 :: u8)"
  have IH: "fold add_entry es (replicate n 0, 1) = (?b, 1 + L * ?k)" using snoc by (simp add: Let_def)
  have le: "length e = L" using snoc.prems by simp
  have lc: "length (concat (List.take ?k es)) = L * ?k"
    using length_concat_same [of "List.take ?k es" L] snoc.prems by (auto dest: in_set_takeD)
  have "L * ?k \<le> L * cap" by simp
  then have lb: "length ?b = n" using lc assms(3) unfolding length_append length_replicate list.size by linarith
  show ?case
  proof (cases "length es < cap")
    case True
    then have k: "?k = length es" "min cap (length (es @ [e])) = Suc (length es)" by simp_all
    have fits: "1 + L * length es < n - L" using assms(2) True by simp
    have up: "?b[0 := ?b ! 0 + 1] = ([of_nat (Suc (length es))] @ concat es) @ replicate (n - 1 - L * length es) 0"
      using k by (simp add: add.commute)
    have "length ([of_nat (Suc (length es)) :: u8] @ concat es) = 1 + L * length es" using lc k by simp
    then have "put_bytes (1 + L * length es) e (?b[0 := ?b ! 0 + 1]) =
        [of_nat (Suc (length es))] @ concat es @ e @ replicate (n - 1 - L * length es - L) 0"
      unfolding up using fits le put_bytes_zeros [of e "n - 1 - L * length es" "[of_nat (Suc (length es))] @ concat es"] by simp
    moreover have "add_entry e (?b, 1 + L * ?k) = (put_bytes (1 + L * ?k) e (?b[0 := ?b ! 0 + 1]), 1 + L * ?k + L)"
      using fits lb le k by (simp only: add_entry_def Let_def prod.case) simp
    ultimately show ?thesis using IH k by (simp add: Let_def)
  next
    case False
    then have k: "?k = cap" "min cap (length (es @ [e])) = cap" by simp_all
    have "\<not> 1 + L * cap < n - L" using assms(2) by simp
    then have "add_entry e (?b, 1 + L * ?k) = (?b, 1 + L * ?k)"
      using lb le k by (simp only: add_entry_def Let_def prod.case) simp
    then show ?thesis using IH k False by (simp add: Let_def)
  qed
qed

lemma table_buffer_eq:
  assumes "\<forall>e \<in> set es. length e = L" "\<And>i. (1 + L * i < n - L) = (i < cap)" "1 + L * cap \<le> n" "length es \<le> cap"
  shows "table_buffer n es = [of_nat (length es)] @ concat es @ replicate (n - 1 - L * length es) 0"
  using add_entries [OF assms(1-3)] assms(4) by (simp add: table_buffer_def Let_def)

end
