(* ===== verification/Assembled_Machine.thy ===== *)
theory Assembled_Machine
  imports Assembler
begin

text \<open>
  What the assembler's image means to the device that it is stored on: the device's tables are the document
  with every name resolved to a position. Documents that put the conditions first and name
  everything once are translated as written; others can lose transitions or get wrong numbers.
\<close>

section \<open>Reading the image on the device\<close>

lemma block_part:
  "p + n \<le> N \<Longrightarrow> eeprom_read_block ee (a + p) n = List.take n (drop p (eeprom_read_block ee a N))"
  by (intro nth_equalityI) (auto simp: eeprom_read_block_def min_def add.assoc)

lemma table_part:
  assumes "\<forall>e \<in> set es. length e = L" "i < length es"
  shows "List.take L (drop (1 + L * i) ([c] @ concat es @ z)) = es ! i"
  using take_drop_concat [OF assms, of z] by simp

definition image_bytes :: "buf \<Rightarrow> sm_condition list \<Rightarrow> sm_transition list \<Rightarrow> sm_transition list \<Rightarrow> buf" where
  "image_bytes mid cs ds ts = mid @ table_buffer 512 (map condition_bytes cs) @ table_buffer 512 (map transition_bytes ds)
     @ table_buffer 496 (map transition_bytes ts)"

definition image_ok :: "buf \<Rightarrow> sm_condition list \<Rightarrow> sm_transition list \<Rightarrow> sm_transition list \<Rightarrow> bool" where
  "image_ok mid cs ds ts =
     (length mid = 16 \<and> length cs \<le> 17 \<and> length ds \<le> 30 \<and> length ts \<le> 29 \<and>
      (\<forall>c \<in> set cs. wf_condition c) \<and> (\<forall>t \<in> set ds. wf_transition t) \<and> (\<forall>t \<in> set ts. wf_transition t))"

lemma table_buffers:
  assumes "image_ok mid cs ds ts"
  shows "table_buffer 512 (map condition_bytes cs) = [of_nat (length cs)] @ concat (map condition_bytes cs) @ replicate (511 - 30 * length cs) 0"
    and "table_buffer 512 (map transition_bytes ds) = [of_nat (length ds)] @ concat (map transition_bytes ds) @ replicate (511 - 17 * length ds) 0"
    and "table_buffer 496 (map transition_bytes ts) = [of_nat (length ts)] @ concat (map transition_bytes ts) @ replicate (495 - 17 * length ts) 0"
proof -
  note ok = assms [unfolded image_ok_def]
  show "table_buffer 512 (map condition_bytes cs) = [of_nat (length cs)] @ concat (map condition_bytes cs) @ replicate (511 - 30 * length cs) 0"
    using ok by (subst table_buffer_eq [where L = 30 and cap = 17]) (auto simp: length_condition_bytes sizeof_condition_def)
  show "table_buffer 512 (map transition_bytes ds) = [of_nat (length ds)] @ concat (map transition_bytes ds) @ replicate (511 - 17 * length ds) 0"
    using ok by (subst table_buffer_eq [where L = 17 and cap = 30]) (auto simp: length_transition_bytes sizeof_transition_def)
  show "table_buffer 496 (map transition_bytes ts) = [of_nat (length ts)] @ concat (map transition_bytes ts) @ replicate (495 - 17 * length ts) 0"
    using ok by (subst table_buffer_eq [where L = 17 and cap = 29]) (auto simp: length_transition_bytes sizeof_transition_def)
qed

lemma entry_lengths:
  assumes "image_ok mid cs ds ts"
  shows "\<forall>e \<in> set (map condition_bytes cs). length e = 30" "\<forall>e \<in> set (map transition_bytes ds). length e = 17"
    "\<forall>e \<in> set (map transition_bytes ts). length e = 17"
  using assms by (auto simp: image_ok_def length_condition_bytes length_transition_bytes sizeof_condition_def sizeof_transition_def)

text \<open>The parts of the state machine area: the identifier, and three tables.\<close>

lemma image_parts:
  assumes "eeprom_read_block ee EE_STATEMACHINE_ID sm_area_size = image_bytes mid cs ds ts" "image_ok mid cs ds ts"
  shows "eeprom_read_block ee EE_STATEMACHINE_ID 16 = mid"
    and "p + n \<le> 512 \<Longrightarrow> eeprom_read_block ee (EE_STATEMACHINE_N_CONDITIONS + p) n = List.take n (drop p (table_buffer 512 (map condition_bytes cs)))"
    and "p + n \<le> 512 \<Longrightarrow> eeprom_read_block ee (EE_STATEMACHINE_N_DT_TRANSITIONS + p) n = List.take n (drop p (table_buffer 512 (map transition_bytes ds)))"
    and "p + n \<le> 496 \<Longrightarrow> eeprom_read_block ee (EE_STATEMACHINE_N_TRANSITIONS + p) n = List.take n (drop p (table_buffer 496 (map transition_bytes ts)))"
proof -
  let ?a = EE_STATEMACHINE_ID
  let ?T1 = "table_buffer 512 (map condition_bytes cs)" and ?T2 = "table_buffer 512 (map transition_bytes ds)"
    and ?T3 = "table_buffer 496 (map transition_bytes ts)"
  have m: "length mid = 16" using assms(2) by (simp add: image_ok_def)
  have l: "length ?T1 = 512" "length ?T2 = 512" "length ?T3 = 496"
    using assms(2) by (simp_all add: table_buffers [OF assms(2)] length_concat_same [OF entry_lengths(1) [OF assms(2)]]
        length_concat_same [OF entry_lengths(2) [OF assms(2)]] length_concat_same [OF entry_lengths(3) [OF assms(2)]] image_ok_def)
  have r: "eeprom_read_block ee ?a 1536 = mid @ ?T1 @ ?T2 @ ?T3" using assms(1) by (simp add: sm_area_size_eq image_bytes_def)
  note part = block_part [where a = ?a and N = 1536 and ee = ee, unfolded r]
  show "eeprom_read_block ee ?a 16 = mid" using part [of 0 16] m by simp
  show "eeprom_read_block ee (EE_STATEMACHINE_N_CONDITIONS + p) n = List.take n (drop p ?T1)" if "p + n \<le> 512"
    using part [of "16 + p" n] that m l by (simp add: offset_simps)
  show "eeprom_read_block ee (EE_STATEMACHINE_N_DT_TRANSITIONS + p) n = List.take n (drop p ?T2)" if "p + n \<le> 512"
    using part [of "528 + p" n] that m l by (simp add: offset_simps)
  show "eeprom_read_block ee (EE_STATEMACHINE_N_TRANSITIONS + p) n = List.take n (drop p ?T3)" if "p + n \<le> 496"
    using part [of "1040 + p" n] that m l by (simp add: offset_simps)
qed


text \<open>The device finds the counts and the entries.\<close>

lemma entry_part:
  assumes "eeprom_read_block ee (a + (1 + L * i)) L = List.take L (drop (1 + L * i) ([c] @ concat es @ z))" "\<forall>e \<in> set es. length e = L" "i < length es"
  shows "eeprom_read_block ee (Suc a + L * i) L = es ! i"
  using assms(1) table_part [OF assms(2,3), of c z] by simp

lemma image_counts:
  assumes "eeprom_read_block ee EE_STATEMACHINE_ID sm_area_size = image_bytes mid cs ds ts" "image_ok mid cs ds ts"
  shows "sm_get_id ee = mid" "sm_get_number_of_conditions ee = of_nat (length cs)"
    "sm_get_number_of_transitions True ee = of_nat (length ds)" "sm_get_number_of_transitions False ee = of_nat (length ts)"
proof -
  note parts = image_parts [OF assms] and bufs = table_buffers [OF assms(2)]
  show "sm_get_id ee = mid" using parts(1) by (simp add: sm_get_id_def EE_STATEMACHINE_ID_SIZE_def)
  have "eeprom_read_block ee (EE_STATEMACHINE_N_CONDITIONS + 0) 1 = [of_nat (length cs)]"
    "eeprom_read_block ee (EE_STATEMACHINE_N_DT_TRANSITIONS + 0) 1 = [of_nat (length ds)]"
    "eeprom_read_block ee (EE_STATEMACHINE_N_TRANSITIONS + 0) 1 = [of_nat (length ts)]"
    using parts(2) [of 0 1] parts(3) [of 0 1] parts(4) [of 0 1] unfolding bufs by simp_all
  then show "sm_get_number_of_conditions ee = of_nat (length cs)"
    "sm_get_number_of_transitions True ee = of_nat (length ds)" "sm_get_number_of_transitions False ee = of_nat (length ts)"
    by (simp_all add: block_byte [unfolded One_nat_def] sm_get_number_of_conditions_def sm_get_number_of_transitions_def eeprom_read_byte_def)
qed

lemma image_condition:
  assumes "eeprom_read_block ee EE_STATEMACHINE_ID sm_area_size = image_bytes mid cs ds ts" "image_ok mid cs ds ts" "i < length cs"
  shows "sm_get_condition (of_nat i) ee = cs ! i"
proof -
  have i: "i < 17" "unat (of_nat i :: u8) = i" using assms(2,3) by (auto simp: image_ok_def unat_of_nat take_bit_nat_eq_self)
  then have "1 + 30 * i + 30 \<le> 512" by simp
  from entry_part [OF image_parts(2) [OF assms(1,2) this, unfolded table_buffers(1) [OF assms(2)]] entry_lengths(1) [OF assms(2)]] assms(3)
  have "eeprom_read_block ee (Suc EE_STATEMACHINE_N_CONDITIONS + 30 * i) 30 = condition_bytes (cs ! i)" by simp
  moreover have "Suc EE_STATEMACHINE_N_CONDITIONS = EE_STATEMACHINE_CONDITIONS" by (simp add: offset_simps)
  moreover have "wf_condition (cs ! i)" using assms(2,3) by (simp add: image_ok_def)
  ultimately show ?thesis by (simp add: sm_get_condition_def i sizeof_condition_def condition_round_trip)
qed

lemma image_transition:
  assumes "eeprom_read_block ee EE_STATEMACHINE_ID sm_area_size = image_bytes mid cs ds ts" "image_ok mid cs ds ts"
  shows "i < length ds \<Longrightarrow> sm_get_transition True (of_nat i) ee = ds ! i" "i < length ts \<Longrightarrow> sm_get_transition False (of_nat i) ee = ts ! i"
proof -
  have small: "i < 30 \<Longrightarrow> unat (of_nat i :: u8) = i" by (simp add: unat_of_nat take_bit_nat_eq_self)
  show "sm_get_transition True (of_nat i) ee = ds ! i" if i: "i < length ds"
  proof -
    have "i < 30" using assms(2) i by (simp add: image_ok_def)
    then have "1 + 17 * i + 17 \<le> 512" by simp
    from entry_part [OF image_parts(3) [OF assms this, unfolded table_buffers(2) [OF assms(2)]] entry_lengths(2) [OF assms(2)]] i
    have "eeprom_read_block ee (Suc EE_STATEMACHINE_N_DT_TRANSITIONS + 17 * i) 17 = transition_bytes (ds ! i)" by simp
    moreover have "Suc EE_STATEMACHINE_N_DT_TRANSITIONS = EE_STATEMACHINE_DATETIME_TRANSITIONS" by (simp add: offset_simps)
    moreover have "wf_transition (ds ! i)" using assms(2) i by (simp add: image_ok_def)
    ultimately show ?thesis using small \<open>i < 30\<close> by (simp add: sm_get_transition_def sm_transition_base_def sizeof_transition_def transition_round_trip)
  qed
  show "sm_get_transition False (of_nat i) ee = ts ! i" if i: "i < length ts"
  proof -
    have "i < 29" using assms(2) i by (simp add: image_ok_def)
    then have "1 + 17 * i + 17 \<le> 496" by simp
    from entry_part [OF image_parts(4) [OF assms this, unfolded table_buffers(3) [OF assms(2)]] entry_lengths(3) [OF assms(2)]] i
    have "eeprom_read_block ee (Suc EE_STATEMACHINE_N_TRANSITIONS + 17 * i) 17 = transition_bytes (ts ! i)" by simp
    moreover have "Suc EE_STATEMACHINE_N_TRANSITIONS = EE_STATEMACHINE_TRANSITIONS" by (simp add: offset_simps)
    moreover have "wf_transition (ts ! i)" using assms(2) i by (simp add: image_ok_def)
    ultimately show ?thesis using small \<open>i < 29\<close> by (simp add: sm_get_transition_def sm_transition_base_def sizeof_transition_def transition_round_trip)
  qed
qed

text \<open>The tables that the device sees.\<close>

definition device_conditions :: "eeprom \<Rightarrow> sm_condition list" where
  "device_conditions ee = map (\<lambda>i. sm_get_condition (of_nat i) ee) [0..<unat (sm_get_number_of_conditions ee)]"

definition device_transitions :: "bool \<Rightarrow> eeprom \<Rightarrow> sm_transition list" where
  "device_transitions d ee = map (\<lambda>i. sm_get_transition d (of_nat i) ee) [0..<unat (sm_get_number_of_transitions d ee)]"

lemma device_sees_image:
  assumes "eeprom_read_block ee EE_STATEMACHINE_ID sm_area_size = image_bytes mid cs ds ts" "image_ok mid cs ds ts"
  shows "device_conditions ee = cs" "device_transitions True ee = ds" "device_transitions False ee = ts" "sm_get_id ee = mid"
proof -
  have small: "n \<le> 30 \<Longrightarrow> unat (of_nat n :: u8) = n" for n by (simp add: unat_of_nat take_bit_nat_eq_self)
  have l: "length cs \<le> 30" "length ds \<le> 30" "length ts \<le> 30" using assms(2) by (simp_all add: image_ok_def)
  show "device_conditions ee = cs"
    by (intro nth_equalityI) (simp_all add: device_conditions_def image_counts [OF assms] small [OF l(1)] image_condition [OF assms])
  show "device_transitions True ee = ds"
    by (intro nth_equalityI) (simp_all add: device_transitions_def image_counts [OF assms] small [OF l(2)] image_transition(1) [OF assms])
  show "device_transitions False ee = ts"
    by (intro nth_equalityI) (simp_all add: device_transitions_def image_counts [OF assms] small [OF l(3)] image_transition(2) [OF assms])
qed (rule image_counts(1) [OF assms])


section \<open>The graph\<close>

text \<open>What the documentation of Boost says of the operations: vertices are kept in the order in which they were added, edges between
  existing vertices are always added, parallel edges too.\<close>

definition bgl_documented :: "'g bgl \<Rightarrow> bool" where
  "bgl_documented G =
     (graph_vertices G (no_graph G) = [] \<and>
      (\<forall>v g. graph_vertices G (add_vertex G v g) = graph_vertices G g @ [v]) \<and>
      (\<forall>i v g. i < length (graph_vertices G g) \<longrightarrow> graph_vertices G (set_vertex G i v g) = (graph_vertices G g)[i := v]) \<and>
      (\<forall>a b e g. a < length (graph_vertices G g) \<longrightarrow> b < length (graph_vertices G g) \<longrightarrow>
         (\<exists>g'. add_edge G a b e g = (True, g') \<and> graph_vertices G g' = graph_vertices G g)))"

lemma ebind_Inr [simp]: "(ebind m f = Inr y) = (\<exists>x. m = Inr x \<and> f x = Inr y)"
  by (cases m) (auto simp: ebind_def)

lemma ebind_simps [simp]: "ebind (Inl e) f = Inl e" "ebind (Inr x) f = f x"
  by (simp_all add: ebind_def)

text \<open>Looking up a name depends on the names and numbers of the vertices only.\<close>

definition names :: "'g bgl \<Rightarrow> 'g \<Rightarrow> (string \<times> u32) list" where
  "names G g = map (\<lambda>v. (vertex_name v, vertex_id v)) (graph_vertices G g)"

lemma find_from_spec:
  "(case find_from i vs name of None \<Rightarrow> None | Some j \<Rightarrow> Some (vertex_id (vs ! (j - i)))) = map_of (map (\<lambda>v. (vertex_name v, vertex_id v)) vs) name \<and>
   (\<forall>j. find_from i vs name = Some j \<longrightarrow> i \<le> j \<and> j < i + length vs)"
proof (induction vs arbitrary: i)
  case (Cons v vs)
  have "vertex_id ((v # vs) ! (j - i)) = vertex_id (vs ! (j - Suc i))" if "find_from (Suc i) vs name = Some j" for j
    using Cons [of "Suc i"] that by (simp add: nth_Cons' Suc_le_eq)
  then show ?case using Cons [of "Suc i"] by (auto split: option.splits)
qed simp

lemma find_vertex_id_names:
  "find_vertex_id G g name = (case map_of (names G g) name of None \<Rightarrow> Inl (VertexNotFound name) | Some i \<Rightarrow> Inr i)"
  using find_from_spec [where i = 0 and vs = "graph_vertices G g" and name = name]
  by (auto simp: find_vertex_id_def find_vertex_def ebind_def names_def split: option.splits) (metis option.exhaust)

lemma find_vertex_bound: "find_vertex G g name = Inr i \<Longrightarrow> i < length (graph_vertices G g)"
  using find_from_spec [where i = 0 and vs = "graph_vertices G g" and name = name] by (auto simp: find_vertex_def split: option.splits)

text \<open>The later steps keep the names and numbers.\<close>

lemma mark_names:
  assumes "bgl_documented G" "mark_start_state G name g = Inr g'"
  shows "names G g' = names G g"
proof -
  obtain i where i: "i < length (graph_vertices G g)" "g' = set_vertex G i ((graph_vertices G g ! i)\<lparr>vertex_type := STARTSTATE\<rparr>) g"
    using assms(2) find_from_spec [where i = 0 and vs = "graph_vertices G g" and name = name] by (auto simp: mark_start_state_def split: option.splits)
  then have "graph_vertices G g' = (graph_vertices G g)[i := (graph_vertices G g ! i)\<lparr>vertex_type := STARTSTATE\<rparr>]"
    using assms(1) unfolding bgl_documented_def by blast
  then show ?thesis using i(1) by (simp add: names_def map_update) (metis (lifting) list_update_id nth_map)
qed

lemma link_vertices_names:
  assumes "bgl_documented G" "link_vertices G a b e g = Inr g'" "a < length (graph_vertices G g)" "b < length (graph_vertices G g)"
  shows "graph_vertices G g' = graph_vertices G g"
proof -
  obtain h where "add_edge G a b e g = (True, h)" "graph_vertices G h = graph_vertices G g"
    using assms(1,3,4) unfolding bgl_documented_def by blast
  then show ?thesis using assms(2) by (simp add: link_vertices_def)
qed

lemma link_clause_names:
  assumes "bgl_documented G" "link_clause G from_state_name c g = Inr g'"
  shows "graph_vertices G g' = graph_vertices G g"
  using assms(2) by (auto simp: link_clause_def dest!: find_vertex_bound link_vertices_names [OF assms(1)] split: if_splits)

lemma second_clauses_names:
  assumes "bgl_documented G" shows "second_clauses G name cs g = Inr g' \<Longrightarrow> graph_vertices G g' = graph_vertices G g"
  by (induction cs arbitrary: g) (auto dest!: link_clause_names [OF assms] split: sum.splits)

lemma second_passes_names:
  assumes "bgl_documented G" shows "second_passes G bs g = Inr g' \<Longrightarrow> graph_vertices G g' = graph_vertices G g"
proof (induction bs arbitrary: g)
  case (Cons b bs)
  then show ?case by (cases b) (auto dest!: second_clauses_names [OF assms])
qed simp

section \<open>Numbers\<close>

definition number_conditions :: "nat \<Rightarrow> condition_doc list \<Rightarrow> condition_doc list" where
  "number_conditions k cs = map (\<lambda>(i, c). c\<lparr>condition_id := of_nat i\<rparr>) (List.enumerate k cs)"

definition number_states :: "nat \<Rightarrow> state_doc list \<Rightarrow> state_doc list" where
  "number_states k ss = map (\<lambda>(i, s). s\<lparr>state_id := of_nat i\<rparr>) (List.enumerate k ss)"

lemma first_passes_append:
  "first_passes G (bs @ cs) s = (let (bs', s) = first_passes G bs s; (cs', s) = first_passes G cs s in (bs' @ cs', s))"
  by (induction bs arbitrary: s) (auto simp: Let_def split: prod.splits)

lemma first_passes_conditions:
  assumes "bgl_documented G"
  shows "\<exists>g'. first_passes G (map Condition_Block cs) (s, of_nat k, g) =
      (map Condition_Block (number_conditions k cs), s, of_nat (k + length cs), g') \<and>
    names G g' = names G g @ map (\<lambda>(i, c). (condition_name c, of_nat i)) (List.enumerate k cs)"
proof (induction cs arbitrary: k g)
  case Nil
  then show ?case by (simp add: number_conditions_def)
next
  case (Cons c cs)
  let ?g = "add_vertex G \<lparr>vertex_name = condition_name c, vertex_id = of_nat k, vertex_type = CONDITION\<rparr> g"
  have "names G ?g = names G g @ [(condition_name c, of_nat k)]"
    using assms by (simp add: names_def bgl_documented_def)
  then show ?case using Cons.IH [of "Suc k" ?g] by (force simp: number_conditions_def add.commute)
qed

lemma first_passes_states:
  assumes "bgl_documented G"
  shows "\<exists>g'. first_passes G (map State_Block ss) (of_nat k, c, g) =
      (map State_Block (number_states k ss), of_nat (k + length ss), c, g') \<and>
    names G g' = names G g @ map (\<lambda>(i, s). (state_name s, of_nat i)) (List.enumerate k ss)"
proof (induction ss arbitrary: k g)
  case Nil
  then show ?case by (simp add: number_states_def)
next
  case (Cons s ss)
  let ?g = "add_vertex G \<lparr>vertex_name = state_name s, vertex_id = of_nat k, vertex_type = STATE\<rparr> g"
  have "names G ?g = names G g @ [(state_name s, of_nat k)]"
    using assms by (simp add: names_def bgl_documented_def)
  then show ?case using Cons.IH [of "Suc k" ?g] by (force simp: number_states_def add.commute)
qed

lemma build_graph_names:
  assumes "bgl_documented G" "build_graph G hba = Inr (ast, g)" "first_passes G (doc_blocks hba) (0, 0, no_graph G) = (bs, s, c, h)"
  shows "ast = hba\<lparr>doc_blocks := bs\<rparr> \<and> names G g = names G h"
proof (cases "graph_vertices G h = []")
  case True
  then show ?thesis using assms(2,3) by (simp add: build_graph_def)
next
  case False
  define h' where "h' = (case mark_start_state G (start_state hba) h of Inl e \<Rightarrow> h | Inr g \<Rightarrow> g)"
  have "names G h' = names G h" by (simp add: h'_def mark_names [OF assms(1)] split: sum.split)
  moreover have "ast = hba\<lparr>doc_blocks := bs\<rparr> \<and> second_passes G bs h' = Inr g"
    using assms(2,3) False by (auto simp: build_graph_def Let_def h'_def)
  ultimately show ?thesis using second_passes_names [OF assms(1)] by (metis names_def)
qed

text \<open>Documents with the conditions first, and with the states first.\<close>

abbreviation condition_names :: "condition_doc list \<Rightarrow> (string \<times> u32) list" where
  "condition_names cs \<equiv> map (\<lambda>(i, c). (condition_name c, of_nat i)) (List.enumerate 0 cs)"

abbreviation state_names :: "state_doc list \<Rightarrow> (string \<times> u32) list" where
  "state_names ss \<equiv> map (\<lambda>(i, s). (state_name s, of_nat i)) (List.enumerate 0 ss)"

lemma build_graph_numbers:
  assumes "bgl_documented G" "build_graph G hba = Inr (ast, g)"
  shows "doc_blocks hba = map Condition_Block cs @ map State_Block ss \<Longrightarrow>
      ast = hba\<lparr>doc_blocks := map Condition_Block (number_conditions 0 cs) @ map State_Block (number_states 0 ss)\<rparr> \<and>
      names G g = condition_names cs @ state_names ss"
    and "doc_blocks hba = map State_Block ss @ map Condition_Block cs \<Longrightarrow>
      ast = hba\<lparr>doc_blocks := map State_Block (number_states 0 ss) @ map Condition_Block (number_conditions 0 cs)\<rparr> \<and>
      names G g = state_names ss @ condition_names cs"
proof -
  note conds = first_passes_conditions [OF assms(1), where k = 0] and states = first_passes_states [OF assms(1), where k = 0]
  have e: "names G (no_graph G) = []" using assms(1) by (simp add: names_def bgl_documented_def)
  assume d: "doc_blocks hba = map Condition_Block cs @ map State_Block ss"
  obtain g1 where g1: "first_passes G (map Condition_Block cs) (0, 0, no_graph G) = (map Condition_Block (number_conditions 0 cs), 0, of_nat (length cs), g1)"
    "names G g1 = condition_names cs" using conds [of cs 0 "no_graph G"] e by auto
  obtain g2 where g2: "first_passes G (map State_Block ss) (0, of_nat (length cs), g1) = (map State_Block (number_states 0 ss), of_nat (length ss), of_nat (length cs), g2)"
    "names G g2 = names G g1 @ state_names ss" using states [of ss "of_nat (length cs)" g1] by auto
  show "ast = hba\<lparr>doc_blocks := map Condition_Block (number_conditions 0 cs) @ map State_Block (number_states 0 ss)\<rparr> \<and> names G g = condition_names cs @ state_names ss"
    using build_graph_names [OF assms] g1 g2 unfolding d first_passes_append by simp
next
  note conds = first_passes_conditions [OF assms(1), where k = 0] and states = first_passes_states [OF assms(1), where k = 0]
  have e: "names G (no_graph G) = []" using assms(1) by (simp add: names_def bgl_documented_def)
  assume d: "doc_blocks hba = map State_Block ss @ map Condition_Block cs"
  obtain g1 where g1: "first_passes G (map State_Block ss) (0, 0, no_graph G) = (map State_Block (number_states 0 ss), of_nat (length ss), 0, g1)"
    "names G g1 = state_names ss" using states [of ss 0 "no_graph G"] e by auto
  obtain g2 where g2: "first_passes G (map Condition_Block cs) (of_nat (length ss), 0, g1) = (map Condition_Block (number_conditions 0 cs), of_nat (length ss), of_nat (length cs), g2)"
    "names G g2 = names G g1 @ condition_names cs" using conds [of cs "of_nat (length ss)" g1] by auto
  show "ast = hba\<lparr>doc_blocks := map State_Block (number_states 0 ss) @ map Condition_Block (number_conditions 0 cs)\<rparr> \<and> names G g = state_names ss @ condition_names cs"
    using build_graph_names [OF assms] g1 g2 unfolding d first_passes_append by simp
qed

section \<open>The tables of the generator\<close>

lemma map_insert_last: "\<forall>(k', v') \<in> set m. k' < k \<Longrightarrow> map_insert k v m = m @ [(k, v)]"
  by (induction m) auto

lemma of_nat_less: "i < k \<Longrightarrow> k < 2 ^ 32 \<Longrightarrow> (of_nat i :: u32) < of_nat k"
  by (simp add: word_less_nat_alt unat_of_nat take_bit_nat_eq_self)

text \<open>Every clause with the number of its state, in the order of the document.\<close>

definition numbered_clauses :: "state_doc list \<Rightarrow> (u32 \<times> if_clause_doc) list" where
  "numbered_clauses ss = concat (map (\<lambda>s. map (Pair (state_id s)) (if_clauses s)) ss)"

fun gen_pairs :: "'g bgl \<Rightarrow> 'g \<Rightarrow> dtype_map \<Rightarrow> (u32 \<times> if_clause_doc) list \<Rightarrow> tables \<Rightarrow> hba_error + tables" where
  "gen_pairs G g m [] tb = Inr tb"
| "gen_pairs G g m ((sid, c) # ps) tb = ebind (gen_clause G g m sid c tb) (gen_pairs G g m ps)"

lemma gen_pairs_append: "gen_pairs G g m (ps @ qs) tb = ebind (gen_pairs G g m ps tb) (gen_pairs G g m qs)"
  by (induction ps arbitrary: tb) (auto simp: ebind_def split: sum.split)

lemma gen_clauses_pairs: "gen_clauses G g m sid cs tb = gen_pairs G g m (map (Pair sid) cs) tb"
  by (induction cs arbitrary: tb) (auto simp: ebind_def split: sum.split)

lemma gen_states_pairs: "gen_blocks G g m junk (map State_Block ss) tb = gen_pairs G g m (numbered_clauses ss) tb"
  by (induction ss arbitrary: tb) (auto simp: numbered_clauses_def gen_pairs_append gen_clauses_pairs ebind_def split: sum.split)

lemma gen_blocks_append: "gen_blocks G g m junk (bs @ cs) tb = ebind (gen_blocks G g m junk bs tb) (gen_blocks G g m junk cs)"
  by (induction bs arbitrary: tb) (auto simp: ebind_def split: sum.split)

lemma gen_conditions:
  assumes "gen_blocks G g m junk (map Condition_Block (number_conditions k cs)) tb = Inr tb'" "k + length cs < 2 ^ 32"
    and "\<forall>(i, c) \<in> set (conditions_bin tb). i < of_nat k"
  shows "\<exists>es. tb' = tb\<lparr>conditions_bin := conditions_bin tb @ zip (map of_nat [k..<k + length cs]) es\<rparr> \<and> length es = length cs \<and>
    (\<forall>i < length cs. condition_entry m (junk (of_nat (k + i))) (cond_doc (cs ! i)) = Inr (es ! i))"
  using assms
proof (induction cs arbitrary: k tb)
  case Nil
  then show ?case by (simp add: number_conditions_def)
next
  case (Cons c cs)
  then obtain e where e: "condition_entry m (junk (of_nat k)) (cond_doc c) = Inr e"
    "gen_blocks G g m junk (map Condition_Block (number_conditions (Suc k) cs))
      (tb\<lparr>conditions_bin := map_insert (of_nat k) e (conditions_bin tb)\<rparr>) = Inr tb'"
    by (auto simp: number_conditions_def)
  have last: "map_insert (of_nat k) e (conditions_bin tb) = conditions_bin tb @ [(of_nat k, e)]"
    by (rule map_insert_last [OF Cons.prems(3)])
  have lt: "(of_nat k :: u32) < of_nat (Suc k)" using Cons.prems(2) by (intro of_nat_less) auto
  have small: "\<forall>(i, c) \<in> set (conditions_bin (tb\<lparr>conditions_bin := conditions_bin tb @ [(of_nat k, e)]\<rparr>)). i < of_nat (Suc k)"
    using Cons.prems(3) lt by (auto simp del: of_nat_Suc)
  from Cons.IH [OF e(2) [unfolded last] _ small] Cons.prems(2) obtain es where es:
    "tb' = tb\<lparr>conditions_bin := (conditions_bin tb @ [(of_nat k, e)]) @ zip (map of_nat [Suc k..<Suc k + length cs]) es\<rparr>"
    "length es = length cs" "\<forall>i < length cs. condition_entry m (junk (of_nat (Suc k + i))) (cond_doc (cs ! i)) = Inr (es ! i)"
    by auto
  have "[k..<k + length (c # cs)] = k # [Suc k..<Suc k + length cs]" by (simp add: upt_rec)
  moreover have "condition_entry m (junk (of_nat (k + i))) (cond_doc ((c # cs) ! i)) = Inr ((e # es) ! i)" if "i < length (c # cs)" for i
  proof (cases i)
    case (Suc j)
    then have "j < length cs" using that by simp
    from es(3) [rule_format, OF this] show ?thesis unfolding Suc nth_Cons_Suc by (simp only: add_Suc_right add_Suc)
  qed (simp add: e(1))
  ultimately show ?case using es(1,2) by (intro exI [of _ "e # es"]) (auto simp del: upt_Suc)
qed

text \<open>Where the transition of a clause goes.\<close>

datatype place = Values | Dates | Nowhere

definition placed :: "(u32 \<times> sm_condition) list \<Rightarrow> if_clause_doc \<Rightarrow> u32 \<Rightarrow> place" where
  "placed cb c cond_id =
     (if if_name c = ''true'' then Values
      else case map_of cb cond_id of
        None \<Rightarrow> Nowhere
      | Some co \<Rightarrow> (if vdatatype (cond_value co) = dtype_code HXB_DTYPE_DATETIME then Dates else Values))"

definition those_in :: "place \<Rightarrow> (u32 \<times> sm_condition) list \<Rightarrow> (u32 \<times> if_clause_doc) list \<Rightarrow> (u32 \<times> sm_transition) list \<Rightarrow> sm_transition list" where
  "those_in p cb ps rs = map (snd \<circ> snd) (filter (\<lambda>(q, r). placed cb (snd q) (fst r) = p) (zip ps rs))"

lemma gen_pairs_tables:
  assumes "gen_pairs G g m ps tb = Inr tb'" "state_index tb = of_nat k" "k + length ps < 2 ^ 32"
    and "\<forall>(i, t) \<in> set (states_bin tb). i < of_nat k" "\<forall>(i, t) \<in> set (trans_dt_bin tb). i < of_nat k"
  shows "\<exists>rs. length rs = length ps \<and> (\<forall>i < length ps. transition_entry G g m (fst (ps ! i)) (snd (ps ! i)) = Inr (rs ! i)) \<and>
    conditions_bin tb' = conditions_bin tb \<and>
    map snd (states_bin tb') = map snd (states_bin tb) @ those_in Values (conditions_bin tb) ps rs \<and>
    map snd (trans_dt_bin tb') = map snd (trans_dt_bin tb) @ those_in Dates (conditions_bin tb) ps rs"
  using assms
proof (induction ps arbitrary: k tb)
  case Nil
  then show ?case by (simp add: those_in_def)
next
  case (Cons p ps)
  obtain sid c where p: "p = (sid, c)" by (cases p)
  obtain u where u: "gen_clause G g m sid c tb = Inr u" "gen_pairs G g m ps u = Inr tb'" using Cons.prems(1) by (auto simp: p)
  then obtain cid t where r: "transition_entry G g m sid c = Inr (cid, t)" by (auto simp: gen_clause_def Let_def)
  let ?s = "map_insert (of_nat k) t (states_bin tb)" and ?d = "map_insert (of_nat k) t (trans_dt_bin tb)"
  have up: "u = (case placed (conditions_bin tb) c cid of
      Values \<Rightarrow> tb\<lparr>state_index := of_nat (Suc k), states_bin := states_bin tb @ [(of_nat k, t)]\<rparr>
    | Dates \<Rightarrow> tb\<lparr>state_index := of_nat (Suc k), trans_dt_bin := trans_dt_bin tb @ [(of_nat k, t)]\<rparr>
    | Nowhere \<Rightarrow> tb\<lparr>state_index := of_nat (Suc k)\<rparr>)"
    using u(1) r map_insert_last [OF Cons.prems(4), of t] map_insert_last [OF Cons.prems(5), of t] Cons.prems(2)
    by (auto simp: gen_clause_def Let_def placed_def add.commute split: if_splits option.splits)
  have lt: "(of_nat k :: u32) < of_nat (Suc k)" using Cons.prems(3) by (intro of_nat_less) auto
  have small: "\<forall>(i, t) \<in> set (states_bin u). i < of_nat (Suc k)" "\<forall>(i, t) \<in> set (trans_dt_bin u). i < of_nat (Suc k)"
    using Cons.prems(4,5) lt by (auto simp: up simp del: of_nat_Suc split: place.splits)
  have "state_index u = of_nat (Suc k)" "conditions_bin u = conditions_bin tb" by (simp_all add: up split: place.split)
  from Cons.IH [OF u(2) this(1) _ small] Cons.prems(3) this(2) obtain rs where rs: "length rs = length ps"
    "\<forall>i < length ps. transition_entry G g m (fst (ps ! i)) (snd (ps ! i)) = Inr (rs ! i)" "conditions_bin tb' = conditions_bin tb"
    "map snd (states_bin tb') = map snd (states_bin u) @ those_in Values (conditions_bin tb) ps rs"
    "map snd (trans_dt_bin tb') = map snd (trans_dt_bin u) @ those_in Dates (conditions_bin tb) ps rs"
    by auto
  have "\<forall>i < length (p # ps). transition_entry G g m (fst ((p # ps) ! i)) (snd ((p # ps) ! i)) = Inr (((cid, t) # rs) ! i)"
    using rs(2) r by (auto simp: nth_Cons' p)
  then show ?case using rs(1,3,4,5)
    by (intro exI [of _ "(cid, t) # rs"]) (auto simp: up those_in_def p split: place.splits)
qed


section \<open>Names resolved to positions\<close>

definition position :: "string \<Rightarrow> string list \<Rightarrow> nat" where
  "position x xs = length (takeWhile (\<lambda>y. y \<noteq> x) xs)"

definition all_clauses :: "state_doc list \<Rightarrow> (nat \<times> if_clause_doc) list" where
  "all_clauses ss = concat (map (\<lambda>(i, s). map (Pair i) (if_clauses s)) (List.enumerate 0 ss))"

text \<open>The transition that a clause of the state at position \<open>i\<close> means.\<close>

definition resolve :: "dtype_map \<Rightarrow> condition_doc list \<Rightarrow> state_doc list \<Rightarrow> nat \<times> if_clause_doc \<Rightarrow> sm_transition" where
  "resolve m cs ss ic =
     (let (i, c) = ic; pos = (\<lambda>n. of_nat (position n (map state_name ss)))
      in \<lparr>fromState = of_nat i,
          trans_cond = (if if_name c = ''true'' then 255 else of_nat (position (if_name c) (map condition_name cs))),
          trans_eid = if_eid c, goodState = pos (if_goodstate c), badState = pos (if_badstate c),
          trans_value = store_value (the (m (if_eid c))) (if_value c) \<lparr>vdatatype = 0, vraw = replicate 8 0, vblob = []\<rparr>\<rparr>)"

definition date_condition :: "dtype_map \<Rightarrow> hba_cond \<Rightarrow> bool" where
  "date_condition m co = (case co of On_Date _ \<Rightarrow> True | Timeout _ \<Rightarrow> False | Eidvalue v \<Rightarrow> m (eidvalue_eid v) = Some HXB_DTYPE_DATETIME)"

definition on_date :: "dtype_map \<Rightarrow> condition_doc list \<Rightarrow> if_clause_doc \<Rightarrow> bool" where
  "on_date m cs c = (if_name c \<noteq> ''true'' \<and> (\<exists>co \<in> set cs. condition_name co = if_name c \<and> date_condition m (cond_doc co)))"

text \<open>Every name is given once, and used for what it is.\<close>

definition wf_document :: "condition_doc list \<Rightarrow> state_doc list \<Rightarrow> bool" where
  "wf_document cs ss =
     (distinct (map condition_name cs @ map state_name ss) \<and>
      (\<forall>s \<in> set ss. \<forall>c \<in> set (if_clauses s). (if_name c = ''true'' \<or> if_name c \<in> condition_name ` set cs) \<and>
         if_goodstate c \<in> state_name ` set ss \<and> if_badstate c \<in> state_name ` set ss))"

lemma position_less: "x \<in> set xs \<Longrightarrow> position x xs < length xs"
  by (induction xs) (auto simp: position_def)

lemma nth_position: "x \<in> set xs \<Longrightarrow> xs ! position x xs = x"
  by (induction xs) (auto simp: position_def)

lemma map_of_enumerate:
  "map_of (map (\<lambda>(i, c). (f c, of_nat i)) (List.enumerate k cs)) x = (if x \<in> f ` set cs then Some (of_nat (k + position x (map f cs)) :: u32) else None)"
  by (induction cs arbitrary: k) (auto simp: position_def)

lemma ucast_of_nat_u8: "(ucast (of_nat n :: u32) :: u8) = of_nat n"
  by (simp add: unsigned_of_nat word_of_nat_eq_iff take_bit_take_bit)

lemma all_clauses_iff: "(i, c) \<in> set (all_clauses ss) \<longleftrightarrow> i < length ss \<and> c \<in> set (if_clauses (ss ! i))"
  by (fastforce simp: all_clauses_def in_set_enumerate_eq)

lemma numbered_clauses_all: "numbered_clauses (number_states k ss) = map (\<lambda>(i, c). (of_nat i, c)) (concat (map (\<lambda>(i, s). map (Pair i) (if_clauses s)) (List.enumerate k ss)))"
  by (induction ss arbitrary: k) (auto simp: numbered_clauses_def number_states_def)

text \<open>Names are found at their positions.\<close>

definition numbered :: "'g bgl \<Rightarrow> 'g \<Rightarrow> condition_doc list \<Rightarrow> state_doc list \<Rightarrow> bool" where
  "numbered G g cs ss =
     ((\<forall>n \<in> state_name ` set ss. find_vertex_id G g n = Inr (of_nat (position n (map state_name ss)))) \<and>
      (\<forall>n \<in> condition_name ` set cs. find_vertex_id G g n = Inr (of_nat (position n (map condition_name cs)))))"

lemma names_numbered:
  assumes "wf_document cs ss"
    and "names G g = cns @ sns \<or> names G g = sns @ cns" "cns = map (\<lambda>(i, c). (condition_name c, of_nat i)) (List.enumerate 0 cs)"
    and "sns = map (\<lambda>(i, s). (state_name s, of_nat i)) (List.enumerate 0 ss)"
  shows "numbered G g cs ss"
proof -
  have "\<forall>c \<in> set cs. \<forall>s \<in> set ss. condition_name c \<noteq> state_name s \<and> state_name s \<noteq> condition_name c"
    using assms(1) by (fastforce simp: wf_document_def)
  then show ?thesis using assms(2)
    by (auto simp: numbered_def find_vertex_id_names assms(3,4) map_add_def map_of_enumerate)
qed

text \<open>One clause.\<close>

lemma transition_resolved:
  assumes "numbered G g cs ss" "wf_document cs ss" "(i, c) \<in> set (all_clauses ss)" "transition_entry G g m (of_nat i) c = Inr (cid, t)"
  shows "t = resolve m cs ss (i, c)" "if_name c \<noteq> ''true'' \<Longrightarrow> cid = of_nat (position (if_name c) (map condition_name cs)) \<and> if_name c \<in> condition_name ` set cs"
proof -
  have c: "if_name c = ''true'' \<or> if_name c \<in> condition_name ` set cs" "if_goodstate c \<in> state_name ` set ss" "if_badstate c \<in> state_name ` set ss"
    using assms(2,3) by (auto simp: all_clauses_iff wf_document_def)
  have state: "find_vertex_id G g n = Inr (of_nat (position n (map state_name ss)))" if "n \<in> state_name ` set ss" for n
    using assms(1) that unfolding numbered_def by blast
  have cond: "find_vertex_id G g (if_name c) = Inr (of_nat (position (if_name c) (map condition_name cs)))" if "if_name c \<noteq> ''true''"
    using assms(1) that c(1) unfolding numbered_def by blast
  show "if_name c \<noteq> ''true'' \<Longrightarrow> cid = of_nat (position (if_name c) (map condition_name cs)) \<and> if_name c \<in> condition_name ` set cs"
    using assms(4) c(1) cond by (auto simp: transition_entry_def)
  obtain d where "m (if_eid c) = Some d" using assms(4) by (auto simp: transition_entry_def getDatatype_def split: option.splits)
  then show "t = resolve m cs ss (i, c)"
    using assms(4) state [OF c(2)] state [OF c(3)] cond
    by (cases "if_name c = ''true''") (auto simp: transition_entry_def getDatatype_def resolve_def TRUE_COND_INDEX_def ucast_of_nat_u8)
qed

text \<open>Entries of the condition table.\<close>

lemma store_value_frame [simp]:
  "vdatatype (store_value d x v) = dtype_code d" "vblob (store_value d x v) = vblob v" "wf_value (store_value d x v) = wf_value v"
  by (simp_all add: store_value_def Let_def set_float_def set_u32_def wf_value_def)

lemma wf_condition_record:
  "length ip = 16 \<Longrightarrow> wf_value v \<Longrightarrow> vblob v = [] \<Longrightarrow> wf_condition \<lparr>sourceIP = ip, sourceEID = x, cond_op = y, cond_value = v\<rparr>"
  by (simp add: wf_condition_def)

lemma wf_value_set_u32 [simp]: "wf_value (set_u32 x v) = wf_value v"
  by (simp add: set_u32_def wf_value_def)

lemma condition_entry_facts:
  assumes "condition_entry m junk co = Inr e" "length junk = 8"
  shows "wf_condition e" "vdatatype (cond_value e) = dtype_code HXB_DTYPE_DATETIME \<longleftrightarrow> date_condition m co"
proof -
  have v: "wf_value \<lparr>vdatatype = d, vraw = junk, vblob = []\<rparr>" for d using assms(2) by (simp add: wf_value_def)
  have l: "length localhost = 16" by (simp add: localhost_def)
  have ip: "length (map f [0..<16]) = 16" for f :: "nat \<Rightarrow> u8" by (simp only: length_map length_upt)
  have d: "dtype_code d = dtype_code HXB_DTYPE_DATETIME \<longleftrightarrow> d = HXB_DTYPE_DATETIME" for d by (cases d) simp_all
  have "wf_condition e \<and> (vdatatype (cond_value e) = dtype_code HXB_DTYPE_DATETIME \<longleftrightarrow> date_condition m co)"
  proof (cases co)
    case (Eidvalue c)
    then obtain d where m: "m (eidvalue_eid c) = Some d" and
      e: "e = \<lparr>sourceIP = map (hex_byte (ipv6_address c)) [0..<16], sourceEID = eidvalue_eid c, cond_op = ucast (eidvalue_op c),
            cond_value = store_value d (eidvalue_value c) \<lparr>vdatatype = 0, vraw = junk, vblob = []\<rparr>\<rparr>"
      using assms(1) unfolding condition_entry_def hba_cond.case ebind_Inr getDatatype_def by (auto split: option.splits simp del: upt.simps)
    show ?thesis unfolding e using d [of "the (m (eidvalue_eid c))"]
      by (simp add: wf_condition_record [OF ip] v Eidvalue date_condition_def m del: upt.simps)
  next
    case (Timeout t)
    then have e: "e = \<lparr>sourceIP = localhost, sourceEID = 0, cond_op = HXB_SM_TIMESTAMP_OP,
        cond_value = set_u32 t \<lparr>vdatatype = dtype_code HXB_DTYPE_TIMESTAMP, vraw = junk, vblob = []\<rparr>\<rparr>"
      using assms(1) by (simp only: condition_entry_def hba_cond.case sum.inject)
    show ?thesis unfolding e by (simp add: wf_condition_record [OF l] v Timeout date_condition_def)
  next
    case (On_Date c)
    then have e: "e = \<lparr>sourceIP = localhost, sourceEID = 0, cond_op = ucast (datetime_field c OR datetime_op c),
        cond_value = set_u32 (datetime_value c) \<lparr>vdatatype = dtype_code HXB_DTYPE_DATETIME, vraw = junk, vblob = []\<rparr>\<rparr>"
      using assms(1) by (simp only: condition_entry_def hba_cond.case sum.inject)
    show ?thesis unfolding e by (simp add: wf_condition_record [OF l] v On_Date date_condition_def)
  qed
  then show "wf_condition e" "vdatatype (cond_value e) = dtype_code HXB_DTYPE_DATETIME \<longleftrightarrow> date_condition m co" by simp_all
qed

lemma wf_resolve [simp]: "wf_transition (resolve m cs ss ic)"
  by (simp add: resolve_def Let_def split_beta wf_transition_def wf_value_def [symmetric] del: wf_value_def) (simp add: wf_value_def)

text \<open>The tables of a document with its conditions first.\<close>

lemma generated_tables:
  assumes "numbered G g cs ss"
    and "wf_document cs ss" "length cs < 2 ^ 32" "length (all_clauses ss) < 2 ^ 32" "\<forall>i. length (junk i) = 8"
    and "gen_blocks G g m junk (map Condition_Block (number_conditions 0 cs) @ map State_Block (number_states 0 ss))
      \<lparr>states_bin = [], trans_dt_bin = [], conditions_bin = [], state_index = 0\<rparr> = Inr tb"
  shows "map snd (states_bin tb) = map (resolve m cs ss) (filter (\<lambda>ic. \<not> on_date m cs (snd ic)) (all_clauses ss))"
    and "map snd (trans_dt_bin tb) = map (resolve m cs ss) (filter (\<lambda>ic. on_date m cs (snd ic)) (all_clauses ss))"
    and "length (conditions_bin tb) = length cs"
    and "i < length cs \<Longrightarrow> condition_entry m (junk (of_nat i)) (cond_doc (cs ! i)) = Inr (snd (conditions_bin tb ! i))"
proof -
  let ?e = "\<lparr>states_bin = [], trans_dt_bin = [], conditions_bin = [], state_index = 0\<rparr>"
  obtain u where u: "gen_blocks G g m junk (map Condition_Block (number_conditions 0 cs)) ?e = Inr u"
    "gen_blocks G g m junk (map State_Block (number_states 0 ss)) u = Inr tb"
    using assms(6) by (auto simp: gen_blocks_append)
  obtain es where es: "u = ?e\<lparr>conditions_bin := zip (map of_nat [0..<length cs]) es\<rparr>" "length es = length cs"
    "\<forall>i < length cs. condition_entry m (junk (of_nat i)) (cond_doc (cs ! i)) = Inr (es ! i)"
    using gen_conditions [OF u(1)] assms(3) by auto
  let ?cb = "zip (map of_nat [0..<length cs]) es :: (u32 \<times> sm_condition) list"
  let ?ps = "numbered_clauses (number_states 0 ss)"
  have ps: "?ps = map (\<lambda>(i, c). (of_nat i, c)) (all_clauses ss)" by (simp add: numbered_clauses_all all_clauses_def)
  obtain rs where rs: "length rs = length ?ps" "\<forall>i < length ?ps. transition_entry G g m (fst (?ps ! i)) (snd (?ps ! i)) = Inr (rs ! i)"
    "conditions_bin tb = ?cb" "map snd (states_bin tb) = those_in Values ?cb ?ps rs" "map snd (trans_dt_bin tb) = those_in Dates ?cb ?ps rs"
    using gen_pairs_tables [OF u(2) [unfolded gen_states_pairs], of 0] assms(4) es(1) by (auto simp: ps)
  have dist: "distinct (map of_nat [0..<length cs] :: u32 list)"
    using assms(3) by (auto simp: distinct_map inj_on_def word_of_nat_eq_iff take_bit_nat_eq_self)
  have entry: "map_of ?cb (of_nat p) = Some (es ! p)" if "p < length cs" for p
    using map_of_zip_nth [OF _ dist, of es p] es(2) that by (simp only: length_map length_upt nth_map_upt minus_nat.diff_0 add_0)
  have each: "snd (rs ! j) = resolve m cs ss (all_clauses ss ! j) \<and>
      placed ?cb (snd (all_clauses ss ! j)) (fst (rs ! j)) = (if on_date m cs (snd (all_clauses ss ! j)) then Dates else Values)"
    if j: "j < length (all_clauses ss)" for j
  proof -
    obtain i c where ic: "all_clauses ss ! j = (i, c)" by fastforce
    obtain cid t where r: "rs ! j = (cid, t)" by fastforce
    have ic': "(i, c) \<in> set (all_clauses ss)" using j ic nth_mem by metis
    have te: "transition_entry G g m (of_nat i) c = Inr (cid, t)" using rs(2) j ic r by (auto simp: ps)
    note tr = transition_resolved [OF assms(1,2) ic' te]
    have "placed ?cb c cid = (if on_date m cs c then Dates else Values)"
    proof (cases "if_name c = ''true''")
      case False
      let ?p = "position (if_name c) (map condition_name cs)"
      from tr(2) [OF False] have cid: "cid = of_nat ?p" and n: "if_name c \<in> set (map condition_name cs)" by simp_all
      have p: "?p < length cs" "condition_name (cs ! ?p) = if_name c" using position_less [OF n] nth_position [OF n] by simp_all
      have "vdatatype (cond_value (es ! ?p)) = dtype_code HXB_DTYPE_DATETIME \<longleftrightarrow> date_condition m (cond_doc (cs ! ?p))"
        using condition_entry_facts(2) es(3) p(1) assms(5) by blast
      moreover have "on_date m cs c \<longleftrightarrow> date_condition m (cond_doc (cs ! ?p))"
      proof -
        have "co = cs ! ?p" if co: "co \<in> set cs" "condition_name co = if_name c" for co
        proof -
          obtain q where q: "q < length cs" "co = cs ! q" using co(1) unfolding in_set_conv_nth by blast
          have "distinct (map condition_name cs)" using assms(2) by (simp add: wf_document_def)
          then have "q = ?p" using q p co(2) nth_eq_iff_index_eq [of "map condition_name cs" q ?p] by simp
          then show ?thesis using q by simp
        qed
        moreover have "cs ! ?p \<in> set cs" using p(1) by simp
        ultimately show ?thesis using False p(2) unfolding on_date_def by metis
      qed
      ultimately show ?thesis using False entry [OF p(1)] by (simp add: placed_def cid)
    qed (simp add: placed_def on_date_def)
    then show ?thesis using tr(1) by (simp add: ic r)
  qed
  have len: "length rs = length (all_clauses ss)" using rs(1) by (simp add: ps)
  have zips: "filter (\<lambda>(q, r). placed ?cb (snd q) (fst r) = (if b then Dates else Values)) (zip ?ps rs) =
      filter (\<lambda>(q, r). on_date m cs (snd q) = b) (zip ?ps rs)" for b
  proof (rule filter_cong [OF refl])
    fix x assume "x \<in> set (zip ?ps rs)"
    then obtain j where j: "j < length (all_clauses ss)" "x = (?ps ! j, rs ! j)" by (auto simp: set_zip ps)
    have "snd (?ps ! j) = snd (all_clauses ss ! j)" using j(1) by (simp add: ps split_beta)
    then show "(case x of (q, r) \<Rightarrow> placed ?cb (snd q) (fst r) = (if b then Dates else Values)) = (case x of (q, r) \<Rightarrow> on_date m cs (snd q) = b)"
      using each [OF j(1)] j(2) by (cases b) auto
  qed
  have main: "map (snd \<circ> snd) (filter (\<lambda>(q, r). on_date m cs (snd q) = b) (zip ?ps rs)) =
      map (resolve m cs ss) (filter (\<lambda>ic. on_date m cs (snd ic) = b) (all_clauses ss))" for b
  proof -
    have "map snd rs = map (resolve m cs ss) (all_clauses ss)"
      by (rule nth_equalityI) (use each len in auto)
    moreover have "map (snd \<circ> snd) (filter (\<lambda>(q, r). on_date m cs (snd q) = b) (zip (map (\<lambda>(i, c). (h i, c)) as) rs)) =
        map f (filter (\<lambda>ic. on_date m cs (snd ic) = b) as)" if "map snd rs = map f as" for as :: "(nat \<times> if_clause_doc) list" and f and h :: "nat \<Rightarrow> u32" and rs
      using that
    proof (induction as arbitrary: rs)
      case (Cons a as)
      then show ?case by (cases rs) (auto simp: split_beta)
    qed simp
    ultimately show ?thesis unfolding ps by blast
  qed
  show "map snd (states_bin tb) = map (resolve m cs ss) (filter (\<lambda>ic. \<not> on_date m cs (snd ic)) (all_clauses ss))"
    using main [of False] zips [of False] by (simp add: rs(4) those_in_def)
  show "map snd (trans_dt_bin tb) = map (resolve m cs ss) (filter (\<lambda>ic. on_date m cs (snd ic)) (all_clauses ss))"
    using main [of True] zips [of True] by (simp add: rs(5) those_in_def)
  show "length (conditions_bin tb) = length cs" by (simp add: rs(3) es(2))
  show "i < length cs \<Longrightarrow> condition_entry m (junk (of_nat i)) (cond_doc (cs ! i)) = Inr (snd (conditions_bin tb ! i))"
    using es(2,3) by (simp add: rs(3))
qed


text \<open>The whole file, and the device that holds it.\<close>

lemma assembled_file:
  assumes "bgl_documented G" "assemble G dtypes junk hba = Inr file" "doc_blocks hba = map Condition_Block cs @ map State_Block ss"
    and "wf_document cs ss" "cs @ map undefined ss \<noteq> []" "\<forall>i. length (junk i) = 8" "length cs \<le> 17" "m = read_datatypes dtypes"
    and "ds = map (resolve m cs ss) (filter (\<lambda>ic. on_date m cs (snd ic)) (all_clauses ss))" "length ds \<le> 30"
    and "ts = map (resolve m cs ss) (filter (\<lambda>ic. \<not> on_date m cs (snd ic)) (all_clauses ss))" "length ts \<le> 29"
  shows "\<exists>es. length es = length cs \<and> (\<forall>i < length cs. condition_entry m (junk (of_nat i)) (cond_doc (cs ! i)) = Inr (es ! i)) \<and>
    image_ok (map (hex_byte (pad_machine_id (machine_id hba))) [0..<16]) es ds ts \<and>
    file = map (hex_byte (target_ip hba)) [0..<length (target_ip hba) div 2] @ name_chunk (device_name hba) @
      image_bytes (map (hex_byte (pad_machine_id (machine_id hba))) [0..<16]) es ds ts"
proof -
  obtain ast g where b: "build_graph G hba = Inr (ast, g)" using assms(2) by (auto simp: assemble_def)
  note n = build_graph_numbers(1) [OF assms(1) b assms(3)]
  let ?mid = "map (hex_byte (pad_machine_id (machine_id hba))) [0..<16]"
  let ?data = "map (hex_byte (target_ip hba)) [0..<length (target_ip hba) div 2] @ name_chunk (device_name hba)"
  have "doc_blocks ast \<noteq> []" using n assms(5) by (cases cs; cases ss) (auto simp: number_conditions_def number_states_def)
  then have "generator_flash G g m junk ast (?data @ ?mid) = Inr file"
    using assms(2,8) n by (simp add: assemble_def b Let_def del: upt.simps)
  then obtain tb where tb: "gen_blocks G g m junk (map Condition_Block (number_conditions 0 cs) @ map State_Block (number_states 0 ss))
      \<lparr>states_bin = [], trans_dt_bin = [], conditions_bin = [], state_index = 0\<rparr> = Inr tb" and
    fl: "file = (?data @ ?mid) @ table_buffer 512 (map (condition_bytes \<circ> snd) (conditions_bin tb))
            @ table_buffer 512 (map (transition_bytes \<circ> snd) (trans_dt_bin tb))
            @ table_buffer 496 (map (transition_bytes \<circ> snd) (states_bin tb))"
    using n by (auto simp: generator_flash_def simp del: upt.simps)
  have "length (all_clauses ss) = length ds + length ts"
    using sum_length_filter_compl [of "\<lambda>ic. on_date m cs (snd ic)" "all_clauses ss"] by (simp add: assms(9,11))
  then have l: "length cs < 2 ^ 32" "length (all_clauses ss) < 2 ^ 32" using assms(7,10,12) by simp_all
  have "numbered G g cs ss" by (rule names_numbered [OF assms(4) _ refl refl]) (use n in simp)
  note gt = generated_tables [OF this assms(4) l assms(6) tb]
  let ?es = "map snd (conditions_bin tb)"
  have es: "length ?es = length cs" "\<forall>i < length cs. condition_entry m (junk (of_nat i)) (cond_doc (cs ! i)) = Inr (?es ! i)"
    using gt(3,4) by simp_all
  have "\<forall>e \<in> set ?es. wf_condition e"
  proof
    fix e assume "e \<in> set ?es"
    then obtain i where i: "i < length cs" "e = ?es ! i" using es(1) unfolding in_set_conv_nth by metis
    then have "condition_entry m (junk (of_nat i)) (cond_doc (cs ! i)) = Inr e" using es(2) by blast
    then show "wf_condition e" using condition_entry_facts(1) assms(6) by blast
  qed
  moreover have "\<forall>t \<in> set ds \<union> set ts. wf_transition t" by (auto simp: assms(9,11))
  ultimately have "image_ok ?mid ?es ds ts" using es(1) assms(7,10,12) by (simp add: image_ok_def)
  moreover have "map (transition_bytes \<circ> snd) (trans_dt_bin tb) = map transition_bytes ds" "map (transition_bytes \<circ> snd) (states_bin tb) = map transition_bytes ts"
    using gt(1,2) by (simp_all add: assms(9,11) flip: map_map)
  then have "file = ?data @ image_bytes ?mid ?es ds ts"
    by (simp add: fl image_bytes_def)
  ultimately show ?thesis using es by (intro exI [of _ ?es]) simp
qed


text \<open>With the states first, a clause that depends on a condition finds no entry of it.\<close>

lemma gen_conditions_keep:
  "gen_blocks G g m junk (map Condition_Block cs) tb = Inr tb' \<Longrightarrow> states_bin tb' = states_bin tb \<and> trans_dt_bin tb' = trans_dt_bin tb"
  by (induction cs arbitrary: tb) auto

lemma those_in_empty:
  assumes "length rs = length as" "\<forall>i < length as. snd (rs ! i) = f (as ! i)"
  shows "those_in Dates [] (map (\<lambda>(i, c). (h i, c)) as) rs = []"
    and "those_in Values [] (map (\<lambda>(i, c). (h i, c)) as) rs = map f (filter (\<lambda>ic. if_name (snd ic) = ''true'') as)"
  using assms
proof (induction as arbitrary: rs)
  case Nil
  { case 1 then show ?case by (simp add: those_in_def) }
  { case 2 then show ?case by (simp add: those_in_def) }
next
  case (Cons a as)
  { case 1
    then obtain r rs' where r: "rs = r # rs'" "length rs' = length as" by (cases rs) auto
    then have "\<forall>i < length as. snd (rs' ! i) = f (as ! i)" using 1(2) by auto
    from Cons.IH(1) [OF r(2) this] show ?case by (simp add: those_in_def placed_def r(1) split_beta) }
  { case 2
    then obtain r rs' where r: "rs = r # rs'" "length rs' = length as" by (cases rs) auto
    then have "\<forall>i < length as. snd (rs' ! i) = f (as ! i)" "snd r = f a" using 2(2) by auto
    with Cons.IH(2) [OF r(2) this(1)] show ?case by (simp add: those_in_def placed_def r(1) split_beta) }
qed

lemma generated_states_first:
  assumes "numbered G g cs ss" "wf_document cs ss" "length (all_clauses ss) < 2 ^ 32"
    and "gen_blocks G g m junk (map State_Block (number_states 0 ss) @ map Condition_Block (number_conditions 0 cs))
      \<lparr>states_bin = [], trans_dt_bin = [], conditions_bin = [], state_index = 0\<rparr> = Inr tb"
  shows "map snd (states_bin tb) = map (resolve m cs ss) (filter (\<lambda>ic. if_name (snd ic) = ''true'') (all_clauses ss)) \<and> trans_dt_bin tb = []"
proof -
  let ?e = "\<lparr>states_bin = [], trans_dt_bin = [], conditions_bin = [], state_index = 0\<rparr>"
  obtain u where u: "gen_blocks G g m junk (map State_Block (number_states 0 ss)) ?e = Inr u"
    "gen_blocks G g m junk (map Condition_Block (number_conditions 0 cs)) u = Inr tb"
    using assms(4) by (auto simp: gen_blocks_append)
  let ?ps = "numbered_clauses (number_states 0 ss)"
  have ps: "?ps = map (\<lambda>(i, c). (of_nat i, c)) (all_clauses ss)" by (simp add: numbered_clauses_all all_clauses_def)
  obtain rs where rs: "length rs = length ?ps" "\<forall>i < length ?ps. transition_entry G g m (fst (?ps ! i)) (snd (?ps ! i)) = Inr (rs ! i)"
    "map snd (states_bin u) = those_in Values [] ?ps rs" "map snd (trans_dt_bin u) = those_in Dates [] ?ps rs"
    using gen_pairs_tables [OF u(1) [unfolded gen_states_pairs], of 0] assms(3) by (auto simp: ps)
  have each: "\<forall>j < length (all_clauses ss). snd (rs ! j) = resolve m cs ss (all_clauses ss ! j)"
  proof (intro allI impI)
    fix j assume j: "j < length (all_clauses ss)"
    obtain i c where ic: "all_clauses ss ! j = (i, c)" by fastforce
    obtain cid t where r: "rs ! j = (cid, t)" by fastforce
    have "(i, c) \<in> set (all_clauses ss)" using j ic nth_mem by metis
    moreover have "transition_entry G g m (of_nat i) c = Inr (cid, t)" using rs(2) j ic r by (auto simp: ps)
    ultimately show "snd (rs ! j) = resolve m cs ss (all_clauses ss ! j)"
      using transition_resolved(1) [OF assms(1,2)] by (simp add: ic r)
  qed
  have len: "length rs = length (all_clauses ss)" using rs(1) by (simp add: ps)
  show ?thesis using gen_conditions_keep [OF u(2)] rs(3,4) those_in_empty [OF len each]
    by (simp add: ps)
qed

lemma assembled_states_first:
  assumes "bgl_documented G" "assemble G dtypes junk hba = Inr file" "doc_blocks hba = map State_Block ss @ map Condition_Block cs"
    and "wf_document cs ss" "ss \<noteq> []" "length (all_clauses ss) < 2 ^ 32" "m = read_datatypes dtypes"
  shows "\<exists>es. file = map (hex_byte (target_ip hba)) [0..<length (target_ip hba) div 2] @ name_chunk (device_name hba) @
      map (hex_byte (pad_machine_id (machine_id hba))) [0..<16] @ table_buffer 512 es @ table_buffer 512 [] @
      table_buffer 496 (map transition_bytes (map (resolve m cs ss) (filter (\<lambda>ic. if_name (snd ic) = ''true'') (all_clauses ss))))"
proof -
  obtain ast g where b: "build_graph G hba = Inr (ast, g)" using assms(2) by (auto simp: assemble_def)
  note n = build_graph_numbers(2) [OF assms(1) b assms(3)]
  have "doc_blocks ast \<noteq> []" using n assms(5) by (cases ss) (auto simp: number_states_def)
  then have "generator_flash G g m junk ast (map (hex_byte (target_ip hba)) [0..<length (target_ip hba) div 2] @ name_chunk (device_name hba) @
      map (hex_byte (pad_machine_id (machine_id hba))) [0..<16]) = Inr file"
    using assms(2,7) n by (simp add: assemble_def b Let_def del: upt.simps)
  then obtain tb where tb: "gen_blocks G g m junk (map State_Block (number_states 0 ss) @ map Condition_Block (number_conditions 0 cs))
      \<lparr>states_bin = [], trans_dt_bin = [], conditions_bin = [], state_index = 0\<rparr> = Inr tb" and
    fl: "file = (map (hex_byte (target_ip hba)) [0..<length (target_ip hba) div 2] @ name_chunk (device_name hba) @
            map (hex_byte (pad_machine_id (machine_id hba))) [0..<16]) @ table_buffer 512 (map (condition_bytes \<circ> snd) (conditions_bin tb))
            @ table_buffer 512 (map (transition_bytes \<circ> snd) (trans_dt_bin tb))
            @ table_buffer 496 (map (transition_bytes \<circ> snd) (states_bin tb))"
    using n by (auto simp: generator_flash_def simp del: upt.simps)
  have "numbered G g cs ss" by (rule names_numbered [OF assms(4) _ refl refl]) (use n in simp)
  note gt = generated_states_first [OF this assms(4,6) tb]
  have "map (transition_bytes \<circ> snd) (states_bin tb) = map transition_bytes (map snd (states_bin tb))" by simp
  also have "\<dots> = map transition_bytes (map (resolve m cs ss) (filter (\<lambda>ic. if_name (snd ic) = ''true'') (all_clauses ss)))"
    using gt by (simp only:)
  finally show ?thesis using gt
    by (intro exI [of _ "map (condition_bytes \<circ> snd) (conditions_bin tb)"]) (simp only: fl list.map append_assoc)
qed

text \<open>A graph as a list of vertices, and a document.\<close>

definition example_bgl :: "vertex_t list bgl" where
  "example_bgl = \<lparr>no_graph = [], add_vertex = (\<lambda>v g. g @ [v]), graph_vertices = (\<lambda>g. g), set_vertex = (\<lambda>i v g. g[i := v]),
     add_edge = (\<lambda>a b e g. (True, g)), out_neighbours = (\<lambda>g i. []), in_neighbours = (\<lambda>g i. [])\<rparr>"

lemma example_bgl_documented: "bgl_documented example_bgl"
  by (simp add: bgl_documented_def example_bgl_def)

definition example_condition :: condition_doc where
  "example_condition = \<lparr>condition_name = ''c'', cond_doc = Timeout 20, condition_id = 0\<rparr>"

definition example_state :: state_doc where
  "example_state = \<lparr>state_name = ''s'', if_clauses = [\<lparr>if_name = ''c'', if_eid = 1, if_value = 0x3f800000, if_goodstate = ''s'', if_badstate = ''s''\<rparr>], state_id = 0\<rparr>"

definition example_doc :: "hba_doc_block list \<Rightarrow> hba_doc" where
  "example_doc bs = \<lparr>target_ip = replicate 32 (CHR ''f''), device_name = ''plug'', machine_id = ''07'', start_state = ''s'', doc_blocks = bs\<rparr>"

abbreviation example_junk :: "u32 \<Rightarrow> buf" where "example_junk \<equiv> (\<lambda>_. replicate 8 0)"

lemma example_dtypes: "read_datatypes [''1 BOOL''] 1 = Some HXB_DTYPE_BOOL"
  by (simp add: read_datatypes_def read_datatype_def is_space_def get_sign_def is_digit_def decimal_value_def digit_value_def datatype_named_def)

lemma example_document: "wf_document [example_condition] [example_state]" "all_clauses [example_state] = [(0, hd (if_clauses example_state))]"
  by (simp_all add: wf_document_def example_condition_def example_state_def all_clauses_def)

definition example_graph_ok :: "hba_doc_block list \<Rightarrow> bool" where
  "example_graph_ok bs =
     (case build_graph example_bgl (example_doc bs) of
        Inl e \<Rightarrow> False
      | Inr (d, g) \<Rightarrow> d = example_doc bs \<and> find_vertex_id example_bgl g ''c'' = Inr 0 \<and> find_vertex_id example_bgl g ''s'' = Inr 0)"

lemma example_graphs:
  "example_graph_ok [Condition_Block example_condition, State_Block example_state]"
  "example_graph_ok [State_Block example_state, Condition_Block example_condition]"
  by code_simp+

lemma generator_succeeds:
  "(\<exists>file. generator_flash G g m junk ast v = Inr file) =
   (\<exists>tb. gen_blocks G g m junk (doc_blocks ast) \<lparr>states_bin = [], trans_dt_bin = [], conditions_bin = [], state_index = 0\<rparr> = Inr tb)"
  by (auto simp: generator_flash_def)

lemma entries_succeed:
  assumes "find_vertex_id G g (if_name c) = Inr a" "find_vertex_id G g (if_goodstate c) = Inr b" "find_vertex_id G g (if_badstate c) = Inr d" "m (if_eid c) = Some e"
  shows "\<exists>r. transition_entry G g m sid c = Inr r"
  using assms by (auto simp: transition_entry_def getDatatype_def)

lemma timeout_succeeds: "\<exists>e. condition_entry m junk (Timeout x) = Inr e"
  by (auto simp: condition_entry_def)

lemma gen_clause_succeeds: "(\<exists>tb'. gen_clause G g m sid c tb = Inr tb') = (\<exists>r. transition_entry G g m sid c = Inr r)"
  by (auto simp: gen_clause_def Let_def)

lemma example_generated:
  assumes "bs = [Condition_Block example_condition, State_Block example_state] \<or> bs = [State_Block example_state, Condition_Block example_condition]"
    and "\<And>tb. \<exists>tb'. gen_block G g m junk (State_Block example_state) tb = Inr tb'" "\<And>tb. \<exists>tb'. gen_block G g m junk (Condition_Block example_condition) tb = Inr tb'"
  shows "\<exists>tb'. gen_blocks G g m junk bs tb = Inr tb'"
  using assms(1) by (elim disjE) (simp_all del: gen_block.simps, (metis assms(2,3))+)

lemma example_assembled:
  assumes "bs = [Condition_Block example_condition, State_Block example_state] \<or> bs = [State_Block example_state, Condition_Block example_condition]"
  shows "\<exists>file. assemble example_bgl [''1 BOOL''] example_junk (example_doc bs) = Inr file"
proof -
  have "example_graph_ok bs" using assms example_graphs by blast
  then obtain g where g: "build_graph example_bgl (example_doc bs) = Inr (example_doc bs, g)"
    "find_vertex_id example_bgl g ''c'' = Inr 0" "find_vertex_id example_bgl g ''s'' = Inr 0"
    unfolding example_graph_ok_def by (auto split: sum.splits)
  define m where "m = read_datatypes [''1 BOOL'']"
  define c where "c = hd (if_clauses example_state)"
  have c: "if_name c = ''c''" "if_goodstate c = ''s''" "if_badstate c = ''s''" "if_eid c = 1" "if_clauses example_state = [c]"
    by (simp_all add: c_def example_state_def)
  have "m (if_eid c) = Some HXB_DTYPE_BOOL" unfolding c m_def by (rule example_dtypes)
  then have "\<exists>r. transition_entry example_bgl g m sid c = Inr r" for sid
    by (rule entries_succeed [rotated 3]) (simp_all add: c g(2,3))
  then have "\<exists>tb'. gen_block example_bgl g m example_junk (State_Block example_state) tb = Inr tb'" for tb
    by (simp add: c(5) gen_clause_succeeds)
  moreover have "\<exists>tb'. gen_block example_bgl g m example_junk (Condition_Block example_condition) tb = Inr tb'" for tb
    using timeout_succeeds [of m "replicate 8 0" 20] by (auto simp: example_condition_def simp del: replicate.simps)
  ultimately have "\<exists>tb'. gen_blocks example_bgl g m example_junk bs tb = Inr tb'" for tb
    by (intro example_generated [OF assms])
  moreover have "doc_blocks (example_doc bs) = bs" "bs \<noteq> []" using assms by (auto simp: example_doc_def)
  ultimately show ?thesis unfolding assemble_def g(1) ebind_simps prod.case Let_def m_def
    by (simp only: if_True not_False_eq_True generator_succeeds)
qed

section \<open>Properties\<close>

text \<open>The value of a clause or condition reaches the device unchanged if it is a whole number below a million. A larger value of
  an endpoint that is no float is stored as a single digit: its text has an exponent, and the reader stops before it.\<close>

theorem stored_values:
  assumes "wf_value v" "f32_finite f" "\<not> f32_neg f" "\<not> f32_nan f" "f32_frac f = (a, b)" "0 < b" "10 ^ 6 * b \<le> a"
  shows "(n < 10 ^ 6 \<longrightarrow> (if d = HXB_DTYPE_FLOAT then v_float (store_value d (f32_of_nat n) v) = f32_of_nat n
      else v_u32 (store_value d (f32_of_nat n) v) = of_nat n)) \<and>
    (d \<noteq> HXB_DTYPE_FLOAT \<longrightarrow> unat (v_u32 (store_value d f v)) \<in> {1..9})"
proof -
  have v: "wf_value (v\<lparr>vdatatype := dtype_code d\<rparr>)" using assms(1) by simp
  have "get_uint (decimal n @ []) = of_nat n" if "n < 10 ^ 6" using get_uint_decimal [of "[]" n] that by simp
  then show ?thesis
    using v get_uint_large [OF assms(2-7)] by (auto simp: store_value_def Let_def put_of_nat get_float_decimal)
qed

theorem stored_values_witness:
  "unat (v_u32 (store_value HXB_DTYPE_UINT32 (f32_of_nat 1000000) fresh_value)) \<in> {1..9} \<and>
   v_u32 (store_value HXB_DTYPE_UINT32 (f32_of_nat 999999) fresh_value) = 999999"
proof -
  obtain b where b: "0 < b" "f32_frac (f32_of_nat 1000000) = (1000000 * b, b)" "f32_finite (f32_of_nat 1000000)"
    "\<not> f32_nan (f32_of_nat 1000000)" "\<not> f32_neg (f32_of_nat 1000000)" using frac_of_nat [of 1000000] by auto
  show ?thesis
    using stored_values [OF wf_fresh b(3,5,4,2,1), of 999999 HXB_DTYPE_UINT32] by simp
qed


text \<open>C22: In a document that puts the states before the conditions every clause that depends on a condition is lost without a
  message: the table of date transitions is empty, and that of the others has the unconditional clauses only.\<close>

theorem states_first_lose_transitions:
  assumes "bgl_documented G" "assemble G dtypes junk hba = Inr file" "doc_blocks hba = map State_Block ss @ map Condition_Block cs"
    and "wf_document cs ss" "ss \<noteq> []" "length (all_clauses ss) < 2 ^ 32"
  shows "\<exists>es. file = map (hex_byte (target_ip hba)) [0..<length (target_ip hba) div 2] @ name_chunk (device_name hba) @
      map (hex_byte (pad_machine_id (machine_id hba))) [0..<16] @ table_buffer 512 es @ table_buffer 512 [] @
      table_buffer 496 (map transition_bytes
        (map (resolve (read_datatypes dtypes) cs ss) (filter (\<lambda>ic. if_name (snd ic) = ''true'') (all_clauses ss))))"
  by (rule assembled_states_first [OF assms refl])

theorem states_first_lose_transitions_witness:
  "\<exists>fl es. assemble example_bgl [''1 BOOL''] example_junk (example_doc [State_Block example_state, Condition_Block example_condition]) = Inr fl \<and>
     (\<exists>hd. fl = hd @ table_buffer 512 es @ table_buffer 512 [] @ table_buffer 496 [])"
proof -
  obtain fl where f: "assemble example_bgl [''1 BOOL''] example_junk (example_doc [State_Block example_state, Condition_Block example_condition]) = Inr fl"
    using example_assembled by blast
  have l: "length (all_clauses [example_state]) < 2 ^ 32" by (simp add: example_document(2))
  have d: "doc_blocks (example_doc [State_Block example_state, Condition_Block example_condition]) = map State_Block [example_state] @ map Condition_Block [example_condition]"
    by (simp add: example_doc_def)
  have n: "filter (\<lambda>ic. if_name (snd ic) = ''true'') (all_clauses [example_state]) = []" by (simp add: example_document(2)) (simp add: example_state_def)
  from states_first_lose_transitions [OF example_bgl_documented f d example_document(1) _ l] f show ?thesis
    unfolding n list.map by (metis (no_types) append_assoc list.distinct(1))
qed

end
