(* ===== verification/Uploader.thy ===== *)
theory Uploader
  imports Assembled_Machine "HOL-Library.Multiset"
begin

text \<open>
  The upload tool (\<^verbatim>\<open>libhexabus/src/hexaupload.cpp\<close>) with the device and the network between them: the tool stops
  the state machine, sends the chunks of the file one by one, each again until it is acknowledged, and starts the machine.
  The network may lose and reorder packets, but accepts every packet that is sent; the timer of a sender may fire at any time
  until its \<^verbatim>\<open>send\<close> returns, also when an answer is on its way. Proved: an upload can succeed; without timeouts, success means
  that the device has stored the file, and for a file of the assembler that it has the document's machine; with them it does not.
\<close>

section \<open>The file\<close>

definition UploadChunkSize :: nat where "UploadChunkSize = 64"

text \<open>The file is read in whole chunks after the 16 bytes of the address; what is left over at its end is dropped.\<close>

definition read_chunks :: "buf \<Rightarrow> buf list" where
  "read_chunks fl =
     (let body = drop 16 fl
      in map (\<lambda>i. List.take UploadChunkSize (drop (UploadChunkSize * i) body)) [0..<length body div UploadChunkSize])"

text \<open>With \<open>keep-name\<close> the first chunk is cleared; it has to be there.\<close>

definition program_chunks :: "bool \<Rightarrow> buf \<Rightarrow> buf list option" where
  "program_chunks keep_name fl =
     (let cs = read_chunks fl
      in if keep_name then (if cs = [] then None else Some (cs[0 := replicate UploadChunkSize 0])) else Some cs)"

definition rename_chunks :: "string \<Rightarrow> buf list" where
  "rename_chunks new_name = [map of_char new_name @ replicate (UploadChunkSize - length new_name) 0]"

section \<open>The tool\<close>

datatype upload_error =
  ERR_NONE | ERR_UNKNOWN_PARAMETER | ERR_PARAMETER_MISSING | ERR_PARAMETER_FORMAT | ERR_PARAMETER_VALUE_INVALID
| ERR_NETWORK | ERR_INVALID_BINARY | ERR_SM_OP_FAILED | ERR_MAXRETRY_EXCEEDED | ERR_READ_FAILED | ERR_PARAMETER_INVALID | ERR_OTHER

text \<open>The packets that the tool sends, and what reaches its handlers: the answers that pass the filters, the two timers, and errors.\<close>

datatype request = Write_Control u8 | Query_Control | Write_Chunk u8 buf

datatype sender_id = Chunks | Machine

datatype reply = Chunk_Reply bool | Control_Reply u8

datatype upload_event = Reply reply | Timer_Fired sender_id | Receive_Error

text \<open>A \<open>RetryingPacketSender\<close>. After \<open>send\<close> has returned the pointer \<open>packet\<close> dangles, \<open>None\<close>; \<open>result\<close> is
  \<open>None\<close> as long as it has not been assigned, and keeps its value from one call of \<open>send\<close> to the next.\<close>

record packet_sender =
  send_packet :: "request option"
  result :: "upload_error option"
  failCount :: int

datatype upload_pc = Stopping | Sending u8 | Starting | Ended upload_error | Undefined

record tool =
  chunk_sender :: packet_sender
  machine_sender :: packet_sender
  reqState :: u8
  io_stopped :: bool
  outbox :: "request list"
  retryLimit :: int
  chunks :: "buf list"
  upload_pc :: upload_pc

definition sender :: "sender_id \<Rightarrow> tool \<Rightarrow> packet_sender" where
  "sender w h = (case w of Chunks \<Rightarrow> chunk_sender h | Machine \<Rightarrow> machine_sender h)"

definition put_sender :: "sender_id \<Rightarrow> packet_sender \<Rightarrow> tool \<Rightarrow> tool" where
  "put_sender w s h = (case w of Chunks \<Rightarrow> h\<lparr>chunk_sender := s\<rparr> | Machine \<Rightarrow> h\<lparr>machine_sender := s\<rparr>)"

definition finish :: "sender_id \<Rightarrow> upload_error \<Rightarrow> tool \<Rightarrow> tool" where
  "finish w r h = put_sender w ((sender w h)\<lparr>result := Some r\<rparr>) (h\<lparr>io_stopped := True\<rparr>)"

text \<open>The sender of the state machine's state asks for it after every write.\<close>

definition sendPacket :: "sender_id \<Rightarrow> tool \<Rightarrow> tool" where
  "sendPacket w h =
     (case send_packet (sender w h) of
        None \<Rightarrow> h\<lparr>upload_pc := Undefined\<rparr>
      | Some p \<Rightarrow> h\<lparr>outbox := outbox h @ p # (if w = Machine then [Query_Control] else [])\<rparr>)"

definition failOne :: "sender_id \<Rightarrow> tool \<Rightarrow> tool" where
  "failOne w h =
     (let s = sender w h; n = failCount s + 1; h = put_sender w (s\<lparr>failCount := n\<rparr>) h
      in if n > retryLimit h \<or> retryLimit h < 0 then finish w ERR_MAXRETRY_EXCEEDED h else sendPacket w h)"

definition start_send :: "sender_id \<Rightarrow> request \<Rightarrow> tool \<Rightarrow> tool" where
  "start_send w p h =
     (let h = sendPacket w (put_sender w ((sender w h)\<lparr>send_packet := Some p\<rparr>) h)
      in put_sender w ((sender w h)\<lparr>failCount := 0\<rparr>) (h\<lparr>io_stopped := False\<rparr>))"

definition setAndCheckState :: "u8 \<Rightarrow> tool \<Rightarrow> tool" where
  "setAndCheckState st h = start_send Machine (Write_Control st) (h\<lparr>reqState := st\<rparr>)"

definition sendChunk :: "u8 \<Rightarrow> tool \<Rightarrow> tool" where
  "sendChunk i h = start_send Chunks (Write_Chunk i (chunks h ! unat i)) (h\<lparr>upload_pc := Sending i\<rparr>)"

text \<open>The handlers stay connected all the time, whichever sender is at work.\<close>

fun handle_event :: "upload_event \<Rightarrow> tool \<Rightarrow> tool" where
  "handle_event (Reply (Chunk_Reply ok)) h = (if ok then finish Chunks ERR_NONE h else failOne Chunks h)"
| "handle_event (Reply (Control_Reply x)) h =
     (if (reqState h = STM_STATE_STOPPED \<and> x = STM_STATE_STOPPED) \<or> (reqState h = STM_STATE_RUNNING \<and> x = STM_STATE_RUNNING)
      then finish Machine ERR_NONE h else h)"
| "handle_event (Timer_Fired w) h = failOne w h"
| "handle_event Receive_Error h = finish Machine ERR_NETWORK (finish Chunks ERR_NETWORK h)"

text \<open>What \<open>main\<close> does when \<open>send\<close> returns.\<close>

definition returned :: "sender_id \<Rightarrow> tool \<Rightarrow> tool" where
  "returned w h = put_sender w ((sender w h)\<lparr>send_packet := None\<rparr>) h"

definition proceed :: "tool \<Rightarrow> tool" where
  "proceed h =
     (case upload_pc h of
        Stopping \<Rightarrow>
          (let h = returned Machine h in
           case result (machine_sender h) of
             None \<Rightarrow> h\<lparr>upload_pc := Undefined\<rparr>
           | Some err \<Rightarrow>
               (if err \<noteq> ERR_NONE then h\<lparr>upload_pc := Ended err\<rparr>
                else if 0 < length (chunks h) then sendChunk 0 h
                else setAndCheckState STM_STATE_RUNNING (h\<lparr>upload_pc := Starting\<rparr>)))
      | Sending i \<Rightarrow>
          (let h = returned Chunks h in
           case result (chunk_sender h) of
             None \<Rightarrow> h\<lparr>upload_pc := Undefined\<rparr>
           | Some err \<Rightarrow>
               (if err \<noteq> ERR_NONE then h\<lparr>upload_pc := Ended err\<rparr>
                else if unat (i + 1) < length (chunks h) then sendChunk (i + 1) h
                else setAndCheckState STM_STATE_RUNNING (h\<lparr>upload_pc := Starting\<rparr>)))
      | Starting \<Rightarrow>
          (let h = returned Machine h in
           case result (machine_sender h) of
             None \<Rightarrow> h\<lparr>upload_pc := Undefined\<rparr>
           | Some err \<Rightarrow> h\<lparr>upload_pc := Ended err\<rparr>)
      | _ \<Rightarrow> h)"

definition running :: "tool \<Rightarrow> bool" where
  "running h = (case upload_pc h of Ended _ \<Rightarrow> False | Undefined \<Rightarrow> False | _ \<Rightarrow> True)"

definition tool_step :: "upload_event \<Rightarrow> tool \<Rightarrow> tool" where
  "tool_step e h =
     (let h = h\<lparr>outbox := []\<rparr>
      in if \<not> running h then h
         else let h = handle_event e h in if running h \<and> io_stopped h then proceed h else h)"

definition tool_start :: "int \<Rightarrow> buf list \<Rightarrow> tool" where
  "tool_start retry cs =
     (let s = \<lparr>send_packet = None, result = None, failCount = 0\<rparr>
      in setAndCheckState STM_STATE_STOPPED
           \<lparr>chunk_sender = s, machine_sender = s, reqState = 0, io_stopped = True, outbox = [], retryLimit = retry,
            chunks = cs, upload_pc = Stopping\<rparr>)"

section \<open>The device and the network\<close>

text \<open>The endpoints of the device that the tool uses (\<^verbatim>\<open>sm_upload.c\<close>); \<open>Upload_Link\<close> proves that the firmware refines this.\<close>

fun device_handles :: "request \<Rightarrow> eeprom \<times> bool \<Rightarrow> reply list \<times> eeprom \<times> bool" where
  "device_handles (Write_Control v) (ee, run) =
     ([], ee, if v = STM_STATE_STOPPED then False else if v = STM_STATE_RUNNING then True else run)"
| "device_handles Query_Control (ee, run) = ([Control_Reply (if run then STM_STATE_RUNNING else STM_STATE_STOPPED)], ee, run)"
| "device_handles (Write_Chunk i d) (ee, run) = (let (ok, ee) = sm_write_chunk i d ee in ([Chunk_Reply ok], ee, run))"

record world =
  tool :: tool
  device :: "eeprom \<times> bool"
  to_device :: "request multiset"
  to_tool :: "reply multiset"

definition tool_receives :: "upload_event \<Rightarrow> world \<Rightarrow> world" where
  "tool_receives e w = (let h = tool_step e (tool w) in w\<lparr>tool := h, to_device := to_device w + mset (outbox h)\<rparr>)"

definition device_receives :: "request \<Rightarrow> world \<Rightarrow> world" where
  "device_receives r w = (let (es, d) = device_handles r (device w) in w\<lparr>device := d, to_tool := to_tool w + mset es\<rparr>)"

inductive net_step :: "bool \<Rightarrow> world \<Rightarrow> world \<Rightarrow> bool" for timers :: bool where
  request_arrives: "to_device w = add_mset r R \<Longrightarrow> net_step timers w (device_receives r (w\<lparr>to_device := R\<rparr>))"
| reply_arrives: "to_tool w = add_mset e E \<Longrightarrow> net_step timers w (tool_receives (Reply e) (w\<lparr>to_tool := E\<rparr>))"
| request_lost: "to_device w = add_mset r R \<Longrightarrow> net_step timers w (w\<lparr>to_device := R\<rparr>)"
| reply_lost: "to_tool w = add_mset e E \<Longrightarrow> net_step timers w (w\<lparr>to_tool := E\<rparr>)"
| receive_error: "net_step timers w (tool_receives Receive_Error w)"
| timer_fires: "timers \<Longrightarrow> send_packet (sender s (tool w)) \<noteq> None \<Longrightarrow> net_step timers w (tool_receives (Timer_Fired s) w)"

definition world_start :: "int \<Rightarrow> buf list \<Rightarrow> eeprom \<times> bool \<Rightarrow> world" where
  "world_start retry cs d =
     (let h = tool_start retry cs in \<lparr>tool = h, device = d, to_device = mset (outbox h), to_tool = {#}\<rparr>)"


section \<open>Without timeouts\<close>

definition stored :: "buf list \<Rightarrow> eeprom \<Rightarrow> nat \<Rightarrow> eeprom" where
  "stored cs ee n = fold (\<lambda>i ee. snd (sm_write_chunk (of_nat i) (cs ! i) ee)) [0..<n] ee"

fun is_chunk :: "request \<Rightarrow> bool" where
  "is_chunk (Write_Chunk i d) = True" | "is_chunk r = False"

fun is_chunk_reply :: "reply \<Rightarrow> bool" where
  "is_chunk_reply (Chunk_Reply ok) = True" | "is_chunk_reply e = False"

fun is_control_reply :: "reply \<Rightarrow> bool" where
  "is_control_reply (Control_Reply x) = True" | "is_control_reply e = False"

text \<open>The chunk that is being sent is in exactly one place: on the way to the device, answered, or lost.\<close>

definition chunk_under_way :: "buf list \<Rightarrow> eeprom \<Rightarrow> u8 \<Rightarrow> world \<Rightarrow> bool" where
  "chunk_under_way cs ee0 i w =
     (let R = filter_mset is_chunk (to_device w); E = filter_mset is_chunk_reply (to_tool w); ee = fst (device w); n = unat i
      in (R = {#Write_Chunk i (cs ! n)#} \<and> E = {#} \<and> ee = stored cs ee0 n) \<or>
         (\<exists>ok. R = {#} \<and> E = {#Chunk_Reply ok#} \<and> ee = stored cs ee0 (if ok then Suc n else n)) \<or>
         (R = {#} \<and> E = {#}))"

definition no_chunks :: "world \<Rightarrow> bool" where
  "no_chunks w = (filter_mset is_chunk (to_device w) = {#} \<and> filter_mset is_chunk_reply (to_tool w) = {#})"

definition queries :: "world \<Rightarrow> nat" where
  "queries w = count (to_device w) Query_Control + size (filter_mset is_control_reply (to_tool w))"

definition upload_inv :: "buf list \<Rightarrow> eeprom \<Rightarrow> world \<Rightarrow> bool" where
  "upload_inv cs ee0 w =
     (let h = tool w in
      chunks h = cs \<and> (running h \<longrightarrow> \<not> io_stopped h) \<and>
      (case upload_pc h of
         Stopping \<Rightarrow> fst (device w) = ee0 \<and> no_chunks w \<and> queries w \<le> 1
       | Sending i \<Rightarrow> unat i < length cs \<and> queries w = 0 \<and> send_packet (chunk_sender h) = Some (Write_Chunk i (cs ! unat i)) \<and> chunk_under_way cs ee0 i w
       | Starting \<Rightarrow> fst (device w) = stored cs ee0 (length cs) \<and> no_chunks w
       | Ended e \<Rightarrow> e = ERR_NONE \<longrightarrow> fst (device w) = stored cs ee0 (length cs) \<and> no_chunks w
       | Undefined \<Rightarrow> False))"

lemmas tool_defs = Let_def sender_def put_sender_def finish_def sendPacket_def failOne_def start_send_def setAndCheckState_def sendChunk_def
  returned_def proceed_def running_def tool_step_def

lemma write_failed: "sm_write_chunk i d ee = (False, ee') \<Longrightarrow> ee' = ee"
  by (auto simp: sm_write_chunk_def Let_def split: if_splits)

lemma stored_Suc: "stored cs ee (Suc n) = snd (sm_write_chunk (of_nat n) (cs ! n) (stored cs ee n))"
  by (simp add: stored_def)

text \<open>How the tool reacts.\<close>

lemma tool_error: "running h \<Longrightarrow> upload_pc (tool_step Receive_Error h) = Ended ERR_NETWORK \<and> outbox (tool_step Receive_Error h) = [] \<and> chunks (tool_step Receive_Error h) = chunks h"
  by (cases "upload_pc h") (simp_all add: tool_defs)

lemma tool_ended: "\<not> running h \<Longrightarrow> tool_step e h = h\<lparr>outbox := []\<rparr>"
  by (simp add: tool_step_def running_def Let_def)

definition first_step :: "tool \<Rightarrow> u8 \<Rightarrow> tool \<Rightarrow> bool" where
  "first_step h i h' =
     (chunks h' = chunks h \<and> \<not> io_stopped h' \<and>
      (if unat i < length (chunks h) then upload_pc h' = Sending i \<and> send_packet (chunk_sender h') = Some (Write_Chunk i (chunks h ! unat i)) \<and>
         outbox h' = [Write_Chunk i (chunks h ! unat i)]
       else upload_pc h' = Starting \<and> reqState h' = STM_STATE_RUNNING \<and> outbox h' = [Write_Control STM_STATE_RUNNING, Query_Control]))"

lemma tool_stopped:
  assumes "upload_pc h = Stopping" "\<not> io_stopped h"
  shows "tool_step (Reply (Control_Reply x)) h = h\<lparr>outbox := []\<rparr> \<or> first_step h 0 (tool_step (Reply (Control_Reply x)) h)"
  using assms by (auto simp: tool_defs first_step_def)

lemma tool_acknowledged:
  assumes "upload_pc h = Sending i" "\<not> io_stopped h"
  shows "first_step h (i + 1) (tool_step (Reply (Chunk_Reply True)) h)"
  using assms by (auto simp: tool_defs first_step_def)

lemma tool_refused:
  assumes "upload_pc h = Sending i" "\<not> io_stopped h" "send_packet (chunk_sender h) = Some p"
  shows "let h' = tool_step (Reply (Chunk_Reply False)) h in chunks h' = chunks h \<and>
    (upload_pc h' = Ended ERR_MAXRETRY_EXCEEDED \<and> outbox h' = [] \<or>
     upload_pc h' = Sending i \<and> \<not> io_stopped h' \<and> send_packet (chunk_sender h') = Some p \<and> outbox h' = [p])"
  using assms by (auto simp: tool_defs)

lemma tool_started:
  assumes "upload_pc h = Starting" "\<not> io_stopped h"
  shows "tool_step (Reply (Control_Reply x)) h = h\<lparr>outbox := []\<rparr> \<or>
    (let h' = tool_step (Reply (Control_Reply x)) h in upload_pc h' = Ended ERR_NONE \<and> outbox h' = [] \<and> chunks h' = chunks h)"
  using assms by (auto simp: tool_defs)


text \<open>The messages that the steps move.\<close>

lemma device_receives_eq:
  "device_receives r w = w\<lparr>device := snd (device_handles r (device w)), to_tool := to_tool w + mset (fst (device_handles r (device w)))\<rparr>"
  by (simp add: device_receives_def split_beta Let_def)

lemma tool_receives_eq:
  "tool_receives e w = w\<lparr>tool := tool_step e (tool w), to_device := to_device w + mset (outbox (tool_step e (tool w)))\<rparr>"
  by (simp add: tool_receives_def Let_def)

lemma inv_same:
  assumes "upload_inv cs ee0 w" "tool v = tool w" "fst (device v) = fst (device w)" "filter_mset is_chunk (to_device v) = filter_mset is_chunk (to_device w)"
    and "filter_mset is_chunk_reply (to_tool v) = filter_mset is_chunk_reply (to_tool w)" "queries v \<le> queries w"
  shows "upload_inv cs ee0 v"
proof -
  have "no_chunks v = no_chunks w" "chunk_under_way cs ee0 i v = chunk_under_way cs ee0 i w" for i
    using assms(3-5) by (simp_all add: no_chunks_def chunk_under_way_def)
  then show ?thesis using assms(1-3,6) by (cases "upload_pc (tool w)") (simp_all add: upload_inv_def Let_def)
qed

text \<open>With a chunk in flight the tool is sending it.\<close>

lemma chunk_in_flight:
  assumes "upload_inv cs ee0 w" "\<not> no_chunks w"
  shows "(\<exists>j. upload_pc (tool w) = Sending j \<and> unat j < length cs \<and> queries w = 0 \<and> chunk_under_way cs ee0 j w \<and> chunks (tool w) = cs \<and>
      \<not> io_stopped (tool w) \<and> send_packet (chunk_sender (tool w)) = Some (Write_Chunk j (cs ! unat j))) \<or>
    (\<exists>e. upload_pc (tool w) = Ended e \<and> e \<noteq> ERR_NONE \<and> chunks (tool w) = cs)"
  using assms by (cases "upload_pc (tool w)") (auto simp: upload_inv_def Let_def running_def)

lemma inv_ended: "upload_pc (tool w) = Ended e \<Longrightarrow> e \<noteq> ERR_NONE \<Longrightarrow> chunks (tool w) = cs \<Longrightarrow> upload_inv cs ee0 w"
  by (simp add: upload_inv_def Let_def running_def)

lemma inv_sending:
  "upload_pc (tool w) = Sending j \<Longrightarrow> unat j < length cs \<Longrightarrow> queries w = 0 \<Longrightarrow> chunk_under_way cs ee0 j w \<Longrightarrow> chunks (tool w) = cs \<Longrightarrow>
   \<not> io_stopped (tool w) \<Longrightarrow> send_packet (chunk_sender (tool w)) = Some (Write_Chunk j (cs ! unat j)) \<Longrightarrow> upload_inv cs ee0 w"
  by (simp add: upload_inv_def Let_def)

lemma not_chunk: "\<not> is_chunk r \<Longrightarrow> filter_mset is_chunk (add_mset r R) = filter_mset is_chunk R"
  by simp

lemma inv_request:
  assumes "upload_inv cs ee0 w" "to_device w = add_mset r R"
  shows "upload_inv cs ee0 (device_receives r (w\<lparr>to_device := R\<rparr>))"
proof -
  obtain ee run where d: "device w = (ee, run)" by (cases "device w")
  show ?thesis
  proof (cases r)
    case (Write_Control v)
    then show ?thesis using assms(2) d by (intro inv_same [OF assms(1)]) (simp_all add: device_receives_eq queries_def)
  next
    case Query_Control
    then show ?thesis using assms(2) d by (intro inv_same [OF assms(1)]) (simp_all add: device_receives_eq queries_def)
  next
    case (Write_Chunk i c)
    let ?v = "device_receives r (w\<lparr>to_device := R\<rparr>)"
    obtain ok ee' where w: "sm_write_chunk i c ee = (ok, ee')" by (cases "sm_write_chunk i c ee")
    have v: "?v = w\<lparr>to_device := R, device := (ee', run), to_tool := add_mset (Chunk_Reply ok) (to_tool w)\<rparr>"
      using d w by (simp add: device_receives_eq Write_Chunk)
    have "\<not> no_chunks w" using assms(2) Write_Chunk by (simp add: no_chunks_def)
    from chunk_in_flight [OF assms(1) this] show ?thesis
    proof (elim disjE exE conjE)
      fix j assume u: "upload_pc (tool w) = Sending j" "unat j < length cs" "queries w = 0" "chunk_under_way cs ee0 j w" "chunks (tool w) = cs"
        "\<not> io_stopped (tool w)" "send_packet (chunk_sender (tool w)) = Some (Write_Chunk j (cs ! unat j))"
      have R: "filter_mset is_chunk (to_device w) = add_mset (Write_Chunk i c) (filter_mset is_chunk R)" using assms(2) Write_Chunk by simp
      then have c: "i = j" "c = cs ! unat j" "filter_mset is_chunk R = {#}" "filter_mset is_chunk_reply (to_tool w) = {#}" "ee = stored cs ee0 (unat j)"
        using u(4) d by (auto simp: chunk_under_way_def Let_def)
      have "of_nat (unat j) = j" by simp
      then have "ee' = stored cs ee0 (if ok then Suc (unat j) else unat j)"
        using w write_failed [of i c ee ee'] by (cases ok) (auto simp: c stored_Suc)
      then have "chunk_under_way cs ee0 j ?v" using c(3,4) by (auto simp: chunk_under_way_def v Let_def)
      moreover have "queries ?v = 0" using u(3) assms(2) unfolding v queries_def by (simp add: Write_Chunk)
      ultimately show ?thesis using u by (intro inv_sending [of _ j]) (simp_all add: v)
    qed (simp add: inv_ended v)
  qed
qed

lemma inv_request_lost:
  assumes "upload_inv cs ee0 w" "to_device w = add_mset r R"
  shows "upload_inv cs ee0 (w\<lparr>to_device := R\<rparr>)"
proof (cases "is_chunk r")
  case False
  then show ?thesis using assms(2) by (intro inv_same [OF assms(1)]) (simp_all add: queries_def)
next
  case True
  then have "\<not> no_chunks w" using assms(2) by (simp add: no_chunks_def)
  from chunk_in_flight [OF assms(1) this] show ?thesis
  proof (elim disjE exE conjE)
    fix j assume u: "upload_pc (tool w) = Sending j" "unat j < length cs" "queries w = 0" "chunk_under_way cs ee0 j w" "chunks (tool w) = cs"
      "\<not> io_stopped (tool w)" "send_packet (chunk_sender (tool w)) = Some (Write_Chunk j (cs ! unat j))"
    have "filter_mset is_chunk (to_device w) = add_mset r (filter_mset is_chunk R)" using assms(2) True by simp
    then have "filter_mset is_chunk R = {#}" "filter_mset is_chunk_reply (to_tool w) = {#}"
      using u(4) by (auto simp: chunk_under_way_def Let_def)
    then have "chunk_under_way cs ee0 j (w\<lparr>to_device := R\<rparr>)" by (simp add: chunk_under_way_def Let_def)
    moreover have "queries (w\<lparr>to_device := R\<rparr>) = 0" using u(3) assms(2) by (simp add: queries_def split: if_splits)
    ultimately show ?thesis using u by (intro inv_sending [of _ j]) simp_all
  qed (simp add: inv_ended)
qed

lemma inv_reply_lost:
  assumes "upload_inv cs ee0 w" "to_tool w = add_mset e E"
  shows "upload_inv cs ee0 (w\<lparr>to_tool := E\<rparr>)"
proof (cases "is_chunk_reply e")
  case False
  then show ?thesis using assms(2) by (intro inv_same [OF assms(1)]) (simp_all add: queries_def)
next
  case True
  then have "\<not> no_chunks w" using assms(2) by (simp add: no_chunks_def)
  from chunk_in_flight [OF assms(1) this] show ?thesis
  proof (elim disjE exE conjE)
    fix j assume u: "upload_pc (tool w) = Sending j" "unat j < length cs" "queries w = 0" "chunk_under_way cs ee0 j w" "chunks (tool w) = cs"
      "\<not> io_stopped (tool w)" "send_packet (chunk_sender (tool w)) = Some (Write_Chunk j (cs ! unat j))"
    have "filter_mset is_chunk_reply (to_tool w) = add_mset e (filter_mset is_chunk_reply E)" using assms(2) True by simp
    then have "filter_mset is_chunk (to_device w) = {#}" "filter_mset is_chunk_reply E = {#}"
      using u(4) by (auto simp: chunk_under_way_def Let_def)
    then have "chunk_under_way cs ee0 j (w\<lparr>to_tool := E\<rparr>)" by (simp add: chunk_under_way_def Let_def)
    moreover have "queries (w\<lparr>to_tool := E\<rparr>) = 0" using u(3) assms(2) by (simp add: queries_def split: if_splits)
    ultimately show ?thesis using u by (intro inv_sending [of _ j]) simp_all
  qed (simp add: inv_ended)
qed

lemma inv_error:
  assumes "upload_inv cs ee0 w"
  shows "upload_inv cs ee0 (tool_receives Receive_Error w)"
proof (cases "running (tool w)")
  case True
  then show ?thesis using tool_error [OF True] assms by (auto simp: upload_inv_def tool_receives_eq Let_def running_def)
next
  case False
  then show ?thesis using assms
    by (cases "upload_pc (tool w)") (auto simp: upload_inv_def tool_receives_eq tool_ended Let_def no_chunks_def running_def)
qed

text \<open>A new chunk or the last part of the upload begins.\<close>

lemma inv_first_step:
  assumes "first_step (tool w) i h'" "chunks (tool w) = cs" "no_chunks w" "queries w = 0" "fst (device w) = stored cs ee0 (unat i)"
    and "length cs \<le> unat i \<Longrightarrow> unat i = length cs"
  shows "upload_inv cs ee0 (w\<lparr>tool := h', to_device := to_device w + mset (outbox h')\<rparr>)"
proof (cases "unat i < length cs")
  case True
  then show ?thesis using assms(1-5)
    by (auto simp: first_step_def upload_inv_def Let_def no_chunks_def queries_def chunk_under_way_def)
next
  case False
  then have "unat i = length cs" using assms(6) by simp
  then show ?thesis using assms(1-5) False
    by (auto simp: first_step_def upload_inv_def Let_def no_chunks_def)
qed


lemma inv_reply:
  assumes "upload_inv cs ee0 w" "to_tool w = add_mset e E" "length cs \<le> 255"
  shows "upload_inv cs ee0 (tool_receives (Reply e) (w\<lparr>to_tool := E\<rparr>))"
proof -
  let ?v = "w\<lparr>to_tool := E\<rparr>"
  note lost = inv_reply_lost [OF assms(1,2)]
  have same: "upload_inv cs ee0 (tool_receives (Reply e) ?v)" if "tool_step (Reply e) (tool w) = (tool w)\<lparr>outbox := []\<rparr>"
    using lost by (cases "upload_pc (tool w)") (auto simp: that upload_inv_def tool_receives_eq Let_def running_def no_chunks_def
        queries_def chunk_under_way_def)
  show ?thesis
  proof (cases "running (tool w)")
    case False
    then show ?thesis by (intro same tool_ended)
  next
    case run: True
    show ?thesis
    proof (cases e)
      case (Control_Reply x)
      have stop: "\<not> io_stopped (tool w)" "chunks (tool w) = cs" using assms(1) run by (simp_all add: upload_inv_def Let_def)
      show ?thesis
      proof (cases "upload_pc (tool w)")
        case Stopping
        then have nc: "no_chunks w" "fst (device w) = ee0" "queries w \<le> 1" using assms(1) by (simp_all add: upload_inv_def Let_def)
        have "queries ?v = 0" using nc(3) assms(2) Control_Reply by (simp add: queries_def)
        moreover have "no_chunks ?v" using nc(1) assms(2) Control_Reply by (simp add: no_chunks_def)
        ultimately show ?thesis using tool_stopped [OF Stopping stop(1), of x] same inv_first_step [of ?v 0 "tool_step (Reply e) (tool w)" cs ee0]
            nc(2) stop(2) Control_Reply by (auto simp: stored_def tool_receives_eq)
      next
        case (Sending i)
        then have "queries w = 0" using assms(1) by (simp add: upload_inv_def Let_def)
        then show ?thesis using assms(2) Control_Reply by (simp add: queries_def)
      next
        case Starting
        then have nc: "no_chunks w" "fst (device w) = stored cs ee0 (length cs)" using assms(1) by (simp_all add: upload_inv_def Let_def)
        have "no_chunks ?v" using nc(1) assms(2) Control_Reply by (simp add: no_chunks_def)
        from tool_started [OF Starting stop(1), of x] show ?thesis
        proof
          assume "tool_step (Reply (Control_Reply x)) (tool w) = (tool w)\<lparr>outbox := []\<rparr>"
          then show ?thesis using same Control_Reply by simp
        next
          assume "let h' = tool_step (Reply (Control_Reply x)) (tool w) in upload_pc h' = Ended ERR_NONE \<and> outbox h' = [] \<and> chunks h' = chunks (tool w)"
          then show ?thesis using \<open>no_chunks ?v\<close> nc(2) stop(2) Control_Reply
            by (simp add: upload_inv_def tool_receives_eq Let_def running_def no_chunks_def)
        qed
      qed (use run in \<open>simp_all add: running_def\<close>)
    next
      case (Chunk_Reply ok)
      then have "\<not> no_chunks w" using assms(2) by (simp add: no_chunks_def)
      from chunk_in_flight [OF assms(1) this] run obtain j where
        u: "upload_pc (tool w) = Sending j" "unat j < length cs" "queries w = 0" "chunk_under_way cs ee0 j w" "chunks (tool w) = cs"
          "\<not> io_stopped (tool w)" "send_packet (chunk_sender (tool w)) = Some (Write_Chunk j (cs ! unat j))"
        by (auto simp: running_def)
      have "filter_mset is_chunk_reply (to_tool w) = add_mset e (filter_mset is_chunk_reply E)" using assms(2) Chunk_Reply by simp
      then have c: "filter_mset is_chunk (to_device w) = {#}" "filter_mset is_chunk_reply E = {#}"
        "fst (device w) = stored cs ee0 (if ok then Suc (unat j) else unat j)"
        using u(4) Chunk_Reply by (auto simp: chunk_under_way_def Let_def)
      have q: "queries ?v = 0" using u(3) assms(2) by (simp add: queries_def split: if_splits)
      have nc: "no_chunks ?v" using c(1,2) by (simp add: no_chunks_def)
      show ?thesis
      proof (cases ok)
        case True
        have "unat (j + 1) = Suc (unat j)" using u(2) assms(3) by (simp add: unat_word_ariths)
        then show ?thesis
          using inv_first_step [of ?v "j + 1" "tool_step (Reply e) (tool w)" cs ee0] tool_acknowledged [OF u(1,6)] u(2,5) q nc c(3) True Chunk_Reply
          by (simp add: tool_receives_eq)
      next
        case False
        let ?h = "tool_step (Reply e) (tool w)"
        have r: "chunks ?h = cs" "upload_pc ?h = Ended ERR_MAXRETRY_EXCEEDED \<and> outbox ?h = [] \<or>
            upload_pc ?h = Sending j \<and> \<not> io_stopped ?h \<and> send_packet (chunk_sender ?h) = Some (Write_Chunk j (cs ! unat j)) \<and> outbox ?h = [Write_Chunk j (cs ! unat j)]"
          using tool_refused [OF u(1,6,7)] u(5) False Chunk_Reply by (simp_all add: Let_def)
        from r(2) show ?thesis
        proof
          assume "upload_pc ?h = Ended ERR_MAXRETRY_EXCEEDED \<and> outbox ?h = []"
          then show ?thesis using r(1) by (intro inv_ended [of _ ERR_MAXRETRY_EXCEEDED]) (simp_all add: tool_receives_eq)
        next
          assume s: "upload_pc ?h = Sending j \<and> \<not> io_stopped ?h \<and> send_packet (chunk_sender ?h) = Some (Write_Chunk j (cs ! unat j)) \<and> outbox ?h = [Write_Chunk j (cs ! unat j)]"
          have "queries (tool_receives (Reply e) ?v) = 0" using q s by (simp add: queries_def tool_receives_eq)
          moreover have "chunk_under_way cs ee0 j (tool_receives (Reply e) ?v)"
            using c False s by (simp add: chunk_under_way_def tool_receives_eq Let_def)
          ultimately show ?thesis using s r(1) u(2) by (intro inv_sending [of _ j]) (simp_all add: tool_receives_eq)
        qed
      qed
    qed
  qed
qed


lemma inv_start: "upload_inv cs ee0 (world_start retry cs (ee0, run))"
  by (simp add: world_start_def tool_start_def tool_defs upload_inv_def no_chunks_def queries_def)

lemma inv_steps:
  assumes "(net_step False)\<^sup>*\<^sup>* (world_start retry cs (ee0, run)) w" "length cs \<le> 255"
  shows "upload_inv cs ee0 w"
  using assms(1)
proof (induction rule: rtranclp_induct)
  case base
  show ?case by (rule inv_start)
next
  case (step v w)
  from step(2,3) show ?case
    by (cases rule: net_step.cases) (auto intro: inv_request inv_reply [OF _ _ assms(2)] inv_request_lost inv_reply_lost inv_error)
qed

section \<open>A run that succeeds\<close>

text \<open>The tool waits for the answer to a chunk, or for the last answer, with nothing else in flight.\<close>

definition at_chunk :: "buf list \<Rightarrow> u8 \<Rightarrow> world \<Rightarrow> bool" where
  "at_chunk cs i w =
     (upload_pc (tool w) = Sending i \<and> \<not> io_stopped (tool w) \<and> chunks (tool w) = cs \<and>
      send_packet (chunk_sender (tool w)) = Some (Write_Chunk i (cs ! unat i)) \<and>
      to_device w = {#Write_Chunk i (cs ! unat i)#} \<and> to_tool w = {#})"

definition at_start :: "world \<Rightarrow> bool" where
  "at_start w =
     (upload_pc (tool w) = Starting \<and> \<not> io_stopped (tool w) \<and> reqState (tool w) = STM_STATE_RUNNING \<and>
      to_device w = {#Write_Control STM_STATE_RUNNING, Query_Control#} \<and> to_tool w = {#})"

lemma at_next:
  assumes "first_step (tool w) i (tool_step e (tool w))" "chunks (tool w) = cs" "to_device w = {#}" "to_tool w = {#}"
  shows "if unat i < length cs then at_chunk cs i (tool_receives e w) else at_start (tool_receives e w)"
  using assms by (auto simp: first_step_def at_chunk_def at_start_def tool_receives_eq)

lemma answered:
  assumes "to_device w = add_mset r R" "device_handles r (device w) = ([], d)"
  shows "net_step timers w (w\<lparr>to_device := R, device := d\<rparr>)"
  using net_step.request_arrives [OF assms(1)] assms(2) by (simp add: device_receives_eq)

lemma answered_with:
  assumes "to_device w = add_mset r R" "device_handles r (device w) = ([e], d)"
  shows "net_step timers w (w\<lparr>to_device := R, device := d, to_tool := add_mset e (to_tool w)\<rparr>)"
  using net_step.request_arrives [OF assms(1)] assms(2) by (simp add: device_receives_eq)

text \<open>A control write and the query after it, delivered in this order.\<close>

lemma control_exchange:
  assumes "to_device w = {#Write_Control v, Query_Control#}" "to_tool w = {#}" "v = STM_STATE_STOPPED \<or> v = STM_STATE_RUNNING"
  shows "\<exists>run. (net_step timers)\<^sup>*\<^sup>* w
    (tool_receives (Reply (Control_Reply v)) (w\<lparr>to_device := {#}, device := (fst (device w), run), to_tool := {#}\<rparr>))"
proof -
  obtain ee r where d: "device w = (ee, r)" by (cases "device w")
  define run where "run = (v = STM_STATE_RUNNING)"
  let ?w1 = "w\<lparr>to_device := {#Query_Control#}, device := (ee, run)\<rparr>"
  let ?w2 = "?w1\<lparr>to_device := {#}, device := (ee, run), to_tool := add_mset (Control_Reply v) (to_tool ?w1)\<rparr>"
  have "net_step timers w ?w1"
    by (rule answered [of _ "Write_Control v"]) (use assms(1,3) d in \<open>auto simp: run_def STM_STATE_STOPPED_def STM_STATE_RUNNING_def\<close>)
  moreover have "net_step timers ?w1 ?w2"
    by (rule answered_with [of _ Query_Control]) (use assms(3) in \<open>auto simp: run_def STM_STATE_STOPPED_def STM_STATE_RUNNING_def\<close>)
  moreover have "net_step timers ?w2 (tool_receives (Reply (Control_Reply v)) (?w2\<lparr>to_tool := {#}\<rparr>))"
    by (rule net_step.reply_arrives) (simp add: assms(2))
  ultimately have "(net_step timers)\<^sup>*\<^sup>* w (tool_receives (Reply (Control_Reply v)) (?w2\<lparr>to_tool := {#}\<rparr>))" by auto
  moreover have "?w2\<lparr>to_tool := {#}\<rparr> = w\<lparr>to_device := {#}, device := (fst (device w), run), to_tool := {#}\<rparr>" by (simp add: d)
  ultimately show ?thesis by (metis (no_types))
qed

lemma start_succeeds:
  assumes "at_start w"
  shows "\<exists>v. (net_step timers)\<^sup>*\<^sup>* w v \<and> upload_pc (tool v) = Ended ERR_NONE \<and> fst (device v) = fst (device w)"
proof -
  obtain run where r: "(net_step timers)\<^sup>*\<^sup>* w
      (tool_receives (Reply (Control_Reply STM_STATE_RUNNING)) (w\<lparr>to_device := {#}, device := (fst (device w), run), to_tool := {#}\<rparr>))"
    using control_exchange [of w STM_STATE_RUNNING timers] assms by (auto simp: at_start_def)
  have "upload_pc (tool_step (Reply (Control_Reply STM_STATE_RUNNING)) (tool w)) = Ended ERR_NONE"
    using assms by (simp add: at_start_def tool_defs STM_STATE_STOPPED_def STM_STATE_RUNNING_def)
  then show ?thesis using r by (intro exI [of _ "tool_receives (Reply (Control_Reply STM_STATE_RUNNING)) (w\<lparr>to_device := {#}, device := (fst (device w), run), to_tool := {#}\<rparr>)"])
      (simp add: tool_receives_eq)
qed

lemma stop_succeeds:
  "\<exists>v. (net_step timers)\<^sup>*\<^sup>* (world_start retry cs (ee, run)) v \<and> fst (device v) = ee \<and> retryLimit (tool v) = retry \<and> failCount (chunk_sender (tool v)) = 0 \<and>
    (if 0 < length cs then at_chunk cs 0 v else at_start v)"
proof -
  let ?w = "world_start retry cs (ee, run)"
  have w: "to_device ?w = {#Write_Control STM_STATE_STOPPED, Query_Control#}" "to_tool ?w = {#}" "fst (device ?w) = ee"
    by (simp_all add: world_start_def tool_start_def tool_defs)
  obtain r where r: "(net_step timers)\<^sup>*\<^sup>* ?w
      (tool_receives (Reply (Control_Reply STM_STATE_STOPPED)) (?w\<lparr>to_device := {#}, device := (fst (device ?w), r), to_tool := {#}\<rparr>))"
    using control_exchange [OF w(1,2), of timers] by auto
  let ?h = "tool_step (Reply (Control_Reply STM_STATE_STOPPED)) (tool ?w)"
  have "first_step (tool ?w) 0 ?h" "retryLimit ?h = retry" "failCount (chunk_sender ?h) = 0" "chunks (tool ?w) = cs"
    by (auto simp: world_start_def tool_start_def tool_defs first_step_def)
  moreover from this have "if unat (0 :: u8) < length cs
      then at_chunk cs 0 (tool_receives (Reply (Control_Reply STM_STATE_STOPPED)) (?w\<lparr>to_device := {#}, device := (fst (device ?w), r), to_tool := {#}\<rparr>))
      else at_start (tool_receives (Reply (Control_Reply STM_STATE_STOPPED)) (?w\<lparr>to_device := {#}, device := (fst (device ?w), r), to_tool := {#}\<rparr>))"
    by (intro at_next) simp_all
  ultimately show ?thesis using r w(3)
    by (intro exI [of _ "tool_receives (Reply (Control_Reply STM_STATE_STOPPED)) (?w\<lparr>to_device := {#}, device := (fst (device ?w), r), to_tool := {#}\<rparr>)"])
       (simp add: tool_receives_eq)
qed

lemma chunk_succeeds:
  assumes "at_chunk cs i w" "fst (sm_write_chunk i (cs ! unat i) (fst (device w)))"
  shows "\<exists>v. (net_step timers)\<^sup>*\<^sup>* w v \<and> fst (device v) = snd (sm_write_chunk i (cs ! unat i) (fst (device w))) \<and>
    (if unat (i + 1) < length cs then at_chunk cs (i + 1) v else at_start v)"
proof -
  obtain ee r where d: "device w = (ee, r)" by (cases "device w")
  obtain ee' where e: "sm_write_chunk i (cs ! unat i) ee = (True, ee')" using assms(2) d by (cases "sm_write_chunk i (cs ! unat i) ee") simp
  note w = assms(1) [unfolded at_chunk_def]
  let ?w1 = "w\<lparr>to_device := {#}, device := (ee', r), to_tool := add_mset (Chunk_Reply True) (to_tool w)\<rparr>"
  have "net_step timers w ?w1" by (rule answered_with [of _ "Write_Chunk i (cs ! unat i)"]) (use w d e in simp_all)
  moreover have "net_step timers ?w1 (tool_receives (Reply (Chunk_Reply True)) (?w1\<lparr>to_tool := {#}\<rparr>))"
    by (rule net_step.reply_arrives) (use w in simp)
  ultimately have "(net_step timers)\<^sup>*\<^sup>* w (tool_receives (Reply (Chunk_Reply True)) (?w1\<lparr>to_tool := {#}\<rparr>))" by auto
  moreover have "first_step (tool w) (i + 1) (tool_step (Reply (Chunk_Reply True)) (tool w))" using w by (intro tool_acknowledged) simp_all
  then have "if unat (i + 1) < length cs then at_chunk cs (i + 1) (tool_receives (Reply (Chunk_Reply True)) (?w1\<lparr>to_tool := {#}\<rparr>))
      else at_start (tool_receives (Reply (Chunk_Reply True)) (?w1\<lparr>to_tool := {#}\<rparr>))"
    by (intro at_next) (use w in simp_all)
  moreover have "fst (device (tool_receives (Reply (Chunk_Reply True)) (?w1\<lparr>to_tool := {#}\<rparr>))) = snd (sm_write_chunk i (cs ! unat i) (fst (device w)))"
    by (simp add: tool_receives_eq d e)
  ultimately show ?thesis by blast
qed

lemma chunk_accepted: "c \<le> 24 \<Longrightarrow> fst (sm_write_chunk c d ee)"
  using chunk_ok_iff [of c d ee] by (cases "c = 0") (simp_all add: sm_write_chunk_def)

lemma chunks_succeed:
  assumes "at_chunk cs (of_nat i) w" "i < length cs" "length cs \<le> 25"
  shows "\<exists>v. (net_step timers)\<^sup>*\<^sup>* w v \<and> at_start v \<and>
    fst (device v) = fold (\<lambda>j ee. snd (sm_write_chunk (of_nat j) (cs ! j) ee)) [i..<length cs] (fst (device w))"
  using assms(1,2)
proof (induction "length cs - i" arbitrary: i w)
  case (Suc n)
  have u: "unat (of_nat i :: u8) = i" "unat (of_nat i + 1 :: u8) = Suc i" "(of_nat i :: u8) \<le> 24"
    using Suc.prems(2) assms(3) by (simp_all add: unat_of_nat unat_word_ariths take_bit_nat_eq_self word_le_nat_alt)
  obtain v where v: "(net_step timers)\<^sup>*\<^sup>* w v" "if Suc i < length cs then at_chunk cs (of_nat i + 1) v else at_start v"
    "fst (device v) = snd (sm_write_chunk (of_nat i) (cs ! i) (fst (device w)))"
    using chunk_succeeds [OF Suc.prems(1) chunk_accepted [OF u(3)], of timers] u(1,2) by auto
  have l: "[i..<length cs] = i # [Suc i..<length cs]" using Suc.prems(2) by (rule upt_conv_Cons)
  show ?case
  proof (cases "Suc i < length cs")
    case True
    have "at_chunk cs (of_nat (Suc i)) v" using v(2) True by (simp add: add.commute)
    moreover have "n = length cs - Suc i" using Suc.hyps(2) by linarith
    ultimately obtain v' where "(net_step timers)\<^sup>*\<^sup>* v v'" "at_start v'"
      "fst (device v') = fold (\<lambda>j ee. snd (sm_write_chunk (of_nat j) (cs ! j) ee)) [Suc i..<length cs] (fst (device v))"
      using Suc.hyps(1) [of "Suc i" v] True by blast
    then show ?thesis using v(1,3) unfolding l by (intro exI [of _ v']) auto
  next
    case False
    then show ?thesis using v unfolding l by (intro exI [of _ v]) simp
  qed
qed simp

lemma upload_run:
  assumes "length cs \<le> 25"
  shows "\<exists>w. (net_step timers)\<^sup>*\<^sup>* (world_start retry cs (ee, run)) w \<and> upload_pc (tool w) = Ended ERR_NONE"
proof -
  obtain v where v: "(net_step timers)\<^sup>*\<^sup>* (world_start retry cs (ee, run)) v" "if 0 < length cs then at_chunk cs 0 v else at_start v"
    using stop_succeeds [of timers retry cs ee run] by blast
  have "\<exists>u. (net_step timers)\<^sup>*\<^sup>* v u \<and> at_start u"
  proof (cases "0 < length cs")
    case True
    then show ?thesis using chunks_succeed [of cs 0 v timers] v(2) assms by auto
  qed (use v(2) in auto)
  then show ?thesis using start_succeeds v(1) by (meson rtranclp_trans)
qed


section \<open>A lost chunk\<close>

text \<open>The second block of the file, the first of the state machine, is written by chunk 1 only.\<close>

lemma other_chunks_keep_block:
  "i \<noteq> 1 \<Longrightarrow> eeprom_read_block (snd (sm_write_chunk i d ee)) EE_STATEMACHINE_ID 64 = eeprom_read_block ee EE_STATEMACHINE_ID 64"
proof (cases "i = 0")
  case False
  assume "i \<noteq> 1"
  then have "i - 1 \<noteq> 0" by simp
  then have "0 < unat (i - 1)" by (metis gr0I unat_eq_zero)
  then show ?thesis using False
    by (auto simp: sm_write_chunk_def Let_def eeprom_read_block_def eeprom_update_block_def EE_STATEMACHINE_CHUNK_SIZE_def)
qed (auto simp: sm_write_chunk_def eeprom_read_block_def eeprom_update_block_def offset_simps)

lemma later_chunks_keep_block:
  "2 \<le> i \<Longrightarrow> n \<le> 25 \<Longrightarrow>
   eeprom_read_block (fold (\<lambda>j ee. snd (sm_write_chunk (of_nat j) (cs ! j) ee)) [i..<n] ee) EE_STATEMACHINE_ID 64 =
   eeprom_read_block ee EE_STATEMACHINE_ID 64"
proof (induction n)
  case (Suc n)
  have "(of_nat n :: u8) \<noteq> 1" if "i \<le> n"
    using that Suc.prems by (auto simp: word_unat_eq_iff unat_of_nat take_bit_nat_eq_self)
  then show ?case using Suc other_chunks_keep_block by (cases "i \<le> n") auto
qed simp

lemma tool_resends:
  assumes "upload_pc h = Sending i" "\<not> io_stopped h" "send_packet (chunk_sender h) = Some p"
    and "failCount (chunk_sender h) + 1 \<le> retryLimit h" "0 \<le> retryLimit h"
  shows "let h' = tool_step (Timer_Fired Chunks) h in chunks h' = chunks h \<and> upload_pc h' = Sending i \<and> \<not> io_stopped h' \<and> outbox h' = [p]"
  using assms by (simp add: tool_defs)

text \<open>The first chunk is sent twice. The second answer to it acknowledges the second chunk.\<close>

lemma lost_chunk_run:
  assumes "1 \<le> retry" "2 \<le> length cs" "length cs \<le> 25"
  shows "\<exists>w. (net_step True)\<^sup>*\<^sup>* (world_start retry cs (ee, run)) w \<and> upload_pc (tool w) = Ended ERR_NONE \<and>
    eeprom_read_block (fst (device w)) EE_STATEMACHINE_ID 64 = eeprom_read_block ee EE_STATEMACHINE_ID 64"
proof -
  let ?block = "\<lambda>w. eeprom_read_block (fst (device w)) EE_STATEMACHINE_ID 64"
  have ne: "(0 < length cs) = True" using assms(2) by (simp only: eq_True)
  let ?p = "Write_Chunk 0 (cs ! 0)" and ?q = "Write_Chunk 1 (cs ! 1)" and ?ack = "Chunk_Reply True"
  have "\<exists>v. (net_step True)\<^sup>*\<^sup>* (world_start retry cs (ee, run)) v \<and> fst (device v) = ee \<and> retryLimit (tool v) = retry \<and>
      failCount (chunk_sender (tool v)) = 0 \<and> at_chunk cs 0 v"
    using stop_succeeds [of True retry cs ee run] by (simp only: ne if_True)
  then obtain w1 where w1: "(net_step True)\<^sup>*\<^sup>* (world_start retry cs (ee, run)) w1" "fst (device w1) = ee" "retryLimit (tool w1) = retry"
    "failCount (chunk_sender (tool w1)) = 0" "at_chunk cs 0 w1" by blast
  note a = w1(5) [unfolded at_chunk_def, simplified]
  define w2 where "w2 = tool_receives (Timer_Fired Chunks) w1"
  have h2: "chunks (tool w2) = cs" "upload_pc (tool w2) = Sending 0" "\<not> io_stopped (tool w2)" "to_device w2 = {#?p, ?p#}" "to_tool w2 = {#}"
    "device w2 = device w1"
    using tool_resends [of "tool w1" 0 ?p] a w1(3,4) assms(1) by (simp_all add: w2_def tool_receives_eq Let_def)
  have s12: "net_step True w1 w2" unfolding w2_def by (rule net_step.timer_fires) (simp_all add: sender_def a)
  obtain ee' where e: "sm_write_chunk 0 (cs ! 0) ee = (True, ee')"
    using chunk_accepted [of 0 "cs ! 0" ee] by (cases "sm_write_chunk 0 (cs ! 0) ee") simp
  obtain ee'' where e': "sm_write_chunk 0 (cs ! 0) ee' = (True, ee'')"
    using chunk_accepted [of 0 "cs ! 0" ee'] by (cases "sm_write_chunk 0 (cs ! 0) ee'") simp
  obtain r where d: "device w1 = (ee, r)" using w1(2) by (cases "device w1") simp
  define w3 where "w3 = w2\<lparr>to_device := {#?p#}, device := (ee', r), to_tool := add_mset ?ack (to_tool w2)\<rparr>"
  have s23: "net_step True w2 w3" unfolding w3_def by (rule answered_with [of _ ?p]) (use h2 d e in simp_all)
  define w4 where "w4 = tool_receives (Reply ?ack) (w3\<lparr>to_tool := {#}\<rparr>)"
  have s34: "net_step True w3 w4" unfolding w4_def by (rule net_step.reply_arrives) (simp add: w3_def h2)
  have "first_step (tool w3) 1 (tool w4)"
    using tool_acknowledged [of "tool w3" 0] h2 by (simp add: w3_def w4_def tool_receives_eq)
  then have h4: "chunks (tool w4) = cs" "upload_pc (tool w4) = Sending 1" "\<not> io_stopped (tool w4)" "to_device w4 = {#?p, ?q#}" "to_tool w4 = {#}"
    "device w4 = (ee', r)"
    using h2 assms(2) by (auto simp: first_step_def w3_def w4_def tool_receives_eq)
  define w5 where "w5 = w4\<lparr>to_device := {#?p#}\<rparr>"
  have s45: "net_step True w4 w5" unfolding w5_def by (rule net_step.request_lost [of _ ?q]) (simp add: h4 add_mset_commute)
  define w6 where "w6 = w5\<lparr>to_device := {#}, device := (ee'', r), to_tool := add_mset ?ack (to_tool w5)\<rparr>"
  have s56: "net_step True w5 w6" unfolding w6_def by (rule answered_with [of _ ?p]) (use h4 e' in \<open>simp_all add: w5_def\<close>)
  define w7 where "w7 = tool_receives (Reply ?ack) (w6\<lparr>to_tool := {#}\<rparr>)"
  have s67: "net_step True w6 w7" unfolding w7_def by (rule net_step.reply_arrives) (simp add: w6_def w5_def h4)
  have "first_step (tool w6) 2 (tool_step (Reply ?ack) (tool w6))"
    using tool_acknowledged [of "tool w6" 1] h4 by (simp add: w5_def w6_def)
  then have "if unat (2 :: u8) < length cs then at_chunk cs 2 w7 else at_start w7"
    unfolding w7_def using h4 by (intro at_next) (simp_all add: w5_def w6_def)
  then have h7: "if 2 < length cs then at_chunk cs 2 w7 else at_start w7" by simp
  have "?block w7 = eeprom_read_block ee EE_STATEMACHINE_ID 64"
    using other_chunks_keep_block [of 0 "cs ! 0" ee] other_chunks_keep_block [of 0 "cs ! 0" ee'] e e' by (simp add: w7_def w6_def tool_receives_eq)
  moreover obtain v where v: "(net_step True)\<^sup>*\<^sup>* w7 v" "at_start v" "?block v = ?block w7"
  proof (cases "2 < length cs")
    case True
    then have "at_chunk cs (of_nat 2) w7" using h7 by simp
    from chunks_succeed [OF this True assms(3), of True] obtain v where "(net_step True)\<^sup>*\<^sup>* w7 v" "at_start v"
      "fst (device v) = fold (\<lambda>j ee. snd (sm_write_chunk (of_nat j) (cs ! j) ee)) [2..<length cs] (fst (device w7))" by blast
    then show thesis using that later_chunks_keep_block [OF order_refl assms(3)] by (simp only:)
  next
    case False
    then show thesis using that [of w7] h7 by simp
  qed
  moreover obtain w where w: "(net_step True)\<^sup>*\<^sup>* v w" "upload_pc (tool w) = Ended ERR_NONE" "fst (device w) = fst (device v)"
    using start_succeeds [OF v(2), of True] by blast
  note run = converse_rtranclp_into_rtranclp [of "net_step True"]
  have "(net_step True)\<^sup>*\<^sup>* w1 w7"
    by (rule run [OF s12 run [OF s23 run [OF s34 run [OF s45 run [OF s56 run [OF s67 rtranclp.rtrancl_refl]]]]]])
  with w1(1) v(1) w(1) have "(net_step True)\<^sup>*\<^sup>* (world_start retry cs (ee, run)) w" by simp
  ultimately show ?thesis using v(3) w(2,3) by (intro exI [of _ w]) simp
qed


section \<open>The file in chunks\<close>

lemma fold_nth: "fold (\<lambda>i. f i (cs ! i)) [0..<length cs] s = fold (\<lambda>(i, c). f i c) (zip [0..<length cs] cs) s"
proof -
  have "zip [0..<length cs] cs = map (\<lambda>i. (i, cs ! i)) [0..<length cs]" by (rule nth_equalityI) simp_all
  then show ?thesis by (simp add: fold_map comp_def)
qed

lemma stored_upload: "stored (c # cs) ee (Suc (length cs)) = sm_upload cs (snd (sm_write_chunk 0 c ee))"
proof -
  have "[0..<Suc (length cs)] = 0 # map Suc [0..<length cs]" by (simp add: upt_conv_Cons map_Suc_upt del: upt_Suc)
  then have "stored (c # cs) ee (Suc (length cs)) =
      fold (\<lambda>i. (\<lambda>i c ee. snd (sm_write_chunk (of_nat i + 1) c ee)) i (cs ! i)) [0..<length cs] (snd (sm_write_chunk 0 c ee))"
    by (simp add: stored_def fold_map comp_def add.commute)
  also have "\<dots> = sm_upload cs (snd (sm_write_chunk 0 c ee))"
    unfolding sm_upload_def by (rule fold_nth)
  finally show ?thesis .
qed

lemma chunks_concat: "concat (map (\<lambda>i. List.take 64 (drop (64 * i) b)) [0..<n]) = List.take (64 * n) b"
proof (induction n)
  case (Suc n)
  have "64 * Suc n = 64 * n + 64" by simp
  then show ?case using Suc by (simp only: take_add) simp
qed simp

lemma read_chunks_program:
  assumes "length ip = 16" "length nm = 64" "length img = 1536"
  shows "\<exists>cs. read_chunks (ip @ nm @ img) = nm # cs \<and> length cs = 24 \<and> (\<forall>c \<in> set cs. length c = 64) \<and> concat cs = img"
proof -
  let ?b = "nm @ img"
  let ?c = "\<lambda>i. List.take 64 (drop (64 * i) ?b)"
  have "read_chunks (ip @ nm @ img) = map ?c [0..<25]" using assms by (simp add: read_chunks_def UploadChunkSize_def Let_def)
  also have "[0..<25] = 0 # map Suc [0..<24 :: nat]" by (simp add: map_Suc_upt upt_conv_Cons del: upt_Suc)
  finally have r: "read_chunks (ip @ nm @ img) = nm # map (\<lambda>i. List.take 64 (drop (64 * i) img)) [0..<24]"
    using assms(2) by (simp add: comp_def)
  have "\<forall>c \<in> set (map (\<lambda>i. List.take 64 (drop (64 * i) img)) [0..<24]). length c = 64"
    using assms(3) by (auto simp del: upt.simps)
  moreover have "concat (map (\<lambda>i. List.take 64 (drop (64 * i) img)) [0..<24]) = img" using chunks_concat [of img 24] assms(3) by simp
  ultimately show ?thesis using r
    by (intro exI [of _ "map (\<lambda>i. List.take 64 (drop (64 * i) img)) [0..<24]"]) (simp only: length_map length_upt minus_nat.diff_0 simp_thms)
qed

lemma length_image_bytes:
  assumes "image_ok mid cs ds ts" shows "length (image_bytes mid cs ds ts) = 1536"
  using assms by (simp add: image_bytes_def table_buffers [OF assms] length_concat_same [OF entry_lengths(1) [OF assms]]
      length_concat_same [OF entry_lengths(2) [OF assms]] length_concat_same [OF entry_lengths(3) [OF assms]] image_ok_def)

lemma length_name_chunk [simp]: "length (name_chunk s) = 64"
  by (simp add: name_chunk_def Let_def)

text \<open>The device holds the machine after all chunks have been stored.\<close>

lemma stored_machine:
  assumes "image_ok mid cs ds ts" "length ip = 16" "length nm = 64"
  shows "eeprom_read_block (stored (read_chunks (ip @ nm @ image_bytes mid cs ds ts)) ee 25) EE_STATEMACHINE_ID sm_area_size = image_bytes mid cs ds ts"
    and "length (read_chunks (ip @ nm @ image_bytes mid cs ds ts)) = 25"
proof -
  obtain bs where bs: "read_chunks (ip @ nm @ image_bytes mid cs ds ts) = nm # bs" "length bs = 24" "\<forall>c \<in> set bs. length c = 64"
    "concat bs = image_bytes mid cs ds ts" using read_chunks_program [OF assms(2,3) length_image_bytes [OF assms(1)]] by blast
  have "stored (nm # bs) ee 25 = sm_upload bs (snd (sm_write_chunk 0 nm ee))" using stored_upload [of nm bs ee] bs(2) by simp
  then show "eeprom_read_block (stored (read_chunks (ip @ nm @ image_bytes mid cs ds ts)) ee 25) EE_STATEMACHINE_ID sm_area_size = image_bytes mid cs ds ts"
    using sm_upload_stores [OF bs(2,3)] bs(1,4) by simp
  show "length (read_chunks (ip @ nm @ image_bytes mid cs ds ts)) = 25" by (simp add: bs(1,2))
qed


text \<open>What an image that was stored without loss means to the device.\<close>

lemma uploaded_machine:
  assumes "image_ok mid es ds ts" "length ip = 16" "length nm = 64"
    and "(net_step False)\<^sup>*\<^sup>* (world_start retry (read_chunks (ip @ nm @ image_bytes mid es ds ts)) (ee, run)) w" "upload_pc (tool w) = Ended ERR_NONE"
  shows "device_conditions (fst (device w)) = es" "device_transitions True (fst (device w)) = ds" "device_transitions False (fst (device w)) = ts"
    "sm_get_id (fst (device w)) = mid"
proof -
  note l = stored_machine [OF assms(1-3)]
  have "upload_inv (read_chunks (ip @ nm @ image_bytes mid es ds ts)) ee w" using inv_steps [OF assms(4)] l(2) by simp
  then have "fst (device w) = stored (read_chunks (ip @ nm @ image_bytes mid es ds ts)) ee 25" using assms(5) l(2) by (simp add: upload_inv_def Let_def)
  then have "eeprom_read_block (fst (device w)) EE_STATEMACHINE_ID sm_area_size = image_bytes mid es ds ts" using l(1) by (simp only:)
  from device_sees_image [OF this assms(1)] show "device_conditions (fst (device w)) = es" "device_transitions True (fst (device w)) = ds"
    "device_transitions False (fst (device w)) = ts" "sm_get_id (fst (device w)) = mid" .
qed

section \<open>Properties\<close>





text \<open>C25: With a timeout success means less. The answers do not say which chunk they are for: if the first chunk was repeated because its answer
  came late, the answer to the repetition acknowledges the second chunk, and the upload of any file of two or more chunks may succeed although that
  chunk was lost and the device still has its old first block of the state machine.\<close>

theorem lost_chunk_goes_unnoticed:
  assumes "1 \<le> retry" "2 \<le> length cs" "length cs \<le> 25"
  shows "\<exists>w. (net_step True)\<^sup>*\<^sup>* (world_start retry cs (ee, run)) w \<and> upload_pc (tool w) = Ended ERR_NONE \<and>
    eeprom_read_block (fst (device w)) EE_STATEMACHINE_ID 64 = eeprom_read_block ee EE_STATEMACHINE_ID 64"
  by (rule lost_chunk_run [OF assms])

theorem lost_chunk_goes_unnoticed_witness:
  "\<exists>w. (net_step True)\<^sup>*\<^sup>* (world_start 3 [replicate 64 0, replicate 64 1] (\<lambda>_. 255, True)) w \<and> upload_pc (tool w) = Ended ERR_NONE \<and>
    eeprom_read_block (fst (device w)) EE_STATEMACHINE_ID 64 = eeprom_read_block (\<lambda>_. 255) EE_STATEMACHINE_ID 64"
  by (rule lost_chunk_goes_unnoticed) simp_all

end
