(* ===== verification/Upload_Link.thy ===== *)
theory Upload_Link
  imports Uploader Host_Link
begin

text \<open>
  The upload on the wire: the requests of the tool as packets of the library, the answers that pass its filters, and the proof
  that the firmware, given the datagrams, does what \<open>device_handles\<close> says.
\<close>

section \<open>Packets\<close>

fun request_packet :: "request \<Rightarrow> ('p, 't) host_packet" where
  "request_packet (Write_Control v) = WritePacket EP_SM_CONTROL (Uint8 v) 0"
| "request_packet Query_Control = QueryPacket EP_SM_CONTROL 0"
| "request_packet (Write_Chunk i c) = WritePacket EP_SM_UP_RECEIVER (Bytes65 (i # c)) 0"

text \<open>The type parameter of \<^verbatim>\<open>sendChunk\<close>.\<close>

fun fits_packet :: "request \<Rightarrow> bool" where
  "fits_packet (Write_Chunk i c) = (length c = UploadChunkSize)" | "fits_packet r = True"

text \<open>The filters of the two handlers: the endpoint and the type of the value.\<close>

fun filtered :: "('p, 't) host_packet \<Rightarrow> reply option" where
  "filtered (InfoPacket eid (Uint8 x) flags) = (if eid = EP_SM_CONTROL then Some (Control_Reply x) else None)"
| "filtered (InfoPacket eid (Bool b) flags) = (if eid = EP_SM_UP_ACKNAK then Some (Chunk_Reply b) else None)"
| "filtered p = None"

definition replies :: "('p, 't) boost \<Rightarrow> udp_datagram list \<Rightarrow> reply list" where
  "replies B ds = List.map_filter (\<lambda>d. case deserialize B (dg_data d) of Inl e \<Rightarrow> None | Inr p \<Rightarrow> filtered p) ds"

definition device_of :: "'a sms_scheme \<Rightarrow> eeprom \<times> bool" where
  "device_of s = (ee s, sm_is_running s)"

definition upload_ready :: "'a shs_scheme \<Rightarrow> bool" where
  "upload_ready s =
     (find_descriptor (chain s) EP_SM_CONTROL = Some endpoint_sm_upload_control \<and>
      find_descriptor (chain s) EP_SM_UP_RECEIVER = Some endpoint_sm_upload_receiver \<and> udpconn s \<and> wf_packet (stack_bytes s))"

section \<open>The acknowledgement\<close>

lemma ack_decoded:
  assumes "wf_packet q" "crc_documented B"
    and "p = put8 off_value (if ok then 1 else 0) (put32 off_eid EP_SM_UP_ACKNAK
      (put8 off_datatype (dtype_code HXB_DTYPE_BOOL) (put8 off_type (ptype_code HXB_PTYPE_INFO) q)))"
  shows "\<exists>b. prepare_for_send p = (sizeof_p_u8, b) \<and> deserialize B (take sizeof_p_u8 b) = Inr (InfoPacket EP_SM_UP_ACKNAK (Bool ok) 0)"
proof -
  have wf: "wf_packet p" using assms(1) by (simp add: assms(3) wf_packet_def)
  have p: "get8 off_type p = ptype_code HXB_PTYPE_INFO" "get8 off_datatype p = dtype_code HXB_DTYPE_BOOL"
    "get8 off_value p = (if ok then 1 else 0)" "get32 off_eid p = EP_SM_UP_ACKNAK"
    using assms(1) by (simp_all add: assms(3) wf_packet_def buf_simps offset_simps)
  from prepare_value [OF wf p(1) _ p(2)] obtain b where b: "prepare_for_send p = (sizeof_p_u8, b)"
    "b = put_crc (value_size HXB_DTYPE_BOOL) (net_value HXB_DTYPE_BOOL (net_eid (with_header p)))"
    by (simp add: value_size_def)
  let ?d = "\<lparr>dg_to = ip6_localhost, dg_port = 1, dg_data = take sizeof_p_u8 b\<rparr>"
  have "wf_packet b \<and> crc_data_len b = Some sizeof_p_u8 \<and> sizeof_p_u8 \<le> sizeof_packet_any"
    by (rule prepare_len [OF wf b(1)]) (simp add: offset_simps)
  moreover have "check_crc b = HXB_ERR_SUCCESS" by (rule prepared_passes_check [OF wf b(1)]) (simp add: offset_simps)
  moreover have "get_bytes off_magic 4 b = HXB_HEADER \<and> get8 off_flags b = 0"
    by (rule header_fields [OF prepare_header [OF wf b(1)]]) (simp add: offset_simps)
  ultimately have w: "well_formed_datagram ?d" by (auto simp: well_formed_datagram_def wf_packet_def min_def)
  have "off_type + 2 < value_size HXB_DTYPE_BOOL" by (simp add: value_size_def offset_simps)
  then have ty: "get8 off_type b = ptype_code HXB_PTYPE_INFO" using p(1) wf by (simp add: b(2) buf_simps)
  have f: "get8 off_type (take sizeof_p_u8 b) = ptype_code HXB_PTYPE_INFO" "get8 off_datatype (take sizeof_p_u8 b) = dtype_code HXB_DTYPE_BOOL"
    "get8 off_value (take sizeof_p_u8 b) = (if ok then 1 else 0)" "uip_ntohl (get32 off_eid (take sizeof_p_u8 b)) = EP_SM_UP_ACKNAK"
    using finished_fields(1,2) [OF wf, of HXB_DTYPE_BOOL] p ty finished_eid [OF wf, of HXB_DTYPE_BOOL]
    by (simp_all add: get_take offset_simps b(2) [symmetric])
  have t: "terminated (dg_data ?d)" and date: "\<not> is_date (dg_data ?d)" using f by (simp_all add: terminated_def is_string_def is_date_def min_def offset_simps)
  note ok = device_datagram_ok [OF w assms(2) t]
  from datagram_read [OF ok(1) date] have "deserialize B (take sizeof_p_u8 b) = Inr (wire_packet B (take sizeof_p_u8 b))" by simp
  also have "\<dots> = Inr (InfoPacket EP_SM_UP_ACKNAK (Bool ok) 0)" using f ok(2) by (simp add: wire_packet_def wire_value_def)
  finally show ?thesis using b(1) by blast
qed

lemma chunk_written:
  assumes "crc_documented B" "udpconn s" "wf_packet (stack_bytes s)" "env_src_port env \<noteq> 0" "vblob (env_value env) = i # c"
  obtains d where "write_receiver env s = (let (ok, e) = sm_write_chunk i c (ee s)
      in (if ok then HXB_ERR_SUCCESS else HXB_ERR_INVALID_VALUE, s\<lparr>ee := e, sent := sent s @ [d]\<rparr>))"
    "dg_to d = env_src_ip env" "dg_port d = env_src_port env"
    "deserialize B (dg_data d) = Inr (InfoPacket EP_SM_UP_ACKNAK (Bool (fst (sm_write_chunk i c (ee s)))) 0)"
proof -
  obtain ok e where w: "sm_write_chunk i c (ee s) = (ok, e)" by fastforce
  define p where "p = put8 off_value (if ok then 1 else 0) (put32 off_eid EP_SM_UP_ACKNAK
      (put8 off_datatype (dtype_code HXB_DTYPE_BOOL) (put8 off_type (ptype_code HXB_PTYPE_INFO) (stack_bytes s))))"
  obtain b where b: "prepare_for_send p = (sizeof_p_u8, b)" "deserialize B (take sizeof_p_u8 b) = Inr (InfoPacket EP_SM_UP_ACKNAK (Bool ok) 0)"
    using ack_decoded [OF assms(3,1) p_def] by blast
  let ?d = "\<lparr>dg_to = env_src_ip env, dg_port = env_src_port env, dg_data = take sizeof_p_u8 b\<rparr>"
  have "write_receiver env s = (if ok then HXB_ERR_SUCCESS else HXB_ERR_INVALID_VALUE, s\<lparr>ee := e, sent := sent s @ [?d]\<rparr>)"
    using assms(2,4,5) b(1) w
    by (simp add: write_receiver_def udp_handler_send_generated_def send_acknack_def do_udp_send_def Let_def p_def sizeof_p_u8_def)
  with that [of ?d] b(2) show thesis by (simp add: w)
qed


section \<open>The requests at the firmware\<close>

lemma upload_eids: "EP_SM_CONTROL mod 32 \<noteq> 0" "EP_SM_UP_RECEIVER mod 32 \<noteq> 0"
  by (simp_all add: EP_SM_CONTROL_def EP_SM_UP_RECEIVER_def)

lemma sent_replies: "replies B [] = []" "deserialize B (dg_data d) = Inr p \<Longrightarrow> replies B (d # ds) = (case filtered p of None \<Rightarrow> [] | Some e \<Rightarrow> [e]) @ replies B ds"
  by (simp_all add: replies_def map_filter_def split: option.splits)

lemma control_switched:
  "ee (snd (write_control env s)) = ee s" "sent (snd (write_control env s)) = sent s" "chain (snd (write_control env s)) = chain s"
  "udpconn (snd (write_control env s)) = udpconn s" "stack_bytes (snd (write_control env s)) = stack_bytes s"
  by (simp_all add: write_control_def sm_stop_def sm_start_def sm_restart_def sm_process_init_def process_alloc_event_def Let_def split_beta)

lemma control_running:
  "sm_is_running (snd (write_control env s)) = (if v_u8 (env_value env) = STM_STATE_STOPPED then False
     else if v_u8 (env_value env) = STM_STATE_RUNNING then True else sm_is_running s)"
  by (auto simp: write_control_def sm_stop_def sm_start_def sm_restart_def sm_process_init_def process_alloc_event_def Let_def split_beta sm_is_running_def)

lemma control_outcome: "fst (write_control env s) \<in> {HXB_ERR_SUCCESS, HXB_ERR_INVALID_VALUE}"
  by (simp add: write_control_def)

text \<open>Error packets do not pass the filters.\<close>

definition answered_to :: "in_datagram \<Rightarrow> udp_datagram list \<Rightarrow> bool" where
  "answered_to dg ds = (\<forall>d \<in> set ds. dg_to d = in_src dg \<and> dg_port d = uip_ntohs (in_srcport dg))"

lemma errors_filtered:
  assumes "crc_documented B" "udpconn s" "in_srcport dg \<noteq> 0" "get8 off_type (packet_of dg) \<noteq> ptype_code HXB_PTYPE_INFO"
    and "err \<in> {HXB_ERR_SUCCESS, HXB_ERR_INVALID_VALUE}"
  obtains ds where "reply_error dg err s = s\<lparr>sent := sent s @ ds\<rparr>" "answered_to dg ds" "replies B ds = []"
proof (cases "err = HXB_ERR_SUCCESS")
  case True
  then have "reply_error dg err s = s\<lparr>sent := sent s @ []\<rparr>" by (simp add: reply_error_def)
  then show thesis using that [of "[]"] by (simp add: answered_to_def sent_replies)
next
  case False
  then have "\<not> err_internal err" using assms(5) by (auto simp: err_internal_def)
  with error_reply [OF assms(2-4) False _ assms(1)] obtain a where "reply_error dg err s = s\<lparr>sent := sent s @ [a]\<rparr>" "dg_to a = in_src dg"
    "dg_port a = uip_ntohs (in_srcport dg)" "deserialize B (dg_data a) = Inr (ErrorPacket (err_code err) 0)" by blast
  then show thesis using that [of "[a]"] by (simp add: answered_to_def sent_replies)
qed

lemma written_at_firmware:
  assumes "crc_documented B" "upload_ready s" "in_payload dg = serialize B (WritePacket eid hv 0)" "constructible_value hv"
  obtains v where "carries B hv v" "vdatatype v = dtype_code (datatype_of hv)" "receive_datagram dg s =
      (let (err, t) = fw_write broadcast_value eid
         \<lparr>env_src_ip = in_src dg, env_src_port = uip_ntohs (in_srcport dg), env_eid = eid, env_value = v\<rparr> s
       in reply_error dg err t)"
  using write_received [OF assms(3,4,1), of s] assms(2) by (auto simp: upload_ready_def wf_packet_def offset_simps)

lemma control_at_firmware:
  assumes "crc_documented B" "upload_ready s" "in_payload dg = serialize B (request_packet (Write_Control x) :: ('p, 't) host_packet)" "in_srcport dg \<noteq> 0"
  shows "\<exists>ds. sent (receive_datagram dg s) = sent s @ ds \<and> answered_to dg ds \<and>
    device_handles (Write_Control x) (device_of s) = (replies B ds, device_of (receive_datagram dg s)) \<and> upload_ready (receive_datagram dg s)"
proof -
  obtain v where v: "carries B (Uint8 x :: ('p, 't) host_value) v" "vdatatype v = dtype_code HXB_DTYPE_UINT8" and r: "receive_datagram dg s =
      (let (err, t) = fw_write broadcast_value EP_SM_CONTROL
         \<lparr>env_src_ip = in_src dg, env_src_port = uip_ntohs (in_srcport dg), env_eid = EP_SM_CONTROL, env_value = v\<rparr> s
       in reply_error dg err t)"
    using written_at_firmware [OF assms(1,2), of dg EP_SM_CONTROL "Uint8 x"] assms(3) by auto
  let ?env = "\<lparr>env_src_ip = in_src dg, env_src_port = uip_ntohs (in_srcport dg), env_eid = EP_SM_CONTROL, env_value = v\<rparr>"
  let ?t = "snd (write_control ?env s)"
  have w: "fw_write broadcast_value EP_SM_CONTROL ?env s = write_control ?env s"
    using assms(2) v(2) by (simp add: fw_write_def endpoint_write_def upload_ready_def upload_eids endpoint_sm_upload_control_def run_write_def)
  have ty: "get8 off_type (packet_of dg) \<noteq> ptype_code HXB_PTYPE_INFO" using write_type [of dg B EP_SM_CONTROL "Uint8 x" 0] assms(3) by simp
  have "udpconn ?t" using assms(2) by (simp add: control_switched upload_ready_def)
  from errors_filtered [OF assms(1) this assms(4) ty control_outcome [of ?env s]] obtain ds where
    ds: "reply_error dg (fst (write_control ?env s)) ?t = ?t\<lparr>sent := sent ?t @ ds\<rparr>" "answered_to dg ds" "replies B ds = []" .
  have "receive_datagram dg s = ?t\<lparr>sent := sent s @ ds\<rparr>" by (simp add: r w split_beta Let_def ds(1) control_switched)
  then show ?thesis using ds(2,3) v(1) assms(2)
    by (intro exI [of _ ds]) (simp add: device_of_def control_switched control_running upload_ready_def sm_is_running_def [of "_\<lparr>sent := _\<rparr>"] flip: sm_is_running_def)
qed

lemma chunk_at_firmware:
  assumes "crc_documented B" "upload_ready s" "in_payload dg = serialize B (request_packet (Write_Chunk i c) :: ('p, 't) host_packet)" "in_srcport dg \<noteq> 0"
    and "length c = UploadChunkSize"
  shows "\<exists>ds. sent (receive_datagram dg s) = sent s @ ds \<and> answered_to dg ds \<and>
    device_handles (Write_Chunk i c) (device_of s) = (replies B ds, device_of (receive_datagram dg s)) \<and> upload_ready (receive_datagram dg s)"
proof -
  have con: "constructible_value (Bytes65 (i # c) :: ('p, 't) host_value)" using assms(5) by (simp add: UploadChunkSize_def)
  obtain v where v: "vblob v = i # c" "vdatatype v = dtype_code HXB_DTYPE_65BYTES" and r: "receive_datagram dg s =
      (let (err, t) = fw_write broadcast_value EP_SM_UP_RECEIVER
         \<lparr>env_src_ip = in_src dg, env_src_port = uip_ntohs (in_srcport dg), env_eid = EP_SM_UP_RECEIVER, env_value = v\<rparr> s
       in reply_error dg err t)"
    using written_at_firmware [OF assms(1,2) _ con, of dg EP_SM_UP_RECEIVER] assms(3) by auto
  let ?env = "\<lparr>env_src_ip = in_src dg, env_src_port = uip_ntohs (in_srcport dg), env_eid = EP_SM_UP_RECEIVER, env_value = v\<rparr>"
  have p: "uip_ntohs (in_srcport dg) \<noteq> 0" using assms(4) by (metis uip_htons_involution uip_htons_0)
  have conn: "udpconn s" "wf_packet (stack_bytes s)" using assms(2) by (simp_all add: upload_ready_def)
  obtain ok e where k: "sm_write_chunk i c (ee s) = (ok, e)" by fastforce
  have pe: "env_src_port ?env \<noteq> 0" "vblob (env_value ?env) = i # c" using p v(1) by simp_all
  obtain d where "write_receiver ?env s = (let (ok, e) = sm_write_chunk i c (ee s)
      in (if ok then HXB_ERR_SUCCESS else HXB_ERR_INVALID_VALUE, s\<lparr>ee := e, sent := sent s @ [d]\<rparr>))"
    "dg_to d = env_src_ip ?env" "dg_port d = env_src_port ?env"
    "deserialize B (dg_data d) = Inr (InfoPacket EP_SM_UP_ACKNAK (Bool (fst (sm_write_chunk i c (ee s)))) 0)"
    by (rule chunk_written [OF assms(1) conn pe])
  then have d: "write_receiver ?env s = (if ok then HXB_ERR_SUCCESS else HXB_ERR_INVALID_VALUE, s\<lparr>ee := e, sent := sent s @ [d]\<rparr>)"
    "dg_to d = in_src dg" "dg_port d = uip_ntohs (in_srcport dg)" "deserialize B (dg_data d) = Inr (InfoPacket EP_SM_UP_ACKNAK (Bool ok) 0)"
    by (simp_all add: k)
  have w: "fw_write broadcast_value EP_SM_UP_RECEIVER ?env s = write_receiver ?env s"
    using assms(2) v(2) by (simp add: fw_write_def endpoint_write_def upload_ready_def upload_eids endpoint_sm_upload_receiver_def run_write_def)
  have ty: "get8 off_type (packet_of dg) \<noteq> ptype_code HXB_PTYPE_INFO" using write_type [OF _ con, of dg B EP_SM_UP_RECEIVER 0] assms(3) by simp
  let ?t = "s\<lparr>ee := e, sent := sent s @ [d]\<rparr>"
  have "udpconn ?t" using conn by simp
  note filtered = errors_filtered [OF assms(1) this assms(4) ty, of "fst (write_receiver ?env s)"]
  obtain ds where
    ds: "reply_error dg (fst (write_receiver ?env s)) ?t = ?t\<lparr>sent := sent ?t @ ds\<rparr>" "answered_to dg ds" "replies B ds = []"
    by (rule filtered) (simp_all add: d(1))
  have "receive_datagram dg s = ?t\<lparr>sent := sent s @ d # ds\<rparr>" using ds(1) by (simp add: r w d(1) split_beta Let_def)
  then show ?thesis using ds(2,3) d(2-4) k assms(2)
    by (intro exI [of _ "d # ds"]) (simp add: device_of_def upload_ready_def sm_is_running_def answered_to_def sent_replies)
qed

lemma query_at_firmware:
  assumes "crc_documented B" "upload_ready s" "in_payload dg = serialize B (request_packet Query_Control :: ('p, 't) host_packet)" "in_srcport dg \<noteq> 0"
  shows "\<exists>ds. sent (receive_datagram dg s) = sent s @ ds \<and> answered_to dg ds \<and>
    device_handles Query_Control (device_of s) = (replies B ds, device_of (receive_datagram dg s)) \<and> upload_ready (receive_datagram dg s)"
proof -
  have "in_payload dg = serialize B (QueryPacket EP_SM_CONTROL 0)" using assms(3) by simp
  note q = query_received [OF this assms(1)]
  have p: "uip_ntohs (in_srcport dg) \<noteq> 0" using assms(4) by (metis uip_htons_involution uip_htons_0)
  have conn: "udpconn s" "wf_packet (stack_bytes s)" using assms(2) by (simp_all add: upload_ready_def)
  let ?x = "if sm_is_running s then STM_STATE_RUNNING else STM_STATE_STOPPED"
  let ?v = "set_u8 ?x ((linked_value (stack_bytes s) s)\<lparr>vdatatype := dtype_code HXB_DTYPE_UINT8\<rparr>)"
  have rd: "fw_read EP_SM_CONTROL (linked_value (stack_bytes s) s) s = (HXB_ERR_SUCCESS, ?v, s)"
    using assms(2) by (simp add: fw_read_def endpoint_read_def upload_ready_def upload_eids endpoint_sm_upload_control_def run_read_def read_control_def)
  have dt: "vdatatype ?v = dtype_code HXB_DTYPE_UINT8" by (simp add: set_u8_def)
  obtain a where a: "udp_handler_send_generated (Some (in_src dg)) (uip_ntohs (in_srcport dg)) (generate_query_response EP_SM_CONTROL) s =
      (HXB_ERR_SUCCESS, s\<lparr>sent := sent s @ [a]\<rparr>)" "dg_to a = in_src dg" "dg_port a = uip_ntohs (in_srcport dg)" "well_formed_datagram a"
      "answers_query a EP_SM_CONTROL HXB_DTYPE_UINT8 ?v"
    using query_answer [OF conn(1) p conn(2) rd dt] by auto
  have vx: "v_u8 ?v = ?x" using conn(2) by (simp add: set_u8_def v_u8_def linked_value_def wf_packet_def offset_simps buf_simps)
  have "deserialize B (dg_data a) = Inr (InfoPacket EP_SM_CONTROL (host_of B HXB_DTYPE_UINT8 ?v) 0)"
    by (rule answer_decoded [OF a(5) _ _ _ dt a(4) assms(1)]) simp_all
  then have e: "deserialize B (dg_data a) = Inr (InfoPacket EP_SM_CONTROL (Uint8 ?x) 0)" using vx by (simp add: host_of_def)
  have "receive_datagram dg s = s\<lparr>sent := sent s @ [a]\<rparr>"
    using q a(1) by (simp add: receive_datagram_def handle_packet_def reply_error_def)
  then show ?thesis using a(2,3) e assms(2)
    by (intro exI [of _ "[a]"]) (simp add: device_of_def upload_ready_def sm_is_running_def answered_to_def sent_replies)
qed

lemma request_at_firmware:
  assumes "crc_documented B" "upload_ready s" "in_payload dg = serialize B (request_packet r :: ('p, 't) host_packet)" "in_srcport dg \<noteq> 0" "fits_packet r"
  shows "\<exists>ds. sent (receive_datagram dg s) = sent s @ ds \<and> answered_to dg ds \<and>
    device_handles r (device_of s) = (replies B ds, device_of (receive_datagram dg s)) \<and> upload_ready (receive_datagram dg s)"
proof (cases r)
  case (Write_Control x)
  with control_at_firmware [OF assms(1,2) _ assms(4)] assms(3) show ?thesis by simp
next
  case Query_Control
  with query_at_firmware [OF assms(1,2) _ assms(4)] assms(3) show ?thesis by simp
next
  case (Write_Chunk i c)
  with chunk_at_firmware [OF assms(1,2) _ assms(4)] assms(3,5) show ?thesis by simp
qed

text \<open>A sequence of requests and the datagrams in which they arrive, all from one port of one host.\<close>

definition device_run :: "request list \<Rightarrow> eeprom \<times> bool \<Rightarrow> reply list \<times> eeprom \<times> bool" where
  "device_run rs d = fold (\<lambda>r (es, d). let (es', d) = device_handles r d in (es @ es', d)) rs ([], d)"

definition carried_by :: "('p, 't) boost \<Rightarrow> ip6 \<Rightarrow> u16 \<Rightarrow> request \<Rightarrow> in_datagram \<Rightarrow> bool" where
  "carried_by B a port r dg =
     (in_payload dg = serialize B (request_packet r :: ('p, 't) host_packet) \<and> fits_packet r \<and> in_src dg = a \<and> in_srcport dg = uip_htons port)"

lemma replies_append: "replies B (ds @ ds') = replies B ds @ replies B ds'"
  by (simp add: replies_def map_filter_def)

lemma run_at_firmware:
  assumes "crc_documented B" "upload_ready s" "port \<noteq> 0" "list_all2 (carried_by B a port) rs dgs" "sent s = sent0 @ ds0"
    and "\<forall>d \<in> set ds0. dg_to d = a \<and> dg_port d = port"
  shows "\<exists>ds. sent (fold receive_datagram dgs s) = sent0 @ ds \<and> (\<forall>d \<in> set ds. dg_to d = a \<and> dg_port d = port) \<and>
    fold (\<lambda>r (es, d). let (es', d) = device_handles r d in (es @ es', d)) rs (replies B ds0, device_of s) =
      (replies B ds, device_of (fold receive_datagram dgs s))"
  using assms(4,2,5,6)
proof (induction rs arbitrary: dgs s ds0)
  case Nil
  then show ?case by (intro exI [of _ ds0]) simp
next
  case (Cons r rs)
  from Cons.prems(1) obtain dg rest where dgs: "dgs = dg # rest" "carried_by B a port r dg" "list_all2 (carried_by B a port) rs rest"
    by (auto simp: list_all2_Cons1)
  have p: "uip_htons port \<noteq> 0" using assms(3) by (metis uip_htons_involution uip_htons_0)
  obtain ds where ds: "sent (receive_datagram dg s) = sent s @ ds" "answered_to dg ds"
    "device_handles r (device_of s) = (replies B ds, device_of (receive_datagram dg s))" "upload_ready (receive_datagram dg s)"
    using request_at_firmware [OF assms(1) Cons.prems(2), of dg r] dgs(2) p by (auto simp: carried_by_def)
  have "sent (receive_datagram dg s) = sent0 @ ds0 @ ds" using ds(1) Cons.prems(3) by simp
  moreover have "\<forall>d \<in> set (ds0 @ ds). dg_to d = a \<and> dg_port d = port"
    using ds(2) Cons.prems(4) dgs(2) by (auto simp: answered_to_def carried_by_def)
  ultimately show ?case using Cons.IH [OF dgs(3) ds(4)] by (simp add: dgs(1) ds(3) replies_append)
qed

section \<open>Properties\<close>

text \<open>C26: The firmware refines the device of the upload: from any sequence of requests of the tool, serialized by the library and delivered to
  the UDP handler of a device whose two upload endpoints are registered, the device sends answers to the tool only, those that pass the tool's filters decode
  to exactly the answers of \<open>device_handles\<close>, in order, and the EEPROM and the running state of the machine are the same.\<close>

theorem firmware_refines_device:
  assumes "crc_documented B" "upload_ready s" "port \<noteq> 0" "list_all2 (carried_by B a port) rs dgs"
  shows "\<exists>ds. sent (fold receive_datagram dgs s) = sent s @ ds \<and> (\<forall>d \<in> set ds. dg_to d = a \<and> dg_port d = port) \<and>
    device_run rs (device_of s) = (replies B ds, device_of (fold receive_datagram dgs s))"
  using run_at_firmware [OF assms, of "sent s" "[]"] by (simp add: device_run_def sent_replies)

theorem firmware_refines_device_witness:
  "let s = fresh_shs\<lparr>chain := [endpoint_sm_upload_control, endpoint_sm_upload_receiver], udpconn := True\<rparr>;
       rs = [Write_Control STM_STATE_STOPPED, Write_Chunk 25 (replicate 64 7), Query_Control];
       dgs = map (\<lambda>r. (from_host (serialize example_boost (request_packet r)))\<lparr>in_srcport := uip_htons 1234\<rparr>) rs
   in \<exists>ds. sent (fold receive_datagram dgs s) = sent s @ ds \<and> replies example_boost ds = [Chunk_Reply False, Control_Reply STM_STATE_STOPPED]"
proof -
  let ?s = "fresh_shs\<lparr>chain := [endpoint_sm_upload_control, endpoint_sm_upload_receiver], udpconn := True\<rparr>"
  let ?rs = "[Write_Control STM_STATE_STOPPED, Write_Chunk 25 (replicate 64 7), Query_Control]"
  let ?dgs = "map (\<lambda>r. (from_host (serialize example_boost (request_packet r)))\<lparr>in_srcport := uip_htons 1234\<rparr>) ?rs"
  have s: "upload_ready ?s"
    by (simp add: upload_ready_def fresh_shs_simps wf_packet_def offset_simps find_descriptor_def endpoint_sm_upload_control_def
        endpoint_sm_upload_receiver_def EP_SM_CONTROL_def EP_SM_UP_RECEIVER_def)
  have l: "list_all2 (carried_by example_boost ip6_localhost 1234) ?rs ?dgs"
    by (simp add: carried_by_def from_host_def UploadChunkSize_def)
  have "sm_write_chunk 25 (replicate 64 7) e = (False, e)" for e by (rule chunk_rejected) simp_all
  then have "fst (device_run ?rs (device_of ?s)) = [Chunk_Reply False, Control_Reply STM_STATE_STOPPED]"
    by (cases "device_of ?s") (simp add: device_run_def)
  then show ?thesis
    using firmware_refines_device [OF example_boost_documented(1) s _ l] unfolding Let_def by fastforce
qed

end
